(* ===== verification/Prelude.thy ===== *)
theory Prelude
  imports Main "HOL-Library.Word" "HOL-Library.AList" "HOL-Library.Char_ord"
    "HOL-Library.List_Lexorder" "HOL-Library.Sublist"
begin

text \<open>
  Shared vocabulary of the development: the error type and the outcome of a fallible Rust
  function, state-passing operations, machine integers and their little- and big-endian byte
  images, UTF-8, decimal printing and substring search, slices, and the containers of the Rust
  standard library (\<open>HashMap\<close> as an association list, \<open>BTreeMap\<close> as a sorted one, \<open>BTreeSet\<close> as
  a sorted list). The generic lemmas the components use are collected here.
\<close>

unbundle bit_operations_syntax

section \<open>Named collections\<close>

named_theorems result_simps \<open>rewrite rules for outcomes and their sequencing\<close>
named_theorems bytes_simps \<open>lengths and round trips of byte images\<close>

section \<open>Errors and outcomes\<close>

text \<open>
  \<open>src/common/error.rs\<close>: the error enum. The operating-system error of the \<open>Io\<close> variant is kept
  as its message.
\<close>

datatype db_error =
    Sql string
  | Plan string
  | Storage string
  | Txn string
  | Io string
  | Serde string

text \<open>\<open>impl Display for DbError\<close>: what \<open>to_string\<close> gives.\<close>

fun db_error_to_string :: "db_error \<Rightarrow> string" where
  "db_error_to_string (Sql m) = ''sql error: '' @ m"
| "db_error_to_string (Plan m) = ''plan error: '' @ m"
| "db_error_to_string (Storage m) = ''storage error: '' @ m"
| "db_error_to_string (Txn m) = ''transaction error: '' @ m"
| "db_error_to_string (Io m) = ''io error: '' @ m"
| "db_error_to_string (Serde m) = ''serde error: '' @ m"

text \<open>
  The outcome of a Rust function returning \<open>Result<T>\<close>: a value, an error, or a panic (a failed
  index, an \<open>expect\<close>, an \<open>unwrap\<close>).
\<close>

datatype 'a result = Ok 'a | Err db_error | Panic string

fun is_ok :: "'a result \<Rightarrow> bool" where
  "is_ok (Ok _) = True"
| "is_ok (Err _) = False"
| "is_ok (Panic _) = False"

text \<open>The \<open>?\<close> operator on a pure result.\<close>

fun rbind :: "'a result \<Rightarrow> ('a \<Rightarrow> 'b result) \<Rightarrow> 'b result" where
  "rbind (Ok a) k = k a"
| "rbind (Err e) k = Err e"
| "rbind (Panic p) k = Panic p"

lemma rbind_eq_Ok [result_simps]:
  "rbind r k = Ok b \<longleftrightarrow> (\<exists>a. r = Ok a \<and> k a = Ok b)"
  by (cases r) auto

lemma rbind_eq_Err [result_simps]:
  "rbind r k = Err e \<longleftrightarrow> r = Err e \<or> (\<exists>a. r = Ok a \<and> k a = Err e)"
  by (cases r) auto

lemma rbind_eq_Panic [result_simps]:
  "rbind r k = Panic p \<longleftrightarrow> r = Panic p \<or> (\<exists>a. r = Ok a \<and> k a = Panic p)"
  by (cases r) auto

lemma rbind_assoc: "rbind (rbind r f) g = rbind r (\<lambda>x. rbind (f x) g)"
  by (cases r) auto

lemma rbind_cong [fundef_cong]:
  "r = r' \<Longrightarrow> (\<And>a. r' = Ok a \<Longrightarrow> k a = k' a) \<Longrightarrow> rbind r k = rbind r' k'"
  by (cases r') auto

text \<open>\<open>ok_or_else\<close>: an option as a result.\<close>

fun ok_or :: "db_error \<Rightarrow> 'a option \<Rightarrow> 'a result" where
  "ok_or e None = Err e"
| "ok_or e (Some a) = Ok a"

lemma ok_or_eq_Ok [simp]: "ok_or e x = Ok a \<longleftrightarrow> x = Some a"
  by (cases x) auto

lemma ok_or_eq_Err [simp]: "ok_or e x = Err e' \<longleftrightarrow> x = None \<and> e' = e"
  by (cases x) auto

lemma ok_or_neq_Panic [simp]: "ok_or e x \<noteq> Panic p"
  by (cases x) auto

text \<open>\<open>iter().map(f).collect::<Result<Vec<_>>>()\<close>: the first failure wins.\<close>

fun collect_results :: "('a \<Rightarrow> 'b result) \<Rightarrow> 'a list \<Rightarrow> 'b list result" where
  "collect_results f [] = Ok []"
| "collect_results f (x # xs) =
     rbind (f x) (\<lambda>y. rbind (collect_results f xs) (\<lambda>ys. Ok (y # ys)))"

lemma collect_results_eq_Ok:
  "collect_results f xs = Ok ys \<longleftrightarrow> list_all2 (\<lambda>x y. f x = Ok y) xs ys"
  by (induction xs arbitrary: ys) (auto simp: rbind_eq_Ok list_all2_Cons1)

lemma collect_results_all: "collect_results f xs = Ok ys \<Longrightarrow> x \<in> set xs \<Longrightarrow> \<exists>y. f x = Ok y"
  by (auto simp: collect_results_eq_Ok list_all2_conv_all_nth in_set_conv_nth)

lemma collect_results_total: "(\<And>x. x \<in> set xs \<Longrightarrow> \<exists>y. f x = Ok y) \<Longrightarrow> \<exists>ys. collect_results f xs = Ok ys"
proof (induction xs)
  case (Cons x xs)
  from Cons.prems obtain y where "f x = Ok y" by force
  moreover from Cons obtain ys where "collect_results f xs = Ok ys" by force
  ultimately show ?case by simp
qed simp

lemma collect_results_same:
  "collect_results f xs = Ok ys \<Longrightarrow> collect_results g xs = Ok ys \<Longrightarrow> x \<in> set xs \<Longrightarrow> \<exists>y. f x = Ok y \<and> g x = Ok y"
  by (induction xs arbitrary: ys) (auto simp: rbind_eq_Ok)

lemma collect_results_ex: "(\<exists>ys. collect_results f xs = Ok ys) \<longleftrightarrow> (\<forall>x \<in> set xs. \<exists>y. f x = Ok y)"
  using collect_results_all [of f xs] collect_results_total [of xs f] by blast

lemma collect_results_units:
  fixes f :: "'a \<Rightarrow> unit result"
  shows "rbind (collect_results f xs) (\<lambda>_. m) = Ok y \<longleftrightarrow> (\<forall>x \<in> set xs. f x = Ok ()) \<and> m = Ok y"
  using collect_results_ex [of f xs] by (auto simp: rbind_eq_Ok)

section \<open>State-passing operations\<close>

text \<open>
  An operation with \<open>&mut self\<close>: it gives an outcome and the new state. The state reached is kept
  on an error too, because Rust keeps what was assigned before an early return.
\<close>

type_synonym ('s, 'a) oper = "'s \<Rightarrow> 'a result \<times> 's"

definition sret :: "'a \<Rightarrow> ('s, 'a) oper" where
  "sret a s = (Ok a, s)"

definition sfail :: "db_error \<Rightarrow> ('s, 'a) oper" where
  "sfail e s = (Err e, s)"

definition sbind :: "('s, 'a) oper \<Rightarrow> ('a \<Rightarrow> ('s, 'b) oper) \<Rightarrow> ('s, 'b) oper" where
  "sbind m k s = (case m s of
       (Ok a, s') \<Rightarrow> k a s'
     | (Err e, s') \<Rightarrow> (Err e, s')
     | (Panic p, s') \<Rightarrow> (Panic p, s'))"

text \<open>A read-only check or query inside an operation.\<close>

definition sget :: "('s \<Rightarrow> 'a result) \<Rightarrow> ('s, 'a) oper" where
  "sget f s = (f s, s)"

definition smodify :: "('s \<Rightarrow> 's) \<Rightarrow> ('s, unit) oper" where
  "smodify f s = (Ok (), f s)"

lemma sret_apply [simp]: "sret a s = (Ok a, s)"
  by (simp add: sret_def)

lemma sfail_apply [simp]: "sfail e s = (Err e, s)"
  by (simp add: sfail_def)

lemma sget_apply [simp]: "sget f s = (f s, s)"
  by (simp add: sget_def)

lemma smodify_apply [simp]: "smodify f s = (Ok (), f s)"
  by (simp add: smodify_def)

lemma sbind_Ok [simp]: "m s = (Ok a, s') \<Longrightarrow> sbind m k s = k a s'"
  by (simp add: sbind_def)

lemma sbind_Err [simp]: "m s = (Err e, s') \<Longrightarrow> sbind m k s = (Err e, s')"
  by (simp add: sbind_def)

lemma sbind_Panic [simp]: "m s = (Panic p, s') \<Longrightarrow> sbind m k s = (Panic p, s')"
  by (simp add: sbind_def)

lemma sbind_smodify [simp]: "sbind (smodify f) k s = k () (f s)"
  by (simp add: sbind_def)

lemma sbind_sget_Ok [simp]: "f s = Ok a \<Longrightarrow> sbind (sget f) k s = k a s"
  by (simp add: sbind_def)

lemma sbind_cases:
  obtains a s' where "m s = (Ok a, s')" "sbind m k s = k a s'"
  | e s' where "m s = (Err e, s')" "sbind m k s = (Err e, s')"
  | p s' where "m s = (Panic p, s')" "sbind m k s = (Panic p, s')"
proof -
  obtain r s' where "m s = (r, s')" by (cases "m s")
  then show thesis using that by (cases r) (auto simp: sbind_def)
qed

lemma sbind_eq_OkE:
  assumes "sbind m k s = (Ok b, s'')"
  obtains a s' where "m s = (Ok a, s')" "k a s' = (Ok b, s'')"
  using assms by (cases m s k rule: sbind_cases) auto

text \<open>A state predicate is kept by an operation whatever the outcome.\<close>

definition keeps :: "('s \<Rightarrow> bool) \<Rightarrow> ('s, 'a) oper \<Rightarrow> bool" where
  "keeps P m \<longleftrightarrow> (\<forall>s. P s \<longrightarrow> P (snd (m s)))"

lemma keepsI: "(\<And>s. P s \<Longrightarrow> P (snd (m s))) \<Longrightarrow> keeps P m"
  by (simp add: keeps_def)

lemma keepsD: "keeps P m \<Longrightarrow> P s \<Longrightarrow> P (snd (m s))"
  by (simp add: keeps_def)

lemma keeps_sret [simp]: "keeps P (sret a)"
  by (simp add: keeps_def)

lemma keeps_sfail [simp]: "keeps P (sfail e)"
  by (simp add: keeps_def)

lemma keeps_sget [simp]: "keeps P (sget f)"
  by (simp add: keeps_def)

lemma keeps_smodify: "(\<And>s. P s \<Longrightarrow> P (f s)) \<Longrightarrow> keeps P (smodify f)"
  by (simp add: keeps_def)

lemma keeps_sbind: "keeps P m \<Longrightarrow> (\<And>a. keeps P (k a)) \<Longrightarrow> keeps P (sbind m k)"
  by (force simp: keeps_def sbind_def split: prod.split result.split)

section \<open>Machine integers and their byte images\<close>

type_synonym byte = "8 word"
type_synonym u32 = "32 word"
type_synonym u64 = "64 word"

text \<open>
  Unsigned values are read by \<open>unat\<close>. An \<open>i64\<close> is a 64-bit word read by \<open>sint\<close>. Plain \<open>+\<close>
  on words wraps around, as Rust's does in the release profile.
\<close>

type_synonym i64 = "64 word"

text \<open>\<open>saturating_add\<close> and \<open>saturating_sub\<close>.\<close>

definition sat_add :: "'a::len word \<Rightarrow> 'a word \<Rightarrow> 'a word" where
  "sat_add a b = (if unat a + unat b < 2 ^ LENGTH('a) then a + b else - 1)"

definition sat_sub :: "'a::len word \<Rightarrow> 'a word \<Rightarrow> 'a word" where
  "sat_sub a b = (if b \<le> a then a - b else 0)"

lemma unat_sat_add: "unat (sat_add a b) = min (unat a + unat b) (2 ^ LENGTH('a) - 1)"
  for a b :: "'a::len word"
proof (cases "unat a + unat b < 2 ^ LENGTH('a)")
  case True
  then show ?thesis by (simp add: sat_add_def unat_word_ariths)
next
  case False
  then show ?thesis by (simp add: sat_add_def unsigned_minus_1_eq_mask mask_eq_exp_minus_1)
qed

lemma word_less_add_one: "t \<noteq> - 1 \<Longrightarrow> t < t + 1" for t :: "'a::len word"
proof -
  assume "t \<noteq> - 1"
  then have "unat (t + 1) = unat t + 1"
    by (metis Suc_eq_plus1 add.commute eq_neg_iff_add_eq_0 unatSuc)
  then show ?thesis by (simp add: word_less_nat_alt)
qed

text \<open>\<open>checked_mul\<close>, \<open>checked_add\<close> \<open>u64::try_from(usize)\<close>; a \<open>usize\<close> is a natural number, checked against 64 bits.\<close>

definition checked_mul :: "'a::len word \<Rightarrow> 'a word \<Rightarrow> 'a word option" where
  "checked_mul a b = (if unat a * unat b < 2 ^ LENGTH('a) then Some (a * b) else None)"

definition checked_add :: "'a::len word \<Rightarrow> 'a word \<Rightarrow> 'a word option" where
  "checked_add a b = (if unat a + unat b < 2 ^ LENGTH('a) then Some (a + b) else None)"

definition u64_try_from :: "nat \<Rightarrow> u64 option" where
  "u64_try_from n = (if n < 2 ^ 64 then Some (word_of_nat n) else None)"

definition usize_checked_add :: "nat \<Rightarrow> nat \<Rightarrow> nat option" where
  "usize_checked_add a b = (if a + b < 2 ^ 64 then Some (a + b) else None)"

lemma u64_try_from_Some: "u64_try_from n = Some w \<Longrightarrow> unat w = n"
  by (auto simp: u64_try_from_def unat_of_nat take_bit_nat_eq_self split: if_splits)

text \<open>\<open>to_le_bytes\<close> and \<open>from_le_bytes\<close> at a width of \<open>n\<close> bytes.\<close>

definition to_le_bytes :: "nat \<Rightarrow> 'a::len word \<Rightarrow> byte list" where
  "to_le_bytes n w = map (\<lambda>i. ucast (drop_bit (8 * i) w)) [0..<n]"

fun from_le_bytes :: "byte list \<Rightarrow> 'a::len word" where
  "from_le_bytes [] = 0"
| "from_le_bytes (b # bs) = ucast b OR push_bit 8 (from_le_bytes bs)"

definition to_be_bytes :: "nat \<Rightarrow> 'a::len word \<Rightarrow> byte list" where
  "to_be_bytes n w = rev (to_le_bytes n w)"

definition from_be_bytes :: "byte list \<Rightarrow> 'a::len word" where
  "from_be_bytes bs = from_le_bytes (rev bs)"

lemma length_to_le_bytes [simp, bytes_simps]: "length (to_le_bytes n w) = n"
  by (simp add: to_le_bytes_def)

lemma length_to_be_bytes [simp, bytes_simps]: "length (to_be_bytes n w) = n"
  by (simp add: to_be_bytes_def)

lemma bit_byte_bound: "bit (b::byte) k \<Longrightarrow> k < 8"
  using bit_imp_le_length [of b k] by simp

lemma bit_from_le_bytes:
  "bit (from_le_bytes bs :: 'a::len word) k \<longleftrightarrow>
     k < LENGTH('a) \<and> k div 8 < length bs \<and> bit (bs ! (k div 8)) (k mod 8)"
proof (induction bs arbitrary: k)
  case Nil
  then show ?case by simp
next
  case (Cons b bs)
  show ?case
  proof (cases "k < 8")
    case True
    then show ?thesis
      by (auto simp: bit_or_iff bit_push_bit_iff bit_unsigned_iff)
  next
    case False
    then have "k div 8 = Suc ((k - 8) div 8)" "k mod 8 = (k - 8) mod 8"
      by (simp_all add: le_div_geq le_mod_geq)
    with False Cons.IH [of "k - 8"] show ?thesis
      by (auto simp: bit_or_iff bit_push_bit_iff bit_unsigned_iff dest: bit_byte_bound)
  qed
qed

lemma nth_to_le_bytes: "i < n \<Longrightarrow> to_le_bytes n w ! i = ucast (drop_bit (8 * i) w)"
  by (simp add: to_le_bytes_def)

lemma from_to_le_bytes:
  assumes "LENGTH('a) \<le> 8 * n"
  shows "from_le_bytes (to_le_bytes n w) = (w :: 'a::len word)"
proof (rule bit_eqI)
  fix k
  assume "possible_bit TYPE('a word) k"
  then have k: "k < LENGTH('a)" by simp
  with assms have "k div 8 < n" by linarith
  with k show "bit (from_le_bytes (to_le_bytes n w) :: 'a word) k \<longleftrightarrow> bit w k"
    by (simp add: bit_from_le_bytes nth_to_le_bytes bit_unsigned_iff bit_drop_bit_eq)
qed

lemma from_to_be_bytes:
  "LENGTH('a) \<le> 8 * n \<Longrightarrow> from_be_bytes (to_be_bytes n w) = (w :: 'a::len word)"
  by (simp add: from_be_bytes_def to_be_bytes_def from_to_le_bytes)

lemma from_to_le_bytes_u32 [simp, bytes_simps]: "from_le_bytes (to_le_bytes 4 w) = (w :: u32)"
  by (simp add: from_to_le_bytes)

lemma from_to_le_bytes_u64 [simp, bytes_simps]: "from_le_bytes (to_le_bytes 8 w) = (w :: u64)"
  by (simp add: from_to_le_bytes)

lemma from_to_be_bytes_u64 [simp, bytes_simps]: "from_be_bytes (to_be_bytes 8 w) = (w :: u64)"
  by (simp add: from_to_be_bytes)

lemma to_from_le_bytes:
  assumes "length bs = n" "8 * n \<le> LENGTH('a)"
  shows "to_le_bytes n (from_le_bytes bs :: 'a::len word) = bs"
proof (rule nth_equalityI)
  show "length (to_le_bytes n (from_le_bytes bs :: 'a word)) = length bs"
    using assms by simp
next
  fix i
  assume "i < length (to_le_bytes n (from_le_bytes bs :: 'a word))"
  then have i: "i < n" by simp
  show "to_le_bytes n (from_le_bytes bs :: 'a word) ! i = bs ! i"
  proof (rule bit_eqI)
    fix k
    assume "possible_bit TYPE(byte) k"
    then have "k < 8" by simp
    with i assms show "bit (to_le_bytes n (from_le_bytes bs :: 'a word) ! i) k \<longleftrightarrow> bit (bs ! i) k"
      by (auto simp: nth_to_le_bytes bit_unsigned_iff bit_drop_bit_eq bit_from_le_bytes)
  qed
qed

lemma to_from_be_bytes:
  "length bs = n \<Longrightarrow> 8 * n \<le> LENGTH('a) \<Longrightarrow> to_be_bytes n (from_be_bytes bs :: 'a::len word) = bs"
  by (simp add: to_be_bytes_def from_be_bytes_def to_from_le_bytes)

text \<open>Bit patterns of bytes, read as numbers.\<close>

lemma bit_nat_bound: "y < 2 ^ n \<Longrightarrow> bit (y::nat) k \<Longrightarrow> k < n"
  by (metis bit_take_bit_iff take_bit_nat_eq_self)

lemma nat_or_push_bit: "y < 2 ^ n \<Longrightarrow> push_bit n x OR y = x * 2 ^ n + (y::nat)"
proof -
  assume y: "y < 2 ^ n"
  have "push_bit n x + y = push_bit n x OR y"
  proof (rule disjunctive_add)
    fix k show "\<not> bit (push_bit n x) k \<or> \<not> bit y k"
      using bit_nat_bound [OF y, of k] by (auto simp: bit_push_bit_iff)
  qed
  then show ?thesis by (simp add: push_bit_eq_mult)
qed

lemma unat_and_7f: "unat (b AND 0x7f) = unat b mod 128" if "7 \<le> LENGTH('a)" for b :: "'a::len word"
proof -
  have "b AND 0x7f = b AND mask 7" by (simp add: mask_eq_exp_minus_1)
  also have "\<dots> = take_bit 7 b" by (simp only: take_bit_eq_mask)
  finally have "unat (b AND 0x7f) = unat (take_bit 7 b)" by (simp only:)
  also have "\<dots> = take_bit 7 (unat b)" using that by (simp only: unsigned_take_bit_eq)
  also have "\<dots> = unat b mod 128" by (simp add: take_bit_eq_mod)
  finally show ?thesis .
qed

lemma unat_and_ff: "unat (b AND 0xff) = unat b mod 256" if "8 \<le> LENGTH('a)" for b :: "'a::len word"
proof -
  have "b AND 0xff = b AND mask 8" by (simp add: mask_eq_exp_minus_1)
  also have "\<dots> = take_bit 8 b" by (simp only: take_bit_eq_mask)
  finally have "unat (b AND 0xff) = unat (take_bit 8 b)" by (simp only:)
  also have "\<dots> = take_bit 8 (unat b)" using that by (simp only: unsigned_take_bit_eq)
  also have "\<dots> = unat b mod 256" by (simp add: take_bit_eq_mod)
  finally show ?thesis .
qed

lemma byte_lt [simp]: "unat (b::byte) < 256"
  using unsigned_less [of b, where ?'a = nat] by simp

lemma unat_ucast_byte: "unat (ucast b :: u64) = unat b" for b :: byte
proof -
  have "unat b < 2 ^ 64" by (rule less_trans [OF byte_lt]) simp
  then show ?thesis by (simp only: unsigned_ucast_eq) (simp add: take_bit_nat_eq_self)
qed

lemma bit7_iff: "bit b 7 \<longleftrightarrow> 128 \<le> unat b" for b :: byte
proof -
  have "bit b 7 \<longleftrightarrow> bit (unat b) 7" by (simp add: bit_unsigned_iff)
  also have "\<dots> \<longleftrightarrow> odd (unat b div 128)" by (simp add: bit_iff_odd)
  also have "\<dots> \<longleftrightarrow> 128 \<le> unat b"
  proof (cases "unat b < 128")
    case False
    then have "unat b div 128 = 1" using byte_lt [of b] by (intro div_nat_eqI) auto
    with False show ?thesis by simp
  qed simp
  finally show ?thesis .
qed

lemma and_80: "b AND 0x80 = 0 \<longleftrightarrow> unat b < 128" for b :: byte
proof -
  have "b AND push_bit 7 1 = 0 \<longleftrightarrow> \<not> bit b 7"
    by (simp only: bit_iff_and_push_bit_not_eq_0) simp
  then show ?thesis by (simp add: bit7_iff not_le)
qed

lemma unat_or_80: "unat (b OR 0x80) = unat b + 128" if "unat b < 128" for b :: byte
proof -
  have "b AND 0x80 = 0" using that by (simp only: and_80)
  then have "b OR 0x80 = b + 0x80" by (simp only: disjunctive_add_eq_or)
  then show ?thesis using that by (simp add: unat_word_ariths)
qed

lemma unat_drop_bit: "unat (drop_bit n w) = unat w div 2 ^ n" for w :: "'a::len word"
proof -
  have "take_bit LENGTH('a) (unat w) = unat w" by (simp add: take_bit_nat_eq_self unsigned_less)
  then show ?thesis by (simp only: unsigned_drop_bit_eq) (simp add: drop_bit_eq_div)
qed

lemma unat_push_or:
  fixes w x :: u64
  assumes "unat w < 2 ^ (64 - n)" "unat x < 2 ^ n" "n \<le> 64"
  shows "unat (push_bit n w OR x) = unat w * 2 ^ n + unat x"
proof -
  have "unat w * 2 ^ n < 2 ^ (64 - n) * 2 ^ n" using assms(1) by simp
  also have "\<dots> = 2 ^ 64" using assms(3) by (simp flip: power_add)
  finally have "take_bit 64 (push_bit n (unat w)) = push_bit n (unat w)"
    by (simp add: take_bit_nat_eq_self push_bit_eq_mult)
  then have "unat (push_bit n w OR x) = push_bit n (unat w) OR unat x"
    by (simp add: unsigned_or_eq unsigned_push_bit_eq)
  then show ?thesis using assms(2) by (simp add: nat_or_push_bit)
qed

section \<open>Slices and vectors\<close>

text \<open>\<open>bytes.get(a..b)\<close>: \<open>None\<close> when the range does not fit; \<open>&bytes[a..b]\<close> panics there.\<close>

definition get_range :: "nat \<Rightarrow> nat \<Rightarrow> 'a list \<Rightarrow> 'a list option" where
  "get_range a b xs = (if a \<le> b \<and> b \<le> length xs then Some (take (b - a) (drop a xs)) else None)"

lemma get_range_append [simp]:
  "get_range (length xs) (length xs + length ys) (xs @ ys @ zs) = Some ys"
  by (simp add: get_range_def)

lemma get_range_Some_length: "get_range a b xs = Some ys \<Longrightarrow> length ys = b - a"
  by (auto simp: get_range_def split: if_splits)

text \<open>The bytes from \<open>a\<close> up to \<open>b\<close>, for ranges already checked.\<close>

definition slice :: "nat \<Rightarrow> nat \<Rightarrow> 'a list \<Rightarrow> 'a list" where
  "slice a b xs = take (b - a) (drop a xs)"

text \<open>\<open>buffer[a..a + n].copy_from_slice(src)\<close> with \<open>n = src.len()\<close>.\<close>

definition copy_at :: "nat \<Rightarrow> 'a list \<Rightarrow> 'a list \<Rightarrow> 'a list" where
  "copy_at a src xs = take a xs @ src @ drop (a + length src) xs"

lemma length_copy_at [simp, bytes_simps]:
  "a + length src \<le> length xs \<Longrightarrow> length (copy_at a src xs) = length xs"
  by (simp add: copy_at_def)

lemma nth_copy_at:
  "a + length src \<le> length xs \<Longrightarrow> i < length xs \<Longrightarrow>
     copy_at a src xs ! i = (if a \<le> i \<and> i < a + length src then src ! (i - a) else xs ! i)"
  by (auto simp: copy_at_def nth_append min_def)

lemma slice_copy_at_same:
  "a + length src \<le> length xs \<Longrightarrow> b = a + length src \<Longrightarrow> slice a b (copy_at a src xs) = src"
  by (simp add: slice_def copy_at_def)

lemma length_slice: "length (slice a b xs) = min (b - a) (length xs - a)"
  by (simp add: slice_def)

lemma nth_slice: "i < b - a \<Longrightarrow> a + i < length xs \<Longrightarrow> slice a b xs ! i = xs ! (a + i)"
  by (simp add: slice_def)

lemma slice_copy_at_other:
  assumes "a + length src \<le> length xs" "c \<le> a \<or> a + length src \<le> b" "c \<le> length xs"
  shows "slice b c (copy_at a src xs) = slice b c xs"
proof (rule nth_equalityI)
  show "length (slice b c (copy_at a src xs)) = length (slice b c xs)"
    using assms(1) by (simp add: length_slice)
next
  fix i
  assume "i < length (slice b c (copy_at a src xs))"
  with assms show "slice b c (copy_at a src xs) ! i = slice b c xs ! i"
    by (auto simp: length_slice nth_slice nth_copy_at)
qed

text \<open>\<open>Vec::insert\<close> and \<open>Vec::remove\<close> at an index already known to be in range.\<close>

definition insert_at :: "nat \<Rightarrow> 'a \<Rightarrow> 'a list \<Rightarrow> 'a list" where
  "insert_at i x xs = take i xs @ x # drop i xs"

definition remove_at :: "nat \<Rightarrow> 'a list \<Rightarrow> 'a list" where
  "remove_at i xs = take i xs @ drop (Suc i) xs"

lemma length_insert_at [simp]: "i \<le> length xs \<Longrightarrow> length (insert_at i x xs) = Suc (length xs)"
  by (simp add: insert_at_def)

lemma set_insert_at [simp]: "set (insert_at i x xs) = insert x (set xs)"
  by (metis append_take_drop_id insert_at_def list.simps(15) set_append Un_insert_right)

text \<open>\<open>iter().position(p)\<close> and \<open>iter().rposition(p)\<close>.\<close>

fun position :: "('a \<Rightarrow> bool) \<Rightarrow> 'a list \<Rightarrow> nat option" where
  "position p [] = None"
| "position p (x # xs) = (if p x then Some 0 else map_option Suc (position p xs))"

lemma position_eq_Some:
  "position p xs = Some i \<longleftrightarrow> i < length xs \<and> p (xs ! i) \<and> (\<forall>j<i. \<not> p (xs ! j))"
proof (induction xs arbitrary: i)
  case Nil
  then show ?case by simp
next
  case (Cons x xs)
  then show ?case
    by (cases i) (auto simp: less_Suc_eq_0_disj)
qed

lemma position_eq_None: "position p xs = None \<longleftrightarrow> (\<forall>x \<in> set xs. \<not> p x)"
  by (induction xs) auto

lemma position_append:
  "position p (xs @ ys) = (case position p xs of None \<Rightarrow> map_option (\<lambda>i. length xs + i) (position p ys) | Some i \<Rightarrow> Some i)"
  by (cases "position p ys"; induction xs) (auto split: option.split)

lemma position_map: "position p (map f xs) = position (p \<circ> f) xs"
  by (induction xs) simp_all

lemma position_cong: "(\<And>x. x \<in> set xs \<Longrightarrow> p x = q x) \<Longrightarrow> position p xs = position q xs"
  by (induction xs) auto

section \<open>Strings\<close>

text \<open>
  A Rust \<open>String\<close> is its UTF-8 bytes, one \<open>char\<close> each; \<open>cmp\<close> on strings compares those bytes, as
  the lexicographic order of \<open>char list\<close> does.
\<close>

definition byte_of_char :: "char \<Rightarrow> byte" where
  "byte_of_char c = word_of_nat (of_char c)"

definition char_of_byte :: "byte \<Rightarrow> char" where
  "char_of_byte b = char_of (unat b)"

lemma char_of_byte_of_char [simp]: "char_of_byte (byte_of_char c) = c"
  by (simp add: char_of_byte_def byte_of_char_def unat_of_nat take_bit_nat_eq_self)

lemma byte_of_char_of_byte [simp]: "byte_of_char (char_of_byte b) = b"
proof -
  have "unat b < 2 ^ LENGTH(8)" by (rule unsigned_less)
  then show ?thesis by (simp add: char_of_byte_def byte_of_char_def)
qed

definition as_bytes :: "string \<Rightarrow> byte list" where
  "as_bytes s = map byte_of_char s"

lemma length_as_bytes [simp, bytes_simps]: "length (as_bytes s) = length s"
  by (simp add: as_bytes_def)

lemma map_char_of_as_bytes [simp]: "map char_of_byte (as_bytes s) = s"
  by (simp add: as_bytes_def comp_def)

text \<open>\<open>std::str::from_utf8\<close>: the table of well-formed byte sequences of the Unicode standard.\<close>

definition utf8_cont :: "byte \<Rightarrow> bool" where
  "utf8_cont b \<longleftrightarrow> 0x80 \<le> b \<and> b \<le> 0xBF"

fun utf8_valid :: "byte list \<Rightarrow> bool" where
  "utf8_valid [] = True"
| "utf8_valid (b0 # r0) =
     (if b0 < 0x80 then utf8_valid r0
      else case r0 of [] \<Rightarrow> False
      | b1 # r1 \<Rightarrow>
        if 0xC2 \<le> b0 \<and> b0 \<le> 0xDF then utf8_cont b1 \<and> utf8_valid r1
        else case r1 of [] \<Rightarrow> False
        | b2 # r2 \<Rightarrow>
          if b0 = 0xE0 then 0xA0 \<le> b1 \<and> b1 \<le> 0xBF \<and> utf8_cont b2 \<and> utf8_valid r2
          else if b0 = 0xED then 0x80 \<le> b1 \<and> b1 \<le> 0x9F \<and> utf8_cont b2 \<and> utf8_valid r2
          else if 0xE1 \<le> b0 \<and> b0 \<le> 0xEF then utf8_cont b1 \<and> utf8_cont b2 \<and> utf8_valid r2
          else case r2 of [] \<Rightarrow> False
          | b3 # r3 \<Rightarrow>
            if b0 = 0xF0 then
              0x90 \<le> b1 \<and> b1 \<le> 0xBF \<and> utf8_cont b2 \<and> utf8_cont b3 \<and> utf8_valid r3
            else if b0 = 0xF4 then
              0x80 \<le> b1 \<and> b1 \<le> 0x8F \<and> utf8_cont b2 \<and> utf8_cont b3 \<and> utf8_valid r3
            else 0xF1 \<le> b0 \<and> b0 \<le> 0xF3 \<and>
              utf8_cont b1 \<and> utf8_cont b2 \<and> utf8_cont b3 \<and> utf8_valid r3)"

definition from_utf8 :: "byte list \<Rightarrow> string option" where
  "from_utf8 bs = (if utf8_valid bs then Some (map char_of_byte bs) else None)"

text \<open>Every Rust \<open>String\<close> holds well-formed UTF-8.\<close>

definition rust_string :: "string \<Rightarrow> bool" where
  "rust_string s \<longleftrightarrow> utf8_valid (as_bytes s)"

lemma from_utf8_as_bytes: "rust_string s \<Longrightarrow> from_utf8 (as_bytes s) = Some s"
  by (simp add: from_utf8_def rust_string_def)

text \<open>Decimal printing of an unsigned number.\<close>

fun show_nat :: "nat \<Rightarrow> string" where
  "show_nat n = (if n < 10 then [char_of (48 + n)]
                 else show_nat (n div 10) @ [char_of (48 + n mod 10)])"

declare show_nat.simps [simp del]

definition show_word :: "'a::len word \<Rightarrow> string" where
  "show_word w = show_nat (unat w)"

text \<open>\<open>haystack.contains(needle)\<close> and \<open>join\<close>.\<close>

fun str_contains :: "string \<Rightarrow> string \<Rightarrow> bool" where
  "str_contains [] needle = (needle = [])"
| "str_contains (c # cs) needle = (prefix needle (c # cs) \<or> str_contains cs needle)"

lemma str_contains_iff: "str_contains hay needle \<longleftrightarrow> (\<exists>xs ys. hay = xs @ needle @ ys)"
proof (induction hay)
  case Nil
  then show ?case by auto
next
  case (Cons c cs)
  have "(\<exists>xs ys. c # cs = xs @ needle @ ys) \<longleftrightarrow>
      prefix needle (c # cs) \<or> (\<exists>xs ys. cs = xs @ needle @ ys)"
    by (auto simp: prefix_def) (metis append_Cons append_eq_Cons_conv)+
  with Cons show ?case by simp
qed

lemma str_contains_append_left: "str_contains ys n \<Longrightarrow> str_contains (xs @ ys) n"
  by (metis append_assoc str_contains_iff)

lemma str_contains_append_right: "str_contains xs n \<Longrightarrow> str_contains (xs @ ys) n"
  by (metis append_assoc str_contains_iff)

fun join :: "string \<Rightarrow> string list \<Rightarrow> string" where
  "join sep [] = []"
| "join sep [s] = s"
| "join sep (s # t # ts) = s @ sep @ join sep (t # ts)"

section \<open>Containers of the Rust standard library\<close>

text \<open>
  A \<open>HashMap\<close> is an association list with distinct keys; its iteration order is one of the orders
  the Rust type allows. A \<open>BTreeMap\<close> is an association list with strictly increasing keys and a
  \<open>BTreeSet\<close> a strictly increasing list, so that iteration is in key order.
\<close>

type_synonym ('k, 'v) hmap = "('k \<times> 'v) list"
type_synonym ('k, 'v) btmap = "('k \<times> 'v) list"
type_synonym 'k btset = "'k list"

definition hm_wf :: "('k, 'v) hmap \<Rightarrow> bool" where
  "hm_wf m \<longleftrightarrow> distinct (map fst m)"

definition hm_insert :: "'k \<Rightarrow> 'v \<Rightarrow> ('k, 'v) hmap \<Rightarrow> ('k, 'v) hmap" where
  "hm_insert k v m = AList.update k v m"

definition hm_remove :: "'k \<Rightarrow> ('k, 'v) hmap \<Rightarrow> ('k, 'v) hmap" where
  "hm_remove k m = AList.delete k m"

text \<open>\<open>retain\<close> on a map.\<close>

definition hm_retain :: "('k \<Rightarrow> 'v \<Rightarrow> bool) \<Rightarrow> ('k, 'v) hmap \<Rightarrow> ('k, 'v) hmap" where
  "hm_retain P m = filter (\<lambda>(k, v). P k v) m"

text \<open>\<open>entry(k).or_insert(v)\<close> when the stored value is then left alone.\<close>

definition hm_or_insert :: "'k \<Rightarrow> 'v \<Rightarrow> ('k, 'v) hmap \<Rightarrow> ('k, 'v) hmap" where
  "hm_or_insert k v m = (case map_of m k of None \<Rightarrow> hm_insert k v m | Some _ \<Rightarrow> m)"

text \<open>\<open>if let Some(v) = m.get_mut(k)\<close> with \<open>*v = f v\<close>.\<close>

definition hm_modify :: "'k \<Rightarrow> ('v \<Rightarrow> 'v) \<Rightarrow> ('k, 'v) hmap \<Rightarrow> ('k, 'v) hmap" where
  "hm_modify k f m = (case map_of m k of None \<Rightarrow> m | Some v \<Rightarrow> hm_insert k (f v) m)"

lemma hm_get_insert [simp]: "map_of (hm_insert k v m) = (map_of m)(k \<mapsto> v)"
  by (simp add: hm_insert_def AList.update_conv')

lemma hm_get_remove [simp]: "map_of (hm_remove k m) = (map_of m)(k := None)"
  by (simp add: hm_remove_def AList.delete_conv')

lemma hm_get_or_insert [simp]:
  "map_of (hm_or_insert k v m) = (map_of m)(k \<mapsto> (case map_of m k of None \<Rightarrow> v | Some u \<Rightarrow> u))"
  by (auto simp: hm_or_insert_def fun_eq_iff split: option.split)

lemma hm_get_modify [simp]: "map_of (hm_modify k f m) = (map_of m)(k := map_option f (map_of m k))"
  by (auto simp: hm_modify_def fun_eq_iff split: option.split)

lemma hm_wf_insert [simp, intro]: "hm_wf m \<Longrightarrow> hm_wf (hm_insert k v m)"
  by (simp add: hm_wf_def hm_insert_def AList.distinct_update)

lemma hm_wf_remove [simp, intro]: "hm_wf m \<Longrightarrow> hm_wf (hm_remove k m)"
  by (simp add: hm_wf_def hm_remove_def AList.distinct_delete)

lemma hm_wf_or_insert [simp, intro]: "hm_wf m \<Longrightarrow> hm_wf (hm_or_insert k v m)"
  by (simp add: hm_or_insert_def split: option.split)

lemma hm_wf_modify [simp, intro]: "hm_wf m \<Longrightarrow> hm_wf (hm_modify k f m)"
  by (simp add: hm_modify_def split: option.split)

lemma hm_wf_retain [simp, intro]: "hm_wf m \<Longrightarrow> hm_wf (hm_retain P m)"
  by (simp add: hm_wf_def hm_retain_def distinct_map_filter)

lemma hm_wf_Nil [simp]: "hm_wf []"
  by (simp add: hm_wf_def)

lemma hm_in_set_iff: "hm_wf m \<Longrightarrow> (k, v) \<in> set m \<longleftrightarrow> map_of m k = Some v"
  by (simp add: hm_wf_def)

lemma hm_get_retain:
  "hm_wf m \<Longrightarrow> map_of (hm_retain P m) k =
     (case map_of m k of None \<Rightarrow> None | Some v \<Rightarrow> if P k v then Some v else None)"
proof (induction m)
  case Nil
  then show ?case by (simp add: hm_retain_def)
next
  case (Cons e m)
  obtain k' v' where e: "e = (k', v')" by (cases e)
  from Cons have IH: "map_of (hm_retain P m) k =
      (case map_of m k of None \<Rightarrow> None | Some v \<Rightarrow> if P k v then Some v else None)"
    and "k' \<notin> fst ` set m"
    by (simp_all add: hm_wf_def e)
  then have "map_of m k' = None" by (simp add: map_of_eq_None_iff)
  with IH show ?case
    by (auto simp: e hm_retain_def split: option.splits)
qed

text \<open>A \<open>BTreeMap\<close>.\<close>

definition bt_wf :: "('k::linorder, 'v) btmap \<Rightarrow> bool" where
  "bt_wf m \<longleftrightarrow> sorted_wrt (<) (map fst m)"

fun bt_insert :: "'k::linorder \<Rightarrow> 'v \<Rightarrow> ('k, 'v) btmap \<Rightarrow> ('k, 'v) btmap" where
  "bt_insert k v [] = [(k, v)]"
| "bt_insert k v ((k', v') # m) =
     (if k < k' then (k, v) # (k', v') # m
      else if k = k' then (k, v) # m
      else (k', v') # bt_insert k v m)"

definition bt_remove :: "'k::linorder \<Rightarrow> ('k, 'v) btmap \<Rightarrow> ('k, 'v) btmap" where
  "bt_remove k m = filter (\<lambda>e. fst e \<noteq> k) m"

lemma keys_bt_insert [simp]: "fst ` set (bt_insert k v m) = insert k (fst ` set m)"
  by (induction k v m rule: bt_insert.induct) (simp_all add: insert_commute)

lemma bt_wf_Nil [simp]: "bt_wf []"
  by (simp add: bt_wf_def)

lemma bt_wf_insert [simp, intro]: "bt_wf m \<Longrightarrow> bt_wf (bt_insert k v m)"
proof (induction m)
  case Nil
  then show ?case by (simp add: bt_wf_def)
next
  case (Cons e m)
  obtain k' v' where e: "e = (k', v')" by (cases e)
  have "set (map fst (bt_insert k v m)) = insert k (fst ` set m)" by simp
  with Cons show ?case by (auto simp: e bt_wf_def)
qed

lemma bt_get_insert [simp]: "map_of (bt_insert k v m) = (map_of m)(k \<mapsto> v)"
  by (induction m) (auto simp: fun_eq_iff)

lemma bt_wf_remove [simp, intro]: "bt_wf m \<Longrightarrow> bt_wf (bt_remove k m)"
  by (induction m) (auto simp: bt_wf_def bt_remove_def)

lemma bt_get_remove [simp]: "map_of (bt_remove k m) = (map_of m)(k := None)"
  by (induction m) (auto simp: bt_remove_def fun_eq_iff)

lemma bt_wf_distinct: "bt_wf m \<Longrightarrow> distinct (map fst m)"
  by (auto simp: bt_wf_def strict_sorted_iff)

text \<open>A \<open>BTreeSet\<close>.\<close>

fun bs_insert :: "'k::linorder \<Rightarrow> 'k btset \<Rightarrow> 'k btset" where
  "bs_insert k [] = [k]"
| "bs_insert k (x # xs) =
     (if k < x then k # x # xs else if k = x then x # xs else x # bs_insert k xs)"

definition bs_extend :: "'k::linorder list \<Rightarrow> 'k btset \<Rightarrow> 'k btset" where
  "bs_extend ks xs = fold bs_insert ks xs"

definition bs_remove :: "'k \<Rightarrow> 'k btset \<Rightarrow> 'k btset" where
  "bs_remove k xs = filter (\<lambda>x. x \<noteq> k) xs"

lemma set_bs_insert [simp]: "set (bs_insert k xs) = insert k (set xs)"
  by (induction xs) auto

lemma sorted_bs_insert [simp]: "sorted_wrt (<) xs \<Longrightarrow> sorted_wrt (<) (bs_insert k xs)"
  by (induction xs) auto

lemma set_bs_extend [simp]: "set (bs_extend ks xs) = set ks \<union> set xs"
  by (induction ks arbitrary: xs) (auto simp: bs_extend_def)

lemma sorted_bs_extend [simp]: "sorted_wrt (<) xs \<Longrightarrow> sorted_wrt (<) (bs_extend ks xs)"
  by (induction ks arbitrary: xs) (auto simp: bs_extend_def)

lemma set_bs_remove [simp]: "set (bs_remove k xs) = set xs - {k}"
  by (auto simp: bs_remove_def)

lemma sorted_bs_remove [simp]: "sorted_wrt (<) xs \<Longrightarrow> sorted_wrt (<) (bs_remove k xs)"
  by (simp add: bs_remove_def sorted_wrt_filter)

end
