(* ===== verification/Values.thy ===== *)
theory Values
  imports Prelude
begin

text \<open>
  The logical values of \<open>src/common/types.rs\<close>: \<open>Value\<close> with its equality, its total order (\<open>Ord\<close>)
  and its display and type names, the row and transaction identifiers, \<open>IndexMeta\<close>, and the partial
  comparison \<open>compare_values\<close> / \<open>matches_compare\<close> that the memory engine and the lock manager each
  define for index bounds. The order is proved linear and becomes the \<open>linorder\<close> instance of the
  type, so sorted keys and \<open>BTreeMap\<close> iteration can rely on it.
\<close>

section \<open>Values\<close>

text \<open>\<open>Real\<close> holds the bits of the \<open>f64\<close>: the source compares reals by \<open>to_bits\<close> and \<open>total_cmp\<close>.\<close>

datatype Value =
    Null
  | Boolean bool
  | Integer i64
  | Real u64
  | Blob "byte list"
  | Text string

type_synonym row = "Value list"

datatype ordering = Less | Equal | Greater

text \<open>\<open>Ord::cmp\<close> on a type whose order is already linear.\<close>

definition cmp_of :: "'a::linorder \<Rightarrow> 'a \<Rightarrow> ordering" where
  "cmp_of a b = (if a < b then Less else if a = b then Equal else Greater)"

lemma cmp_of_iff [simp]:
  "cmp_of a b = Less \<longleftrightarrow> a < b" "cmp_of a b = Equal \<longleftrightarrow> a = b" "cmp_of a b = Greater \<longleftrightarrow> b < a"
  by (auto simp: cmp_of_def)

text \<open>
  \<open>f64::total_cmp\<close>: the bits read as \<open>i64\<close>, with the low 63 bits flipped when the sign bit is set,
  compared as signed numbers.
\<close>

definition total_key :: "u64 \<Rightarrow> int" where
  "total_key w = sint (if bit w 63 then w XOR 0x7FFFFFFFFFFFFFFF else w)"

fun type_name :: "Value \<Rightarrow> string" where
  "type_name Null = ''NULL''"
| "type_name (Boolean _) = ''BOOLEAN''"
| "type_name (Integer _) = ''INTEGER''"
| "type_name (Real _) = ''REAL''"
| "type_name (Blob _) = ''BLOB''"
| "type_name (Text _) = ''TEXT''"

fun rank :: "Value \<Rightarrow> nat" where
  "rank Null = 0"
| "rank (Boolean _) = 1"
| "rank (Integer _) = 2"
| "rank (Real _) = 3"
| "rank (Blob _) = 4"
| "rank (Text _) = 5"

text \<open>\<open>impl Ord for Value\<close>.\<close>

fun value_cmp :: "Value \<Rightarrow> Value \<Rightarrow> ordering" where
  "value_cmp Null Null = Equal"
| "value_cmp (Boolean l) (Boolean r) = cmp_of l r"
| "value_cmp (Integer l) (Integer r) = cmp_of (sint l) (sint r)"
| "value_cmp (Real l) (Real r) = cmp_of (total_key l) (total_key r)"
| "value_cmp (Blob l) (Blob r) = cmp_of l r"
| "value_cmp (Text l) (Text r) = cmp_of l r"
| "value_cmp l r = cmp_of (rank l) (rank r)"

lemma sint_inject [simp]: "sint a = sint b \<longleftrightarrow> a = b" for a b :: "'a::len word"
  by (auto intro: signed_word_eqI)

lemma bit_mask63: "bit (0x7FFFFFFFFFFFFFFF :: u64) k \<longleftrightarrow> k < 63"
proof -
  have "(0x7FFFFFFFFFFFFFFF :: u64) = mask 63" by (simp add: mask_eq_exp_minus_1)
  then have "bit (0x7FFFFFFFFFFFFFFF :: u64) k \<longleftrightarrow> bit (mask 63 :: u64) k" by (simp only:)
  also have "\<dots> \<longleftrightarrow> k < 63" by (auto simp: bit_mask_iff)
  finally show ?thesis .
qed

lemma xor_cancel:
  fixes a b m :: "'a::len word"
  assumes "a XOR m = b XOR m"
  shows "a = b"
proof -
  have "(a XOR m) XOR m = (b XOR m) XOR m" by (simp only: assms)
  then show ?thesis by (simp only: xor.assoc xor_self_eq xor.right_neutral)
qed

lemma total_key_inject [simp]: "total_key a = total_key b \<longleftrightarrow> a = b"
proof
  assume "total_key a = total_key b"
  then have eq: "(if bit a 63 then a XOR 0x7FFFFFFFFFFFFFFF else a) =
      (if bit b 63 then b XOR 0x7FFFFFFFFFFFFFFF else b)"
    by (simp add: total_key_def)
  then have "bit (if bit a 63 then a XOR 0x7FFFFFFFFFFFFFFF else a) 63 =
      bit (if bit b 63 then b XOR 0x7FFFFFFFFFFFFFFF else b) 63"
    by simp
  then have "bit a 63 \<longleftrightarrow> bit b 63"
    by (simp add: bit_xor_iff bit_mask63 split: if_splits)
  with eq show "a = b"
    by (auto split: if_splits dest: xor_cancel)
qed simp

lemma value_cmp_Equal: "value_cmp a b = Equal \<longleftrightarrow> a = b"
  by (cases a; cases b) auto

lemma value_cmp_flip: "value_cmp a b = Greater \<longleftrightarrow> value_cmp b a = Less"
  by (cases a; cases b) auto

lemma value_cmp_trans: "value_cmp a b = Less \<Longrightarrow> value_cmp b c = Less \<Longrightarrow> value_cmp a c = Less"
  by (cases a; cases b; cases c) auto

instantiation Value :: linorder
begin

definition less_Value :: "Value \<Rightarrow> Value \<Rightarrow> bool" where
  "less_Value a b \<longleftrightarrow> value_cmp a b = Less"

definition less_eq_Value :: "Value \<Rightarrow> Value \<Rightarrow> bool" where
  "less_eq_Value a b \<longleftrightarrow> value_cmp a b \<noteq> Greater"

instance
proof
  fix a b c :: "Value"
  show "a < b \<longleftrightarrow> a \<le> b \<and> \<not> b \<le> a"
    unfolding less_Value_def less_eq_Value_def
    by (metis ordering.exhaust ordering.distinct(1,3,5) value_cmp_flip)
  show "a \<le> a"
    unfolding less_eq_Value_def by (metis ordering.distinct(5) value_cmp_Equal)
  show "a \<le> b \<Longrightarrow> b \<le> c \<Longrightarrow> a \<le> c"
    unfolding less_eq_Value_def
    by (metis ordering.exhaust value_cmp_Equal value_cmp_flip value_cmp_trans)
  show "a \<le> b \<Longrightarrow> b \<le> a \<Longrightarrow> a = b"
    unfolding less_eq_Value_def
    by (metis ordering.exhaust value_cmp_Equal value_cmp_flip)
  show "a \<le> b \<or> b \<le> a"
    unfolding less_eq_Value_def
    by (metis ordering.distinct(3) value_cmp_flip)
qed

end

section \<open>Index bounds\<close>

datatype compare_op = Eq | Ne | Gt | Gte | Lt | Lte

text \<open>
  \<open>compare_values\<close> of \<open>src/storage/memory.rs\<close> and of \<open>src/storage/v2/txn_manager.rs\<close> (the same
  body): a partial comparison, defined on two values of the same kind and on no real or blob.
\<close>

fun compare_values :: "Value \<Rightarrow> Value \<Rightarrow> ordering option" where
  "compare_values Null Null = Some Equal"
| "compare_values (Boolean l) (Boolean r) = Some (cmp_of l r)"
| "compare_values (Integer l) (Integer r) = Some (cmp_of (sint l) (sint r))"
| "compare_values (Text l) (Text r) = Some (cmp_of l r)"
| "compare_values _ _ = None"

fun matches_compare :: "Value \<Rightarrow> compare_op \<Rightarrow> Value \<Rightarrow> bool" where
  "matches_compare l Eq r = (l = r)"
| "matches_compare l Ne r = (l \<noteq> r)"
| "matches_compare l Gt r = (compare_values l r = Some Greater)"
| "matches_compare l Gte r = (compare_values l r \<in> {Some Greater, Some Equal})"
| "matches_compare l Lt r = (compare_values l r = Some Less)"
| "matches_compare l Lte r = (compare_values l r \<in> {Some Less, Some Equal})"

text \<open>A bound of a range: an operator and a value.\<close>

type_synonym bound = "compare_op \<times> Value"

text \<open>\<open>lower.is_none_or(...) && upper.is_none_or(...)\<close>: \<open>matches_bounds\<close>.\<close>

definition matches_bounds :: "Value \<Rightarrow> bound option \<Rightarrow> bound option \<Rightarrow> bool" where
  "matches_bounds c lower upper \<longleftrightarrow>
     (case lower of None \<Rightarrow> True | Some (op, v) \<Rightarrow> matches_compare c op v) \<and>
     (case upper of None \<Rightarrow> True | Some (op, v) \<Rightarrow> matches_compare c op v)"

text \<open>Where \<open>compare_values\<close> is defined it is the total order of the type.\<close>

lemma compare_values_Some: "compare_values a b = Some ord \<Longrightarrow> value_cmp a b = ord"
  by (cases a; cases b) auto

lemma compare_values_None_iff:
  "compare_values a b = None \<longleftrightarrow>
     rank a \<noteq> rank b \<or> (\<exists>x. a = Real x) \<or> (\<exists>x. a = Blob x)"
  by (cases a; cases b) auto

lemma matches_compare_order:
  assumes "compare_values a b \<noteq> None"
  shows "matches_compare a Gt b \<longleftrightarrow> b < a" "matches_compare a Gte b \<longleftrightarrow> b \<le> a"
    "matches_compare a Lt b \<longleftrightarrow> a < b" "matches_compare a Lte b \<longleftrightarrow> a \<le> b"
proof -
  obtain ord where o: "compare_values a b = Some ord" "value_cmp a b = ord"
    using assms compare_values_Some by fastforce
  have "b < a \<longleftrightarrow> ord = Greater" "a < b \<longleftrightarrow> ord = Less"
    using o(2) value_cmp_flip [of a b] by (auto simp: less_Value_def)
  moreover have "b \<le> a \<longleftrightarrow> \<not> a < b" "a \<le> b \<longleftrightarrow> \<not> b < a"
    by auto
  ultimately show "matches_compare a Gt b \<longleftrightarrow> b < a" "matches_compare a Gte b \<longleftrightarrow> b \<le> a"
    "matches_compare a Lt b \<longleftrightarrow> a < b" "matches_compare a Lte b \<longleftrightarrow> a \<le> b"
    using o(1) by (cases ord; simp)+
qed

section \<open>Index metadata\<close>

record index_meta =
  im_name :: string
  im_columns :: "string list"
  im_decorated_columns :: "string list option"
  im_unique :: bool
  im_predicate :: "string option"

text \<open>\<open>IndexMeta::rendered_columns\<close>, \<open>enforces_unique_key\<close> and \<open>is_usable\<close>.\<close>

definition rendered_columns :: "index_meta \<Rightarrow> string list" where
  "rendered_columns m = (case im_decorated_columns m of None \<Rightarrow> im_columns m | Some cs \<Rightarrow> cs)"

definition enforces_unique_key :: "index_meta \<Rightarrow> Value list \<Rightarrow> bool" where
  "enforces_unique_key m key \<longleftrightarrow> im_unique m \<and> Null \<notin> set key"

definition is_ascii_alphanumeric :: "char \<Rightarrow> bool" where
  "is_ascii_alphanumeric c \<longleftrightarrow>
     (CHR ''0'' \<le> c \<and> c \<le> CHR ''9'') \<or> (CHR ''A'' \<le> c \<and> c \<le> CHR ''Z'') \<or>
     (CHR ''a'' \<le> c \<and> c \<le> CHR ''z'')"

definition is_plain_index_column_name :: "string \<Rightarrow> bool" where
  "is_plain_index_column_name column \<longleftrightarrow>
     column \<noteq> [] \<and> list_all (\<lambda>c. is_ascii_alphanumeric c \<or> c = CHR ''_'') column"

definition is_usable :: "index_meta \<Rightarrow> bool" where
  "is_usable m \<longleftrightarrow> im_predicate m = None \<and> list_all is_plain_index_column_name (im_columns m)"

end
