(* ===== verification/V2_Codec.thy ===== *)
theory V2_Codec
  imports Values
begin

text \<open>
  Row versions of the paged engine: \<open>src/storage/v2/codec.rs\<close> and \<open>TxnSnapshot\<close> of
  \<open>src/storage/v2/tx_types.rs\<close>. A stored row is a chain of versions, newest first, each with the
  transaction that created it, the one that deleted it, and their commit timestamps once known.
  The chain is serialised with \<open>serde_json\<close>, which is not part of the repository: \<open>to_vec\<close> and
  \<open>from_slice\<close> are arguments of every operation that serialises, and a property that needs the
  round trip of a chain states it for that chain. What an operation does to the chain is a
  function on lists of versions; what a transaction sees of it is the list of its visible versions
  (\<open>view\<close>), the specification the operations are proved against.
\<close>

section \<open>Data\<close>

text \<open>\<open>TransactionId(u64)\<close> and \<open>RowId(u64)\<close> are newtypes of \<open>u64\<close>.\<close>

type_synonym txn_id = u64
type_synonym row_id = u64

record txn_snapshot =
  visible_up_to :: u64
  active_txns :: "txn_id btset"

record row_version =
  rv_row :: row
  created_by_txn :: u64
  created_commit_ts :: "u64 option"
  deleted_by_txn :: "u64 option"
  deleted_commit_ts :: "u64 option"

record versioned_row =
  versions :: "row_version list"

datatype stored_row = Legacy row | Versioned versioned_row

text \<open>The part of \<open>Schema\<close> and \<open>ColumnDef\<close> that storage reads; the records stay open for the rest.\<close>

record column_def =
  cd_name :: string

record 'c schema =
  sc_name :: string
  sc_columns :: "'c list"

type_synonym to_vec = "stored_row \<Rightarrow> byte list result"
type_synonym from_slice = "byte list \<Rightarrow> stored_row result"

section \<open>Visibility\<close>

definition version_visible_to_snapshot :: "u64 \<Rightarrow> u64 option \<Rightarrow> u64 \<Rightarrow> txn_snapshot \<Rightarrow> bool" where
  "version_visible_to_snapshot version_txn_id commit_ts current_txn_id snapshot =
     (case commit_ts of
        Some ts \<Rightarrow> ts \<le> visible_up_to snapshot \<and> version_txn_id \<notin> set (active_txns snapshot)
      | None \<Rightarrow> version_txn_id = current_txn_id)"

text \<open>
  The test the three loops share: the creator is visible, and the version is deleted neither by
  the transaction itself nor, as far as the snapshot knows, by a committed one.
\<close>

definition creator_visible :: "u64 \<Rightarrow> txn_snapshot \<Rightarrow> row_version \<Rightarrow> bool" where
  "creator_visible txn_id snapshot v =
     version_visible_to_snapshot (created_by_txn v) (created_commit_ts v) txn_id snapshot"

definition deleted_in_snapshot :: "u64 \<Rightarrow> txn_snapshot \<Rightarrow> row_version \<Rightarrow> bool" where
  "deleted_in_snapshot txn_id snapshot v =
     (case (deleted_by_txn v, deleted_commit_ts v) of
        (Some deleter, Some ts) \<Rightarrow> version_visible_to_snapshot deleter (Some ts) txn_id snapshot
      | _ \<Rightarrow> False)"

definition version_visible :: "u64 \<Rightarrow> txn_snapshot \<Rightarrow> row_version \<Rightarrow> bool" where
  "version_visible txn_id snapshot v \<longleftrightarrow>
     creator_visible txn_id snapshot v \<and> deleted_by_txn v \<noteq> Some txn_id \<and>
     \<not> deleted_in_snapshot txn_id snapshot v"

section \<open>Operations\<close>

definition encode_row :: "to_vec \<Rightarrow> row \<Rightarrow> byte list result" where
  "encode_row to_vec row = to_vec (Legacy row)"

definition decode_versioned_row :: "from_slice \<Rightarrow> byte list \<Rightarrow> versioned_row result" where
  "decode_versioned_row from_slice bytes = rbind (from_slice bytes) (\<lambda>stored.
     Ok (case stored of
         Legacy row \<Rightarrow> \<lparr>versions = [\<lparr>rv_row = row, created_by_txn = 0, created_commit_ts = Some 0,
             deleted_by_txn = None, deleted_commit_ts = None\<rparr>]\<rparr>
       | Versioned versioned \<Rightarrow> versioned))"

definition decode_row :: "from_slice \<Rightarrow> byte list \<Rightarrow> row result" where
  "decode_row from_slice bytes = rbind (decode_versioned_row from_slice bytes) (\<lambda>versioned.
     Ok (case versions versioned of [] \<Rightarrow> [] | version # _ \<Rightarrow> rv_row version))"

text \<open>The version a transaction creates before it commits.\<close>

definition uncommitted_version :: "row \<Rightarrow> u64 \<Rightarrow> row_version" where
  "uncommitted_version row txn_id = \<lparr>rv_row = row, created_by_txn = txn_id,
     created_commit_ts = None, deleted_by_txn = None, deleted_commit_ts = None\<rparr>"

definition encode_uncommitted_row_version :: "to_vec \<Rightarrow> row \<Rightarrow> u64 \<Rightarrow> byte list result" where
  "encode_uncommitted_row_version to_vec row txn_id =
     to_vec (Versioned \<lparr>versions = [uncommitted_version row txn_id]\<rparr>)"

fun visible_loop :: "u64 \<Rightarrow> txn_snapshot \<Rightarrow> row_version list \<Rightarrow> row option" where
  "visible_loop txn_id snapshot [] = None"
| "visible_loop txn_id snapshot (version # rest) =
     (if \<not> creator_visible txn_id snapshot version then visible_loop txn_id snapshot rest
      else if deleted_by_txn version = Some txn_id then visible_loop txn_id snapshot rest
      else if deleted_in_snapshot txn_id snapshot version then visible_loop txn_id snapshot rest
      else Some (rv_row version))"

definition visible_row :: "from_slice \<Rightarrow> byte list \<Rightarrow> u64 \<Rightarrow> txn_snapshot \<Rightarrow> row option result" where
  "visible_row from_slice bytes txn_id snapshot =
     rbind (decode_versioned_row from_slice bytes)
       (\<lambda>versioned. Ok (visible_loop txn_id snapshot (versions versioned)))"

text \<open>Setting \<open>deleted_by_txn\<close> and clearing \<open>deleted_commit_ts\<close>.\<close>

definition mark_deleted :: "u64 \<Rightarrow> row_version \<Rightarrow> row_version" where
  "mark_deleted txn_id v = v\<lparr>deleted_by_txn := Some txn_id, deleted_commit_ts := None\<rparr>"

fun mark_deleted_loop :: "u64 \<Rightarrow> txn_snapshot \<Rightarrow> row_version list \<Rightarrow> row_version list option" where
  "mark_deleted_loop txn_id snapshot [] = None"
| "mark_deleted_loop txn_id snapshot (version # rest) =
     (if \<not> creator_visible txn_id snapshot version
      then map_option (Cons version) (mark_deleted_loop txn_id snapshot rest)
      else if deleted_by_txn version = Some txn_id \<or> deleted_in_snapshot txn_id snapshot version
      then map_option (Cons version) (mark_deleted_loop txn_id snapshot rest)
      else Some (mark_deleted txn_id version # rest))"

definition mark_row_deleted ::
    "to_vec \<Rightarrow> from_slice \<Rightarrow> byte list \<Rightarrow> u64 \<Rightarrow> txn_snapshot \<Rightarrow> byte list option result" where
  "mark_row_deleted to_vec from_slice bytes txn_id snapshot =
     rbind (decode_versioned_row from_slice bytes) (\<lambda>versioned.
       case mark_deleted_loop txn_id snapshot (versions versioned) of
         None \<Rightarrow> Ok None
       | Some vs \<Rightarrow> rbind (to_vec (Versioned (versioned\<lparr>versions := vs\<rparr>))) (\<lambda>b. Ok (Some b)))"

text \<open>The new chain of \<open>append_row_version\<close>: \<open>None\<close> when the transaction sees no version.\<close>

definition append_versions ::
    "row \<Rightarrow> u64 \<Rightarrow> txn_snapshot \<Rightarrow> row_version list \<Rightarrow> row_version list option" where
  "append_versions row txn_id snapshot vs =
     (case position (version_visible txn_id snapshot) vs of
        None \<Rightarrow> None
      | Some visible_index \<Rightarrow>
          let v = vs ! visible_index in
          if created_by_txn v = txn_id \<and> created_commit_ts v = None
          then Some (vs[visible_index := v\<lparr>rv_row := row\<rparr>])
          else Some (insert_at 0 (uncommitted_version row txn_id)
                 (vs[visible_index := mark_deleted txn_id v])))"

definition append_row_version ::
    "to_vec \<Rightarrow> from_slice \<Rightarrow> byte list \<Rightarrow> row \<Rightarrow> u64 \<Rightarrow> txn_snapshot \<Rightarrow> byte list option result" where
  "append_row_version to_vec from_slice bytes row txn_id snapshot =
     rbind (decode_versioned_row from_slice bytes) (\<lambda>versioned.
       case append_versions row txn_id snapshot (versions versioned) of
         None \<Rightarrow> Ok None
       | Some vs \<Rightarrow> rbind (to_vec (Versioned (versioned\<lparr>versions := vs\<rparr>))) (\<lambda>b. Ok (Some b)))"

definition finalize_version :: "u64 \<Rightarrow> u64 \<Rightarrow> row_version \<Rightarrow> row_version" where
  "finalize_version txn_id commit_ts v =
     (let v1 = (if created_by_txn v = txn_id \<and> created_commit_ts v = None
                then v\<lparr>created_commit_ts := Some commit_ts\<rparr> else v)
      in if deleted_by_txn v1 = Some txn_id \<and> deleted_commit_ts v1 = None
         then v1\<lparr>deleted_commit_ts := Some commit_ts\<rparr> else v1)"

definition finalize_row_versions ::
    "to_vec \<Rightarrow> from_slice \<Rightarrow> byte list \<Rightarrow> u64 \<Rightarrow> u64 \<Rightarrow> byte list result" where
  "finalize_row_versions to_vec from_slice bytes txn_id commit_ts =
     rbind (decode_versioned_row from_slice bytes) (\<lambda>versioned.
       to_vec (Versioned (versioned\<lparr>versions :=
         map (finalize_version txn_id commit_ts) (versions versioned)\<rparr>)))"

definition project_column ::
    "('e column_def_scheme, 'z) schema_scheme \<Rightarrow> row \<Rightarrow> string \<Rightarrow> Value result" where
  "project_column schema row column =
     rbind (ok_or (Storage (''unknown column '' @ column @ '' on table '' @ sc_name schema))
         (position (\<lambda>entry. cd_name entry = column) (sc_columns schema))) (\<lambda>i.
       if i < length row then Ok (row ! i)
       else Err (Storage (''row for table '' @ sc_name schema @ '' is missing column '' @ column)))"

definition project_index_key ::
    "('e column_def_scheme, 'z) schema_scheme \<Rightarrow> index_meta \<Rightarrow> row \<Rightarrow> Value list result" where
  "project_index_key schema index row =
     collect_results (project_column schema row) (im_columns index)"

section \<open>What a transaction sees of a chain\<close>

text \<open>The specification: the versions of a chain visible to a transaction, newest first.\<close>

definition view :: "u64 \<Rightarrow> txn_snapshot \<Rightarrow> row_version list \<Rightarrow> row_version list" where
  "view txn_id snapshot vs = filter (version_visible txn_id snapshot) vs"

lemma view_simps [simp]:
  "view t s [] = []"
  "view t s (v # vs) = (if version_visible t s v then v # view t s vs else view t s vs)"
  "view t s (xs @ ys) = view t s xs @ view t s ys"
  by (simp_all add: view_def)

lemma visible_loop_view:
  "visible_loop t s vs = (case view t s vs of [] \<Rightarrow> None | v # _ \<Rightarrow> Some (rv_row v))"
  by (induction vs) (auto simp: version_visible_def)

lemma mark_deleted_loop_split:
  "mark_deleted_loop t s vs = Some vs' \<Longrightarrow>
     \<exists>xs v ys. vs = xs @ v # ys \<and> view t s xs = [] \<and> version_visible t s v \<and>
        vs' = xs @ mark_deleted t v # ys"
proof (induction vs arbitrary: vs')
  case Nil
  then show ?case by simp
next
  case (Cons w ws)
  show ?case
  proof (cases "version_visible t s w")
    case True
    with Cons.prems have "vs' = mark_deleted t w # ws"
      by (auto simp: version_visible_def)
    with True show ?thesis
      by (intro exI [of _ "[]"] exI [of _ w] exI [of _ ws]) simp
  next
    case False
    with Cons.prems obtain ws' where ws': "mark_deleted_loop t s ws = Some ws'" "vs' = w # ws'"
      by (auto simp: version_visible_def split: if_splits)
    obtain xs v ys where "ws = xs @ v # ys" "view t s xs = []" "version_visible t s v"
        "ws' = xs @ mark_deleted t v # ys"
      using Cons.IH [OF ws'(1)] by blast
    with False ws'(2) show ?thesis
      by (intro exI [of _ "w # xs"] exI [of _ v] exI [of _ ys]) simp
  qed
qed

lemma position_split:
  "position p xs = Some i \<Longrightarrow>
     \<exists>ys y zs. xs = ys @ y # zs \<and> i = length ys \<and> p y \<and> filter p ys = []"
  by (intro exI [of _ "take i xs"] exI [of _ "xs ! i"] exI [of _ "drop (Suc i) xs"])
    (auto simp: position_eq_Some id_take_nth_drop [symmetric] filter_empty_conv in_set_conv_nth)

text \<open>The two ways a chain grows: a version overwritten in place, or a new one in front.\<close>

lemma append_versions_cases:
  assumes "append_versions row t s vs = Some vs'"
  obtains (in_place) xs v ys where "vs = xs @ v # ys" "view t s xs = []" "version_visible t s v"
      "created_by_txn v = t" "created_commit_ts v = None" "vs' = xs @ v\<lparr>rv_row := row\<rparr> # ys"
  | (new_version) xs v ys where "vs = xs @ v # ys" "view t s xs = []" "version_visible t s v"
      "\<not> (created_by_txn v = t \<and> created_commit_ts v = None)"
      "vs' = uncommitted_version row t # xs @ mark_deleted t v # ys"
proof -
  obtain i where i: "position (version_visible t s) vs = Some i"
    using assms by (auto simp: append_versions_def split: option.splits)
  obtain xs v ys where split: "vs = xs @ v # ys" "i = length xs" "version_visible t s v" "view t s xs = []"
    using position_split [OF i] by (auto simp: view_def)
  show thesis
  proof (cases "created_by_txn v = t \<and> created_commit_ts v = None")
    case True
    then show thesis
      using assms i split by (intro in_place) (auto simp: append_versions_def Let_def)
  next
    case False
    then show thesis
      using assms i split by (intro new_version) (auto simp: append_versions_def Let_def insert_at_def)
  qed
qed

text \<open>How marking and finalizing change what a transaction sees.\<close>

lemma rv_row_uncommitted [simp]: "rv_row (uncommitted_version row t) = row"
  by (simp add: uncommitted_version_def)

lemma rv_row_mark_deleted [simp]: "rv_row (mark_deleted t v) = rv_row v"
  by (simp add: mark_deleted_def)

lemma version_visible_own [simp]: "version_visible t s (uncommitted_version row t)"
  by (simp add: version_visible_def creator_visible_def deleted_in_snapshot_def uncommitted_version_def
      version_visible_to_snapshot_def)

lemma version_visible_foreign [simp]:
  "t' \<noteq> t \<Longrightarrow> \<not> version_visible t' s (uncommitted_version row t)"
  by (simp add: version_visible_def creator_visible_def uncommitted_version_def
      version_visible_to_snapshot_def)

lemma version_visible_marked_own [simp]: "\<not> version_visible t s (mark_deleted t v)"
  by (simp add: version_visible_def mark_deleted_def)

lemma version_visible_marked_foreign:
  "t' \<noteq> t \<Longrightarrow> deleted_by_txn v = None \<Longrightarrow>
     version_visible t' s (mark_deleted t v) = version_visible t' s v"
  by (simp add: version_visible_def creator_visible_def mark_deleted_def deleted_in_snapshot_def)

lemma version_visible_row [simp]: "version_visible t s (v\<lparr>rv_row := row\<rparr>) = version_visible t s v"
  by (simp add: version_visible_def creator_visible_def deleted_in_snapshot_def)

lemma version_visible_uncommitted_foreign:
  "created_commit_ts v = None \<Longrightarrow> created_by_txn v \<noteq> t' \<Longrightarrow> \<not> version_visible t' s v"
  by (simp add: version_visible_def creator_visible_def version_visible_to_snapshot_def)

text \<open>A snapshot includes a commit when its horizon covers the timestamp and it did not list the transaction as active.\<close>

definition includes_commit :: "txn_snapshot \<Rightarrow> u64 \<Rightarrow> u64 \<Rightarrow> bool" where
  "includes_commit s t cts \<longleftrightarrow> cts \<le> visible_up_to s \<and> t \<notin> set (active_txns s)"

lemma version_visible_finalize_excluded:
  assumes "t' \<noteq> t" "\<not> includes_commit s t cts"
  shows "version_visible t' s (finalize_version t cts v) = version_visible t' s v"
  using assms
  by (cases "created_commit_ts v"; cases "deleted_commit_ts v"; cases "deleted_by_txn v")
    (auto simp: version_visible_def creator_visible_def deleted_in_snapshot_def finalize_version_def
      version_visible_to_snapshot_def includes_commit_def)

lemma rv_row_finalize [simp]: "rv_row (finalize_version t cts v) = rv_row v"
  by (simp add: finalize_version_def Let_def)

lemma view_finalize_excluded:
  assumes "t' \<noteq> t" "\<not> includes_commit s t cts"
  shows "map rv_row (view t' s (map (finalize_version t cts) vs)) = map rv_row (view t' s vs)"
  by (induction vs) (simp_all add: version_visible_finalize_excluded [OF assms])

lemma version_visible_finalize_included:
  assumes "created_by_txn v = t" "created_commit_ts v = None" "deleted_by_txn v = None"
    "includes_commit s t cts"
  shows "version_visible t' s (finalize_version t cts v)"
  using assms
  by (simp add: version_visible_def creator_visible_def deleted_in_snapshot_def finalize_version_def
      version_visible_to_snapshot_def includes_commit_def)

lemma visible_loop_rows:
  "visible_loop t s vs = (case map rv_row (view t s vs) of [] \<Rightarrow> None | r # _ \<Rightarrow> Some r)"
  by (simp add: visible_loop_view split: list.split)

text \<open>What the writer itself sees: the new row replaces the one it saw, a delete removes it.\<close>

lemma append_versions_view:
  assumes "append_versions row t s vs = Some vs'"
  shows "map rv_row (view t s vs') = row # tl (map rv_row (view t s vs))"
  using assms by (cases rule: append_versions_cases) auto

lemma mark_deleted_view:
  "mark_deleted_loop t s vs = Some vs' \<Longrightarrow> view t s vs' = tl (view t s vs)"
  by (auto dest!: mark_deleted_loop_split)

text \<open>
  What the others see: nothing changes, as long as the version the writer replaces carries no
  delete mark of a third transaction (marking it would overwrite that mark).
\<close>

definition undeleted :: "u64 \<Rightarrow> txn_snapshot \<Rightarrow> row_version list \<Rightarrow> bool" where
  "undeleted t s vs \<longleftrightarrow> list_all (\<lambda>v. version_visible t s v \<longrightarrow> deleted_by_txn v = None) vs"

lemma append_versions_foreign:
  assumes "append_versions row t s vs = Some vs'" "t' \<noteq> t" "undeleted t s vs"
  shows "map rv_row (view t' s' vs') = map rv_row (view t' s' vs)"
  using assms(1)
proof (cases rule: append_versions_cases)
  case (in_place xs v ys)
  with assms(2) have "\<not> version_visible t' s' v"
    by (intro version_visible_uncommitted_foreign) auto
  with in_place show ?thesis by simp
next
  case (new_version xs v ys)
  with assms(2,3) have "version_visible t' s' (mark_deleted t v) = version_visible t' s' v"
    by (simp add: version_visible_marked_foreign undeleted_def)
  with new_version assms(2) show ?thesis by simp
qed

lemma mark_deleted_foreign:
  assumes "mark_deleted_loop t s vs = Some vs'" "t' \<noteq> t" "undeleted t s vs"
  shows "map rv_row (view t' s' vs') = map rv_row (view t' s' vs)"
proof -
  obtain xs v ys where split: "vs = xs @ v # ys" "version_visible t s v"
      "vs' = xs @ mark_deleted t v # ys"
    using mark_deleted_loop_split [OF assms(1)] by blast
  then have "version_visible t' s' (mark_deleted t v) = version_visible t' s' v"
    using assms(2,3) by (simp add: version_visible_marked_foreign undeleted_def)
  with split show ?thesis by simp
qed

text \<open>An operation finds nothing to do exactly when the transaction sees no version.\<close>

lemma append_versions_None: "append_versions row t s vs = None \<longleftrightarrow> view t s vs = []"
  by (auto simp: append_versions_def view_def Let_def position_eq_None filter_empty_conv
      split: option.splits)
    (metis list.set_intros(1) position_eq_None option.distinct(1))+

lemma mark_deleted_loop_None: "mark_deleted_loop t s vs = None \<longleftrightarrow> view t s vs = []"
  by (induction vs) (auto simp: version_visible_def)

text \<open>
  After the writer of the newest version commits, a snapshot that includes the commit sees its row
  and every other snapshot sees what it saw before the write.
\<close>

lemma append_versions_head:
  assumes "append_versions row t s (v # vs) = Some vs'" "version_visible t s v"
    "deleted_by_txn v = None"
  shows "\<exists>w ws. vs' = w # ws \<and> rv_row w = row \<and> created_by_txn w = t \<and>
    created_commit_ts w = None \<and> deleted_by_txn w = None"
  using assms by (auto simp: append_versions_def Let_def insert_at_def uncommitted_version_def split: if_splits)

lemma append_finalize_included:
  assumes "append_versions row t s (v # vs) = Some vs'" "version_visible t s v"
    "deleted_by_txn v = None" "includes_commit s' t cts"
  shows "visible_loop t' s' (map (finalize_version t cts) vs') = Some row"
  using append_versions_head [OF assms(1-3)] assms(4)
  by (auto simp: visible_loop_rows version_visible_finalize_included)

section \<open>The operations on stored bytes\<close>

text \<open>
  What the code relies on in \<open>serde_json\<close> for the bytes it has written: reading them back gives
  the value that was serialised to them.
\<close>

definition serde_faithful :: "to_vec \<Rightarrow> from_slice \<Rightarrow> byte list \<Rightarrow> bool" where
  "serde_faithful to_vec from_slice b \<longleftrightarrow> (\<forall>x. to_vec x = Ok b \<longrightarrow> from_slice b = Ok x)"

lemma decode_written:
  assumes "to_vec (Versioned \<lparr>versions = vs\<rparr>) = Ok b" "serde_faithful to_vec from_slice b"
  shows "decode_versioned_row from_slice b = Ok \<lparr>versions = vs\<rparr>"
  using assms by (simp add: decode_versioned_row_def serde_faithful_def)

lemma versions_update_eq [simp]: "x\<lparr>versions := vs\<rparr> = \<lparr>versions = vs\<rparr>" for x :: versioned_row
  by (cases x) simp

lemma append_row_version_Some:
  assumes "decode_versioned_row from_slice b = Ok \<lparr>versions = vs\<rparr>"
    "append_row_version to_vec from_slice b row t s = Ok (Some b')"
    "serde_faithful to_vec from_slice b'"
  obtains vs' where "append_versions row t s vs = Some vs'"
    "decode_versioned_row from_slice b' = Ok \<lparr>versions = vs'\<rparr>"
  using assms
  by (auto simp: append_row_version_def rbind_eq_Ok split: option.splits intro: decode_written)

lemma mark_row_deleted_Some:
  assumes "decode_versioned_row from_slice b = Ok \<lparr>versions = vs\<rparr>"
    "mark_row_deleted to_vec from_slice b t s = Ok (Some b')"
    "serde_faithful to_vec from_slice b'"
  obtains vs' where "mark_deleted_loop t s vs = Some vs'"
    "decode_versioned_row from_slice b' = Ok \<lparr>versions = vs'\<rparr>"
  using assms
  by (auto simp: mark_row_deleted_def rbind_eq_Ok split: option.splits intro: decode_written)

lemma finalize_row_versions_Ok:
  assumes "decode_versioned_row from_slice b = Ok \<lparr>versions = vs\<rparr>"
    "finalize_row_versions to_vec from_slice b t cts = Ok b'"
    "serde_faithful to_vec from_slice b'"
  shows "decode_versioned_row from_slice b' = Ok \<lparr>versions = map (finalize_version t cts) vs\<rparr>"
  using assms by (auto simp: finalize_row_versions_def intro: decode_written)

lemma visible_row_decoded:
  "decode_versioned_row from_slice b = Ok \<lparr>versions = vs\<rparr> \<Longrightarrow>
     visible_row from_slice b t s = Ok (visible_loop t s vs)"
  by (simp add: visible_row_def)

section \<open>Properties\<close>

text \<open>
  A transaction reads its own writes. When \<open>append_row_version\<close> of a transaction gives
  new bytes, \<open>visible_row\<close> on them gives that transaction the new row, whether its own uncommitted
  version was overwritten or a new version was put in front.
\<close>

lemma append_row_version_reads_own_write:
  assumes "decode_versioned_row from_slice b = Ok \<lparr>versions = vs\<rparr>"
    and "append_row_version to_vec from_slice b row t s = Ok (Some b')"
    and "serde_faithful to_vec from_slice b'"
  shows "visible_row from_slice b' t s = Ok (Some row)"
proof -
  obtain vs' where "append_versions row t s vs = Some vs'"
      "decode_versioned_row from_slice b' = Ok \<lparr>versions = vs'\<rparr>"
    using append_row_version_Some [OF assms] .
  then show ?thesis by (simp add: visible_row_decoded visible_loop_rows append_versions_view)
qed

text \<open>
  Property C9: the life of an update. Transaction \<open>t\<close> sees the newest version of a row, and no one has
  marked that version deleted; it appends a new version and commits with timestamp \<open>cts\<close>. For every
  other transaction and every snapshot: before the commit it sees exactly what it saw before the
  write; after the commit it sees the new row if the snapshot includes the commit, and otherwise
  still what it saw before the write.
\<close>

theorem update_visible_exactly_after_commit:
  assumes "decode_versioned_row from_slice b = Ok \<lparr>versions = v # vs\<rparr>"
    and "version_visible t s v" and "undeleted t s (v # vs)"
    and "append_row_version to_vec from_slice b row t s = Ok (Some b1)"
    and "finalize_row_versions to_vec from_slice b1 t cts = Ok b2"
    and "serde_faithful to_vec from_slice b1" and "serde_faithful to_vec from_slice b2"
    and "t' \<noteq> t"
  shows "visible_row from_slice b1 t' s' = visible_row from_slice b t' s' \<and>
    visible_row from_slice b2 t' s' =
      (if includes_commit s' t cts then Ok (Some row) else visible_row from_slice b t' s')"
proof (intro conjI)
  obtain vs' where app: "append_versions row t s (v # vs) = Some vs'"
      and dec: "decode_versioned_row from_slice b1 = Ok \<lparr>versions = vs'\<rparr>"
    using append_row_version_Some [OF assms(1,4,6)] .
  have dec2: "decode_versioned_row from_slice b2 = Ok \<lparr>versions = map (finalize_version t cts) vs'\<rparr>"
    using finalize_row_versions_Ok [OF dec assms(5,7)] .
  have foreign: "map rv_row (view t' s' vs') = map rv_row (view t' s' (v # vs))"
    using append_versions_foreign [OF app assms(8,3)] .
  then show "visible_row from_slice b1 t' s' = visible_row from_slice b t' s'"
    by (simp only: visible_row_decoded [OF dec] visible_row_decoded [OF assms(1)] visible_loop_rows)
  show "visible_row from_slice b2 t' s' =
      (if includes_commit s' t cts then Ok (Some row) else visible_row from_slice b t' s')"
  proof (cases "includes_commit s' t cts")
    case True
    have "deleted_by_txn v = None" using assms(2,3) by (simp add: undeleted_def)
    from append_finalize_included [OF app assms(2) this True] show ?thesis
      by (simp add: visible_row_decoded [OF dec2] True)
  next
    case False
    then show ?thesis
      by (simp only: visible_row_decoded [OF dec2] visible_row_decoded [OF assms(1)] visible_loop_rows
          view_finalize_excluded [OF assms(8) False] foreign if_False)
  qed
qed

text \<open>
  Property C32: deleting a row hides exactly the version the transaction saw. After \<open>mark_row_deleted\<close>
  the deleting transaction sees what the remaining visible versions show (nothing, when it saw one
  version only), and every other transaction sees what it saw before, also after a commit that its
  snapshot does not include.
\<close>

theorem delete_hides_only_from_self:
  assumes "decode_versioned_row from_slice b = Ok \<lparr>versions = vs\<rparr>"
    and "undeleted t s vs"
    and "mark_row_deleted to_vec from_slice b t s = Ok (Some b1)"
    and "finalize_row_versions to_vec from_slice b1 t cts = Ok b2"
    and "serde_faithful to_vec from_slice b1" and "serde_faithful to_vec from_slice b2"
    and "t' \<noteq> t"
  shows "(length (view t s vs) = 1 \<longrightarrow> visible_row from_slice b1 t s = Ok None) \<and>
    visible_row from_slice b1 t' s' = visible_row from_slice b t' s' \<and>
    (\<not> includes_commit s' t cts \<longrightarrow>
      visible_row from_slice b2 t' s' = visible_row from_slice b t' s')"
proof (intro conjI impI)
  obtain vs' where mark: "mark_deleted_loop t s vs = Some vs'"
      and dec: "decode_versioned_row from_slice b1 = Ok \<lparr>versions = vs'\<rparr>"
    using mark_row_deleted_Some [OF assms(1,3,5)] .
  have foreign: "map rv_row (view t' s' vs') = map rv_row (view t' s' vs)"
    using mark_deleted_foreign [OF mark assms(7,2)] .
  show "visible_row from_slice b1 t s = Ok None" if "length (view t s vs) = 1"
    using that mark_deleted_view [OF mark]
    by (auto simp: visible_row_decoded [OF dec] visible_loop_rows length_Suc_conv)
  show "visible_row from_slice b1 t' s' = visible_row from_slice b t' s'"
    by (simp add: visible_row_decoded [OF dec] visible_row_decoded [OF assms(1)] visible_loop_rows foreign)
  show "visible_row from_slice b2 t' s' = visible_row from_slice b t' s'"
    if "\<not> includes_commit s' t cts"
    by (simp only: visible_row_decoded [OF finalize_row_versions_Ok [OF dec assms(4,6)]]
        visible_row_decoded [OF assms(1)] visible_loop_rows
        view_finalize_excluded [OF assms(7) that] foreign)
qed

section \<open>Witnesses\<close>

text \<open>
  A chain of one committed version, updated by transaction 2 and committed at 5, with a table in
  place of the JSON text of the values concerned.
\<close>

definition demo_version :: row_version where
  "demo_version = \<lparr>rv_row = [Integer 1], created_by_txn = 1, created_commit_ts = Some 1,
     deleted_by_txn = None, deleted_commit_ts = None\<rparr>"

definition demo_snapshot :: txn_snapshot where
  "demo_snapshot = \<lparr>visible_up_to = 4, active_txns = []\<rparr>"

definition demo_table :: "(stored_row \<times> byte list) list" where
  "demo_table =
    [(Versioned \<lparr>versions = [demo_version]\<rparr>, [1]),
     (Versioned \<lparr>versions = [uncommitted_version [Integer 2] 2, mark_deleted 2 demo_version]\<rparr>, [2]),
     (Versioned \<lparr>versions = map (finalize_version 2 5)
        [uncommitted_version [Integer 2] 2, mark_deleted 2 demo_version]\<rparr>, [3]),
     (Versioned \<lparr>versions = [mark_deleted 2 demo_version]\<rparr>, [4]),
     (Versioned \<lparr>versions = [finalize_version 2 5 (mark_deleted 2 demo_version)]\<rparr>, [5])]"

definition demo_to_vec :: to_vec where
  "demo_to_vec x = ok_or (Serde ''unsupported'') (map_of demo_table x)"

definition demo_from_slice :: from_slice where
  "demo_from_slice b = ok_or (Serde ''invalid'') (map_of (map (\<lambda>(x, b). (b, x)) demo_table) b)"

lemmas demo_simps = demo_version_def demo_snapshot_def demo_table_def demo_to_vec_def
  demo_from_slice_def uncommitted_version_def mark_deleted_def finalize_version_def
  decode_versioned_row_def append_row_version_def mark_row_deleted_def finalize_row_versions_def
  visible_row_def append_versions_def version_visible_def creator_visible_def deleted_in_snapshot_def
  version_visible_to_snapshot_def includes_commit_def undeleted_def insert_at_def view_def

lemma demo_faithful: "serde_faithful demo_to_vec demo_from_slice b"
  by (auto simp: serde_faithful_def demo_simps split: if_splits)

lemma append_row_version_reads_own_write_witness:
  "visible_row demo_from_slice [2] 2 demo_snapshot = Ok (Some [Integer 2])"
  by (rule append_row_version_reads_own_write [of demo_from_slice "[1]" "[demo_version]" demo_to_vec])
    (simp_all add: demo_faithful, simp_all add: demo_simps)

theorem update_visible_exactly_after_commit_witness:
  "visible_row demo_from_slice [2] 7 \<lparr>visible_up_to = 5, active_txns = []\<rparr> =
     visible_row demo_from_slice [1] 7 \<lparr>visible_up_to = 5, active_txns = []\<rparr> \<and>
   visible_row demo_from_slice [3] 7 \<lparr>visible_up_to = 5, active_txns = []\<rparr> = Ok (Some [Integer 2])"
proof -
  have "decode_versioned_row demo_from_slice [1] = Ok \<lparr>versions = [demo_version]\<rparr>"
    "version_visible 2 demo_snapshot demo_version" "undeleted 2 demo_snapshot [demo_version]"
    "append_row_version demo_to_vec demo_from_slice [1] [Integer 2] 2 demo_snapshot = Ok (Some [2])"
    "finalize_row_versions demo_to_vec demo_from_slice [2] 2 5 = Ok [3]" "(7::u64) \<noteq> 2"
    "includes_commit \<lparr>visible_up_to = 5, active_txns = []\<rparr> 2 5"
    by (simp_all add: demo_simps)
  then show ?thesis
    using update_visible_exactly_after_commit [OF _ _ _ _ _ demo_faithful demo_faithful, of "[1]"
        demo_version "[]" 2 demo_snapshot "[Integer 2]" "[2]" 5 "[3]" 7] by simp
qed

theorem delete_hides_only_from_self_witness:
  "visible_row demo_from_slice [4] 2 demo_snapshot = Ok None \<and>
   visible_row demo_from_slice [5] 7 demo_snapshot = visible_row demo_from_slice [1] 7 demo_snapshot"
proof -
  have "decode_versioned_row demo_from_slice [1] = Ok \<lparr>versions = [demo_version]\<rparr>"
    "undeleted 2 demo_snapshot [demo_version]"
    "mark_row_deleted demo_to_vec demo_from_slice [1] 2 demo_snapshot = Ok (Some [4])"
    "finalize_row_versions demo_to_vec demo_from_slice [4] 2 5 = Ok [5]" "(7::u64) \<noteq> 2"
    "\<not> includes_commit demo_snapshot 2 5" "length (view 2 demo_snapshot [demo_version]) = 1"
    by (simp_all add: demo_simps)
  then show ?thesis
    using delete_hides_only_from_self [OF _ _ _ _ demo_faithful demo_faithful, of "[1]"
        "[demo_version]" 2 demo_snapshot "[4]" 5 "[5]" 7 demo_snapshot] by simp
qed

end
