(* ===== verification/Rust_Slices.thy ===== *)
theory Rust_Slices
  imports Values
begin

text \<open>
  Searching in slices as the Rust standard library does it: \<open>binary_search_by\<close> halves the range
  without leaving early, and \<open>partition_point\<close> is the same search with a comparison that is never
  \<open>Equal\<close>. On slices that are not sorted the answer is whatever the loop computes; on sorted ones it
  is characterised here.
\<close>

section \<open>Definitions\<close>

datatype search = Found nat | Missing nat

function search_loop :: "(nat \<Rightarrow> ordering) \<Rightarrow> nat \<Rightarrow> nat \<Rightarrow> nat" where
  "search_loop f sz base =
     (if sz \<le> 1 then base
      else let half = sz div 2; mid = base + half
           in search_loop f (sz - half) (if f mid = Greater then base else mid))"
  by pat_completeness auto
termination
  by (relation "measure (\<lambda>(f, sz, base). sz)") auto

declare search_loop.simps [simp del]

definition binary_search_by :: "('a \<Rightarrow> ordering) \<Rightarrow> 'a list \<Rightarrow> search" where
  "binary_search_by f xs =
     (if xs = [] then Missing 0
      else let base = search_loop (\<lambda>i. f (xs ! i)) (length xs) 0
           in case f (xs ! base) of
                Equal \<Rightarrow> Found base
              | Less \<Rightarrow> Missing (base + 1)
              | Greater \<Rightarrow> Missing base)"

definition partition_point :: "('a \<Rightarrow> bool) \<Rightarrow> 'a list \<Rightarrow> nat" where
  "partition_point p xs =
     (case binary_search_by (\<lambda>x. if p x then Less else Greater) xs of Found i \<Rightarrow> i | Missing i \<Rightarrow> i)"

section \<open>On sorted slices\<close>

text \<open>The comparison splits the indices: below \<open>a\<close> is less, from \<open>b\<close> on is greater.\<close>

definition splits_at :: "(nat \<Rightarrow> ordering) \<Rightarrow> nat \<Rightarrow> nat \<Rightarrow> nat \<Rightarrow> bool" where
  "splits_at f n a b \<longleftrightarrow> a \<le> b \<and> b \<le> n \<and>
     (\<forall>i < n. f i = (if i < a then Less else if i < b then Equal else Greater))"

lemma search_loop_split:
  assumes "splits_at f n a b" "0 < sz" "base + sz \<le> n" "base = 0 \<or> base < b" "b \<le> base + sz"
  shows "search_loop f sz base = (if b = 0 then 0 else b - 1)"
  using assms
proof (induction f sz base rule: search_loop.induct)
  case (1 f sz base)
  show ?case
  proof (cases "sz \<le> 1")
    case True
    then show ?thesis using 1(3-6) by (subst search_loop.simps) auto
  next
    case False
    let ?half = "sz div 2"
    have half: "0 < ?half" "?half < sz" using False by auto
    have "(f (base + ?half) = Greater) = (b \<le> base + ?half)"
      using 1(2,4) half by (auto simp: splits_at_def)
    then have "search_loop f (sz - ?half) (if f (base + ?half) = Greater then base else base + ?half) =
      (if b = 0 then 0 else b - 1)"
      using 1(2-6) half False by (intro 1(1)) auto
    then show ?thesis using False by (subst search_loop.simps) (simp add: Let_def)
  qed
qed

lemma binary_search_split:
  assumes "splits_at (\<lambda>i. f (xs ! i)) (length xs) a b"
  shows "binary_search_by f xs = (if a < b then Found (b - 1) else Missing a)"
proof (cases "xs = []")
  case True
  then show ?thesis using assms by (simp add: binary_search_by_def splits_at_def)
next
  case False
  let ?base = "if b = 0 then 0 else b - 1"
  have base: "search_loop (\<lambda>i. f (xs ! i)) (length xs) 0 = ?base"
    using search_loop_split [OF assms, of "length xs" 0] False assms by (simp add: splits_at_def)
  have "f (xs ! ?base) = (if ?base < a then Less else if ?base < b then Equal else Greater)"
    using assms False by (cases b) (auto simp: splits_at_def)
  then show ?thesis
    using assms False by (auto simp: binary_search_by_def base splits_at_def Let_def)
qed

text \<open>Every list splits at its partition point: a prefix where the test holds, then none.\<close>

lemma partition_point_prefix:
  assumes "\<And>i j. i \<le> j \<Longrightarrow> j < length xs \<Longrightarrow> p (xs ! j) \<Longrightarrow> p (xs ! i)"
  shows "partition_point p xs = length (takeWhile p xs)"
proof -
  let ?n = "length (takeWhile p xs)"
  have "p (xs ! i) = (i < ?n)" if "i < length xs" for i
  proof
    show "i < ?n \<Longrightarrow> p (xs ! i)" by (metis nth_mem set_takeWhileD takeWhile_nth)
    assume "p (xs ! i)"
    show "i < ?n"
    proof (rule ccontr)
      assume "\<not> i < ?n"
      then have "p (xs ! ?n)" using assms [of ?n i] \<open>p (xs ! i)\<close> that by simp
      moreover have "?n < length xs" using that \<open>\<not> i < ?n\<close> by simp
      ultimately show False using nth_length_takeWhile [of p xs] by simp
    qed
  qed
  then have "splits_at (\<lambda>i. if p (xs ! i) then Less else Greater) (length xs) ?n ?n"
    by (simp add: splits_at_def length_takeWhile_le)
  from binary_search_split [OF this] show ?thesis by (simp add: partition_point_def)
qed

lemma sorted_wrt_prefix:
  assumes "sorted_wrt (<) xs" "i \<le> j" "j < length xs"
  shows "xs ! i \<le> (xs ! j :: 'a::linorder)"
  using assms by (metis le_neq_implies_less less_imp_le order_refl sorted_wrt_nth_less)

text \<open>The index of the first separator above the key.\<close>

lemma partition_point_ge:
  fixes xs :: "'a::linorder list"
  assumes "sorted_wrt (<) xs"
  shows "partition_point (\<lambda>x. k \<ge> x) xs = length (takeWhile (\<lambda>x. x \<le> k) xs)"
  using sorted_wrt_prefix [OF assms] by (intro partition_point_prefix) (meson order_trans)

text \<open>Searching a key among sorted ones.\<close>

lemma binary_search_sorted:
  fixes key :: "'a \<Rightarrow> 'k::linorder"
  assumes "sorted_wrt (<) (map key xs)"
  shows "binary_search_by (\<lambda>x. cmp_of (key x) k) xs =
    (let n = length (takeWhile (\<lambda>x. key x < k) xs)
     in if n < length xs \<and> key (xs ! n) = k then Found n else Missing n)"
proof -
  let ?n = "length (takeWhile (\<lambda>x. key x < k) xs)"
  let ?b = "if ?n < length xs \<and> key (xs ! ?n) = k then Suc ?n else ?n"
  have less: "key (xs ! i) < key (xs ! j)" if "i < j" "j < length xs" for i j
    using sorted_wrt_nth_less [OF assms, of i j] that by simp
  have cmp: "cmp_of (key (xs ! i)) k = (if i < ?n then Less else if i < ?b then Equal else Greater)"
    if i: "i < length xs" for i
  proof (cases "i < ?n")
    case True
    then have "key (xs ! i) < k" by (metis nth_mem set_takeWhileD takeWhile_nth)
    with True show ?thesis by (simp add: cmp_of_def)
  next
    case False
    then have n: "?n < length xs" using i by simp
    then have ge: "k \<le> key (xs ! ?n)" using nth_length_takeWhile by fastforce
    show ?thesis
    proof (cases "i = ?n")
      case True
      then show ?thesis using ge n by (auto simp: cmp_of_def)
    next
      case other: False
      then have "k < key (xs ! i)" using less [of ?n i] False i ge by auto
      with False other show ?thesis by (auto simp: cmp_of_def)
    qed
  qed
  have "splits_at (\<lambda>i. cmp_of (key (xs ! i)) k) (length xs) ?n ?b"
    unfolding splits_at_def using cmp length_takeWhile_le [of "\<lambda>x. key x < k" xs] by auto
  from binary_search_split [OF this] show ?thesis by (simp add: Let_def)
qed

text \<open>\<open>xs[i]\<close>.\<close>

definition index_at :: "'a list \<Rightarrow> nat \<Rightarrow> 'a result" where
  "index_at xs i = (if i < length xs then Ok (xs ! i) else Panic ''index out of bounds'')"

end
