(* ===== verification/Schemas.thy ===== *)
theory Schemas
  imports V2_Codec Rust_Slices
begin

text \<open>
  Tables: \<open>Schema\<close>, \<open>ColumnDef\<close> and their constraints of \<open>src/common/types.rs\<close>, with the checks the engines
  make on a row and the rewriting of a schema by \<open>ALTER TABLE\<close>.
\<close>

section \<open>Schemas\<close>

datatype column_type = C_Any | C_Boolean | C_Integer | C_Numeric | C_Real | C_Blob | C_Text

datatype sort_order = Ascending | Descending

fun column_type_name :: "column_type \<Rightarrow> string" where
  "column_type_name C_Any = ''ANY''"
| "column_type_name C_Boolean = ''BOOLEAN''"
| "column_type_name C_Integer = ''INTEGER''"
| "column_type_name C_Numeric = ''NUMERIC''"
| "column_type_name C_Real = ''REAL''"
| "column_type_name C_Blob = ''BLOB''"
| "column_type_name C_Text = ''TEXT''"

fun matches_value :: "column_type \<Rightarrow> Value \<Rightarrow> bool" where
  "matches_value C_Any _ = True"
| "matches_value C_Boolean (Boolean _) = True"
| "matches_value C_Integer (Integer _) = True"
| "matches_value C_Numeric (Integer _) = True"
| "matches_value C_Numeric (Real _) = True"
| "matches_value C_Real (Real _) = True"
| "matches_value C_Blob (Blob _) = True"
| "matches_value C_Text (Text _) = True"
| "matches_value _ _ = False"

text \<open>
  \<open>CheckExpr\<close>: every comparison form has one column; the rest of the form (which function, which
  operator, which constants) is the parameter \<open>'x\<close>, and its evaluation on a row one of the
  \<open>schema_rules\<close>.
\<close>

datatype 'x check_expr =
    Check_Atom string 'x
  | Check_And "'x check_expr" "'x check_expr"
  | Check_Or "'x check_expr" "'x check_expr"
  | Check_Not "'x check_expr"

record 'x check_constraint =
  ck_name :: string
  ck_explicit_name :: bool
  ck_expr :: "'x check_expr"

record foreign_key =
  fk_constraint_name :: "string option"
  fk_columns :: "string list"
  fk_ref_table :: string
  fk_ref_columns :: "string list option"
  fk_match_clause :: "string option"
  fk_on_delete :: "string option"
  fk_on_update :: "string option"
  fk_deferrable :: "bool option"
  fk_initially_deferred :: "bool option"

record unique_constraint =
  uc_constraint_name :: "string option"
  uc_conflict_clause :: "string option"
  uc_columns :: "string list"
  uc_decorated_columns :: "string list option"

record primary_key_constraint =
  pc_constraint_name :: "string option"
  pc_columns :: "string list"
  pc_decorated_columns :: "string list option"
  pc_conflict_clause :: "string option"

datatype column_default = Default_Literal Value | Current_Timestamp | Current_Date | Current_Time

text \<open>
  \<open>ColumnDef\<close> and \<open>Schema\<close>, with the fields the engines read or rewrite; the fields they only store and
  compare are together in \<open>cd_rest\<close> and \<open>sc_rest\<close>.
\<close>

record 'x column = column_def +
  cd_column_type :: column_type
  cd_nullable :: bool
  cd_primary_key :: bool
  cd_primary_key_sort_order :: "sort_order option"
  cd_default_value :: "column_default option"
  cd_generated_expr :: "string option"
  cd_checks :: "'x check_constraint list"
  cd_foreign_key :: "foreign_key option"
  cd_rest :: 'x

record 'x table_schema = "'x column schema" +
  sc_checks :: "'x check_constraint list"
  sc_foreign_keys :: "foreign_key list"
  sc_primary_key_constraint :: "primary_key_constraint option"
  sc_unique_constraints :: "unique_constraint list"
  sc_strict :: bool
  sc_without_rowid :: bool
  sc_rest :: 'x

text \<open>
  What a schema takes from outside: the value of a comparison form on a row (in a mode of \<open>LIKE\<close>), the
  conversions of strict tables, which read and print floating-point numbers, the text forms of values in
  messages, and the clock in seconds since 1970.
\<close>

record 'x schema_rules =
  sr_evaluate_atom :: "bool \<Rightarrow> 'x \<Rightarrow> Value \<Rightarrow> bool option result"
  sr_strict_value :: "column_type \<Rightarrow> Value \<Rightarrow> Value option"
  sr_display :: "Value \<Rightarrow> string"
  sr_debug :: "Value list \<Rightarrow> string"
  sr_now :: "u64 result"

text \<open>One column of \<open>validate_row_values\<close>.\<close>

definition validate_column :: "'x table_schema \<Rightarrow> 'x column \<Rightarrow> Value \<Rightarrow> unit result" where
  "validate_column schema column v =
     (if v = Null then
        if \<not> sc_strict schema \<and> cd_primary_key column \<and> cd_column_type column = C_Integer \<and>
           cd_primary_key_sort_order column = Some Descending then Ok ()
        else if cd_primary_key column then
          Err (Storage (''primary key column '' @ [CHR 0x27] @ cd_name column @ [CHR 0x27] @ '' cannot be NULL''))
        else if \<not> cd_nullable column then
          Err (Storage (''column '' @ [CHR 0x27] @ cd_name column @ [CHR 0x27] @ '' cannot be NULL''))
        else Ok ()
      else if \<not> matches_value (cd_column_type column) v then
        Err (Storage (''column '' @ [CHR 0x27] @ cd_name column @ [CHR 0x27] @ '' expected '' @
          column_type_name (cd_column_type column) @ '' but got '' @ type_name v))
      else Ok ())"

fun validate_columns :: "'x table_schema \<Rightarrow> ('x column \<times> Value) list \<Rightarrow> unit result" where
  "validate_columns schema [] = Ok ()"
| "validate_columns schema ((column, v) # rest) =
     rbind (validate_column schema column v) (\<lambda>_. validate_columns schema rest)"

definition validate_row_values :: "'x table_schema \<Rightarrow> row \<Rightarrow> unit result" where
  "validate_row_values schema row =
     (if length row \<noteq> length (sc_columns schema) then
        Err (Storage (''insert into '' @ sc_name schema @ '' expected '' @ show_nat (length (sc_columns schema)) @
          '' values but got '' @ show_nat (length row)))
      else validate_columns schema (zip (sc_columns schema) row))"

definition column_index :: "'x table_schema \<Rightarrow> string \<Rightarrow> nat result" where
  "column_index schema column =
     ok_or (Storage (''unknown column: '' @ column)) (position (\<lambda>entry. cd_name entry = column) (sc_columns schema))"

definition value_for_column :: "'x table_schema \<Rightarrow> row \<Rightarrow> string \<Rightarrow> Value result" where
  "value_for_column schema row column =
     rbind (column_index schema column) (\<lambda>i.
       if i < length row then Ok (row ! i) else Err (Storage (''row is missing column '' @ column)))"

text \<open>The three-valued connectives of \<open>evaluate_check_expr\<close>.\<close>

definition check_and :: "bool option \<Rightarrow> bool option \<Rightarrow> bool option" where
  "check_and l r = (if l = Some False \<or> r = Some False then Some False
     else if l = Some True \<and> r = Some True then Some True else None)"

definition check_or :: "bool option \<Rightarrow> bool option \<Rightarrow> bool option" where
  "check_or l r = (if l = Some True \<or> r = Some True then Some True
     else if l = Some False \<and> r = Some False then Some False else None)"

fun evaluate_check_expr ::
    "'x schema_rules \<Rightarrow> 'x table_schema \<Rightarrow> bool \<Rightarrow> row \<Rightarrow> 'x check_expr \<Rightarrow> bool option result" where
  "evaluate_check_expr R schema like row (Check_Atom column atom) =
     rbind (value_for_column schema row column) (\<lambda>v. sr_evaluate_atom R like atom v)"
| "evaluate_check_expr R schema like row (Check_And l r) =
     rbind (evaluate_check_expr R schema like row l) (\<lambda>a.
     rbind (evaluate_check_expr R schema like row r) (\<lambda>b. Ok (check_and a b)))"
| "evaluate_check_expr R schema like row (Check_Or l r) =
     rbind (evaluate_check_expr R schema like row l) (\<lambda>a.
     rbind (evaluate_check_expr R schema like row r) (\<lambda>b. Ok (check_or a b)))"
| "evaluate_check_expr R schema like row (Check_Not e) =
     rbind (evaluate_check_expr R schema like row e) (\<lambda>a. Ok (map_option Not a))"

definition validate_check_constraint ::
    "'x schema_rules \<Rightarrow> 'x table_schema \<Rightarrow> bool \<Rightarrow> row \<Rightarrow> 'x check_constraint \<Rightarrow> unit result" where
  "validate_check_constraint R schema like row check =
     rbind (evaluate_check_expr R schema like row (ck_expr check)) (\<lambda>verdict.
       if verdict = Some False
       then Err (Storage (''check constraint '' @ [CHR 0x27] @ ck_name check @ [CHR 0x27] @ '' failed'')) else Ok ())"

definition validate_check_constraints_with_like_mode ::
    "'x schema_rules \<Rightarrow> 'x table_schema \<Rightarrow> bool \<Rightarrow> row \<Rightarrow> unit result" where
  "validate_check_constraints_with_like_mode R schema like row =
     rbind (collect_results (validate_check_constraint R schema like row)
       (concat (map cd_checks (sc_columns schema)) @ sc_checks schema)) (\<lambda>_. Ok ())"

definition validate_check_constraints :: "'x schema_rules \<Rightarrow> 'x table_schema \<Rightarrow> row \<Rightarrow> unit result" where
  "validate_check_constraints R schema row = validate_check_constraints_with_like_mode R schema False row"

definition primary_key_columns :: "'x table_schema \<Rightarrow> (nat \<times> 'x column) list" where
  "primary_key_columns schema = filter (\<lambda>(_, column). cd_primary_key column) (enumerate 0 (sc_columns schema))"

definition same_key :: "(nat \<times> 'x column) list \<Rightarrow> row \<Rightarrow> row \<Rightarrow> bool" where
  "same_key pk row existing = list_all (\<lambda>(i, _). i < length existing \<and> existing ! i = row ! i) pk"

definition validate_primary_key_uniqueness ::
    "'x schema_rules \<Rightarrow> 'x table_schema \<Rightarrow> row \<Rightarrow> row list \<Rightarrow> unit result" where
  "validate_primary_key_uniqueness R schema row existing_rows =
     (let pk = primary_key_columns schema in
      if pk = [] then Ok ()
      else rbind (collect_results (\<lambda>(i, _). index_at row i) pk) (\<lambda>k.
        if list_ex (same_key pk row) existing_rows then
          Err (Storage (case pk of
              [(i, column)] \<Rightarrow> ''duplicate primary key value for column '' @ [CHR 0x27] @ cd_name column @
                [CHR 0x27] @ '': '' @ sr_display R (row ! i)
            | _ \<Rightarrow> ''duplicate primary key value for columns ('' @
                join '', '' (map (\<lambda>(_, column). cd_name column) pk) @ ''): '' @ sr_debug R k))
        else Ok ()))"

text \<open>A row of a type-correct table, as a specification.\<close>

definition column_accepts :: "'x table_schema \<Rightarrow> 'x column \<Rightarrow> Value \<Rightarrow> bool" where
  "column_accepts schema column v \<longleftrightarrow>
     (v \<noteq> Null \<and> matches_value (cd_column_type column) v) \<or>
     (v = Null \<and> cd_nullable column \<and> \<not> cd_primary_key column) \<or>
     (v = Null \<and> cd_primary_key column \<and> cd_column_type column = C_Integer \<and> \<not> sc_strict schema \<and>
       cd_primary_key_sort_order column = Some Descending)"

lemma validate_columns_Ok:
  "length columns = length row \<Longrightarrow>
     validate_columns schema (zip columns row) = Ok () \<longleftrightarrow> list_all2 (column_accepts schema) columns row"
  by (induction columns row rule: list_induct2) (auto simp: validate_column_def column_accepts_def)

lemma validate_row_values_Ok:
  "validate_row_values schema row = Ok () \<longleftrightarrow> list_all2 (column_accepts schema) (sc_columns schema) row"
  using validate_columns_Ok [of "sc_columns schema" row schema]
  by (auto simp: validate_row_values_def dest: list_all2_lengthD)

lemma primary_key_free:
  "validate_primary_key_uniqueness R schema row existing = Ok () \<Longrightarrow> r \<in> set existing \<Longrightarrow>
     primary_key_columns schema \<noteq> [] \<Longrightarrow> \<not> same_key (primary_key_columns schema) row r"
  by (auto simp: validate_primary_key_uniqueness_def Let_def rbind_eq_Ok list_ex_iff split: if_splits)

section \<open>Rewriting a schema\<close>

definition has_column :: "'x table_schema \<Rightarrow> string \<Rightarrow> bool" where
  "has_column schema column = list_ex (\<lambda>entry. cd_name entry = column) (sc_columns schema)"

definition all_foreign_keys :: "'x table_schema \<Rightarrow> foreign_key list" where
  "all_foreign_keys schema = sc_foreign_keys schema @ List.map_filter cd_foreign_key (sc_columns schema)"

definition has_referenced_column :: "foreign_key \<Rightarrow> string \<Rightarrow> bool" where
  "has_referenced_column fk column = (case fk_ref_columns fk of None \<Rightarrow> False | Some columns \<Rightarrow> column \<in> set columns)"

fun validate_check_expr_metadata :: "'x table_schema \<Rightarrow> 'x check_expr \<Rightarrow> unit result" where
  "validate_check_expr_metadata schema (Check_Atom column _) =
     (if has_column schema column then Ok () else Err (Storage (''unknown column in CHECK: '' @ column)))"
| "validate_check_expr_metadata schema (Check_And l r) =
     rbind (validate_check_expr_metadata schema l) (\<lambda>_. validate_check_expr_metadata schema r)"
| "validate_check_expr_metadata schema (Check_Or l r) =
     rbind (validate_check_expr_metadata schema l) (\<lambda>_. validate_check_expr_metadata schema r)"
| "validate_check_expr_metadata schema (Check_Not e) = validate_check_expr_metadata schema e"

text \<open>A column named by a constraint exists.\<close>

definition require_columns :: "string \<Rightarrow> 'x table_schema \<Rightarrow> string list \<Rightarrow> unit result" where
  "require_columns message schema columns =
     rbind (collect_results (\<lambda>column.
         if has_column schema column then Ok () else Err (Storage (message @ column))) columns) (\<lambda>_. Ok ())"

definition validate_foreign_key :: "'x table_schema \<Rightarrow> foreign_key \<Rightarrow> unit result" where
  "validate_foreign_key schema fk =
     (if fk_columns fk = [] then Err (Storage ''FOREIGN KEY constraint must reference at least one column'')
      else if (case fk_ref_columns fk of None \<Rightarrow> False | Some columns \<Rightarrow> length columns \<noteq> length (fk_columns fk))
      then Err (Storage (''FOREIGN KEY column count mismatch for parent table '' @ fk_ref_table fk))
      else require_columns ''unknown column in FOREIGN KEY: '' schema (fk_columns fk))"

definition validate_unique_constraint :: "'x table_schema \<Rightarrow> unique_constraint \<Rightarrow> unit result" where
  "validate_unique_constraint schema uc =
     (if uc_columns uc = [] then Err (Storage ''UNIQUE constraint must reference at least one column'')
      else require_columns ''unknown column in UNIQUE constraint: '' schema (uc_columns uc))"

definition validate_constraints_metadata :: "'x table_schema \<Rightarrow> unit result" where
  "validate_constraints_metadata schema =
     rbind (collect_results (\<lambda>check. validate_check_expr_metadata schema (ck_expr check))
       (concat (map cd_checks (sc_columns schema)) @ sc_checks schema)) (\<lambda>_.
     rbind (collect_results (validate_foreign_key schema) (all_foreign_keys schema)) (\<lambda>_.
     rbind (collect_results (validate_unique_constraint schema) (sc_unique_constraints schema)) (\<lambda>_. Ok ())))"

definition rename_in :: "string \<Rightarrow> string \<Rightarrow> string \<Rightarrow> string" where
  "rename_in old_name new_name name = (if name = old_name then new_name else name)"

fun rename_check_expr_column :: "string \<Rightarrow> string \<Rightarrow> 'x check_expr \<Rightarrow> 'x check_expr" where
  "rename_check_expr_column old_name new_name (Check_Atom column atom) = Check_Atom (rename_in old_name new_name column) atom"
| "rename_check_expr_column old_name new_name (Check_And l r) =
     Check_And (rename_check_expr_column old_name new_name l) (rename_check_expr_column old_name new_name r)"
| "rename_check_expr_column old_name new_name (Check_Or l r) =
     Check_Or (rename_check_expr_column old_name new_name l) (rename_check_expr_column old_name new_name r)"
| "rename_check_expr_column old_name new_name (Check_Not e) = Check_Not (rename_check_expr_column old_name new_name e)"

definition rename_check :: "string \<Rightarrow> string \<Rightarrow> 'x check_constraint \<Rightarrow> 'x check_constraint" where
  "rename_check old_name new_name check = check\<lparr>ck_expr := rename_check_expr_column old_name new_name (ck_expr check)\<rparr>"

definition rename_fk_columns :: "string \<Rightarrow> string \<Rightarrow> foreign_key \<Rightarrow> foreign_key" where
  "rename_fk_columns old_name new_name fk = fk\<lparr>fk_columns := map (rename_in old_name new_name) (fk_columns fk)\<rparr>"

definition rename_fk_ref_columns :: "string \<Rightarrow> string \<Rightarrow> string \<Rightarrow> foreign_key \<Rightarrow> foreign_key" where
  "rename_fk_ref_columns table old_name new_name fk =
     (if fk_ref_table fk = table
      then fk\<lparr>fk_ref_columns := map_option (map (rename_in old_name new_name)) (fk_ref_columns fk)\<rparr> else fk)"

text \<open>
  The columns of the primary key constraint and the text of generated columns keep the old name, as in
  the source.
\<close>

definition rename_column_references :: "string \<Rightarrow> string \<Rightarrow> 'x table_schema \<Rightarrow> 'x table_schema" where
  "rename_column_references old_name new_name schema =
     schema\<lparr>
       sc_columns := map (\<lambda>c. c\<lparr>cd_name := rename_in old_name new_name (cd_name c),
           cd_checks := map (rename_check old_name new_name) (cd_checks c),
           cd_foreign_key := map_option (rename_fk_columns old_name new_name) (cd_foreign_key c)\<rparr>) (sc_columns schema),
       sc_checks := map (rename_check old_name new_name) (sc_checks schema),
       sc_foreign_keys := map (\<lambda>fk. rename_fk_ref_columns (sc_name schema) old_name new_name
           (rename_fk_columns old_name new_name fk)) (sc_foreign_keys schema),
       sc_unique_constraints := map (\<lambda>uc. uc\<lparr>uc_columns := map (rename_in old_name new_name) (uc_columns uc)\<rparr>)
           (sc_unique_constraints schema)\<rparr>"

definition on_foreign_keys :: "(foreign_key \<Rightarrow> foreign_key) \<Rightarrow> 'x table_schema \<Rightarrow> 'x table_schema" where
  "on_foreign_keys f schema =
     schema\<lparr>sc_columns := map (\<lambda>c. c\<lparr>cd_foreign_key := map_option f (cd_foreign_key c)\<rparr>) (sc_columns schema),
       sc_foreign_keys := map f (sc_foreign_keys schema)\<rparr>"

definition rename_foreign_key_ref_table :: "string \<Rightarrow> string \<Rightarrow> 'x table_schema \<Rightarrow> 'x table_schema" where
  "rename_foreign_key_ref_table old_name new_name =
     on_foreign_keys (\<lambda>fk. fk\<lparr>fk_ref_table := rename_in old_name new_name (fk_ref_table fk)\<rparr>)"

definition rename_foreign_key_ref_column ::
    "string \<Rightarrow> string \<Rightarrow> string \<Rightarrow> 'x table_schema \<Rightarrow> 'x table_schema" where
  "rename_foreign_key_ref_column table old_name new_name = on_foreign_keys (rename_fk_ref_columns table old_name new_name)"

fun check_references_column :: "string \<Rightarrow> 'x check_expr \<Rightarrow> bool" where
  "check_references_column column (Check_Atom c _) = (c = column)"
| "check_references_column column (Check_And l r) = (check_references_column column l \<or> check_references_column column r)"
| "check_references_column column (Check_Or l r) = (check_references_column column l \<or> check_references_column column r)"
| "check_references_column column (Check_Not e) = check_references_column column e"

text \<open>\<open>to_ascii_lowercase\<close> and the scan of an expression for an identifier.\<close>

definition ascii_lower :: "string \<Rightarrow> string" where
  "ascii_lower = map (\<lambda>c. if CHR ''A'' \<le> c \<and> c \<le> CHR ''Z'' then char_of ((of_char c :: nat) + 32) else c)"

definition word_start :: "char \<Rightarrow> bool" where
  "word_start c \<longleftrightarrow> is_ascii_alphanumeric c \<and> \<not> (CHR ''0'' \<le> c \<and> c \<le> CHR ''9'') \<or> c = CHR ''_''"

definition word_part :: "char \<Rightarrow> bool" where
  "word_part c \<longleftrightarrow> is_ascii_alphanumeric c \<or> c = CHR ''_''"

function sql_expr_mentions_identifier :: "string \<Rightarrow> string \<Rightarrow> bool" where
  "sql_expr_mentions_identifier expr ident =
     (case dropWhile (Not \<circ> word_start) expr of
        [] \<Rightarrow> False
      | c # rest \<Rightarrow>
          ascii_lower (c # takeWhile word_part rest) = ascii_lower ident \<or>
          sql_expr_mentions_identifier (dropWhile word_part rest) ident)"
  by pat_completeness auto
termination
proof (relation "measure (length \<circ> fst)")
  fix expr :: string and ident :: string and c rest
  assume "dropWhile (Not \<circ> word_start) expr = c # rest"
  then have "length rest < length expr"
    using length_dropWhile_le [of "Not \<circ> word_start" expr] by simp
  moreover have "length (dropWhile word_part rest) \<le> length rest" by (rule length_dropWhile_le)
  ultimately show "((dropWhile word_part rest, ident), expr, ident) \<in> measure (length \<circ> fst)" by simp
qed simp

declare sql_expr_mentions_identifier.simps [simp del]

definition cannot_drop :: "string \<Rightarrow> string \<Rightarrow> db_error" where
  "cannot_drop column why = Storage (''cannot drop column '' @ [CHR 0x27] @ column @ [CHR 0x27] @ '' because '' @ why)"

definition schema_drop_column :: "'x table_schema \<Rightarrow> string \<Rightarrow> ('x table_schema \<times> nat) result" where
  "schema_drop_column schema old_name =
     rbind (column_index schema old_name) (\<lambda>removed_index.
     if length (sc_columns schema) = 1
     then Err (Storage (''cannot drop the only column on table '' @ sc_name schema))
     else if cd_primary_key (sc_columns schema ! removed_index)
     then Err (Storage (''cannot drop primary key column '' @ [CHR 0x27] @ old_name @ [CHR 0x27]))
     else if list_ex (\<lambda>c. cd_name c \<noteq> old_name \<and> (case cd_generated_expr c of None \<Rightarrow> False
         | Some expr \<Rightarrow> sql_expr_mentions_identifier expr old_name)) (sc_columns schema)
     then Err (cannot_drop old_name ''generated columns depend on it'')
     else if list_ex (\<lambda>check. check_references_column old_name (ck_expr check))
         (sc_checks schema @ concat (map cd_checks (sc_columns schema)))
     then Err (cannot_drop old_name ''a CHECK constraint depends on it'')
     else if list_ex (\<lambda>uc. old_name \<in> set (uc_columns uc)) (sc_unique_constraints schema)
     then Err (cannot_drop old_name ''a UNIQUE constraint depends on it'')
     else if list_ex (\<lambda>fk. old_name \<in> set (fk_columns fk)) (all_foreign_keys schema)
     then Err (cannot_drop old_name ''a FOREIGN KEY depends on it'')
     else if sc_name schema \<noteq> [] \<and> list_ex (\<lambda>fk. fk_ref_table fk = sc_name schema \<and> has_referenced_column fk old_name)
           (sc_foreign_keys schema) \<or>
         list_ex (\<lambda>fk. fk_ref_table fk = sc_name schema \<and> has_referenced_column fk old_name)
           (List.map_filter cd_foreign_key (sc_columns schema))
     then Err (cannot_drop old_name ''a FOREIGN KEY depends on it'')
     else let updated_schema = schema\<lparr>sc_columns := remove_at removed_index (sc_columns schema)\<rparr>
       in rbind (validate_constraints_metadata updated_schema) (\<lambda>_. Ok (updated_schema, removed_index)))"

section \<open>Values for new columns\<close>

definition normalize_strict_value :: "'x schema_rules \<Rightarrow> 'x table_schema \<Rightarrow> 'x column \<Rightarrow> Value \<Rightarrow> Value result" where
  "normalize_strict_value R schema column v =
     (if v = Null \<or> cd_column_type column = C_Any then Ok v
      else ok_or (Storage (''cannot store '' @ type_name v @ '' value in '' @ column_type_name (cd_column_type column) @
             '' column '' @ sc_name schema @ ''.'' @ cd_name column))
        (case cd_column_type column of
           C_Blob \<Rightarrow> (case v of Blob _ \<Rightarrow> Some v | _ \<Rightarrow> None)
         | C_Numeric \<Rightarrow> if matches_value C_Numeric v then Some v else None
         | C_Boolean \<Rightarrow> if matches_value C_Boolean v then Some v else None
         | type \<Rightarrow> sr_strict_value R type v))"

definition normalize_strict_row_values :: "'x schema_rules \<Rightarrow> 'x table_schema \<Rightarrow> row \<Rightarrow> row result" where
  "normalize_strict_row_values R schema row =
     (if \<not> sc_strict schema then Ok row
      else collect_results (\<lambda>(column, v). normalize_strict_value R schema column v) (zip (sc_columns schema) row))"

definition civil_from_days :: "int \<Rightarrow> int \<times> int \<times> int" where
  "civil_from_days days =
     (let z = days + 719468;
          era = (if 0 \<le> z then z else z - 146096) div 146097;
          doe = z - era * 146097;
          yoe = (doe - doe div 1460 + doe div 36524 - doe div 146096) div 365;
          year = yoe + era * 400;
          doy = doe - (365 * yoe + yoe div 4 - yoe div 100);
          mp = (5 * doy + 2) div 153;
          day = doy - (153 * mp + 2) div 5 + 1;
          month = mp + (if mp < 10 then 3 else - 9)
      in (if month \<le> 2 then year + 1 else year, month, day))"

text \<open>\<open>{n:0w}\<close>, for a number that is not negative, as years since 1970 are.\<close>

definition show_padded :: "nat \<Rightarrow> int \<Rightarrow> string" where
  "show_padded w n = (let digits = show_nat (nat n) in replicate (w - length digits) (CHR ''0'') @ digits)"

definition show_date :: "int \<Rightarrow> string" where
  "show_date seconds = (case civil_from_days (seconds div 86400) of (year, month, day) \<Rightarrow>
     show_padded 4 year @ ''-'' @ show_padded 2 month @ ''-'' @ show_padded 2 day)"

definition show_time :: "int \<Rightarrow> string" where
  "show_time seconds = (let s = seconds mod 86400 in
     show_padded 2 (s div 3600) @ '':'' @ show_padded 2 (s mod 3600 div 60) @ '':'' @ show_padded 2 (s mod 60))"

definition current_seconds :: "'x schema_rules \<Rightarrow> int result" where
  "current_seconds R = rbind (sr_now R) (\<lambda>secs.
     if unat secs < 2 ^ 63 then Ok (uint secs) else Err (Storage ''system clock seconds do not fit in i64''))"

fun column_default_evaluate :: "'x schema_rules \<Rightarrow> column_default \<Rightarrow> Value result" where
  "column_default_evaluate R (Default_Literal v) = Ok v"
| "column_default_evaluate R Current_Timestamp =
     rbind (current_seconds R) (\<lambda>s. Ok (Text (show_date s @ '' '' @ show_time s)))"
| "column_default_evaluate R Current_Date = rbind (current_seconds R) (\<lambda>s. Ok (Text (show_date s)))"
| "column_default_evaluate R Current_Time = rbind (current_seconds R) (\<lambda>s. Ok (Text (show_time s)))"

definition new_column_value :: "'x schema_rules \<Rightarrow> 'x column \<Rightarrow> Value result" where
  "new_column_value R column = (case cd_default_value column of None \<Rightarrow> Ok Null | Some d \<Rightarrow> column_default_evaluate R d)"

section \<open>Shared by the engines\<close>

definition unknown_table :: "string \<Rightarrow> db_error" where
  "unknown_table table = Storage (''unknown table: '' @ table)"

definition table_exists :: "string \<Rightarrow> db_error" where
  "table_exists name = Storage (''table already exists: '' @ name)"

definition column_exists :: "string \<Rightarrow> string \<Rightarrow> db_error" where
  "column_exists table column = Storage (''column already exists on table '' @ table @ '': '' @ column)"

text \<open>\<open>for (k, v) in &mut map\<close>.\<close>

definition map_values :: "('k \<Rightarrow> 'v \<Rightarrow> 'v) \<Rightarrow> ('k \<times> 'v) list \<Rightarrow> ('k \<times> 'v) list" where
  "map_values f = map (\<lambda>(k, v). (k, f k v))"

definition rename_index_columns :: "string \<Rightarrow> string \<Rightarrow> index_meta \<Rightarrow> index_meta" where
  "rename_index_columns old_name new_name meta = meta\<lparr>im_columns := map (rename_in old_name new_name) (im_columns meta)\<rparr>"

end
