(* ===== verification/Sqlite_Varint.thy ===== *)
theory Sqlite_Varint
  imports Prelude
begin

text \<open>
  \<open>src/storage/sqlite3/varint.rs\<close>: SQLite's variable-length integers. \<open>encode_varint\<close> keeps the
  source's three cases and its nine-byte array; \<open>decode_varint\<close> keeps the loop over at most nine
  bytes and the check that the encoding is canonical. Both directions of the round trip are shown:
  decoding what was encoded gives the number back, and only encoder output is accepted.
\<close>

section \<open>Definitions\<close>

definition is_canonical_varint :: "u64 \<Rightarrow> nat \<Rightarrow> bool" where
  "is_canonical_varint v len =
     (if len = 1 then True
      else if 2 \<le> len \<and> len \<le> 8 then push_bit (7 * (len - 1)) 1 \<le> v
      else if len = 9 then 0x00ffffffffffffff < v
      else False)"

text \<open>The loop of the nine-byte case, over \<open>index\<close> from 7 down to 0.\<close>

fun varint_high :: "nat \<Rightarrow> u64 \<Rightarrow> byte list \<Rightarrow> byte list" where
  "varint_high 0 v bytes = bytes"
| "varint_high (Suc i) v bytes =
     varint_high i (drop_bit 7 v) (bytes[i := ucast (v AND 0x7f) OR 0x80])"

text \<open>The \<open>while value > 0\<close> loop, with the array and the index it has reached.\<close>

lemma drop_bit_7_less: "0 < v \<Longrightarrow> unat (drop_bit 7 v) < unat v" for v :: u64
proof -
  assume "0 < v"
  then have "0 < unat v" by (simp add: word_less_nat_alt)
  moreover have "unat (drop_bit 7 v) = unat v div 128"
    by (simp only: unat_drop_bit) simp
  ultimately show ?thesis by simp
qed

function varint_loop :: "u64 \<Rightarrow> byte list \<Rightarrow> nat \<Rightarrow> byte list \<times> nat" where
  "varint_loop v bytes i =
     (if 0 < v then
        let bytes' = bytes[i := ucast (v AND 0x7f)]; v' = drop_bit 7 v
        in if v' = 0 then (bytes', i) else varint_loop v' bytes' (i - 1)
      else (bytes, i))"
  by pat_completeness auto
termination
  by (relation "measure (\<lambda>(v, bytes, i). unat v)") (auto dest: drop_bit_7_less)

declare varint_loop.simps [simp del]

definition encode_varint :: "u64 \<Rightarrow> byte list" where
  "encode_varint v =
     (if v \<le> 0x7f then [ucast v]
      else if 0x00ffffffffffffff < v then
        varint_high 8 (drop_bit 8 v) ((replicate 9 0)[8 := ucast (v AND 0xff)])
      else
        let (bytes, i) = varint_loop v (replicate 9 0) 8;
            marked = take i bytes @ map (\<lambda>b. b OR 0x80) (slice i 8 bytes) @ drop 8 bytes
        in slice i 9 marked)"

fun decode_varint_loop :: "nat \<Rightarrow> u64 \<Rightarrow> byte list \<Rightarrow> (u64 \<times> nat) result" where
  "decode_varint_loop index v [] = Err (Storage ''truncated sqlite varint'')"
| "decode_varint_loop index v (b # bs) =
     (if index = 8 then
        let v' = push_bit 8 v OR ucast b
        in if is_canonical_varint v' 9 then Ok (v', 9)
           else Err (Storage ''non-canonical sqlite varint'')
      else
        let v' = push_bit 7 v OR ucast (b AND 0x7f)
        in if b AND 0x80 = 0 then
             if is_canonical_varint v' (index + 1) then Ok (v', index + 1)
             else Err (Storage ''non-canonical sqlite varint'')
           else decode_varint_loop (index + 1) v' bs)"

definition decode_varint :: "byte list \<Rightarrow> (u64 \<times> nat) result" where
  "decode_varint bytes = decode_varint_loop 0 0 (take 9 bytes)"

section \<open>Base-128 digits\<close>

text \<open>The \<open>n\<close> low base-128 digits of a number, most significant first, and Horner's rule.\<close>

fun digits7 :: "nat \<Rightarrow> nat \<Rightarrow> nat list" where
  "digits7 0 v = []"
| "digits7 (Suc n) v = digits7 n (v div 128) @ [v mod 128]"

definition horner7 :: "nat \<Rightarrow> nat list \<Rightarrow> nat" where
  "horner7 a ds = fold (\<lambda>d a. a * 128 + d) ds a"

lemma length_digits7 [simp]: "length (digits7 n v) = n"
  by (induction n arbitrary: v) auto

lemma digits7_less: "d \<in> set (digits7 n v) \<Longrightarrow> d < 128"
  by (induction n arbitrary: v) auto

lemma horner7_Nil [simp]: "horner7 a [] = a"
  by (simp add: horner7_def)

lemma horner7_Cons [simp]: "horner7 a (d # ds) = horner7 (a * 128 + d) ds"
  by (simp add: horner7_def)

lemma horner7_append [simp]: "horner7 a (xs @ ys) = horner7 (horner7 a xs) ys"
  by (simp add: horner7_def)

lemma horner7_digits7: "v < 128 ^ n \<Longrightarrow> horner7 0 (digits7 n v) = v"
proof (induction n arbitrary: v)
  case (Suc n)
  then have "v div 128 < 128 ^ n" by (simp add: less_mult_imp_div_less mult.commute)
  with Suc.IH [of "v div 128"] show ?case by simp
qed simp

lemma horner7_less:
  "a < 128 ^ k \<Longrightarrow> \<forall>d \<in> set ds. d < 128 \<Longrightarrow> horner7 a ds < 128 ^ (k + length ds)"
proof (induction ds arbitrary: a k)
  case (Cons d ds)
  then have "a * 128 + d < 128 ^ Suc k" by simp
  with Cons show ?case by fastforce
qed simp

lemma digits7_horner7: "\<forall>d \<in> set ds. d < 128 \<Longrightarrow> digits7 (length ds) (horner7 0 ds) = ds"
  by (induction ds rule: rev_induct) auto

text \<open>A continuation byte: seven payload bits below a set high bit.\<close>

definition mark7 :: "nat \<Rightarrow> byte" where
  "mark7 d = word_of_nat d OR 0x80"

lemma unat_word_of_nat_byte: "d < 256 \<Longrightarrow> unat (word_of_nat d :: byte) = d"
  by (simp add: unat_of_nat take_bit_nat_eq_self)

lemma unat_mark7: "d < 128 \<Longrightarrow> unat (mark7 d) = d + 128"
  by (simp add: mark7_def unat_or_80 unat_word_of_nat_byte)

lemma mark7_of_byte: "128 \<le> unat b \<Longrightarrow> mark7 (unat b mod 128) = b"
proof -
  assume b: "128 \<le> unat b"
  then have "unat b mod 128 = unat b - 128" 
    using byte_lt [of b] by (simp add: le_mod_geq less_diff_conv2)
  with b have "unat (mark7 (unat b mod 128)) = unat b"
    using unat_mark7 [of "unat b mod 128"] by simp
  then show ?thesis by (rule unsigned_word_eqI)
qed

lemma ucast_eq_of_nat: "(ucast w :: byte) = word_of_nat (unat w)" for w :: u64
  by (rule unsigned_word_eqI) (simp add: unsigned_ucast_eq unat_of_nat)

lemma ucast_and_7f: "(ucast (v AND 0x7f) :: byte) = word_of_nat (unat v mod 128)" for v :: u64
  by (simp only: ucast_eq_of_nat) (simp add: unat_and_7f)

lemma ucast_and_ff: "(ucast (v AND 0xff) :: byte) = word_of_nat (unat v mod 256)" for v :: u64
  by (simp only: ucast_eq_of_nat) (simp add: unat_and_ff)

section \<open>What the encoder writes\<close>

lemma varint_high_eq:
  "k \<le> length bytes \<Longrightarrow>
     varint_high k v bytes = map mark7 (digits7 k (unat v)) @ drop k bytes"
proof (induction k arbitrary: v bytes)
  case (Suc k)
  let ?b = "mark7 (unat v mod 128)"
  have "varint_high (Suc k) v bytes = varint_high k (drop_bit 7 v) (bytes[k := ?b])"
    by (simp only: varint_high.simps ucast_and_7f mark7_def)
  also have "\<dots> = map mark7 (digits7 k (unat v div 128)) @ drop k (bytes[k := ?b])"
    using Suc by (simp add: unat_drop_bit)
  also have "drop k (bytes[k := ?b]) = ?b # drop (Suc k) bytes"
    using Suc.prems by (simp add: Cons_nth_drop_Suc [symmetric] drop_update_swap)
  finally show ?case by simp
qed simp

text \<open>
  The number of groups of a positive number below \<open>2 ^ 63\<close>: \<open>n\<close> with
  \<open>128 ^ (n - 1) \<le> v < 128 ^ n\<close>.
\<close>

lemma varint_loop_eq:
  assumes "128 ^ n \<le> unat v * 128" "unat v < 128 ^ n" "0 < unat v" "n \<le> Suc i" "i < length bytes"
  shows "varint_loop v bytes i =
    (take (Suc i - n) bytes @ map word_of_nat (digits7 n (unat v)) @ drop (Suc i) bytes, Suc i - n)"
  using assms
proof (induction v bytes i arbitrary: n rule: varint_loop.induct)
  case (1 v bytes i)
  let ?v' = "drop_bit 7 v" and ?x = "word_of_nat (unat v mod 128) :: byte"
  have v': "unat ?v' = unat v div 128" by (simp only: unat_drop_bit) simp
  have pos: "0 < v" using "1.prems"(3) by (simp add: word_less_nat_alt)
  obtain m where n: "n = Suc m" using "1.prems"(2,3) by (cases n) auto
  have upd: "bytes[i := ?x] = take i bytes @ ?x # drop (Suc i) bytes"
    using "1.prems"(5) by (rule upd_conv_take_nth_drop)
  have unf: "varint_loop v bytes i =
      (if ?v' = 0 then (bytes[i := ?x], i) else varint_loop ?v' (bytes[i := ?x]) (i - 1))"
    using pos by (subst varint_loop.simps) (simp add: ucast_and_7f Let_def)
  show ?case
  proof (cases "?v' = 0")
    case True
    then have lt: "unat v < 128" using v' by (simp add: div_eq_0_iff)
    have "m = 0"
    proof (rule ccontr)
      assume "m \<noteq> 0"
      then have "(128::nat) * 128 \<le> 128 ^ n" by (cases m) (auto simp: n)
      with "1.prems"(1) lt show False by simp
    qed
    with True unf upd lt show ?thesis by (simp add: n)
  next
    case False
    then have pos': "0 < unat v div 128" using v' by (metis gr0I unat_eq_zero)
    have m1: "m \<noteq> 0" using pos' "1.prems"(2) by (cases m) (auto simp: n)
    have "128 ^ m \<le> unat v" using "1.prems"(1) by (simp add: n)
    then have lo: "128 ^ m \<le> unat ?v' * 128"
      using m1 by (cases m) (auto simp: v' less_eq_div_iff_mult_less_eq mult.commute)
    have hi: "unat ?v' < 128 ^ m"
      using "1.prems"(2) by (simp add: v' n less_mult_imp_div_less mult.commute)
    have i: "i \<noteq> 0" using m1 "1.prems"(4) by (simp add: n)
    have IH: "varint_loop ?v' (bytes[i := ?x]) (i - 1) =
        (take (i - m) (bytes[i := ?x]) @ map word_of_nat (digits7 m (unat ?v')) @
         drop i (bytes[i := ?x]), i - m)"
      using "1.IH" [OF pos refl refl False lo hi] pos' "1.prems"(4,5) i
      by (simp add: v' n ucast_and_7f)
    have "take (i - m) (bytes[i := ?x]) = take (i - m) bytes" by simp
    moreover have "drop i (bytes[i := ?x]) = ?x # drop (Suc i) bytes"
      using "1.prems"(5) by (simp add: upd)
    ultimately show ?thesis using unf IH False by (simp add: n v')
  qed
qed

text \<open>The three cases of the encoder as digit lists.\<close>

lemma encode_varint_small: "unat v < 128 \<Longrightarrow> encode_varint v = [word_of_nat (unat v)]"
proof -
  assume "unat v < 128"
  then have "v \<le> 0x7f" by (simp add: word_le_nat_alt)
  then show ?thesis by (simp only: encode_varint_def if_True ucast_eq_of_nat)
qed

lemma array9: "(replicate 9 (0::byte))[8 := x] = replicate 8 0 @ [x]"
proof -
  have "replicate 9 (0::byte) = replicate 8 0 @ [0]"
    using replicate_add [of 8 1 "0::byte"] by simp
  then show ?thesis by (simp add: list_update_append)
qed

lemma groups7_less_8: "v < 2 ^ 56 \<Longrightarrow> 128 ^ n \<le> v \<Longrightarrow> n < 8" for v :: nat
proof (rule ccontr)
  assume v: "v < 2 ^ 56" "128 ^ n \<le> v" and "\<not> n < 8"
  then have "(128::nat) ^ 8 \<le> 128 ^ n" by (intro power_increasing) auto
  with v show False by simp
qed

lemma encode_varint_mid:
  assumes "128 \<le> unat v" "unat v < 2 ^ 56" "128 ^ n \<le> unat v" "unat v < 128 ^ Suc n"
  shows "encode_varint v = map mark7 (digits7 n (unat v div 128)) @ [word_of_nat (unat v mod 128)]"
proof -
  have n8: "n < 8" using assms(2,3) by (rule groups7_less_8)
  let ?ds = "digits7 n (unat v div 128)" and ?x = "word_of_nat (unat v mod 128) :: byte"
  let ?a = "replicate (8 - n) (0::byte) @ map word_of_nat ?ds @ [?x]"
  have loop: "varint_loop v (replicate 9 0) 8 = (?a, 8 - n)"
  proof -
    have a: "128 ^ Suc n \<le> unat v * 128" using assms(3) by simp
    have b: "0 < unat v" using assms(1) by linarith
    have c: "take (Suc 8 - Suc n) (replicate 9 (0::byte)) = replicate (8 - n) 0"
      by (simp add: min_def)
    have d: "Suc n \<le> Suc 8" "8 < length (replicate 9 (0::byte))" using n8 by simp_all
    show ?thesis
      by (subst varint_loop_eq [OF a assms(4) b d]) (simp only: c, simp)
  qed
  have small: "\<not> v \<le> 0x7f" "\<not> 0x00ffffffffffffff < v"
    using assms(1,2) by (simp_all add: word_le_nat_alt word_less_nat_alt)
  have sl: "slice (8 - n) 8 ?a = map word_of_nat ?ds" and dr: "drop 8 ?a = [?x]"
    and tk: "take (8 - n) ?a = replicate (8 - n) 0"
    using n8 by (simp_all add: slice_def)
  have mk: "map (\<lambda>b. b OR 0x80) (map word_of_nat ?ds) = map mark7 ?ds"
    by (simp add: mark7_def)
  have "encode_varint v = slice (8 - n) 9 (replicate (8 - n) 0 @ map mark7 ?ds @ [?x])"
    by (simp only: encode_varint_def small loop Let_def if_False prod.case sl dr tk mk)
  also have "\<dots> = map mark7 ?ds @ [?x]"
    using n8 by (simp add: slice_def)
  finally show ?thesis .
qed

lemma encode_varint_big:
  assumes "2 ^ 56 \<le> unat v"
  shows "encode_varint v = map mark7 (digits7 8 (unat v div 256)) @ [word_of_nat (unat v mod 256)]"
proof -
  have "\<not> v \<le> 0x7f" "0x00ffffffffffffff < v"
    using assms by (simp_all add: word_le_nat_alt word_less_nat_alt)
  then have "encode_varint v =
      varint_high 8 (drop_bit 8 v) ((replicate 9 0)[8 := word_of_nat (unat v mod 256)])"
    by (simp add: encode_varint_def ucast_and_ff)
  also have "\<dots> = map mark7 (digits7 8 (unat v div 256)) @
      drop 8 ((replicate 9 0)[8 := word_of_nat (unat v mod 256)])"
    by (subst varint_high_eq) (simp_all only: unat_drop_bit, simp_all)
  also have "drop 8 ((replicate 9 0)[8 := word_of_nat (unat v mod 256)]) =
      [word_of_nat (unat v mod 256) :: byte]"
    by (simp add: array9)
  finally show ?thesis .
qed

text \<open>Every number has a group count.\<close>

lemma groups7_exist: "0 < v \<Longrightarrow> \<exists>n. 128 ^ n \<le> v \<and> v < (128::nat) ^ Suc n"
proof -
  assume v: "0 < v"
  let ?k = "LEAST k. v < 128 ^ k"
  have "v < 128 ^ v" by (rule less_trans [OF less_exp]) (use v in \<open>auto intro: power_strict_mono\<close>)
  then have k: "v < 128 ^ ?k" by (rule LeastI)
  then obtain n where n: "?k = Suc n" using v by (cases ?k) auto
  then have "\<not> v < 128 ^ n" using not_less_Least [of n "\<lambda>k. v < 128 ^ k"] by simp
  with k n show ?thesis by (metis not_less)
qed

section \<open>What the decoder accepts\<close>

lemma unat_decode_step:
  fixes v :: u64 and b :: byte
  assumes "unat v < 128 ^ k" "k \<le> 8"
  shows "unat (push_bit 7 v OR ucast (b AND 0x7f)) = unat v * 128 + unat b mod 128"
proof -
  have "(128::nat) ^ k \<le> 128 ^ 8" using assms(2) by (intro power_increasing) auto
  with assms(1) have v: "unat v < 2 ^ (64 - 7)" by simp
  have b: "unat (ucast (b AND 0x7f) :: u64) = unat b mod 128"
    by (simp add: unat_ucast_byte unat_and_7f)
  with v unat_push_or [of v 7 "ucast (b AND 0x7f)"] show ?thesis by simp
qed

lemma unat_decode_last:
  fixes v :: u64 and b :: byte
  assumes "unat v < 128 ^ 8"
  shows "unat (push_bit 8 v OR ucast b) = unat v * 256 + unat b"
proof -
  show ?thesis
    using assms unat_push_or [of v 8 "ucast b"] by (simp add: unat_ucast_byte)
qed

lemma canonical_iff:
  "n < 8 \<Longrightarrow> is_canonical_varint v (Suc n) \<longleftrightarrow> n = 0 \<or> 128 ^ n \<le> unat v"
proof -
  assume n: "n < 8"
  have "unat (push_bit (7 * n) 1 :: u64) = 128 ^ n"
  proof -
    have "(2::nat) ^ (7 * n) < 2 ^ 64" using n by (intro power_strict_increasing) auto
    then have "unat (push_bit (7 * n) 1 :: u64) = 2 ^ (7 * n)"
      using n by (simp only: unsigned_push_bit_eq) (simp add: take_bit_nat_eq_self push_bit_eq_mult)
    then show ?thesis by (simp add: power_mult)
  qed
  with n show ?thesis by (auto simp: is_canonical_varint_def word_le_nat_alt)
qed

lemma canonical_9_iff: "is_canonical_varint v 9 \<longleftrightarrow> 2 ^ 56 \<le> unat v"
  by (auto simp: is_canonical_varint_def word_less_nat_alt)

lemma decode_loop_continuation:
  assumes "\<forall>d \<in> set ds. d < 128" "unat v < 128 ^ k" "k + length ds \<le> 8"
  shows "\<exists>w. unat w = horner7 (unat v) ds \<and>
    decode_varint_loop k v (map mark7 ds @ rest) = decode_varint_loop (k + length ds) w rest"
  using assms
proof (induction ds arbitrary: k v)
  case (Cons d ds)
  let ?w = "push_bit 7 v OR ucast (mark7 d AND 0x7f) :: u64"
  have d: "d < 128" using Cons.prems(1) by simp
  have w: "unat ?w = unat v * 128 + d"
    using Cons.prems d by (simp only: unat_decode_step unat_mark7) simp
  with Cons.prems d have "unat ?w < 128 ^ Suc k" by simp
  then obtain u where "unat u = horner7 (unat ?w) ds"
    "decode_varint_loop (Suc k) ?w (map mark7 ds @ rest) = decode_varint_loop (Suc k + length ds) u rest"
    using Cons.IH [of ?w "Suc k"] Cons.prems by auto
  moreover have "mark7 d AND 0x80 \<noteq> 0" using d by (simp add: and_80 unat_mark7)
  ultimately show ?case using Cons.prems(3) w by (auto simp: Let_def)
qed auto

text \<open>The shape of the bytes read when decoding succeeds, with the number they stand for.\<close>

definition varint_shape :: "nat \<Rightarrow> u64 \<Rightarrow> byte list \<Rightarrow> u64 \<Rightarrow> nat \<Rightarrow> nat list \<Rightarrow> byte \<Rightarrow> bool" where
  "varint_shape k v bs r n ds b \<longleftrightarrow>
     take (Suc (length ds)) bs = map mark7 ds @ [b] \<and> n = Suc (k + length ds) \<and> (\<forall>d \<in> set ds. d < 128) \<and>
     is_canonical_varint r n \<and>
     (if n \<le> 8 then unat b < 128 \<and> unat r = horner7 (unat v) ds * 128 + unat b
      else n = 9 \<and> unat r = horner7 (unat v) ds * 256 + unat b)"

lemma decode_loop_acceptsD:
  assumes "decode_varint_loop k v bs = Ok (r, n)" "unat v < 128 ^ k" "k \<le> 8"
  shows "\<exists>ds b. varint_shape k v bs r n ds b"
  using assms
proof (induction k v bs arbitrary: r n rule: decode_varint_loop.induct)
  case (1 k v)
  then show ?case by simp
next
  case (2 k v b bs)
  let ?w = "push_bit 7 v OR ucast (b AND 0x7f) :: u64"
  have w: "unat ?w = unat v * 128 + unat b mod 128"
    using "2.prems" by (intro unat_decode_step)
  show ?case
  proof (cases "k = 8")
    case True
    with "2.prems" have "varint_shape k v (b # bs) r n [] b"
      by (auto simp: varint_shape_def Let_def unat_decode_last split: if_splits)
    then show ?thesis by blast
  next
    case k: False
    show ?thesis
    proof (cases "unat b < 128")
      case True
      with "2.prems" k w have "varint_shape k v (b # bs) r n [] b"
        by (auto simp: varint_shape_def Let_def and_80 split: if_splits)
      then show ?thesis by blast
    next
      case False
      have "unat ?w < 128 ^ Suc k" using w "2.prems"(2) by simp
      moreover have "decode_varint_loop (Suc k) ?w bs = Ok (r, n)"
        using "2.prems"(1) k False by (simp add: Let_def and_80)
      ultimately obtain ds c where "varint_shape (Suc k) ?w bs r n ds c"
        using "2.IH" [OF k refl] k False "2.prems"(3) by (auto simp: and_80)
      then have "varint_shape k v (b # bs) r n (unat b mod 128 # ds) c"
        using False by (auto simp: varint_shape_def w mark7_of_byte split: if_splits)
      then show ?thesis by blast
    qed
  qed
qed

section \<open>Round trips\<close>

lemma digits7_all_less: "\<forall>d \<in> set (digits7 n v). d < 128"
  using digits7_less by blast

lemma decode_varint_loop_of_encoding:
  assumes "v < 128 ^ n" "n \<le> 8"
  shows "\<exists>w. unat w = v \<and>
    decode_varint_loop 0 0 (map mark7 (digits7 n v) @ rest) = decode_varint_loop n w rest"
  using decode_loop_continuation [of "digits7 n v" 0 0 rest] assms
  by (auto simp: digits7_all_less horner7_digits7)

lemma decode_varint_take9:
  assumes "length xs \<le> 9"
  shows "decode_varint (xs @ rest) = decode_varint_loop 0 0 (xs @ take (9 - length xs) rest)"
  using assms by (simp add: decode_varint_def)

lemma length_encode_varint: "1 \<le> length (encode_varint v) \<and> length (encode_varint v) \<le> 9"
proof -
  consider "unat v < 128" | "128 \<le> unat v" "unat v < 2 ^ 56" | "2 ^ 56 \<le> unat v"
    by linarith
  then show ?thesis
  proof cases
    case 2
    then obtain n where n: "128 ^ n \<le> unat v" "unat v < 128 ^ Suc n"
      using groups7_exist [of "unat v"] by auto
    have "n < 8" using 2(2) n(1) by (rule groups7_less_8)
    then show ?thesis by (simp add: encode_varint_mid [OF 2 n])
  qed (simp_all add: encode_varint_small encode_varint_big)
qed

lemma decode_loop_final:
  assumes "k < 8" "unat w < 128 ^ k" "unat b < 128" "unat v = unat w * 128 + unat b"
    "k = 0 \<or> 128 ^ k \<le> unat v"
  shows "decode_varint_loop k w (b # rest) = Ok (v, Suc k)"
proof -
  have "unat (push_bit 7 w OR ucast (b AND 0x7f)) = unat v"
    using unat_decode_step [of w k b] assms by simp
  then have "push_bit 7 w OR ucast (b AND 0x7f) = v" by (rule unsigned_word_eqI)
  moreover have "is_canonical_varint v (Suc k)" using assms by (simp add: canonical_iff)
  ultimately show ?thesis using assms by (simp add: and_80)
qed

lemma decode_loop_final9:
  assumes "unat w < 128 ^ 8" "unat v = unat w * 256 + unat b" "2 ^ 56 \<le> unat v"
  shows "decode_varint_loop 8 w (b # rest) = Ok (v, 9)"
proof -
  have "unat (push_bit 8 w OR ucast b) = unat v"
    using unat_decode_last [of w b] assms by simp
  then have "push_bit 8 w OR ucast b = v" by (rule unsigned_word_eqI)
  then show ?thesis using assms(3) by (simp add: canonical_9_iff)
qed

lemma decode_varint_encode: "decode_varint (encode_varint v @ rest) = Ok (v, length (encode_varint v))"
proof -
  let ?e = "encode_varint v"
  consider "unat v < 128" | "128 \<le> unat v" "unat v < 2 ^ 56" | "2 ^ 56 \<le> unat v"
    by linarith
  then have "decode_varint_loop 0 0 (?e @ rest') = Ok (v, length ?e)" for rest'
  proof cases
    case 1
    then show ?thesis
      by (simp only: encode_varint_small append.simps, subst decode_loop_final)
        (simp_all only: unat_word_of_nat_byte, simp_all)
  next
    case 2
    then obtain n where n: "128 ^ n \<le> unat v" "unat v < 128 ^ Suc n"
      using groups7_exist [of "unat v"] by auto
    have len: "n < 8" using 2(2) n(1) by (rule groups7_less_8)
    have "unat v div 128 < 128 ^ n" using n(2) by (simp add: less_mult_imp_div_less mult.commute)
    then obtain w where w: "unat w = unat v div 128" and loop:
      "decode_varint_loop 0 0 (map mark7 (digits7 n (unat v div 128)) @ word_of_nat (unat v mod 128) # rest')
       = decode_varint_loop n w (word_of_nat (unat v mod 128) # rest')"
      using decode_varint_loop_of_encoding [of "unat v div 128" n] len by (metis less_imp_le)
    have "decode_varint_loop n w (word_of_nat (unat v mod 128) # rest') = Ok (v, Suc n)"
      using len n w \<open>unat v div 128 < 128 ^ n\<close>
      by (intro decode_loop_final) (simp_all only: unat_word_of_nat_byte, simp_all)
    then show ?thesis by (simp add: encode_varint_mid [OF 2 n] loop)
  next
    case 3
    have lt: "unat v div 256 < 128 ^ 8"
    proof -
      have "unat v < 2 ^ LENGTH(64)" by (rule unsigned_less)
      then show ?thesis by (simp add: less_mult_imp_div_less)
    qed
    then obtain w where w: "unat w = unat v div 256" and loop:
      "decode_varint_loop 0 0 (map mark7 (digits7 8 (unat v div 256)) @ word_of_nat (unat v mod 256) # rest')
       = decode_varint_loop 8 w (word_of_nat (unat v mod 256) # rest')"
      using decode_varint_loop_of_encoding [of "unat v div 256" 8] by (metis order_refl)
    have "decode_varint_loop 8 w (word_of_nat (unat v mod 256) # rest') = Ok (v, 9)"
      using lt 3 w by (intro decode_loop_final9) (simp_all only: unat_word_of_nat_byte, simp_all)
    then show ?thesis by (simp add: encode_varint_big [OF 3] loop)
  qed
  then show ?thesis using length_encode_varint [of v] by (simp add: decode_varint_take9)
qed

lemma decode_varint_sound:
  assumes "decode_varint bs = Ok (v, n)"
  shows "take n bs = encode_varint v \<and> n \<le> length bs"
proof -
  obtain ds b where sh: "varint_shape 0 0 (take 9 bs) v n ds b"
    using assms decode_loop_acceptsD [of 0 0 "take 9 bs" v n] by (auto simp: decode_varint_def)
  define h where "h = horner7 0 ds"
  from sh have n: "n = Suc (length ds)" and ds: "\<forall>d \<in> set ds. d < 128" and "n \<le> 9"
    and bytes: "take n (take 9 bs) = map mark7 ds @ [b]"
    by (auto simp: varint_shape_def split: if_splits)
  then have tk: "take n bs = map mark7 ds @ [b]" by (simp add: min_def)
  then have len: "n \<le> length bs" using n by (metis length_append_singleton length_map length_take min.cobounded1)
  have dh: "digits7 (length ds) h = ds" using ds by (simp add: h_def digits7_horner7)
  have h: "h < 128 ^ length ds" using horner7_less [of 0 0 ds] ds by (simp add: h_def)
  have "encode_varint v = map mark7 ds @ [b]"
  proof (cases "n \<le> 8")
    case True
    with sh n have b: "unat b < 128" and v: "unat v = h * 128 + unat b"
      and can: "length ds = 0 \<or> 128 ^ length ds \<le> unat v"
      by (auto simp: varint_shape_def h_def canonical_iff)
    from v b have dm: "unat v div 128 = h" "unat v mod 128 = unat b" by simp_all
    show ?thesis
    proof (cases "ds = []")
      case True
      then show ?thesis using v b by (subst encode_varint_small) (simp_all add: h_def)
    next
      case False
      then have c: "128 ^ length ds \<le> unat v" using can by simp
      have "128 \<le> unat v"
        using c False by (cases ds) (auto intro: order_trans [of _ "128 * 128 ^ length (tl ds)"])
      moreover have hi: "unat v < 128 ^ Suc (length ds)" using h v b by simp
      moreover have "unat v < 2 ^ 56"
      proof -
        have "(128::nat) ^ Suc (length ds) \<le> 128 ^ 8" using True n by (intro power_increasing) auto
        with hi show ?thesis by simp
      qed
      ultimately show ?thesis using encode_varint_mid [of v "length ds"] c by (simp add: dm dh)
    qed
  next
    case False
    with sh n have v: "unat v = h * 256 + unat b" and "2 ^ 56 \<le> unat v" and l: "length ds = 8"
      by (auto simp: varint_shape_def h_def canonical_9_iff)
    moreover have "unat v div 256 = h" "unat v mod 256 = unat b" using v byte_lt [of b] by simp_all
    ultimately show ?thesis using encode_varint_big [of v] dh by simp
  qed
  with tk len show ?thesis by simp
qed

section \<open>Properties\<close>

text \<open>
  Decoding a byte string that starts with the encoding of \<open>v\<close> gives \<open>v\<close> back and
  consumes exactly that encoding, whatever follows it; the encoding has one to nine bytes.
\<close>

lemma varint_decode_after_encode:
  "decode_varint (encode_varint v @ rest) = Ok (v, length (encode_varint v)) \<and>
   1 \<le> length (encode_varint v) \<and> length (encode_varint v) \<le> 9"
  using decode_varint_encode length_encode_varint by blast



end
