(* ===== verification/Sqlite_Record.thy ===== *)
theory Sqlite_Record
  imports Values Sqlite_Varint
begin

text \<open>
  \<open>src/storage/sqlite3/record.rs\<close>: the SQLite record format, a header of serial types followed by
  the payload. \<open>encode_record\<close> and \<open>decode_record\<close> are translated with every error branch, the
  loop that finds the header size included (it terminates because the length of a varint is
  monotone). The round trip holds up to \<open>stored_value\<close>: the integers 0 and 1 use the serial types 8
  and 9, which the decoder reads as booleans.
\<close>

section \<open>Definitions\<close>

definition integer_len :: "u64 \<Rightarrow> nat" where
  "integer_len serial =
     (if serial = 1 then 1 else if serial = 2 then 2 else if serial = 3 then 3
      else if serial = 4 then 4 else if serial = 5 then 6 else if serial = 6 then 8 else 0)"

definition decode_integer :: "byte list \<Rightarrow> i64" where
  "decode_integer sl =
     (let sign_byte = (case sl of [] \<Rightarrow> 0x00 | b # _ \<Rightarrow> if b AND 0x80 \<noteq> 0 then 0xff else 0x00)
      in from_be_bytes (replicate (8 - length sl) sign_byte @ sl))"

definition integer_serial_type :: "i64 \<Rightarrow> u64" where
  "integer_serial_type v =
     (if v = 0 then 8
      else if v = 1 then 9
      else if -128 \<le> sint v \<and> sint v \<le> 127 then 1
      else if -32768 \<le> sint v \<and> sint v \<le> 32767 then 2
      else if -8388608 \<le> sint v \<and> sint v \<le> 8388607 then 3
      else if -2147483648 \<le> sint v \<and> sint v \<le> 2147483647 then 4
      else if -140737488355328 \<le> sint v \<and> sint v \<le> 140737488355327 then 5
      else 6)"

text \<open>What \<open>append_integer_payload\<close> adds; the last arm of the match is \<open>unreachable!\<close>.\<close>

definition append_integer_payload :: "byte list \<Rightarrow> i64 \<Rightarrow> u64 \<Rightarrow> byte list result" where
  "append_integer_payload payload v serial =
     (if serial = 8 \<or> serial = 9 then Ok payload
      else if 1 \<le> serial \<and> serial \<le> 6 then
        Ok (payload @ drop (8 - integer_len serial) (to_be_bytes 8 v))
      else Panic ''invalid sqlite integer serial type'')"

text \<open>The body of the loop over the values: the serial type and the extended payload.\<close>

fun encode_value :: "byte list \<Rightarrow> Value \<Rightarrow> (u64 \<times> byte list) result" where
  "encode_value payload Null = Ok (0, payload)"
| "encode_value payload (Boolean b) = Ok (if b then 9 else 8, payload)"
| "encode_value payload (Integer n) =
     (let serial = integer_serial_type n
      in rbind (append_integer_payload payload n serial) (\<lambda>payload'. Ok (serial, payload')))"
| "encode_value payload (Real bits) = Ok (7, payload @ to_be_bytes 8 bits)"
| "encode_value payload (Blob blob) =
     rbind (ok_or (Storage ''sqlite blob value is too large'') (u64_try_from (length blob))) (\<lambda>len.
     rbind (ok_or (Storage ''sqlite blob serial type overflow'')
       (Option.bind (checked_mul len 2) (\<lambda>x. checked_add x 12))) (\<lambda>serial.
     Ok (serial, payload @ blob)))"
| "encode_value payload (Text text) =
     rbind (ok_or (Storage ''sqlite text value is too large'') (u64_try_from (length text))) (\<lambda>len.
     rbind (ok_or (Storage ''sqlite text serial type overflow'')
       (Option.bind (checked_mul len 2) (\<lambda>x. checked_add x 13))) (\<lambda>serial.
     Ok (serial, payload @ as_bytes text)))"

fun encode_values :: "byte list \<Rightarrow> byte list \<Rightarrow> Value list \<Rightarrow> (byte list \<times> byte list) result" where
  "encode_values header payload [] = Ok (header, payload)"
| "encode_values header payload (v # vs) =
     rbind (encode_value payload v) (\<lambda>(serial, payload').
       encode_values (header @ encode_varint serial) payload' vs)"

definition size_varint_len :: "nat \<Rightarrow> nat result" where
  "size_varint_len header_size =
     rbind (ok_or (Storage ''sqlite record header is too large'') (u64_try_from header_size))
       (\<lambda>w. Ok (length (encode_varint w)))"

text \<open>How many bytes the varint of a number takes, as a function of the number.\<close>

lemma length_encode_varint_le_iff:
  assumes "1 \<le> k" "k \<le> 8"
  shows "length (encode_varint v) \<le> k \<longleftrightarrow> unat v < 128 ^ k"
proof -
  have mono: "(128::nat) ^ a \<le> 128 ^ b" if "a \<le> b" for a b
    using that by (intro power_increasing) auto
  consider "unat v < 128" | "128 \<le> unat v" "unat v < 2 ^ 56" | "2 ^ 56 \<le> unat v"
    by linarith
  then show ?thesis
  proof cases
    case 1
    then have "unat v < 128 ^ k" using mono [OF assms(1)] by simp
    with 1 assms show ?thesis by (simp add: encode_varint_small)
  next
    case 2
    then obtain n where n: "128 ^ n \<le> unat v" "unat v < 128 ^ Suc n"
      using groups7_exist [of "unat v"] by auto
    have "Suc n \<le> k \<longleftrightarrow> unat v < 128 ^ k"
    proof (cases "Suc n \<le> k")
      case True
      then show ?thesis using n(2) mono [of "Suc n" k] by linarith
    next
      case False
      then show ?thesis using n(1) mono [of k n] by linarith
    qed
    then show ?thesis by (simp add: encode_varint_mid [OF 2 n])
  next
    case 3
    have "\<not> unat v < 128 ^ k" using 3 mono [OF assms(2)] by simp
    with 3 assms show ?thesis by (simp add: encode_varint_big)
  qed
qed

lemma length_encode_varint_mono: "v \<le> w \<Longrightarrow> length (encode_varint v) \<le> length (encode_varint w)"
proof -
  assume "v \<le> w"
  then have le: "unat v \<le> unat w" by (simp add: word_le_nat_alt)
  show ?thesis
  proof (cases "length (encode_varint w) \<le> 8")
    case True
    then have "unat w < 128 ^ length (encode_varint w)"
      using length_encode_varint [of w] length_encode_varint_le_iff by blast
    with le have "unat v < 128 ^ length (encode_varint w)" by linarith
    then show ?thesis
      using True length_encode_varint [of w] length_encode_varint_le_iff by blast
  next
    case False
    then show ?thesis using length_encode_varint [of v] length_encode_varint [of w] by linarith
  qed
qed

text \<open>One turn of the loop: the total size that goes with a guess of it.\<close>

definition next_size :: "nat \<Rightarrow> nat \<Rightarrow> nat" where
  "next_size hlen s = hlen + length (encode_varint (word_of_nat s))"

lemma size_varint_len_Ok:
  "size_varint_len s = Ok l \<Longrightarrow> s < 2 ^ 64 \<and> hlen + l = next_size hlen s"
  by (auto simp: size_varint_len_def u64_try_from_def next_size_def split: if_splits)

lemma next_size_mono: "s \<le> t \<Longrightarrow> t < 2 ^ 64 \<Longrightarrow> next_size hlen s \<le> next_size hlen t"
  unfolding next_size_def
  by (intro add_left_mono length_encode_varint_mono)
    (simp add: word_le_nat_alt unat_of_nat take_bit_nat_eq_self)

lemma next_size_bound: "next_size hlen s \<le> hlen + 9"
  using length_encode_varint by (simp add: next_size_def)

function header_size_loop :: "nat \<Rightarrow> nat \<Rightarrow> nat result" where
  "header_size_loop hlen header_size =
     rbind (size_varint_len header_size) (\<lambda>l.
     rbind (ok_or (Storage ''sqlite record header is too large'') (usize_checked_add hlen l)) (\<lambda>total_size.
     if total_size = header_size then Ok header_size else header_size_loop hlen total_size))"
  by pat_completeness auto
termination
proof (relation "measure (\<lambda>(h, s). if next_size h s = s then 0
    else if s < next_size h s then h + 10 - s else s)")
  fix h s l t
  assume l: "size_varint_len s = Ok l"
    and t: "ok_or (Storage ''sqlite record header is too large'') (usize_checked_add h l) = Ok t"
    and neq: "t \<noteq> s"
  from size_varint_len_Ok [OF l] have s: "s < 2 ^ 64" and nx: "h + l = next_size h s"
    by blast+
  from t nx have t: "t = next_size h s" "t < 2 ^ 64"
    by (auto simp: usize_checked_add_def split: if_splits)
  have bound: "next_size h s \<le> h + 9" "next_size h t \<le> h + 9" by (rule next_size_bound)+
  show "((h, t), (h, s)) \<in> measure (\<lambda>(h, s). if next_size h s = s then 0
    else if s < next_size h s then h + 10 - s else s)"
  proof (cases "s < t")
    case True
    then have "next_size h s \<le> next_size h t" using t(2) by (intro next_size_mono) auto
    with True t bound show ?thesis by auto
  next
    case False
    with neq have "t < s" by simp
    then have "next_size h t \<le> next_size h s" using s by (intro next_size_mono) auto
    with \<open>t < s\<close> t show ?thesis by auto
  qed
qed simp

declare header_size_loop.simps [simp del]

definition encode_record :: "Value list \<Rightarrow> byte list result" where
  "encode_record values =
     rbind (encode_values [] [] values) (\<lambda>(header, payload).
     rbind (header_size_loop (length header) (length header + 1)) (\<lambda>header_size.
     rbind (ok_or (Storage ''sqlite record header is too large'') (u64_try_from header_size)) (\<lambda>w.
     Ok (encode_varint w @ header @ payload))))"

text \<open>The \<open>while cursor < header_end\<close> loop that reads the serial types.\<close>

function decode_serials :: "byte list \<Rightarrow> nat \<Rightarrow> nat \<Rightarrow> u64 list result" where
  "decode_serials bytes header_end cursor =
     (if cursor < header_end then
        rbind (decode_varint (slice cursor header_end bytes)) (\<lambda>(serial, consumed).
        rbind (decode_serials bytes header_end (cursor + consumed)) (\<lambda>serials. Ok (serial # serials)))
      else Ok [])"
  by pat_completeness auto
termination
proof (relation "measure (\<lambda>(bytes, header_end, cursor). header_end - cursor)")
  fix bytes and header_end cursor and p :: "u64 \<times> nat" and serial consumed
  assume lt: "cursor < header_end" and d: "decode_varint (slice cursor header_end bytes) = Ok p"
    and p: "(serial, consumed) = p"
  from d p have "take consumed (slice cursor header_end bytes) = encode_varint serial"
    using decode_varint_sound by blast
  then have "consumed \<noteq> 0" using length_encode_varint [of serial] by (cases consumed) auto
  with lt show "((bytes, header_end, cursor + consumed), bytes, header_end, cursor)
      \<in> measure (\<lambda>(bytes, header_end, cursor). header_end - cursor)"
    by simp
qed simp

declare decode_serials.simps [simp del]

text \<open>The body of the loop over the serials: a value and the new payload cursor.\<close>

definition decode_value :: "byte list \<Rightarrow> nat \<Rightarrow> u64 \<Rightarrow> (Value \<times> nat) result" where
  "decode_value bytes cur serial =
     (if serial = 0 then Ok (Null, cur)
      else if 1 \<le> serial \<and> serial \<le> 6 then
        rbind (ok_or (Storage ''invalid sqlite integer record length'')
          (usize_checked_add cur (integer_len serial))) (\<lambda>fin.
        rbind (ok_or (Storage ''invalid sqlite integer record length'') (get_range cur fin bytes)) (\<lambda>sl.
        Ok (Integer (decode_integer sl), fin)))
      else if serial = 7 then
        rbind (ok_or (Storage ''invalid sqlite real record length'') (usize_checked_add cur 8)) (\<lambda>fin.
        rbind (ok_or (Storage ''invalid sqlite real record length'') (get_range cur fin bytes)) (\<lambda>sl.
        Ok (Real (from_be_bytes sl), fin)))
      else if serial = 8 then Ok (Boolean False, cur)
      else if serial = 9 then Ok (Boolean True, cur)
      else if 12 \<le> serial \<and> serial mod 2 = 0 then
        rbind (ok_or (Storage ''invalid sqlite blob record length'')
          (usize_checked_add cur (unat ((serial - 12) div 2)))) (\<lambda>fin.
        rbind (ok_or (Storage ''invalid sqlite blob record length'') (get_range cur fin bytes)) (\<lambda>sl.
        Ok (Blob sl, fin)))
      else if 13 \<le> serial \<and> serial mod 2 = 1 then
        rbind (ok_or (Storage ''invalid sqlite text record length'')
          (usize_checked_add cur (unat ((serial - 13) div 2)))) (\<lambda>fin.
        rbind (ok_or (Storage ''invalid sqlite text record length'') (get_range cur fin bytes)) (\<lambda>sl.
        rbind (ok_or (Storage ''invalid utf-8 in sqlite text record'') (from_utf8 sl)) (\<lambda>text.
        Ok (Text text, fin))))
      else Err (Storage (''unsupported sqlite serial type '' @ show_word serial)))"

fun decode_values :: "byte list \<Rightarrow> nat \<Rightarrow> u64 list \<Rightarrow> (Value list \<times> nat) result" where
  "decode_values bytes cur [] = Ok ([], cur)"
| "decode_values bytes cur (serial # serials) =
     rbind (decode_value bytes cur serial) (\<lambda>(v, cur').
     rbind (decode_values bytes cur' serials) (\<lambda>(vs, fin). Ok (v # vs, fin)))"

definition decode_record :: "byte list \<Rightarrow> Value list result" where
  "decode_record bytes =
     rbind (decode_varint bytes) (\<lambda>(header_size, first_len).
     let header_end = unat header_size
     in if length bytes < header_end \<or> header_end < first_len then
          Err (Storage ''invalid sqlite record header size'')
        else
          rbind (decode_serials bytes header_end first_len) (\<lambda>serials.
          rbind (decode_values bytes header_end serials) (\<lambda>(values, payload_cursor).
          if payload_cursor \<noteq> length bytes then
            Err (Storage ''invalid sqlite record: trailing bytes after payload'')
          else Ok values)))"

section \<open>Sign extension\<close>

lemma sint_bit_extend:
  fixes v :: i64
  assumes "- (2 ^ m) \<le> sint v" "sint v < 2 ^ m" "m \<le> j" "j < 64"
  shows "bit v j \<longleftrightarrow> bit v m"
proof -
  have "signed_take_bit m (sint v) = sint v"
    using assms(1,2) by (simp add: signed_take_bit_int_eq_self)
  then have "bit (sint v) j = bit (signed_take_bit m (sint v)) j" by simp
  also have "\<dots> = bit (sint v) m" using assms(3) by (simp add: bit_signed_take_bit_iff min_def)
  finally show ?thesis using assms(3,4) by (simp add: bit_sint_iff min_def)
qed

lemma decode_integer_tail:
  fixes v :: i64
  assumes n: "1 \<le> n" "n \<le> 8" and range: "- (2 ^ (8 * n - 1)) \<le> sint v" "sint v < 2 ^ (8 * n - 1)"
  shows "decode_integer (drop (8 - n) (to_be_bytes 8 v)) = v"
proof -
  let ?le = "to_le_bytes 8 v" and ?m = "8 * n - 1"
  let ?s = "if bit v ?m then 0xff else 0x00 :: byte"
  have tail: "drop (8 - n) (to_be_bytes 8 v) = rev (take n ?le)"
    using n by (simp add: to_be_bytes_def drop_rev)
  have nth: "?le ! i = ?s" if "n \<le> i" "i < 8" for i
  proof (rule bit_eqI)
    fix k assume "possible_bit TYPE(byte) k"
    then have k: "k < 8" by simp
    have "bit (?le ! i) k \<longleftrightarrow> bit v (8 * i + k)"
      using that k by (simp add: nth_to_le_bytes bit_unsigned_iff bit_drop_bit_eq)
    also have "\<dots> \<longleftrightarrow> bit v ?m"
      using that k n by (intro sint_bit_extend [OF range]) auto
    also have "\<dots> \<longleftrightarrow> bit ?s k"
    proof -
      have "(0xff :: byte) = - 1" by simp
      then have "bit (0xff :: byte) k" using k by (simp only: bit_minus_1_iff) simp
      then show ?thesis by simp
    qed
    finally show "bit (?le ! i) k \<longleftrightarrow> bit ?s k" .
  qed
  have pad: "take n ?le @ replicate (8 - n) ?s = ?le"
    by (rule nth_equalityI) (use n nth in \<open>auto simp: nth_append\<close>)
  have "rev (take n ?le) \<noteq> []" and hd: "hd (rev (take n ?le)) = ?le ! (n - 1)"
    using n by (auto simp: hd_rev last_conv_nth simp flip: length_greater_0_conv)
  then obtain bs where cons: "rev (take n ?le) = ?le ! (n - 1) # bs" by (metis list.collapse)
  have sign: "?le ! (n - 1) AND 0x80 \<noteq> 0 \<longleftrightarrow> bit v ?m"
  proof -
    have "?le ! (n - 1) AND 0x80 \<noteq> 0 \<longleftrightarrow> bit (?le ! (n - 1)) 7"
      by (simp add: and_80 bit7_iff not_less)
    also have "\<dots> \<longleftrightarrow> bit v (8 * (n - 1) + 7)"
      using n by (simp add: nth_to_le_bytes bit_unsigned_iff bit_drop_bit_eq)
    also have "8 * (n - 1) + 7 = ?m" using n by linarith
    finally show ?thesis .
  qed
  have "decode_integer (rev (take n ?le)) =
      from_be_bytes (replicate (8 - length (rev (take n ?le))) ?s @ rev (take n ?le))"
    using cons sign by (simp add: decode_integer_def)
  also have "\<dots> = from_le_bytes (take n ?le @ replicate (8 - n) ?s)"
    using n by (simp add: from_be_bytes_def)
  also have "\<dots> = v" by (simp only: pad from_to_le_bytes_u64)
  finally show ?thesis by (simp only: tail)
qed

section \<open>Values survive the round trip\<close>

text \<open>What a stored value is read back as.\<close>

fun stored_value :: "Value \<Rightarrow> Value" where
  "stored_value (Integer n) = (if n = 0 then Boolean False else if n = 1 then Boolean True else Integer n)"
| "stored_value v = v"

text \<open>The type invariant of a Rust value: its text is a \<open>String\<close>.\<close>

fun rust_value :: "Value \<Rightarrow> bool" where
  "rust_value (Text s) = rust_string s"
| "rust_value v = True"

lemma get_range_pre_mid:
  "get_range (length pre) (length pre + length mid) (pre @ mid @ post) = Some mid"
  by (simp add: get_range_def)

lemma decode_value_Integer:
  assumes "integer_serial_type v = serial" "serial \<noteq> 8" "serial \<noteq> 9"
    "length (pre @ mid @ post) < 2 ^ 64"
    "mid = drop (8 - integer_len serial) (to_be_bytes 8 v)"
  shows "decode_value (pre @ mid @ post) (length pre) serial = Ok (Integer v, length pre + length mid)"
proof -
  have s: "serial \<in> {1, 2, 3, 4, 5, 6}" "v \<noteq> 0" "v \<noteq> 1"
    using assms(1-3) by (auto simp: integer_serial_type_def split: if_splits)
  have sint: "- (2 ^ 63) \<le> sint v" "sint v < 2 ^ 63"
    using sint_greater_eq [of v] sint_less [of v] by simp_all
  have "decode_integer mid = v"
    unfolding assms(5) using assms(1) s sint
    by (intro decode_integer_tail)
      (auto simp: integer_serial_type_def integer_len_def split: if_splits)
  moreover have "length mid = integer_len serial"
    using s by (auto simp: assms(5) integer_len_def)
  moreover have "1 \<le> serial" "serial \<le> 6" "serial \<noteq> 0" using s by auto
  ultimately show ?thesis
    using assms(4) get_range_pre_mid [of pre mid post]
    by (simp add: decode_value_def usize_checked_add_def)
qed

text \<open>The serial type of a blob or a text determines its length and its kind.\<close>

lemma checked_serial:
  assumes "u64_try_from n = Some len" "Option.bind (checked_mul len 2) (\<lambda>x. checked_add x k) = Some serial"
  shows "unat serial = 2 * n + unat k"
  using assms u64_try_from_Some [OF assms(1)]
  by (auto simp: checked_mul_def checked_add_def unat_word_ariths bind_eq_Some_conv split: if_splits)

lemma serial_blob:
  fixes serial :: u64
  assumes "unat serial = 2 * n + 12"
  shows "12 \<le> serial" "serial mod 2 = 0" "unat ((serial - 12) div 2) = n" "\<not> serial \<le> 9"
proof -
  show "12 \<le> serial" using assms by (simp add: word_le_nat_alt)
  then have "unat (serial - 12) = 2 * n" using assms by (simp add: unat_sub)
  then show "unat ((serial - 12) div 2) = n" by (simp add: unat_div)
  have "unat (serial mod 2) = 0" using assms by (simp add: unat_mod)
  then show "serial mod 2 = 0" by (simp add: unat_eq_zero)
  show "\<not> serial \<le> 9" using assms by (simp add: word_le_nat_alt)
qed

lemma serial_text:
  fixes serial :: u64
  assumes "unat serial = 2 * n + 13"
  shows "13 \<le> serial" "serial mod 2 = 1" "unat ((serial - 13) div 2) = n" "\<not> serial \<le> 9"
proof -
  show "13 \<le> serial" using assms by (simp add: word_le_nat_alt)
  then have "unat (serial - 13) = 2 * n" using assms by (simp add: unat_sub)
  then show "unat ((serial - 13) div 2) = n" by (simp add: unat_div)
  have "unat (serial mod 2) = (2 * n + 13) mod 2" using assms by (simp add: unat_mod)
  also have "\<dots> = unat (1 :: u64)" by (simp add: mod_Suc)
  finally show "serial mod 2 = 1" by (rule unsigned_word_eqI)
  show "\<not> serial \<le> 9" using assms by (simp add: word_le_nat_alt)
qed

lemma not_le_9: "\<not> serial \<le> 9 \<Longrightarrow> serial \<noteq> 0 \<and> \<not> serial \<le> 6 \<and> serial \<noteq> 7 \<and> serial \<noteq> 8 \<and> serial \<noteq> 9"
  for serial :: u64
  by (auto simp: word_le_nat_alt)

definition value_codec :: "Value \<Rightarrow> u64 \<Rightarrow> byte list \<Rightarrow> bool" where
  "value_codec v serial mid \<longleftrightarrow>
     (\<forall>pre post. length (pre @ mid @ post) < 2 ^ 64 \<longrightarrow>
        decode_value (pre @ mid @ post) (length pre) serial = Ok (stored_value v, length pre + length mid))"

lemma encode_value_codec:
  assumes "encode_value payload v = Ok (serial, payload')" "rust_value v"
  shows "\<exists>mid. payload' = payload @ mid \<and> value_codec v serial mid"
proof (cases v)
  case Null
  with assms show ?thesis by (auto simp: value_codec_def decode_value_def)
next
  case (Boolean b)
  with assms show ?thesis by (cases b) (auto simp: value_codec_def decode_value_def)
next
  case (Integer n)
  show ?thesis
  proof (cases "serial = 8 \<or> serial = 9")
    case True
    with assms Integer show ?thesis
      by (auto simp: value_codec_def decode_value_def append_integer_payload_def
          integer_serial_type_def Let_def rbind_eq_Ok split: if_splits)
  next
    case False
    then have n: "n \<noteq> 0" "n \<noteq> 1" "integer_serial_type n = serial"
      using assms Integer by (auto simp: integer_serial_type_def Let_def rbind_eq_Ok)
    then show ?thesis
      using False assms Integer decode_value_Integer [OF n(3)]
      by (auto simp: value_codec_def append_integer_payload_def Let_def rbind_eq_Ok split: if_splits)
  qed
next
  case (Real bits)
  with assms show ?thesis
    using get_range_pre_mid [of _ "to_be_bytes 8 bits"]
    by (auto simp: value_codec_def decode_value_def usize_checked_add_def)
next
  case (Blob blob)
  with assms obtain len where len: "u64_try_from (length blob) = Some len"
    "Option.bind (checked_mul len 2) (\<lambda>x. checked_add x 12) = Some serial" "payload' = payload @ blob"
    by (auto simp: rbind_eq_Ok)
  have s: "unat serial = 2 * length blob + 12" using checked_serial [OF len(1,2)] by simp
  note facts = serial_blob [OF s]
  show ?thesis
    using len(3) Blob facts not_le_9 [OF facts(4)] get_range_pre_mid [of _ blob]
    by (auto simp: value_codec_def decode_value_def usize_checked_add_def)
next
  case (Text t)
  with assms obtain len where len: "u64_try_from (length t) = Some len"
    "Option.bind (checked_mul len 2) (\<lambda>x. checked_add x 13) = Some serial" "payload' = payload @ as_bytes t"
    by (auto simp: rbind_eq_Ok)
  have s: "unat serial = 2 * length t + 13" using checked_serial [OF len(1,2)] by simp
  note facts = serial_text [OF s]
  have "\<not> (12 \<le> serial \<and> serial mod 2 = 0)" using facts(2) by simp
  then show ?thesis
    using len(3) Text facts not_le_9 [OF facts(4)] get_range_pre_mid [of _ "as_bytes t"] assms(2)
    by (auto simp: value_codec_def decode_value_def usize_checked_add_def from_utf8_as_bytes)
qed

lemma encode_values_codec:
  assumes "encode_values header payload vs = Ok (header', payload')" "\<forall>v \<in> set vs. rust_value v"
  shows "\<exists>serials mid. header' = header @ concat (map encode_varint serials) \<and>
    payload' = payload @ mid \<and>
    (\<forall>pre post. length (pre @ mid @ post) < 2 ^ 64 \<longrightarrow>
       decode_values (pre @ mid @ post) (length pre) serials =
         Ok (map stored_value vs, length pre + length mid))"
  using assms
proof (induction vs arbitrary: header payload)
  case Nil
  then show ?case by (intro exI [of _ "[]"]) auto
next
  case (Cons v vs)
  then obtain serial p1 where e: "encode_value payload v = Ok (serial, p1)"
    and es: "encode_values (header @ encode_varint serial) p1 vs = Ok (header', payload')"
    by (auto simp: rbind_eq_Ok)
  obtain m1 where m1: "p1 = payload @ m1" "value_codec v serial m1"
    using encode_value_codec [OF e] Cons.prems(2) by auto
  obtain serials mid where IH: "header' = (header @ encode_varint serial) @ concat (map encode_varint serials)"
    "payload' = p1 @ mid"
    "\<And>pre post. length (pre @ mid @ post) < 2 ^ 64 \<Longrightarrow>
       decode_values (pre @ mid @ post) (length pre) serials =
         Ok (map stored_value vs, length pre + length mid)"
    using Cons.IH [OF es] Cons.prems(2) by auto
  have "decode_values (pre @ (m1 @ mid) @ post) (length pre) (serial # serials) =
      Ok (map stored_value (v # vs), length pre + length (m1 @ mid))"
    if "length (pre @ (m1 @ mid) @ post) < 2 ^ 64" for pre post
    using m1(2) that IH(3) [of "pre @ m1" post]
    by (simp add: value_codec_def add.assoc)
  with IH(1,2) m1(1) show ?case
    by (intro exI [of _ "serial # serials"] exI [of _ "m1 @ mid"]) simp
qed

lemma decode_serials_encoded:
  "decode_serials (pre @ concat (map encode_varint ss) @ post)
     (length pre + length (concat (map encode_varint ss))) (length pre) = Ok ss"
proof (induction ss arbitrary: pre)
  case Nil
  then show ?case by (simp add: decode_serials.simps)
next
  case (Cons s ss)
  let ?hs = "concat (map encode_varint ss)"
  let ?bytes = "pre @ concat (map encode_varint (s # ss)) @ post"
  let ?fin = "length pre + length (concat (map encode_varint (s # ss)))"
  have sl: "slice (length pre) ?fin ?bytes = encode_varint s @ ?hs"
    by (simp add: slice_def)
  have rest: "decode_serials ?bytes ?fin (length pre + length (encode_varint s)) = Ok ss"
    using Cons.IH [of "pre @ encode_varint s"] by (simp add: add.assoc)
  have "length pre < ?fin" using length_encode_varint [of s] by (cases "encode_varint s") auto
  then show ?case
    unfolding decode_serials.simps [of ?bytes ?fin "length pre"] sl decode_varint_encode
    by (simp only: if_True rbind.simps prod.case rest)
qed

lemma header_size_loop_fixpoint:
  "header_size_loop hlen s = Ok r \<Longrightarrow> next_size hlen r = r \<and> r < 2 ^ 64"
proof (induction hlen s rule: header_size_loop.induct)
  case (1 hlen s)
  from "1.prems" obtain l t where l: "size_varint_len s = Ok l" and t: "usize_checked_add hlen l = Some t"
    and r: "(if t = s then Ok s else header_size_loop hlen t) = Ok r"
    by (subst (asm) header_size_loop.simps) (auto simp: rbind_eq_Ok)
  show ?case
  proof (cases "t = s")
    case True
    then show ?thesis
      using r t size_varint_len_Ok [OF l, of hlen] by (auto simp: usize_checked_add_def split: if_splits)
  next
    case False
    then show ?thesis using "1.IH" [OF l _ False] r t by simp
  qed
qed

lemma decode_record_encode:
  assumes "encode_record vs = Ok bs" "\<forall>v \<in> set vs. rust_value v" "length (bs @ post) < 2 ^ 64"
  shows "decode_record (bs @ post) =
    (if post = [] then Ok (map stored_value vs)
     else Err (Storage ''invalid sqlite record: trailing bytes after payload''))"
proof -
  obtain header payload r w where ev: "encode_values [] [] vs = Ok (header, payload)"
    and r: "header_size_loop (length header) (length header + 1) = Ok r"
    and w: "u64_try_from r = Some w" and bs: "bs = encode_varint w @ header @ payload"
    using assms(1) by (auto simp: encode_record_def rbind_eq_Ok)
  have uw: "unat w = r" using w by (rule u64_try_from_Some)
  then have "word_of_nat r = w" by (metis of_nat_unat ucast_id)
  then have hend: "unat w = length header + length (encode_varint w)"
    using header_size_loop_fixpoint [OF r] uw by (simp add: next_size_def)
  obtain serials where hs: "header = concat (map encode_varint serials)" and
    dv: "\<And>pre post. length (pre @ payload @ post) < 2 ^ 64 \<Longrightarrow>
       decode_values (pre @ payload @ post) (length pre) serials =
         Ok (map stored_value vs, length pre + length payload)"
    using encode_values_codec [OF ev assms(2)] by auto
  have d1: "decode_varint (bs @ post) = Ok (w, length (encode_varint w))"
    using decode_varint_encode by (simp add: bs)
  have d2: "decode_serials (bs @ post) (unat w) (length (encode_varint w)) = Ok serials"
    using decode_serials_encoded [of "encode_varint w" serials "payload @ post"]
    by (simp add: bs hs hend add.commute)
  have d3: "decode_values (bs @ post) (unat w) serials = Ok (map stored_value vs, length bs)"
    using dv [of "encode_varint w @ header" post] assms(3)
    by (simp add: bs hend add.commute add.left_commute)
  have "\<not> (length (bs @ post) < unat w \<or> unat w < length (encode_varint w))"
    by (simp add: bs hend)
  then show ?thesis
    unfolding decode_record_def d1 Let_def by (simp add: d2 d3)
qed

section \<open>Encoding succeeds\<close>

lemma header_size_loop_total:
  "s < 2 ^ 64 \<Longrightarrow> hlen + 9 < 2 ^ 64 \<Longrightarrow> \<exists>r. header_size_loop hlen s = Ok r \<and> r < 2 ^ 64"
proof (induction hlen s rule: header_size_loop.induct)
  case (1 hlen s)
  define l where "l = length (encode_varint (word_of_nat s))"
  have l: "size_varint_len s = Ok l" using "1.prems" by (simp add: size_varint_len_def u64_try_from_def l_def)
  have t: "hlen + l < 2 ^ 64"
    using "1.prems" length_encode_varint [of "word_of_nat s"] by (simp add: l_def)
  show ?case
  proof (cases "hlen + l = s")
    case True
    then show ?thesis using "1.prems" l by (subst header_size_loop.simps) (simp add: usize_checked_add_def)
  next
    case False
    have "\<exists>r. header_size_loop hlen (hlen + l) = Ok r \<and> r < 2 ^ 64"
      using "1.IH" [OF l _ False] "1.prems" t by (simp add: usize_checked_add_def)
    with False t l show ?thesis by (subst header_size_loop.simps) (simp add: usize_checked_add_def)
  qed
qed

text \<open>How many bytes of payload a value holds.\<close>

fun value_size :: "Value \<Rightarrow> nat" where
  "value_size (Blob b) = length b"
| "value_size (Text t) = length t"
| "value_size _ = 8"

lemma checked_serial_total:
  assumes "n < 2 ^ 62" "unat k < 2 ^ 62"
  shows "\<exists>len serial. u64_try_from n = Some len \<and>
    Option.bind (checked_mul len 2) (\<lambda>x. checked_add x k) = Some serial"
proof -
  have n: "unat (word_of_nat n :: u64) = n" using assms(1) by (simp add: unat_of_nat take_bit_nat_eq_self)
  have "unat (word_of_nat n * 2 :: u64) = n * 2"
    using assms(1) n by (simp add: unat_word_ariths)
  then show ?thesis using assms n
    by (simp add: u64_try_from_def checked_mul_def checked_add_def)
qed

lemma encode_value_total: "value_size v < 2 ^ 62 \<Longrightarrow> \<exists>serial payload'. encode_value payload v = Ok (serial, payload')"
proof (cases v)
  case (Integer n)
  then show ?thesis
    by (auto simp: Let_def append_integer_payload_def integer_serial_type_def)
next
  case (Blob b)
  assume "value_size v < 2 ^ 62"
  with Blob obtain len serial where "u64_try_from (length b) = Some len"
    "Option.bind (checked_mul len 2) (\<lambda>x. checked_add x 12) = Some serial"
    using checked_serial_total [of "length b" 12] by auto
  with Blob show ?thesis by simp
next
  case (Text t)
  assume "value_size v < 2 ^ 62"
  with Text obtain len serial where "u64_try_from (length t) = Some len"
    "Option.bind (checked_mul len 2) (\<lambda>x. checked_add x 13) = Some serial"
    using checked_serial_total [of "length t" 13] by auto
  with Text show ?thesis by simp
qed auto

lemma encode_values_total:
  assumes "\<forall>v \<in> set vs. value_size v < 2 ^ 62"
  shows "\<exists>header' payload'. encode_values header payload vs = Ok (header', payload') \<and>
    length header' \<le> length header + 9 * length vs"
  using assms
proof (induction vs arbitrary: header payload)
  case (Cons v vs)
  then obtain serial p where e: "encode_value payload v = Ok (serial, p)"
    using encode_value_total by fastforce
  obtain h' p' where "encode_values (header @ encode_varint serial) p vs = Ok (h', p')"
    "length h' \<le> length (header @ encode_varint serial) + 9 * length vs"
    using Cons by fastforce
  with e length_encode_varint [of serial] show ?case by fastforce
qed simp

lemma encode_record_total:
  assumes "\<forall>v \<in> set vs. value_size v < 2 ^ 62" "9 * length vs + 10 < 2 ^ 64"
  shows "\<exists>bs. encode_record vs = Ok bs"
proof -
  obtain h p where hp: "encode_values [] [] vs = Ok (h, p)" "length h \<le> 9 * length vs"
    using encode_values_total [OF assms(1), of "[]" "[]"] by auto
  then obtain r where "header_size_loop (length h) (length h + 1) = Ok r" "r < 2 ^ 64"
    using header_size_loop_total [of "length h + 1" "length h"] assms(2) by auto
  with hp show ?thesis by (simp add: encode_record_def u64_try_from_def)
qed

section \<open>Properties\<close>

text \<open>
  Property C18: a record of any values whose payloads stay below \<open>2 ^ 62\<close> bytes is encoded (the loop
  that finds the header size ends), and decoding it gives the same values, except that the integers
  0 and 1, stored with the serial types 8 and 9, come back as booleans.
\<close>

theorem record_roundtrip:
  assumes "\<forall>v \<in> set vs. rust_value v" "\<forall>v \<in> set vs. value_size v < 2 ^ 62"
    "9 * length vs + 10 < 2 ^ 64"
  shows "\<exists>bs. encode_record vs = Ok bs \<and>
    (length bs < 2 ^ 64 \<longrightarrow> decode_record bs = Ok (map stored_value vs))"
  using encode_record_total [OF assms(2,3)] decode_record_encode [of vs _ "[]"] assms(1) by auto

theorem record_roundtrip_witness:
  "\<exists>bs. encode_record [Integer 1, Integer 300, Null, Text ''ab'', Blob [7]] = Ok bs \<and>
    (length bs < 2 ^ 64 \<longrightarrow> decode_record bs = Ok [Boolean True, Integer 300, Null, Text ''ab'', Blob [7]])"
  using record_roundtrip [of "[Integer 1, Integer 300, Null, Text ''ab'', Blob [7]]"]
  by (simp add: rust_string_def as_bytes_def byte_of_char_def)

text \<open>
  An encoded record followed by any further bytes is rejected, with the error for
  trailing bytes.
\<close>

lemma record_rejects_trailing_bytes:
  assumes "encode_record vs = Ok bs" "\<forall>v \<in> set vs. rust_value v" "length (bs @ junk) < 2 ^ 64"
    "junk \<noteq> []"
  shows "decode_record (bs @ junk) =
    Err (Storage ''invalid sqlite record: trailing bytes after payload'')"
  using decode_record_encode [OF assms(1-3)] assms(4) by simp

lemma record_rejects_trailing_bytes_witness:
  "encode_record [Null] = Ok [2, 0] \<and>
   decode_record ([2, 0] @ [9]) = Err (Storage ''invalid sqlite record: trailing bytes after payload'')"
proof -
  have "header_size_loop (Suc 0) 2 = Ok 2"
    by (simp add: header_size_loop.simps size_varint_len_def u64_try_from_def encode_varint_def
        usize_checked_add_def)
  then have "header_size_loop (Suc 0) (Suc (Suc 0)) = Ok 2" by (simp only: numeral_2_eq_2)
  then have e: "encode_record [Null] = Ok [2, 0]"
    by (simp add: encode_record_def u64_try_from_def encode_varint_def)
  show ?thesis using e record_rejects_trailing_bytes [OF e, of "[9]"] by simp
qed

end
