(* ===== verification/Sqlite_File.thy ===== *)
theory Sqlite_File
  imports Schemas Sqlite_Record
begin

text \<open>
  Reading a SQLite database file: the file header (\<open>src/storage/sqlite3/file_header.rs\<close>), pages and overflow
  chains (\<open>pager.rs\<close>), page headers (\<open>page.rs\<close>), and the scans and lookups of table and index trees
  (\<open>btree.rs\<close>, with the record decoder of \<open>schema.rs\<close>). A recursion over pages takes the number of stack
  frames it may use; without one left it ends in a stack overflow, as the program does. The hash that
  stands for the row id of a table without one is a parameter.
\<close>

section \<open>The file header\<close>

record database_header =
  dh_page_size :: u32
  dh_reserved_bytes :: byte
  dh_page_count_hint :: u32
  dh_freelist_count :: u32
  dh_schema_version :: u32
  dh_schema_format :: u32
  dh_text_encoding :: u32
  dh_user_version :: u32
  dh_application_id :: u32

definition is_power_of_two :: "u32 \<Rightarrow> bool" where
  "is_power_of_two w \<longleftrightarrow> w \<noteq> 0 \<and> w AND (w - 1) = 0"

definition decode_page_size :: "16 word \<Rightarrow> u32 result" where
  "decode_page_size raw =
     (let page_size = (if raw = 1 then 65536 else ucast raw)
      in if is_power_of_two page_size \<and> 512 \<le> page_size \<and> page_size \<le> 65536 then Ok page_size
         else Err (Storage ''invalid sqlite page size''))"

definition header_decode :: "byte list \<Rightarrow> database_header result" where
  "header_decode bytes =
     (if length bytes \<noteq> 100 then Err (Storage ''sqlite header must be exactly 100 bytes'')
      else if take 16 bytes \<noteq> as_bytes ''SQLite format 3'' @ [0] then Err (Storage ''invalid sqlite database header'')
      else rbind (decode_page_size (from_be_bytes (slice 16 18 bytes))) (\<lambda>page_size.
        Ok \<lparr>dh_page_size = page_size, dh_reserved_bytes = bytes ! 20,
            dh_page_count_hint = from_be_bytes (slice 28 32 bytes), dh_freelist_count = from_be_bytes (slice 36 40 bytes),
            dh_schema_version = from_be_bytes (slice 40 44 bytes), dh_schema_format = from_be_bytes (slice 44 48 bytes),
            dh_text_encoding = from_be_bytes (slice 56 60 bytes), dh_user_version = from_be_bytes (slice 60 64 bytes),
            dh_application_id = from_be_bytes (slice 68 72 bytes)\<rparr>))"

definition header_usable_size :: "database_header \<Rightarrow> u32 result" where
  "header_usable_size h =
     (if dh_page_size h \<le> ucast (dh_reserved_bytes h)
      then Err (Storage ''sqlite reserved byte count must be smaller than page size'')
      else Ok (dh_page_size h - ucast (dh_reserved_bytes h)))"

section \<open>Pages\<close>

text \<open>The pager opens the file at its path for every page; the file is part of the state here.\<close>

record sqlite_pager =
  sq_file :: "byte list"
  sq_header :: database_header

definition sqlite_open :: "byte list \<Rightarrow> sqlite_pager result" where
  "sqlite_open file =
     (if length file < 100 then Err (Storage ''sqlite database file is too short'')
      else rbind (header_decode (take 100 file)) (\<lambda>header.
        let page_size = unat (dh_page_size header) in
        if length file < page_size then Err (Storage ''sqlite file is shorter than declared sqlite page size'')
        else if length file mod page_size \<noteq> 0
        then Err (Storage ''sqlite file length is not aligned to declared sqlite page size'')
        else Ok \<lparr>sq_file = file, sq_header = header\<rparr>))"

definition sq_usable_size :: "sqlite_pager \<Rightarrow> nat result" where
  "sq_usable_size p = rbind (header_usable_size (sq_header p)) (\<lambda>n. Ok (unat n))"

definition sq_page_count :: "sqlite_pager \<Rightarrow> u32 result" where
  "sq_page_count p =
     (let n = length (sq_file p) div unat (dh_page_size (sq_header p))
      in if n < 2 ^ 32 then Ok (word_of_nat n) else Err (Storage ''sqlite page count does not fit in u32''))"

definition read_sqlite_page :: "sqlite_pager \<Rightarrow> u32 \<Rightarrow> byte list result" where
  "read_sqlite_page p page_no =
     (if page_no = 0 then Err (Storage ''sqlite page numbers start at 1'')
      else let page_size = ucast (dh_page_size (sq_header p)) :: u64 in
        rbind (ok_or (Storage ''sqlite page offset overflow'') (checked_mul (ucast (page_no - 1)) page_size)) (\<lambda>offset.
        rbind (ok_or (Storage ''sqlite page range overflow'') (checked_add offset page_size)) (\<lambda>page_end.
          if length (sq_file p) < unat page_end
          then Err (Storage (''sqlite page '' @ show_word page_no @ '' is out of bounds''))
          else Ok (slice (unat offset) (unat page_end) (sq_file p)))))"

text \<open>The loop of \<open>read_overflow_chain\<close>, which takes \<open>chunk_size\<close> bytes of every page but the last.\<close>

function overflow_loop :: "sqlite_pager \<Rightarrow> nat \<Rightarrow> nat \<Rightarrow> u32 \<Rightarrow> byte list result" where
  "overflow_loop p chunk_size remaining next_page =
     (if remaining = 0 \<or> chunk_size = 0 then Ok []
      else rbind (read_sqlite_page p next_page) (\<lambda>page.
        if length page < 4 then Err (Storage (''sqlite overflow page '' @ show_word next_page @ '' is truncated''))
        else let next_overflow = from_be_bytes (take 4 page); bytes_to_take = min remaining chunk_size in
          rbind (ok_or (Storage (''sqlite overflow page '' @ show_word next_page @ '' does not contain enough payload bytes''))
            (get_range 4 (4 + bytes_to_take) page)) (\<lambda>data.
          if remaining - bytes_to_take = 0 then Ok data
          else if next_overflow = 0
          then Err (Storage ''sqlite overflow chain terminated before the payload was fully read'')
          else rbind (overflow_loop p chunk_size (remaining - bytes_to_take) next_overflow) (\<lambda>rest. Ok (data @ rest)))))"
  by pat_completeness auto
termination by (relation "measure (\<lambda>(p, chunk_size, remaining, next_page). remaining)") auto

declare overflow_loop.simps [simp del]

text \<open>\<open>Vec::with_capacity\<close> panics when the bytes asked for exceed \<open>isize::MAX\<close>.\<close>

definition read_overflow_chain :: "sqlite_pager \<Rightarrow> u32 \<Rightarrow> nat \<Rightarrow> byte list result" where
  "read_overflow_chain p first_overflow_page remaining_bytes =
     (if first_overflow_page = 0
      then Err (Storage ''sqlite overflow chains must start at a non-zero page number'')
      else rbind (sq_usable_size p) (\<lambda>usable_size.
        if usable_size < 4 then Err (Storage ''sqlite usable page size is too small for overflow'')
        else if usable_size - 4 = 0
        then Err (Storage ''sqlite usable page size is too small for overflow payload data'')
        else if 2 ^ 63 \<le> remaining_bytes then Panic ''capacity overflow''
        else overflow_loop p (usable_size - 4) remaining_bytes first_overflow_page))"

section \<open>Page headers\<close>

datatype page_type = InteriorIndex | InteriorTable | LeafIndex | LeafTable

fun page_type_debug :: "page_type \<Rightarrow> string" where
  "page_type_debug InteriorIndex = ''InteriorIndex''"
| "page_type_debug InteriorTable = ''InteriorTable''"
| "page_type_debug LeafIndex = ''LeafIndex''"
| "page_type_debug LeafTable = ''LeafTable''"

record btree_page_header =
  bh_page_type :: page_type
  bh_first_freeblock :: "16 word"
  bh_cell_count :: "16 word"
  bh_cell_content_area_start :: u32
  bh_fragmented_free_bytes :: byte
  bh_rightmost_pointer :: "u32 option"

text \<open>\<open>{other:#x}\<close>.\<close>

definition show_hex :: "byte \<Rightarrow> string" where
  "show_hex b = (let d = (\<lambda>n. ''0123456789abcdef'' ! n); n = unat b
     in ''0x'' @ (if n < 16 then [d n] else [d (n div 16), d (n mod 16)]))"

definition page_type_of :: "byte \<Rightarrow> page_type result" where
  "page_type_of b =
     (if b = 0x02 then Ok InteriorIndex else if b = 0x05 then Ok InteriorTable
      else if b = 0x0a then Ok LeafIndex else if b = 0x0d then Ok LeafTable
      else Err (Storage (''unknown sqlite btree page type '' @ show_hex b)))"

definition interior_pointer :: "nat \<Rightarrow> byte list \<Rightarrow> u32 option result" where
  "interior_pointer offset page =
     (if length page < offset + 12 then Err (Storage ''sqlite interior btree page is too short'')
      else Ok (Some (from_be_bytes (slice (offset + 8) (offset + 12) page))))"

definition btree_header_decode :: "byte list \<Rightarrow> bool \<Rightarrow> btree_page_header result" where
  "btree_header_decode page first_page =
     (let offset = (if first_page then 100 else 0) in
      if length page < offset + 8 then Err (Storage ''sqlite btree page is too short'')
      else rbind (page_type_of (page ! offset)) (\<lambda>page_type.
        let raw = from_be_bytes (slice (offset + 5) (offset + 7) page) :: 16 word in
        rbind (case page_type of
            InteriorIndex \<Rightarrow> interior_pointer offset page
          | InteriorTable \<Rightarrow> interior_pointer offset page
          | _ \<Rightarrow> Ok None) (\<lambda>rightmost.
          Ok \<lparr>bh_page_type = page_type, bh_first_freeblock = from_be_bytes (slice (offset + 1) (offset + 3) page),
              bh_cell_count = from_be_bytes (slice (offset + 3) (offset + 5) page),
              bh_cell_content_area_start = (if raw = 0 then 65536 else ucast raw),
              bh_fragmented_free_bytes = page ! (offset + 7), bh_rightmost_pointer = rightmost\<rparr>)))"

end
