(* ===== verification/Sqlite_Btree.thy ===== *)
theory Sqlite_Btree
  imports Sqlite_File
begin

text \<open>
  Table and index trees of a SQLite file, \<open>src/storage/sqlite3/btree.rs\<close>: cells and their payloads, the
  records in them, and the recursive scans and lookups over pages.
\<close>

section \<open>Records\<close>

text \<open>
  \<open>decode_table_serial_value\<close> of \<open>schema.rs\<close> and \<open>decode_index_serial_value\<close>: as in \<open>record.rs\<close>, but the serial
  types 8 and 9 are the integers 0 and 1.
\<close>

definition decode_stored_value :: "string \<Rightarrow> byte list \<Rightarrow> nat \<Rightarrow> u64 \<Rightarrow> (Value \<times> nat) result" where
  "decode_stored_value what bytes cursor serial =
     (if serial = 8 then Ok (Integer 0, cursor) else if serial = 9 then Ok (Integer 1, cursor)
      else if serial = 10 \<or> serial = 11
      then Err (Storage (''unsupported sqlite '' @ what @ '' serial type '' @ show_word serial))
      else decode_value bytes cursor serial)"

fun decode_stored_values :: "string \<Rightarrow> byte list \<Rightarrow> nat \<Rightarrow> u64 list \<Rightarrow> (Value list \<times> nat) result" where
  "decode_stored_values what bytes cursor [] = Ok ([], cursor)"
| "decode_stored_values what bytes cursor (serial # serials) =
     rbind (decode_stored_value what bytes cursor serial) (\<lambda>(v, cursor').
     rbind (decode_stored_values what bytes cursor' serials) (\<lambda>(vs, fin). Ok (v # vs, fin)))"

definition decode_record_header :: "byte list \<Rightarrow> (u64 list \<times> nat) result" where
  "decode_record_header bytes =
     rbind (decode_varint bytes) (\<lambda>(header_size, first_len).
       let header_end = unat header_size in
       if length bytes < header_end \<or> header_end < first_len then Err (Storage ''invalid sqlite record header size'')
       else rbind (decode_serials bytes header_end first_len) (\<lambda>serials. Ok (serials, header_end)))"

definition decode_table_record :: "byte list \<Rightarrow> Value list result" where
  "decode_table_record bytes =
     rbind (decode_record_header bytes) (\<lambda>(serials, cursor).
     rbind (decode_stored_values ''table'' bytes cursor serials) (\<lambda>(values, payload_cursor).
       if payload_cursor \<noteq> length bytes then Err (Storage ''invalid sqlite record: trailing bytes after payload'')
       else Ok values))"

definition decode_index_record :: "byte list \<Rightarrow> Value list result" where
  "decode_index_record bytes =
     rbind (decode_record_header bytes) (\<lambda>(serials, cursor).
     rbind (decode_stored_values ''index'' bytes cursor serials) (\<lambda>(values, payload_cursor).
       if payload_cursor \<noteq> length bytes then Err (Storage ''invalid sqlite index record: trailing bytes after payload'')
       else Ok values))"

section \<open>Payloads\<close>

definition scaled_local :: "nat \<Rightarrow> nat \<Rightarrow> nat option" where
  "scaled_local factor usable_size =
     (if usable_size < 12 then None
      else let n = (usable_size - 12) * factor div 255 in if n < 23 then None else Some (n - 23))"

definition btree_max_local :: "nat \<Rightarrow> bool \<Rightarrow> nat result" where
  "btree_max_local usable_size is_index =
     (if is_index then ok_or (Storage ''sqlite index max-local computation overflow'') (scaled_local 64 usable_size)
      else if usable_size < 35 then Err (Storage ''sqlite table max-local computation overflow'')
      else Ok (usable_size - 35))"

definition btree_min_local :: "nat \<Rightarrow> bool \<Rightarrow> nat result" where
  "btree_min_local usable_size is_index =
     ok_or (Storage (if is_index then ''sqlite index min-local computation overflow''
       else ''sqlite table min-local computation overflow'')) (scaled_local 32 usable_size)"

definition local_payload_size :: "nat \<Rightarrow> nat \<Rightarrow> nat \<Rightarrow> nat \<Rightarrow> nat result" where
  "local_payload_size usable_size max_local min_local payload_size =
     (if payload_size \<le> max_local then Ok payload_size
      else if usable_size < 4 then Err (Storage ''sqlite usable page size is too small for overflow'')
      else let n = min_local + (payload_size - min_local) mod (usable_size - 4)
        in Ok (if max_local < n then min_local else n))"

definition read_btree_payload ::
    "sqlite_pager \<Rightarrow> byte list \<Rightarrow> nat \<Rightarrow> nat \<Rightarrow> nat \<Rightarrow> bool \<Rightarrow> string \<Rightarrow> byte list result" where
  "read_btree_payload p page cell_offset cell_header_len payload_size is_index kind =
     rbind (sq_usable_size p) (\<lambda>usable_size.
     rbind (btree_max_local usable_size is_index) (\<lambda>max_local.
     rbind (btree_min_local usable_size is_index) (\<lambda>min_local.
     rbind (local_payload_size usable_size max_local min_local payload_size) (\<lambda>local_payload.
     rbind (ok_or (Storage (''sqlite '' @ kind @ '' payload offset overflow'')) (usize_checked_add cell_offset cell_header_len)) (\<lambda>payload_offset.
     rbind (ok_or (Storage (''sqlite '' @ kind @ '' payload range overflow'')) (usize_checked_add payload_offset local_payload)) (\<lambda>local_payload_end.
     rbind (ok_or (Storage (''sqlite '' @ kind @ '' payload bytes are truncated before overflow handling''))
       (get_range payload_offset local_payload_end page)) (\<lambda>local_bytes.
     if payload_size \<le> local_payload then Ok local_bytes
     else
       rbind (ok_or (Storage (''sqlite '' @ kind @ '' overflow pointer range overflow'')) (usize_checked_add local_payload_end 4)) (\<lambda>overflow_ptr_end.
       rbind (ok_or (Storage (''sqlite '' @ kind @ '' overflow pointer is truncated''))
         (get_range local_payload_end overflow_ptr_end page)) (\<lambda>overflow_ptr.
       let first_overflow_page = from_be_bytes overflow_ptr in
       if first_overflow_page = 0
       then Err (Storage (''sqlite '' @ kind @ '' overflow payload is missing its first overflow page pointer''))
       else rbind (read_overflow_chain p first_overflow_page (payload_size - local_payload)) (\<lambda>overflow_bytes.
         Ok (local_bytes @ overflow_bytes)))))))))))"

section \<open>Cells\<close>

definition slice_from :: "byte list \<Rightarrow> nat \<Rightarrow> byte list result" where
  "slice_from page offset =
     (if offset \<le> length page then Ok (drop offset page) else Err (Storage ''sqlite cell offset is out of bounds''))"

definition cell_offset_at :: "byte list \<Rightarrow> nat \<Rightarrow> nat \<Rightarrow> nat result" where
  "cell_offset_at page pointer_array_start cell_index =
     rbind (ok_or (Storage ''sqlite cell pointer offset overflow'')
       (usize_checked_add pointer_array_start (cell_index * 2))) (\<lambda>pointer_offset.
     rbind (ok_or (Storage ''sqlite cell pointer range overflow'') (usize_checked_add pointer_offset 2)) (\<lambda>pointer_end.
     rbind (ok_or (Storage ''sqlite btree page has truncated cell pointer array'')
       (get_range pointer_offset pointer_end page)) (\<lambda>bytes. Ok (unat (from_be_bytes bytes :: 16 word)))))"

definition cell_offsets :: "byte list \<Rightarrow> bool \<Rightarrow> btree_page_header \<Rightarrow> nat list result" where
  "cell_offsets page first_page header =
     (let local_header_len = (if bh_page_type header \<in> {InteriorIndex, InteriorTable} then 12 else 8);
          pointer_array_start = (if first_page then 100 + local_header_len else local_header_len)
      in collect_results (cell_offset_at page pointer_array_start) [0 ..< unat (bh_cell_count header)])"

definition patch_integer_primary_key_alias :: "'x table_schema \<Rightarrow> row_id \<Rightarrow> row \<Rightarrow> row result" where
  "patch_integer_primary_key_alias schema row_id row =
     (if length row \<noteq> length (sc_columns schema)
      then Err (Storage (''sqlite table row for '' @ sc_name schema @ '' expected '' @ show_nat (length (sc_columns schema)) @
        '' columns but decoded '' @ show_nat (length row)))
      else collect_results (\<lambda>(column, v).
          if cd_primary_key column \<and> cd_column_type column = C_Integer \<and> cd_primary_key_sort_order column \<noteq> Some Descending \<and> v = Null
          then if uint row_id < 2 ^ 63 then Ok (Integer row_id) else Err (Storage ''sqlite rowid does not fit in i64'')
          else Ok v) (zip (sc_columns schema) row))"

definition decode_leaf_table_cell :: "sqlite_pager \<Rightarrow> byte list \<Rightarrow> 'x table_schema \<Rightarrow> nat \<Rightarrow> (row_id \<times> row) result" where
  "decode_leaf_table_cell p page schema cell_offset =
     rbind (slice_from page cell_offset) (\<lambda>cell.
     rbind (decode_varint cell) (\<lambda>(payload_size, payload_len).
     rbind (decode_varint (drop payload_len cell)) (\<lambda>(row_id, row_id_len).
     rbind (ok_or (Storage ''sqlite table cell header length overflow'') (usize_checked_add payload_len row_id_len)) (\<lambda>cell_header_len.
     rbind (read_btree_payload p page cell_offset cell_header_len (unat payload_size) False ''table'') (\<lambda>payload.
     rbind (decode_table_record payload) (\<lambda>row.
     rbind (patch_integer_primary_key_alias schema row_id row) (\<lambda>row'. Ok (row_id, row'))))))))"

definition decode_leaf_table_cells ::
    "sqlite_pager \<Rightarrow> byte list \<Rightarrow> bool \<Rightarrow> 'x table_schema \<Rightarrow> (row_id \<times> row) list result" where
  "decode_leaf_table_cells p page first_page schema =
     rbind (btree_header_decode page first_page) (\<lambda>header.
       if bh_page_type header \<noteq> LeafTable
       then Err (Storage ''sqlite leaf-table cell reader requires a leaf table page'')
       else rbind (cell_offsets page first_page header) (collect_results (decode_leaf_table_cell p page schema)))"

definition reorder_without_rowid_record :: "'x table_schema \<Rightarrow> Value list \<Rightarrow> row result" where
  "reorder_without_rowid_record schema values =
     (if length values \<noteq> length (sc_columns schema)
      then Err (Storage (''sqlite WITHOUT ROWID row for '' @ sc_name schema @ '' expected '' @
        show_nat (length (sc_columns schema)) @ '' columns but decoded '' @ show_nat (length values)))
      else rbind (ok_or (Storage (''WITHOUT ROWID table '' @ sc_name schema @ '' is missing PRIMARY KEY metadata''))
          (sc_primary_key_constraint schema)) (\<lambda>primary_key.
        let record_order = pc_columns primary_key @
              filter (\<lambda>name. name \<notin> set (pc_columns primary_key)) (map cd_name (sc_columns schema)) in
        if length record_order \<noteq> length (sc_columns schema)
        then Err (Storage (''WITHOUT ROWID table '' @ sc_name schema @ '' column layout could not be reconstructed''))
        else rbind (collect_results (\<lambda>(v, name). rbind (column_index schema name) (\<lambda>i. Ok (i, v))) (zip values record_order)) (\<lambda>moves.
          Ok (fold (\<lambda>(i, v) row. row[i := v]) moves (replicate (length (sc_columns schema)) Null)))))"

definition decode_leaf_without_rowid_table_cell :: "sqlite_pager \<Rightarrow> byte list \<Rightarrow> 'x table_schema \<Rightarrow> nat \<Rightarrow> row result" where
  "decode_leaf_without_rowid_table_cell p page schema cell_offset =
     rbind (slice_from page cell_offset) (\<lambda>cell.
     rbind (decode_varint cell) (\<lambda>(payload_size, payload_len).
     rbind (read_btree_payload p page cell_offset payload_len (unat payload_size) True ''WITHOUT ROWID table'') (\<lambda>payload.
     rbind (decode_index_record payload) (reorder_without_rowid_record schema))))"

definition decode_leaf_without_rowid_table_rows ::
    "sqlite_pager \<Rightarrow> byte list \<Rightarrow> bool \<Rightarrow> 'x table_schema \<Rightarrow> row list result" where
  "decode_leaf_without_rowid_table_rows p page first_page schema =
     rbind (btree_header_decode page first_page) (\<lambda>header.
       if bh_page_type header \<noteq> LeafIndex
       then Err (Storage ''sqlite WITHOUT ROWID table reader requires a leaf index page'')
       else rbind (cell_offsets page first_page header) (collect_results (decode_leaf_without_rowid_table_cell p page schema)))"

text \<open>\<open>synthetic_row_id_from_key\<close> over the hash of the standard library.\<close>

definition synthetic_row_id_from_key :: "(Value list \<Rightarrow> u64) \<Rightarrow> Value list \<Rightarrow> row_id" where
  "synthetic_row_id_from_key hash key = (if hash key = 0 then 1 else hash key)"

definition decode_index_entry_values ::
    "(Value list \<Rightarrow> u64) \<Rightarrow> index_meta \<Rightarrow> Value list \<Rightarrow> (Value list \<times> row_id) result" where
  "decode_index_entry_values hash index values =
     (let n = length (im_columns index);
          other = Ok (take n values, synthetic_row_id_from_key hash (drop n values)) in
      if length values < n + 1
      then Err (Storage (''sqlite index '' @ im_name index @ '' expected at least '' @ show_nat (n + 1) @
        '' record values but decoded '' @ show_nat (length values)))
      else if length values = n + 1
      then case last values of
          Integer row_id \<Rightarrow> if 0 \<le> sint row_id then Ok (butlast values, row_id)
            else Err (Storage ''sqlite index rowid must be a non-negative INTEGER'')
        | _ \<Rightarrow> other
      else other)"

definition decode_leaf_index_cell ::
    "(Value list \<Rightarrow> u64) \<Rightarrow> sqlite_pager \<Rightarrow> byte list \<Rightarrow> index_meta \<Rightarrow> nat \<Rightarrow> (Value list \<times> row_id) result" where
  "decode_leaf_index_cell hash p page index cell_offset =
     rbind (slice_from page cell_offset) (\<lambda>cell.
     rbind (decode_varint cell) (\<lambda>(payload_size, payload_len).
     rbind (read_btree_payload p page cell_offset payload_len (unat payload_size) True ''index'') (\<lambda>payload.
     rbind (decode_index_record payload) (decode_index_entry_values hash index))))"

definition decode_leaf_index_cells ::
    "(Value list \<Rightarrow> u64) \<Rightarrow> sqlite_pager \<Rightarrow> byte list \<Rightarrow> bool \<Rightarrow> index_meta \<Rightarrow> (Value list \<times> row_id) list result" where
  "decode_leaf_index_cells hash p page first_page index =
     rbind (btree_header_decode page first_page) (\<lambda>header.
       if bh_page_type header \<noteq> LeafIndex
       then Err (Storage ''sqlite leaf-index cell reader requires a leaf index page'')
       else rbind (cell_offsets page first_page header) (collect_results (decode_leaf_index_cell hash p page index)))"

section \<open>Interior pages\<close>

definition decode_interior_child_pointer :: "byte list \<Rightarrow> nat \<Rightarrow> u32 result" where
  "decode_interior_child_pointer page cell_offset =
     rbind (ok_or (Storage ''sqlite interior table cell is truncated'') (get_range cell_offset (cell_offset + 4) page))
       (\<lambda>bytes. Ok (from_be_bytes bytes))"

definition missing_rightmost :: "string \<Rightarrow> db_error" where
  "missing_rightmost kind = Storage (''sqlite interior '' @ kind @ '' page is missing rightmost pointer'')"

definition child_pointers ::
    "string \<Rightarrow> (nat \<Rightarrow> u32 result) \<Rightarrow> byte list \<Rightarrow> bool \<Rightarrow> btree_page_header \<Rightarrow> u32 list result" where
  "child_pointers kind child page first_page header =
     rbind (cell_offsets page first_page header) (\<lambda>offsets.
     rbind (collect_results child offsets) (\<lambda>children.
     rbind (ok_or (missing_rightmost kind) (bh_rightmost_pointer header)) (\<lambda>rightmost. Ok (children @ [rightmost]))))"

definition decode_interior_table_children :: "byte list \<Rightarrow> bool \<Rightarrow> btree_page_header \<Rightarrow> u32 list result" where
  "decode_interior_table_children page first_page header =
     (if bh_page_type header \<noteq> InteriorTable
      then Err (Storage ''sqlite interior-table child reader requires an interior table page'')
      else child_pointers ''table'' (decode_interior_child_pointer page) page first_page header)"

definition decode_interior_index_child_pointers :: "byte list \<Rightarrow> bool \<Rightarrow> btree_page_header \<Rightarrow> u32 list result" where
  "decode_interior_index_child_pointers page first_page header =
     (if bh_page_type header \<noteq> InteriorIndex
      then Err (Storage ''sqlite interior-index child reader requires an interior index page'')
      else child_pointers ''index'' (decode_interior_child_pointer page) page first_page header)"

definition validate_interior_index_cell :: "sqlite_pager \<Rightarrow> byte list \<Rightarrow> index_meta \<Rightarrow> nat \<Rightarrow> unit result" where
  "validate_interior_index_cell p page index cell_offset =
     rbind (slice_from page cell_offset) (\<lambda>cell.
     rbind (if 4 \<le> length cell then Ok (drop 4 cell) else Err (Storage ''sqlite interior index cell is truncated'')) (\<lambda>payload.
     rbind (decode_varint payload) (\<lambda>(payload_size, payload_len).
     rbind (read_btree_payload p page cell_offset (4 + payload_len) (unat payload_size) True ''interior index'') (\<lambda>payload.
     rbind (decode_index_record payload) (\<lambda>values.
       if length values < length (im_columns index) + 1
       then Err (Storage (''sqlite interior index '' @ im_name index @ '' expected at least '' @
         show_nat (length (im_columns index) + 1) @ '' record values but decoded '' @ show_nat (length values)))
       else Ok ())))))"

definition decode_interior_index_children ::
    "sqlite_pager \<Rightarrow> byte list \<Rightarrow> bool \<Rightarrow> btree_page_header \<Rightarrow> index_meta \<Rightarrow> u32 list result" where
  "decode_interior_index_children p page first_page header index =
     (if bh_page_type header \<noteq> InteriorIndex
      then Err (Storage ''sqlite interior-index child reader requires an interior index page'')
      else child_pointers ''index'' (\<lambda>cell_offset.
          rbind (validate_interior_index_cell p page index cell_offset) (\<lambda>_. decode_interior_child_pointer page cell_offset))
        page first_page header)"

section \<open>Scans and lookups\<close>

fun try_fold :: "('b \<Rightarrow> 'a \<Rightarrow> 'b result) \<Rightarrow> 'a list \<Rightarrow> 'b \<Rightarrow> 'b result" where
  "try_fold f [] acc = Ok acc"
| "try_fold f (x # xs) acc = rbind (f acc x) (try_fold f xs)"

definition unsupported_page :: "string \<Rightarrow> page_type \<Rightarrow> 'a result" where
  "unsupported_page reader t = Err (Storage (''sqlite '' @ reader @ '' reader does not support page type '' @ page_type_debug t))"

text \<open>A row of a table without row ids gets the number of its place in the scan.\<close>

definition push_numbered :: "(row_id \<times> row) list \<Rightarrow> row \<Rightarrow> (row_id \<times> row) list result" where
  "push_numbered rows row =
     rbind (ok_or (Storage ''WITHOUT ROWID row counter overflow'') (usize_checked_add (length rows) 1)) (\<lambda>n.
     rbind (ok_or (Storage ''WITHOUT ROWID row counter overflow'') (u64_try_from n)) (\<lambda>row_id. Ok (rows @ [(row_id, row)])))"

text \<open>\<open>read_page\<close> and the page header, as at the start of every recursive call.\<close>

definition read_btree_page :: "sqlite_pager \<Rightarrow> u32 \<Rightarrow> (byte list \<times> btree_page_header) result" where
  "read_btree_page p page_no =
     rbind (read_sqlite_page p page_no) (\<lambda>page.
     rbind (btree_header_decode page (page_no = 1)) (\<lambda>header. Ok (page, header)))"

fun scan_table_page ::
    "nat \<Rightarrow> sqlite_pager \<Rightarrow> 'x table_schema \<Rightarrow> u32 \<Rightarrow> (row_id \<times> row) list \<Rightarrow> (row_id \<times> row) list result" where
  "scan_table_page 0 p schema page_no rows = Panic ''stack overflow''"
| "scan_table_page (Suc frames) p schema page_no rows =
     rbind (read_btree_page p page_no) (\<lambda>(page, header).
       case bh_page_type header of
         LeafTable \<Rightarrow> rbind (decode_leaf_table_cells p page (page_no = 1) schema) (\<lambda>cells. Ok (rows @ cells))
       | InteriorTable \<Rightarrow>
           rbind (decode_interior_table_children page (page_no = 1) header)
             (\<lambda>children. try_fold (\<lambda>rows child. scan_table_page frames p schema child rows) children rows)
       | LeafIndex \<Rightarrow>
           if sc_without_rowid schema
           then rbind (decode_leaf_without_rowid_table_rows p page (page_no = 1) schema) (\<lambda>new. try_fold push_numbered new rows)
           else unsupported_page ''table'' LeafIndex
       | InteriorIndex \<Rightarrow>
           if sc_without_rowid schema
           then rbind (decode_interior_index_child_pointers page (page_no = 1) header)
             (\<lambda>children. try_fold (\<lambda>rows child. scan_table_page frames p schema child rows) children rows)
           else unsupported_page ''table'' InteriorIndex)"

definition scan_table_rows :: "nat \<Rightarrow> sqlite_pager \<Rightarrow> u32 \<Rightarrow> 'x table_schema \<Rightarrow> (row_id \<times> row) list result" where
  "scan_table_rows frames p root_page schema = scan_table_page frames p schema root_page []"

fun scan_index_page ::
    "nat \<Rightarrow> (Value list \<Rightarrow> u64) \<Rightarrow> sqlite_pager \<Rightarrow> index_meta \<Rightarrow> u32 \<Rightarrow> (Value list \<times> row_id) list \<Rightarrow> (Value list \<times> row_id) list result" where
  "scan_index_page 0 hash p index page_no entries = Panic ''stack overflow''"
| "scan_index_page (Suc frames) hash p index page_no entries =
     rbind (read_btree_page p page_no) (\<lambda>(page, header).
       case bh_page_type header of
         LeafIndex \<Rightarrow> rbind (decode_leaf_index_cells hash p page (page_no = 1) index) (\<lambda>new. Ok (entries @ new))
       | InteriorIndex \<Rightarrow>
           rbind (decode_interior_index_children p page (page_no = 1) header index)
             (\<lambda>children. try_fold (\<lambda>entries child. scan_index_page frames hash p index child entries) children entries)
       | other \<Rightarrow> unsupported_page ''index'' other)"

definition scan_index_entries ::
    "nat \<Rightarrow> (Value list \<Rightarrow> u64) \<Rightarrow> sqlite_pager \<Rightarrow> u32 \<Rightarrow> index_meta \<Rightarrow> (Value list \<times> row_id) list result" where
  "scan_index_entries frames hash p root_page index = scan_index_page frames hash p index root_page []"

definition insert_matching :: "Value list \<Rightarrow> (Value list \<times> row_id) list \<Rightarrow> row_id btset \<Rightarrow> row_id btset" where
  "insert_matching key_prefix entries ids = fold (\<lambda>(key, row_id) ids. if prefix key_prefix key then bs_insert row_id ids else ids) entries ids"

fun scan_matching_index_page ::
    "nat \<Rightarrow> (Value list \<Rightarrow> u64) \<Rightarrow> sqlite_pager \<Rightarrow> index_meta \<Rightarrow> Value list \<Rightarrow> u32 \<Rightarrow> row_id btset \<Rightarrow> row_id btset result" where
  "scan_matching_index_page 0 hash p index key_prefix page_no ids = Panic ''stack overflow''"
| "scan_matching_index_page (Suc frames) hash p index key_prefix page_no ids =
     rbind (read_btree_page p page_no) (\<lambda>(page, header).
       case bh_page_type header of
         LeafIndex \<Rightarrow> rbind (decode_leaf_index_cells hash p page (page_no = 1) index) (\<lambda>new. Ok (insert_matching key_prefix new ids))
       | InteriorIndex \<Rightarrow>
           rbind (decode_interior_index_children p page (page_no = 1) header index)
             (\<lambda>children. try_fold (\<lambda>ids child. scan_matching_index_page frames hash p index key_prefix child ids) children ids)
       | other \<Rightarrow> unsupported_page ''index'' other)"

definition lookup_index_entries ::
    "nat \<Rightarrow> (Value list \<Rightarrow> u64) \<Rightarrow> sqlite_pager \<Rightarrow> u32 \<Rightarrow> index_meta \<Rightarrow> Value list \<Rightarrow> row_id list result" where
  "lookup_index_entries frames hash p root_page index key_prefix = scan_matching_index_page frames hash p index key_prefix root_page []"

text \<open>The loop over the cells of an interior page: the child a row id is to be looked for in.\<close>

fun child_for :: "byte list \<Rightarrow> btree_page_header \<Rightarrow> row_id \<Rightarrow> nat list \<Rightarrow> u32 result" where
  "child_for page header row_id [] = ok_or (missing_rightmost ''table'') (bh_rightmost_pointer header)"
| "child_for page header row_id (cell_offset # rest) =
     rbind (decode_interior_child_pointer page cell_offset) (\<lambda>left_child.
     rbind (ok_or (Storage ''sqlite interior cell offset overflow'') (usize_checked_add cell_offset 4)) (\<lambda>key_offset.
     rbind (slice_from page key_offset) (\<lambda>bytes.
     rbind (decode_varint bytes) (\<lambda>(pivot_rowid, _).
       if row_id \<le> pivot_rowid then Ok left_child else child_for page header row_id rest))))"

fun get_table_row_from_page :: "nat \<Rightarrow> sqlite_pager \<Rightarrow> 'x table_schema \<Rightarrow> row_id \<Rightarrow> u32 \<Rightarrow> row option result" where
  "get_table_row_from_page 0 p schema row_id page_no = Panic ''stack overflow''"
| "get_table_row_from_page (Suc frames) p schema row_id page_no =
     rbind (read_btree_page p page_no) (\<lambda>(page, header).
       case bh_page_type header of
         LeafTable \<Rightarrow> rbind (decode_leaf_table_cells p page (page_no = 1) schema) (\<lambda>cells. Ok (map_of cells row_id))
       | InteriorTable \<Rightarrow>
           rbind (cell_offsets page (page_no = 1) header) (\<lambda>offsets.
           rbind (child_for page header row_id offsets) (get_table_row_from_page frames p schema row_id))
       | other \<Rightarrow> unsupported_page ''table'' other)"

definition get_table_row :: "nat \<Rightarrow> sqlite_pager \<Rightarrow> u32 \<Rightarrow> 'x table_schema \<Rightarrow> row_id \<Rightarrow> row option result" where
  "get_table_row frames p root_page schema row_id = get_table_row_from_page frames p schema row_id root_page"

end
