(* ===== verification/Sqlite_Btree_Properties.thy ===== *)
theory Sqlite_Btree_Properties
  imports Sqlite_Btree
begin

text \<open>
  Reading SQLite files: overflow chains end on every file, payloads have the declared length, records
  written by the encoder are read back, and on a search tree the lookup of a row agrees with the scan.
\<close>

section \<open>Payloads\<close>

text \<open>The loop of \<open>read_overflow_chain\<close>, stopped after a number of turns.\<close>

fun overflow_turns :: "nat \<Rightarrow> sqlite_pager \<Rightarrow> nat \<Rightarrow> nat \<Rightarrow> u32 \<Rightarrow> byte list result option" where
  "overflow_turns 0 p chunk_size remaining next_page = (if remaining = 0 then Some (Ok []) else None)"
| "overflow_turns (Suc k) p chunk_size remaining next_page =
     (if remaining = 0 then Some (Ok [])
      else case read_sqlite_page p next_page of
          Err e \<Rightarrow> Some (Err e) | Panic e \<Rightarrow> Some (Panic e)
        | Ok page \<Rightarrow>
            if length page < 4 then Some (Err (Storage (''sqlite overflow page '' @ show_word next_page @ '' is truncated'')))
            else let next_overflow = from_be_bytes (take 4 page); n = min remaining chunk_size in
              (case get_range 4 (4 + n) page of
                 None \<Rightarrow> Some (Err (Storage (''sqlite overflow page '' @ show_word next_page @ '' does not contain enough payload bytes'')))
               | Some data \<Rightarrow>
                   if remaining - n = 0 then Some (Ok data)
                   else if next_overflow = 0
                   then Some (Err (Storage ''sqlite overflow chain terminated before the payload was fully read''))
                   else map_option (\<lambda>r. rbind r (\<lambda>rest. Ok (data @ rest)))
                     (overflow_turns k p chunk_size (remaining - n) next_overflow)))"

text \<open>
  Property C30: the loop over an overflow chain ends after as many pages as the declared payload can
  fill, on every file, also when the chain runs in a circle.
\<close>

theorem overflow_chain_ends:
  assumes "0 < chunk_size" "remaining \<le> k * chunk_size"
  shows "overflow_turns k p chunk_size remaining next_page = Some (overflow_loop p chunk_size remaining next_page)"
  using assms
proof (induction k arbitrary: remaining next_page)
  case 0
  then show ?case by (simp add: overflow_loop.simps)
next
  case (Suc k)
  show ?case
  proof (cases "read_sqlite_page p next_page")
    case (Ok page)
    let ?n = "min remaining chunk_size"
    have "remaining - ?n \<le> k * chunk_size" using Suc.prems by auto
    from Suc.IH [OF Suc.prems(1) this] show ?thesis
      using Ok Suc.prems(1) by (subst overflow_loop.simps) (auto simp: Let_def split: option.split)
  qed (use Suc.prems in \<open>simp_all add: overflow_loop.simps [of p chunk_size remaining]\<close>)
qed

lemma overflow_loop_length:
  assumes chunk: "0 < chunk_size" and read: "overflow_loop p chunk_size remaining next_page = Ok payload"
  shows "length payload = remaining"
  using read
proof (induction remaining arbitrary: next_page payload rule: less_induct)
  case (less remaining)
  show ?case
  proof (cases "remaining = 0")
    case True
    then show ?thesis using less.prems by (simp add: overflow_loop.simps)
  next
    case False
    let ?n = "min remaining chunk_size"
    from less.prems False chunk obtain page data where data: "get_range 4 (4 + ?n) page = Some data" and
        more: "remaining - ?n = 0 \<and> payload = data \<or> (\<exists>next more. overflow_loop p chunk_size (remaining - ?n) next = Ok more \<and> payload = data @ more)"
      by (subst (asm) overflow_loop.simps) (fastforce simp: rbind_eq_Ok Let_def split: if_splits)
    have "length data = ?n" using get_range_Some_length [OF data] by simp
    moreover have "remaining - ?n < remaining" using False chunk by auto
    ultimately show ?thesis using more less.IH by fastforce
  qed
qed

lemma overflow_chain_length: "read_overflow_chain p first n = Ok payload \<Longrightarrow> length payload = n"
  by (auto simp: read_overflow_chain_def rbind_eq_Ok split: if_splits dest!: overflow_loop_length [rotated])

lemma min_local_le_max_local:
  assumes "btree_max_local usable is_index = Ok max_local" "btree_min_local usable is_index = Ok min_local"
  shows "min_local \<le> max_local"
proof -
  have "(usable - 12) * 32 div 255 \<le> (usable - 12) * 64 div 255" by (intro div_le_mono) simp
  moreover have "(usable - 12) * 32 div 255 \<le> (usable - 12) * 255 div 255" by (intro div_le_mono) simp
  ultimately show ?thesis using assms
    by (auto simp: btree_max_local_def btree_min_local_def scaled_local_def Let_def split: if_splits; arith)
qed

lemma local_payload_size_le:
  assumes "local_payload_size usable max_local min_local payload_size = Ok n" "min_local \<le> max_local"
  shows "n \<le> payload_size"
proof -
  have "(payload_size - min_local) mod k \<le> payload_size - min_local" for k by (rule mod_less_eq_dividend)
  from this [of "usable - 4"] assms show ?thesis by (auto simp: local_payload_size_def Let_def split: if_splits)
qed

text \<open>
  The payload of a cell has the length the cell declares; a file that does not hold so many
  bytes is rejected.
\<close>

lemma btree_payload_length:
  assumes "read_btree_payload p page cell_offset cell_header_len payload_size is_index kind = Ok payload"
  shows "length payload = payload_size"
proof -
  from assms obtain usable max_local min_local n a bytes where
      n: "btree_max_local usable is_index = Ok max_local" "btree_min_local usable is_index = Ok min_local"
        "local_payload_size usable max_local min_local payload_size = Ok n"
    and bytes: "get_range a (a + n) page = Some bytes"
    and payload: "payload_size \<le> n \<and> payload = bytes \<or>
        (\<exists>first rest. read_overflow_chain p first (payload_size - n) = Ok rest \<and> payload = bytes @ rest)"
    unfolding read_btree_payload_def rbind_eq_Ok ok_or_eq_Ok
    by (fastforce simp: rbind_eq_Ok usize_checked_add_def Let_def split: if_splits)
  have "n \<le> payload_size" by (rule local_payload_size_le [OF n(3) min_local_le_max_local [OF n(1,2)]])
  then show ?thesis using payload get_range_Some_length [OF bytes] overflow_chain_length by fastforce
qed

section \<open>Records\<close>

text \<open>What the reader of tables gives for a value the encoder wrote: booleans come back as integers.\<close>

fun as_stored :: "Value \<Rightarrow> Value" where
  "as_stored (Boolean b) = Integer (if b then 1 else 0)"
| "as_stored v = v"

lemma decode_stored_value_Ok:
  "decode_value bytes cursor serial = Ok (v, fin) \<Longrightarrow> decode_stored_value what bytes cursor serial = Ok (as_stored v, fin)"
  by (auto simp: decode_stored_value_def decode_value_def rbind_eq_Ok split: if_splits)

lemma decode_stored_values_Ok:
  "decode_values bytes cursor serials = Ok (vs, fin) \<Longrightarrow>
     decode_stored_values what bytes cursor serials = Ok (map as_stored vs, fin)"
  by (induction serials arbitrary: cursor vs) (auto simp: rbind_eq_Ok decode_stored_value_Ok)

lemma decode_table_record_Ok:
  assumes "decode_record bytes = Ok vs"
  shows "decode_table_record bytes = Ok (map as_stored vs)"
proof -
  from assms obtain n k serials where "decode_varint bytes = Ok (n, k)" "\<not> (length bytes < unat n \<or> unat n < k)"
      "decode_serials bytes (unat n) k = Ok serials" "decode_values bytes (unat n) serials = Ok (vs, length bytes)"
    by (auto simp: decode_record_def Let_def rbind_eq_Ok split: if_splits)
  then show ?thesis by (simp add: decode_table_record_def decode_record_header_def Let_def decode_stored_values_Ok)
qed

text \<open>
  Property C29: a record that \<open>encode_record\<close> has written is read back by the reader of tables with the same
  values, booleans as the integers 0 and 1.
\<close>

theorem table_record_roundtrip:
  assumes "encode_record vs = Ok bytes" "\<forall>v \<in> set vs. rust_value v" "length bytes < 2 ^ 64"
  shows "decode_table_record bytes = Ok (map as_stored vs)"
proof -
  have "as_stored (stored_value v) = as_stored v" for v by (cases v) auto
  moreover have "decode_record bytes = Ok (map stored_value vs)" using decode_record_encode [of vs bytes "[]"] assms by simp
  ultimately show ?thesis using decode_table_record_Ok by (simp add: o_def)
qed

section \<open>Trees\<close>

datatype sq_tree = Sq_Leaf u32 "(row_id \<times> row) list" | Sq_Node u32 "(sq_tree \<times> row_id) list" sq_tree

fun page_of :: "sq_tree \<Rightarrow> u32" where
  "page_of (Sq_Leaf n cells) = n"
| "page_of (Sq_Node n kids right) = n"

fun tree_rows :: "sq_tree \<Rightarrow> (row_id \<times> row) list" where
  "tree_rows (Sq_Leaf n cells) = cells"
| "tree_rows (Sq_Node n kids right) = concat (map (\<lambda>(t, _). tree_rows t) kids) @ tree_rows right"

fun tree_height :: "sq_tree \<Rightarrow> nat" where
  "tree_height (Sq_Leaf n cells) = 0"
| "tree_height (Sq_Node n kids right) = Suc (fold max (map (\<lambda>(t, _). tree_height t) kids) (tree_height right))"

text \<open>The pages of a file hold a tree: every page is read and decoded to a node of it.\<close>

definition cell_pivot :: "byte list \<Rightarrow> nat \<Rightarrow> row_id result" where
  "cell_pivot page cell_offset =
     rbind (ok_or (Storage ''sqlite interior cell offset overflow'') (usize_checked_add cell_offset 4)) (\<lambda>key_offset.
     rbind (slice_from page key_offset) (\<lambda>bytes. rbind (decode_varint bytes) (\<lambda>(pivot, _). Ok pivot)))"

inductive table_tree :: "sqlite_pager \<Rightarrow> 'x table_schema \<Rightarrow> sq_tree \<Rightarrow> bool" for p schema where
  leaf: "read_btree_page p n = Ok (page, header) \<Longrightarrow> bh_page_type header = LeafTable \<Longrightarrow>
    decode_leaf_table_cells p page (n = 1) schema = Ok cells \<Longrightarrow> table_tree p schema (Sq_Leaf n cells)"
| node: "read_btree_page p n = Ok (page, header) \<Longrightarrow> bh_page_type header = InteriorTable \<Longrightarrow>
    cell_offsets page (n = 1) header = Ok offsets \<Longrightarrow>
    list_all2 (\<lambda>offset (t, pivot). decode_interior_child_pointer page offset = Ok (page_of t) \<and> cell_pivot page offset = Ok pivot)
      offsets kids \<Longrightarrow>
    bh_rightmost_pointer header = Some (page_of right) \<Longrightarrow> \<forall>(t, _) \<in> set kids. table_tree p schema t \<Longrightarrow>
    table_tree p schema right \<Longrightarrow> table_tree p schema (Sq_Node n kids right)"

text \<open>The pivots separate the row ids of the children.\<close>

fun separated :: "(sq_tree \<times> row_id) list \<Rightarrow> sq_tree \<Rightarrow> bool" where
  "separated [] right = True"
| "separated ((t, pivot) # kids) right \<longleftrightarrow>
     list_all (\<lambda>(r, _). r \<le> pivot) (tree_rows t) \<and>
     list_all (\<lambda>(r, _). pivot < r) (concat (map (\<lambda>(t, _). tree_rows t) kids) @ tree_rows right) \<and> separated kids right"

inductive search_tree :: "sq_tree \<Rightarrow> bool" where
  search_leaf: "search_tree (Sq_Leaf n cells)"
| search_node: "separated kids right \<Longrightarrow> \<forall>(t, _) \<in> set kids. search_tree t \<Longrightarrow> search_tree right \<Longrightarrow>
    search_tree (Sq_Node n kids right)"

inductive_cases search_nodeE: "search_tree (Sq_Node n kids right)"

fun chosen_child :: "row_id \<Rightarrow> (sq_tree \<times> row_id) list \<Rightarrow> sq_tree \<Rightarrow> sq_tree" where
  "chosen_child r [] right = right"
| "chosen_child r ((t, pivot) # kids) right = (if r \<le> pivot then t else chosen_child r kids right)"

lemma chosen_child_member: "chosen_child r kids right = right \<or> (\<exists>pivot. (chosen_child r kids right, pivot) \<in> set kids)"
  by (induction r kids right rule: chosen_child.induct) auto

lemma bounded_keys:
  "list_all (\<lambda>(r, _). r \<le> pivot) xs \<Longrightarrow> \<not> (r :: row_id) \<le> pivot \<Longrightarrow> map_of xs r = None"
  "list_all (\<lambda>(r, _). pivot < r) xs \<Longrightarrow> r \<le> pivot \<Longrightarrow> map_of xs r = None"
  by (auto simp: list_all_iff map_of_eq_None_iff)

lemma chosen_child_rows:
  "separated kids right \<Longrightarrow>
     map_of (concat (map (\<lambda>(t, _). tree_rows t) kids) @ tree_rows right) r = map_of (tree_rows (chosen_child r kids right)) r"
proof (induction r kids right rule: chosen_child.induct)
  case (2 r t pivot kids right)
  let ?rest = "concat (map (\<lambda>(t, _). tree_rows t) kids) @ tree_rows right"
  have "list_all (\<lambda>(r, _). r \<le> pivot) (tree_rows t)" "list_all (\<lambda>(r, _). pivot < r) ?rest" "separated kids right"
    using 2(2) by simp_all
  note bounds = bounded_keys(1) [OF this(1), of r] bounded_keys(2) [OF this(2), of r] this(3)
  have "map_of (concat (map (\<lambda>(t, _). tree_rows t) ((t, pivot) # kids)) @ tree_rows right) r =
      (case map_of (tree_rows t) r of None \<Rightarrow> map_of ?rest r | v \<Rightarrow> v)"
    by (simp add: map_add_def split: option.split)
  with 2(1) bounds show ?case by (cases "r \<le> pivot") (auto split: option.split)
qed simp

lemma child_for_chosen:
  assumes "list_all2 (\<lambda>offset (t, pivot). decode_interior_child_pointer page offset = Ok (page_of t) \<and> cell_pivot page offset = Ok pivot)
      offsets kids" "bh_rightmost_pointer header = Some (page_of right)"
  shows "child_for page header r offsets = Ok (page_of (chosen_child r kids right))"
  using assms(1)
proof (induction rule: list_all2_induct)
  case (Cons offset offsets kid kids)
  obtain t pivot where "kid = (t, pivot)" by fastforce
  with Cons show ?case by (auto simp: cell_pivot_def rbind_eq_Ok)
qed (simp add: assms(2))

lemma fold_max_le: "(x :: nat) \<le> fold max xs x" "y \<in> set xs \<Longrightarrow> y \<le> fold max xs x"
proof -
  show le: "x \<le> fold max xs x" for x :: nat and xs
  proof (induction xs arbitrary: x)
    case (Cons y ys)
    then show ?case by (metis fold_simps(2) le_trans max.cobounded2)
  qed simp
  show "y \<in> set xs \<Longrightarrow> y \<le> fold max xs x"
  proof (induction xs arbitrary: x)
    case (Cons z zs)
    then show ?case using le [of "max z x" zs] by auto
  qed simp
qed

lemma kid_height:
  "(t, pivot) \<in> set kids \<Longrightarrow> tree_height t < tree_height (Sq_Node n kids right)" "tree_height right < tree_height (Sq_Node n kids right)"
  using fold_max_le [where xs = "map (\<lambda>(t, _). tree_height t) kids" and x = "tree_height right"]
  by (force simp: less_Suc_eq_le)+

lemma tree_lookup:
  "table_tree p schema t \<Longrightarrow> search_tree t \<Longrightarrow> tree_height t < frames \<Longrightarrow>
     get_table_row_from_page frames p schema r (page_of t) = Ok (map_of (tree_rows t) r)"
proof (induction t arbitrary: frames rule: table_tree.induct)
  case (leaf n page header cells)
  then show ?case by (cases frames) simp_all
next
  case (node n page header offsets kids right)
  let ?c = "chosen_child r kids right"
  obtain k where k: "frames = Suc k" using node.prems(2) by (cases frames) auto
  from node.prems(1) have sep: "separated kids right" and kids: "\<forall>(t, _) \<in> set kids. search_tree t" "search_tree right"
    by (auto elim: search_nodeE)
  have "get_table_row_from_page k p schema r (page_of ?c) = Ok (map_of (tree_rows ?c) r)"
  proof (cases "?c = right")
    case True
    then show ?thesis using node.IH(2) [OF kids(2)] kid_height(2) [of right n kids] node.prems(2) k by simp
  next
    case False
    then obtain pivot where mem: "(?c, pivot) \<in> set kids" using chosen_child_member [of r kids right] by auto
    then have "search_tree ?c" "tree_height ?c < k" using kids(1) kid_height(1) [OF mem, of n right] node.prems(2) k by auto
    then show ?thesis using node.IH(1) mem by blast
  qed
  then show ?case using node.hyps child_for_chosen [OF node.hyps(4,5)] chosen_child_rows [OF sep] k by simp
qed

lemma node_children:
  assumes "bh_page_type header = InteriorTable" "cell_offsets page first header = Ok offsets"
    "list_all2 (\<lambda>offset (t, pivot). decode_interior_child_pointer page offset = Ok (page_of t) \<and> cell_pivot page offset = Ok pivot)
      offsets kids" "bh_rightmost_pointer header = Some (page_of right)"
  shows "decode_interior_table_children page first header = Ok (map page_of (map fst kids @ [right]))"
proof -
  have "collect_results (decode_interior_child_pointer page) offsets = Ok (map (page_of \<circ> fst) kids)"
    unfolding collect_results_eq_Ok using assms(3) by (simp add: list_all2_conv_all_nth split_beta)
  then show ?thesis using assms by (simp add: decode_interior_table_children_def child_pointers_def)
qed

lemma try_fold_append:
  "(\<And>t rows. t \<in> set ts \<Longrightarrow> f rows (page_of t) = Ok (rows @ tree_rows t)) \<Longrightarrow>
     try_fold f (map page_of ts) rows = Ok (rows @ concat (map tree_rows ts))"
  by (induction ts arbitrary: rows) simp_all

lemma tree_scan:
  "table_tree p schema t \<Longrightarrow> tree_height t < frames \<Longrightarrow>
     scan_table_page frames p schema (page_of t) rows = Ok (rows @ tree_rows t)"
proof (induction t arbitrary: frames rows rule: table_tree.induct)
  case (leaf n page header cells)
  then show ?case by (cases frames) simp_all
next
  case (node n page header offsets kids right)
  obtain k where k: "frames = Suc k" using node.prems by (cases frames) auto
  have "scan_table_page k p schema (page_of t) rows = Ok (rows @ tree_rows t)" if t: "t \<in> set (map fst kids @ [right])" for t rows
  proof (cases "t = right")
    case True
    then show ?thesis using node.IH(2) kid_height(2) [of right n kids] node.prems k by simp
  next
    case False
    then obtain pivot where mem: "(t, pivot) \<in> set kids" using t by auto
    then show ?thesis using node.IH(1) kid_height(1) [OF mem, of n right] node.prems k by fastforce
  qed
  then have "try_fold (\<lambda>rows child. scan_table_page k p schema child rows) (map page_of (map fst kids @ [right])) rows =
      Ok (rows @ concat (map tree_rows (map fst kids @ [right])))"
    by (rule try_fold_append)
  moreover have "concat (map tree_rows (map fst kids @ [right])) = tree_rows (Sq_Node n kids right)" by (simp add: o_def case_prod_unfold)
  ultimately show ?case using node.hyps node_children [OF node.hyps(2-5)] k by simp
qed

text \<open>
  Property C17: on a table tree whose pivots separate the row ids, with frames for its height, looking a
  row id up gives what a scan of the whole table finds under that id.
\<close>

theorem sqlite_lookup_agrees_with_scan:
  assumes "table_tree p schema t" "search_tree t" "tree_height t < frames"
  shows "\<exists>rows. scan_table_rows frames p (page_of t) schema = Ok rows \<and>
    (\<forall>r. get_table_row frames p (page_of t) schema r = Ok (map_of rows r))"
  using tree_scan [OF assms(1,3)] tree_lookup [OF assms]
  by (auto simp: scan_table_rows_def get_table_row_def)

text \<open>
  Property C40: there is no check against pages that are their own descendants. A scan of a page whose
  first child is the page itself exhausts the stack, however large it is.
\<close>

theorem cyclic_page_exhausts_stack:
  assumes "read_btree_page p n = Ok (page, header)" "bh_page_type header = InteriorTable"
    "decode_interior_table_children page (n = 1) header = Ok (n # children)"
  shows "scan_table_page frames p schema n rows = Panic ''stack overflow''"
  using assms by (induction frames) simp_all

section \<open>Indexes\<close>

lemma insert_matching_append: "insert_matching k (xs @ ys) ids = insert_matching k ys (insert_matching k xs ids)"
  by (simp add: insert_matching_def)

lemma matching_agrees:
  "scan_index_page frames hash p index page_no entries = Ok entries' \<Longrightarrow>
     \<exists>new. entries' = entries @ new \<and>
       (\<forall>ids. scan_matching_index_page frames hash p index key page_no ids = Ok (insert_matching key new ids))"
proof (induction frames arbitrary: page_no entries entries')
  case (Suc frames)
  have fold: "\<exists>new. entries' = entries @ new \<and>
      (\<forall>ids. try_fold (\<lambda>ids child. scan_matching_index_page frames hash p index key child ids) children ids = Ok (insert_matching key new ids))"
    if "try_fold (\<lambda>entries child. scan_index_page frames hash p index child entries) children entries = Ok entries'"
    for children entries entries'
    using that
  proof (induction children arbitrary: entries)
    case (Cons c cs)
    from Cons.prems obtain mid where mid: "scan_index_page frames hash p index c entries = Ok mid"
        "try_fold (\<lambda>entries child. scan_index_page frames hash p index child entries) cs mid = Ok entries'"
      by (auto simp: rbind_eq_Ok)
    from Suc.IH [OF mid(1)] Cons.IH [OF mid(2)] show ?case by (force simp: insert_matching_append)
  qed (simp add: insert_matching_def)
  from Suc.prems obtain page header where page: "read_btree_page p page_no = Ok (page, header)" by (auto simp: rbind_eq_Ok)
  show ?case
  proof (cases "bh_page_type header")
    case InteriorIndex
    with Suc.prems page obtain children where "decode_interior_index_children p page (page_no = 1) header index = Ok children"
        "try_fold (\<lambda>entries child. scan_index_page frames hash p index child entries) children entries = Ok entries'"
      by (auto simp: rbind_eq_Ok)
    with fold [of children entries entries'] page InteriorIndex show ?thesis by auto
  qed (use Suc.prems page in \<open>auto simp: rbind_eq_Ok unsupported_page_def\<close>)
qed simp

text \<open>
  Property C19: on every file, a lookup in an index gives the row ids of the entries a scan of the index
  finds with that prefix, in order and once.
\<close>

theorem index_lookup_agrees_with_scan:
  assumes "scan_index_entries frames hash p root_page index = Ok entries"
  shows "\<exists>ids. lookup_index_entries frames hash p root_page index key_prefix = Ok ids \<and> sorted_wrt (<) ids \<and>
    set ids = {r. \<exists>key. (key, r) \<in> set entries \<and> prefix key_prefix key}"
proof -
  have set: "set (insert_matching k es ids) = set ids \<union> {r. \<exists>key. (key, r) \<in> set es \<and> prefix k key}" for k es ids
    unfolding insert_matching_def by (induction es arbitrary: ids) (auto split: if_splits)
  have sorted: "sorted_wrt (<) ids \<Longrightarrow> sorted_wrt (<) (insert_matching k es ids)" for k es ids
    unfolding insert_matching_def by (induction es arbitrary: ids) (auto split: if_splits)
  from matching_agrees [OF assms [unfolded scan_index_entries_def], of key_prefix] show ?thesis
    using set sorted [of "[]"] by (auto simp: lookup_index_entries_def)
qed

section \<open>A small file\<close>

text \<open>
  Pages of 512 bytes: the file header, an interior table page over two leaves of one row each, a leaf of
  an index, an interior page that is its own child, and an overflow page that links to itself.
\<close>

definition sq_demo_page :: "byte list \<Rightarrow> byte list" where
  "sq_demo_page bytes = bytes @ replicate (512 - length bytes) 0"

definition sq_demo_pager :: sqlite_pager where
  "sq_demo_pager = \<lparr>sq_file =
       sq_demo_page (as_bytes ''SQLite format 3'' @ [0, 2, 0]) @
       sq_demo_page [5, 0, 0, 0, 1, 0, 14, 0, 0, 0, 0, 4, 0, 14, 0, 0, 0, 3, 1] @
       sq_demo_page [13, 0, 0, 0, 1, 0, 10, 0, 0, 10, 4, 1, 3, 0, 1, 7] @
       sq_demo_page [13, 0, 0, 0, 1, 0, 10, 0, 0, 10, 4, 2, 3, 0, 1, 9] @
       sq_demo_page [10, 0, 0, 0, 1, 0, 10, 0, 0, 10, 4, 3, 1, 9, 7] @
       sq_demo_page [5, 0, 0, 0, 1, 0, 14, 0, 0, 0, 0, 4, 0, 14, 0, 0, 0, 6, 1] @
       sq_demo_page [0, 0, 0, 7],
     sq_header = \<lparr>dh_page_size = 512, dh_reserved_bytes = 0, dh_page_count_hint = 0, dh_freelist_count = 0,
       dh_schema_version = 0, dh_schema_format = 0, dh_text_encoding = 0, dh_user_version = 0, dh_application_id = 0\<rparr>\<rparr>"

definition sq_demo_column :: "string \<Rightarrow> bool \<Rightarrow> unit column" where
  "sq_demo_column name key = \<lparr>cd_name = name, cd_column_type = C_Integer, cd_nullable = True, cd_primary_key = key,
     cd_primary_key_sort_order = None, cd_default_value = None, cd_generated_expr = None, cd_checks = [],
     cd_foreign_key = None, cd_rest = ()\<rparr>"

definition sq_demo_schema :: "unit table_schema" where
  "sq_demo_schema = \<lparr>sc_name = ''t'', sc_columns = [sq_demo_column ''a'' True, sq_demo_column ''b'' False],
     sc_checks = [], sc_foreign_keys = [], sc_primary_key_constraint = None, sc_unique_constraints = [],
     sc_strict = False, sc_without_rowid = False, sc_rest = ()\<rparr>"

lemma sq_demo_opened: "sqlite_open (sq_file sq_demo_pager) = Ok sq_demo_pager"
  by code_simp

text \<open>The overflow checks on integers, for evaluation.\<close>

lemma checked_code [code]:
  "checked_mul a b = (if uint a * uint b < 2 ^ LENGTH('a) then Some (a * b) else None)"
  "checked_add a b = (if uint a + uint b < 2 ^ LENGTH('a) then Some (a + b) else None)" for a b :: "'a::len word"
  proof -
  have less: "int m < 2 ^ LENGTH('a) \<longleftrightarrow> m < 2 ^ LENGTH('a)" for m by (metis of_nat_less_iff of_nat_numeral of_nat_power)
  show "checked_mul a b = (if uint a * uint b < 2 ^ LENGTH('a) then Some (a * b) else None)"
    using less [of "unat a * unat b"] by (simp add: checked_mul_def)
  show "checked_add a b = (if uint a + uint b < 2 ^ LENGTH('a) then Some (a + b) else None)"
    using less [of "unat a + unat b"] by (simp add: checked_add_def)
qed

lemma usize_code [code]:
  "usize_checked_add m n = (if int m + int n < 18446744073709551616 then Some (m + n) else None)"
  "u64_try_from n = (if int n < 18446744073709551616 then Some (word_of_nat n) else None)"
  by (auto simp: usize_checked_add_def u64_try_from_def)

abbreviation sq_root_page :: "byte list" where
  "sq_root_page \<equiv> sq_demo_page [5, 0, 0, 0, 1, 0, 14, 0, 0, 0, 0, 4, 0, 14, 0, 0, 0, 3, 1]"

abbreviation sq_leaf_page_1 :: "byte list" where
  "sq_leaf_page_1 \<equiv> sq_demo_page [13, 0, 0, 0, 1, 0, 10, 0, 0, 10, 4, 1, 3, 0, 1, 7]"

abbreviation sq_leaf_page_2 :: "byte list" where
  "sq_leaf_page_2 \<equiv> sq_demo_page [13, 0, 0, 0, 1, 0, 10, 0, 0, 10, 4, 2, 3, 0, 1, 9]"

abbreviation sq_index_page :: "byte list" where
  "sq_index_page \<equiv> sq_demo_page [10, 0, 0, 0, 1, 0, 10, 0, 0, 10, 4, 3, 1, 9, 7]"

abbreviation sq_cyclic_page :: "byte list" where
  "sq_cyclic_page \<equiv> sq_demo_page [5, 0, 0, 0, 1, 0, 14, 0, 0, 0, 0, 4, 0, 14, 0, 0, 0, 6, 1]"

definition sq_demo_index :: index_meta where
  "sq_demo_index = \<lparr>im_name = ''i'', im_columns = [''b''], im_decorated_columns = None, im_unique = False, im_predicate = None\<rparr>"

definition sq_demo_header :: "page_type \<Rightarrow> u32 \<Rightarrow> u32 option \<Rightarrow> btree_page_header" where
  "sq_demo_header kind content rightmost = \<lparr>bh_page_type = kind, bh_first_freeblock = 0, bh_cell_count = 1,
     bh_cell_content_area_start = content, bh_fragmented_free_bytes = 0, bh_rightmost_pointer = rightmost\<rparr>"

definition sq_demo_tree :: sq_tree where
  "sq_demo_tree = Sq_Node 2 [(Sq_Leaf 3 [(1, [Integer 1, Integer 7])], 1)] (Sq_Leaf 4 [(2, [Integer 2, Integer 9])])"

lemma sq_demo_header_simps [simp]:
  "bh_page_type (sq_demo_header kind content rightmost) = kind" "bh_rightmost_pointer (sq_demo_header kind content rightmost) = rightmost"
  by (simp_all add: sq_demo_header_def)


lemma sq_demo_page_length [simp]: "length bytes \<le> 512 \<Longrightarrow> length (sq_demo_page bytes) = 512"
  by (simp add: sq_demo_page_def)

lemma sq_demo_page_drop: "k \<le> length bytes \<Longrightarrow> drop k (sq_demo_page bytes) = drop k bytes @ replicate (512 - length bytes) 0"
  by (simp add: sq_demo_page_def)

lemma sq_demo_pages:
  "read_sqlite_page sq_demo_pager 2 = Ok sq_root_page"
  "read_sqlite_page sq_demo_pager 3 = Ok sq_leaf_page_1"
  "read_sqlite_page sq_demo_pager 4 = Ok sq_leaf_page_2"
  "read_sqlite_page sq_demo_pager 5 = Ok sq_index_page"
  "read_sqlite_page sq_demo_pager 6 = Ok sq_cyclic_page"
  by (simp_all add: read_sqlite_page_def sq_demo_pager_def checked_mul_def checked_add_def slice_def as_bytes_def Let_def)

lemma sq_demo_payload:
  assumes "n \<le> 39" "cell_offset + cell_header_len + n \<le> length page" "length page = 512"
  shows "read_btree_payload sq_demo_pager page cell_offset cell_header_len n is_index kind =
    Ok (take n (drop (cell_offset + cell_header_len) page))"
proof -
  have "sq_usable_size sq_demo_pager = Ok 512" by (simp add: sq_usable_size_def header_usable_size_def sq_demo_pager_def)
  then show ?thesis using assms
    by (simp add: read_btree_payload_def btree_max_local_def btree_min_local_def scaled_local_def local_payload_size_def
        usize_checked_add_def get_range_def Let_def)
qed

lemma sq_demo_headers:
  "btree_header_decode sq_root_page False = Ok (sq_demo_header InteriorTable 14 (Some 4))"
  "btree_header_decode sq_leaf_page_1 False = Ok (sq_demo_header LeafTable 10 None)"
  "btree_header_decode sq_leaf_page_2 False = Ok (sq_demo_header LeafTable 10 None)"
  "btree_header_decode sq_index_page False = Ok (sq_demo_header LeafIndex 10 None)"
  "btree_header_decode sq_cyclic_page False = Ok (sq_demo_header InteriorTable 14 (Some 4))"
  by code_simp+

lemma sq_demo_cell_offsets:
  "cell_offsets sq_root_page False (sq_demo_header InteriorTable 14 (Some 4)) = Ok [14]"
  "cell_offsets sq_leaf_page_1 False (sq_demo_header LeafTable 10 None) = Ok [10]"
  "cell_offsets sq_leaf_page_2 False (sq_demo_header LeafTable 10 None) = Ok [10]"
  "cell_offsets sq_index_page False (sq_demo_header LeafIndex 10 None) = Ok [10]"
  by code_simp+

lemma sq_demo_root_cell:
  "decode_interior_child_pointer sq_root_page 14 = Ok 3" "cell_pivot sq_root_page 14 = Ok 1"
  by code_simp+

lemma sq_demo_varints:
  "decode_varint (4 # rest) = Ok (4, 1)" "decode_varint (1 # rest) = Ok (1, 1)" "decode_varint (2 # rest) = Ok (2, 1)"
  by (simp_all add: decode_varint_def is_canonical_varint_def)

lemma sq_demo_records:
  "decode_table_record [3, 0, 1, 7] = Ok [Null, Integer 7]" "decode_table_record [3, 0, 1, 9] = Ok [Null, Integer 9]"
  "decode_index_record [3, 1, 9, 7] = Ok [Integer 7, Integer 1]"
  by code_simp+

lemma sq_demo_rows:
  "patch_integer_primary_key_alias sq_demo_schema 1 [Null, Integer 7] = Ok [Integer 1, Integer 7]"
  "patch_integer_primary_key_alias sq_demo_schema 2 [Null, Integer 9] = Ok [Integer 2, Integer 9]"
  "decode_index_entry_values (\<lambda>_. 0) sq_demo_index [Integer 7, Integer 1] = Ok ([Integer 7], 1)"
  by code_simp+

lemma sq_demo_leaf_cells:
  "decode_leaf_table_cells sq_demo_pager sq_leaf_page_1 False sq_demo_schema = Ok [(1, [Integer 1, Integer 7])]"
  "decode_leaf_table_cells sq_demo_pager sq_leaf_page_2 False sq_demo_schema = Ok [(2, [Integer 2, Integer 9])]"
  "decode_leaf_index_cells (\<lambda>_. 0) sq_demo_pager sq_index_page False sq_demo_index = Ok [([Integer 7], 1)]"
  by (simp_all add: decode_leaf_table_cells_def decode_leaf_table_cell_def decode_leaf_index_cells_def decode_leaf_index_cell_def
      sq_demo_headers sq_demo_cell_offsets slice_from_def sq_demo_payload usize_checked_add_def sq_demo_page_drop sq_demo_varints
      sq_demo_records sq_demo_rows)

lemma sq_demo_table_tree: "table_tree sq_demo_pager sq_demo_schema sq_demo_tree"
proof -
  have leaves: "table_tree sq_demo_pager sq_demo_schema (Sq_Leaf 3 [(1, [Integer 1, Integer 7])])"
      "table_tree sq_demo_pager sq_demo_schema (Sq_Leaf 4 [(2, [Integer 2, Integer 9])])"
    using table_tree.leaf [of sq_demo_pager 3 sq_leaf_page_1 "sq_demo_header LeafTable 10 None" sq_demo_schema]
      table_tree.leaf [of sq_demo_pager 4 sq_leaf_page_2 "sq_demo_header LeafTable 10 None" sq_demo_schema]
    by (simp_all add: read_btree_page_def sq_demo_pages sq_demo_headers sq_demo_leaf_cells)
  show ?thesis unfolding sq_demo_tree_def
    by (rule table_tree.node [of sq_demo_pager 2 sq_root_page "sq_demo_header InteriorTable 14 (Some 4)" "[14]"])
      (use leaves in \<open>simp_all add: read_btree_page_def sq_demo_pages sq_demo_headers sq_demo_cell_offsets sq_demo_root_cell\<close>)
qed

lemma sq_demo_search_tree: "search_tree sq_demo_tree"
  unfolding sq_demo_tree_def by (intro search_node) (auto intro: search_leaf)

theorem sqlite_lookup_agrees_with_scan_witness:
  "\<exists>rows. scan_table_rows 3 sq_demo_pager 2 sq_demo_schema = Ok rows \<and>
    (\<forall>r. get_table_row 3 sq_demo_pager 2 sq_demo_schema r = Ok (map_of rows r))"
  using sqlite_lookup_agrees_with_scan [OF sq_demo_table_tree sq_demo_search_tree, of 3] by (simp add: sq_demo_tree_def)

theorem overflow_chain_ends_witness:
  "overflow_turns 2 sq_demo_pager 508 1016 7 = Some (overflow_loop sq_demo_pager 508 1016 7)"
  by (rule overflow_chain_ends) simp_all

theorem table_record_roundtrip_witness:
  "encode_record [Integer 300, Null, Boolean True] = Ok [4, 2, 0, 9, 1, 44] \<and>
   decode_table_record [4, 2, 0, 9, 1, 44] = Ok [Integer 300, Null, Integer 1]"
proof (rule conjI)
  show written: "encode_record [Integer 300, Null, Boolean True] = Ok [4, 2, 0, 9, 1, 44]" by code_simp
  show "decode_table_record [4, 2, 0, 9, 1, 44] = Ok [Integer 300, Null, Integer 1]"
    using table_record_roundtrip [OF written] by simp
qed

theorem cyclic_page_exhausts_stack_witness:
  "scan_table_page 1000000 sq_demo_pager sq_demo_schema 6 [] = Panic ''stack overflow''"
proof (rule cyclic_page_exhausts_stack)
  show "read_btree_page sq_demo_pager 6 = Ok (sq_cyclic_page, sq_demo_header InteriorTable 14 (Some 4))"
    by (simp add: read_btree_page_def sq_demo_pages sq_demo_headers)
  show "decode_interior_table_children sq_cyclic_page ((6 :: u32) = 1) (sq_demo_header InteriorTable 14 (Some 4)) = Ok [6, 4]"
    by code_simp
qed simp

theorem index_lookup_agrees_with_scan_witness:
  "\<exists>ids. lookup_index_entries 1 (\<lambda>_. 0) sq_demo_pager 5 sq_demo_index [Integer 7] = Ok ids \<and> sorted_wrt (<) ids \<and>
    set ids = {r. \<exists>key. (key, r) \<in> set [([Integer 7], 1)] \<and> prefix [Integer 7] key}"
proof (rule index_lookup_agrees_with_scan)
  show "scan_index_entries 1 (\<lambda>_. 0) sq_demo_pager 5 sq_demo_index = Ok [([Integer 7], 1)]"
    by (simp add: scan_index_entries_def read_btree_page_def sq_demo_pages sq_demo_headers sq_demo_leaf_cells)
qed

end
