(* ===== verification/V2_Page.thy ===== *)
theory V2_Page
  imports Prelude
begin

text \<open>
  \<open>src/storage/v2/page.rs\<close>: the 4096-byte pages of the version 2 engine. A page starts with the
  magic \<open>RSV2\<close>, its kind at offset 4, the payload length at offset 8 and the payload at offset 16;
  the meta page stores its four fields at offset 16. Shown: both codecs round trip, and a page of
  another kind, a wrong magic or a wrong length is rejected.
\<close>

section \<open>Definitions\<close>

definition PAGE_SIZE :: nat where "PAGE_SIZE = 4096"

definition STORAGE_MAGIC :: "byte list" where "STORAGE_MAGIC = [0x52, 0x53, 0x56, 0x32]"

definition KIND_OFFSET :: nat where "KIND_OFFSET = 4"

definition PAYLOAD_LEN_OFFSET :: nat where "PAYLOAD_LEN_OFFSET = 8"

definition PAYLOAD_OFFSET :: nat where "PAYLOAD_OFFSET = 16"

lemmas page_layout = PAGE_SIZE_def KIND_OFFSET_def PAYLOAD_LEN_OFFSET_def PAYLOAD_OFFSET_def

type_synonym page_id = u32
type_synonym page = "byte list"

datatype page_kind = Meta | Catalog | Leaf | Internal

text \<open>\<open>kind as u8\<close>, \<open>PageKind::try_from\<close> and the \<open>Debug\<close> name of a kind.\<close>

fun page_kind_u8 :: "page_kind \<Rightarrow> byte" where
  "page_kind_u8 Meta = 1"
| "page_kind_u8 Catalog = 2"
| "page_kind_u8 Leaf = 3"
| "page_kind_u8 Internal = 4"

definition page_kind_try_from :: "byte \<Rightarrow> page_kind result" where
  "page_kind_try_from b =
     (if b = 1 then Ok Meta
      else if b = 2 then Ok Catalog
      else if b = 3 then Ok Leaf
      else if b = 4 then Ok Internal
      else Err (Storage (''unknown storage_v2 page kind: '' @ show_word b)))"

fun page_kind_debug :: "page_kind \<Rightarrow> string" where
  "page_kind_debug Meta = ''Meta''"
| "page_kind_debug Catalog = ''Catalog''"
| "page_kind_debug Leaf = ''Leaf''"
| "page_kind_debug Internal = ''Internal''"

record meta_page =
  mp_page_size :: u32
  mp_page_count :: u32
  mp_catalog_page_id :: page_id
  mp_next_txn_id :: u64

definition empty_page :: "page_kind \<Rightarrow> page" where
  "empty_page kind =
     (copy_at 0 STORAGE_MAGIC (replicate PAGE_SIZE 0))[KIND_OFFSET := page_kind_u8 kind]"

definition validate_page_buffer :: "page \<Rightarrow> unit result" where
  "validate_page_buffer p =
     (if length p \<noteq> PAGE_SIZE then
        Err (Storage (''storage_v2 page buffer must be exactly '' @ show_nat PAGE_SIZE @ '' bytes''))
      else if take 4 p \<noteq> STORAGE_MAGIC then Err (Storage ''invalid storage_v2 page magic'')
      else Ok ())"

definition page_kind :: "page \<Rightarrow> page_kind result" where
  "page_kind p = rbind (validate_page_buffer p) (\<lambda>_. page_kind_try_from (p ! KIND_OFFSET))"

text \<open>\<open>MetaPage::encode\<close> and \<open>MetaPage::decode\<close>.\<close>

definition meta_encode :: "meta_page \<Rightarrow> page" where
  "meta_encode m =
     copy_at (PAYLOAD_OFFSET + 12) (to_le_bytes 8 (mp_next_txn_id m))
       (copy_at (PAYLOAD_OFFSET + 8) (to_le_bytes 4 (mp_catalog_page_id m))
         (copy_at (PAYLOAD_OFFSET + 4) (to_le_bytes 4 (mp_page_count m))
           (copy_at PAYLOAD_OFFSET (to_le_bytes 4 (mp_page_size m)) (empty_page Meta))))"

definition meta_decode :: "page \<Rightarrow> meta_page result" where
  "meta_decode p =
     rbind (validate_page_buffer p) (\<lambda>_.
     rbind (page_kind p) (\<lambda>kind.
     if kind \<noteq> Meta then Err (Storage ''storage_v2 meta page has wrong page kind'')
     else Ok \<lparr>mp_page_size = from_le_bytes (slice PAYLOAD_OFFSET (PAYLOAD_OFFSET + 4) p),
              mp_page_count = from_le_bytes (slice (PAYLOAD_OFFSET + 4) (PAYLOAD_OFFSET + 8) p),
              mp_catalog_page_id = from_le_bytes (slice (PAYLOAD_OFFSET + 8) (PAYLOAD_OFFSET + 12) p),
              mp_next_txn_id = from_le_bytes (slice (PAYLOAD_OFFSET + 12) (PAYLOAD_OFFSET + 20) p)\<rparr>))"

definition encode_payload_page :: "page_kind \<Rightarrow> byte list \<Rightarrow> page result" where
  "encode_payload_page kind payload =
     (if PAGE_SIZE - PAYLOAD_OFFSET < length payload then
        Err (Storage (''payload of '' @ show_nat (length payload) @ '' bytes exceeds page capacity '' @
          show_nat (PAGE_SIZE - PAYLOAD_OFFSET)))
      else
        Ok (copy_at PAYLOAD_OFFSET payload
             (copy_at PAYLOAD_LEN_OFFSET (to_le_bytes 4 (word_of_nat (length payload) :: u32))
               (empty_page kind))))"

definition decode_payload :: "page \<Rightarrow> page_kind \<Rightarrow> byte list result" where
  "decode_payload p expected_kind =
     rbind (validate_page_buffer p) (\<lambda>_.
     rbind (page_kind p) (\<lambda>kind.
     if kind \<noteq> expected_kind then
       Err (Storage (''expected '' @ page_kind_debug expected_kind @ '' page but found '' @
         page_kind_debug kind))
     else
       let payload_len =
         unat (from_le_bytes (slice PAYLOAD_LEN_OFFSET (PAYLOAD_LEN_OFFSET + 4) p) :: u32)
       in if PAGE_SIZE - PAYLOAD_OFFSET < payload_len then
            Err (Storage (''page payload length '' @ show_nat payload_len @ '' exceeds capacity''))
          else Ok (slice PAYLOAD_OFFSET (PAYLOAD_OFFSET + payload_len) p)))"

section \<open>Layout lemmas\<close>

lemma page_kind_try_from_u8 [simp]: "page_kind_try_from (page_kind_u8 k) = Ok k"
  by (cases k) (simp_all add: page_kind_try_from_def)

lemma length_empty_page [simp, bytes_simps]: "length (empty_page k) = PAGE_SIZE"
  by (simp add: empty_page_def STORAGE_MAGIC_def page_layout)

lemma take_list_update_ge: "n \<le> i \<Longrightarrow> take n (xs[i := x]) = take n xs"
  by simp

lemma empty_page_header: "take 4 (empty_page k) = STORAGE_MAGIC" "empty_page k ! KIND_OFFSET = page_kind_u8 k"
  by (simp_all add: empty_page_def page_layout copy_at_def STORAGE_MAGIC_def)

text \<open>Writing past the header leaves magic and kind alone.\<close>

lemma copy_at_header:
  assumes "length p = PAGE_SIZE" "8 \<le> a" "a + length src \<le> PAGE_SIZE"
  shows "take 4 (copy_at a src p) = take 4 p" "copy_at a src p ! KIND_OFFSET = p ! KIND_OFFSET"
  using assms by (auto simp: copy_at_def page_layout nth_append min_def)

definition page_header :: "page \<Rightarrow> page_kind \<Rightarrow> bool" where
  "page_header p k \<longleftrightarrow>
     length p = PAGE_SIZE \<and> take 4 p = STORAGE_MAGIC \<and> p ! KIND_OFFSET = page_kind_u8 k"

lemma page_header_empty [simp]: "page_header (empty_page k) k"
  by (simp add: page_header_def empty_page_header)

lemma page_header_copy_at [simp]:
  "page_header p k \<Longrightarrow> 8 \<le> a \<Longrightarrow> a + length src \<le> PAGE_SIZE \<Longrightarrow> page_header (copy_at a src p) k"
  by (simp add: page_header_def copy_at_header)

lemma page_header_kind: "page_header p k \<Longrightarrow> page_kind p = Ok k"
  by (simp add: page_header_def page_kind_def validate_page_buffer_def)

lemma page_header_valid: "page_header p k \<Longrightarrow> validate_page_buffer p = Ok ()"
  by (simp add: page_header_def validate_page_buffer_def)

lemma encode_payload_page_header:
  "encode_payload_page k payload = Ok p \<Longrightarrow> page_header p k"
  by (auto simp: encode_payload_page_def page_layout intro!: page_header_copy_at split: if_splits)

lemma decode_encode_payload:
  assumes "encode_payload_page k payload = Ok p"
  shows "decode_payload p k = Ok payload"
proof -
  let ?q = "copy_at PAYLOAD_LEN_OFFSET (to_le_bytes 4 (word_of_nat (length payload) :: u32)) (empty_page k)"
  have len: "length payload \<le> PAGE_SIZE - PAYLOAD_OFFSET" and p: "p = copy_at PAYLOAD_OFFSET payload ?q"
    using assms by (auto simp: encode_payload_page_def split: if_splits)
  have q: "length ?q = PAGE_SIZE" by (simp add: page_layout)
  have "slice PAYLOAD_LEN_OFFSET (PAYLOAD_LEN_OFFSET + 4) p =
      slice PAYLOAD_LEN_OFFSET (PAYLOAD_LEN_OFFSET + 4) ?q"
    using len q unfolding p by (intro slice_copy_at_other) (simp_all add: page_layout)
  also have "\<dots> = to_le_bytes 4 (word_of_nat (length payload) :: u32)"
    by (rule slice_copy_at_same) (simp_all add: page_layout)
  finally have "unat (from_le_bytes (slice PAYLOAD_LEN_OFFSET (PAYLOAD_LEN_OFFSET + 4) p) :: u32) =
      length payload"
    using len by (simp add: unat_of_nat take_bit_nat_eq_self page_layout)
  moreover have "slice PAYLOAD_OFFSET (PAYLOAD_OFFSET + length payload) p = payload"
    using len q unfolding p by (intro slice_copy_at_same) (simp_all add: page_layout)
  ultimately show ?thesis
    using len page_header_kind [OF encode_payload_page_header [OF assms]]
      page_header_valid [OF encode_payload_page_header [OF assms]]
    by (simp add: decode_payload_def)
qed

lemma length_encode_payload_page: "encode_payload_page k payload = Ok p \<Longrightarrow> length p = PAGE_SIZE"
  using encode_payload_page_header page_header_def by blast

lemma encode_payload_page_Ok_iff:
  "(\<exists>p. encode_payload_page k payload = Ok p) \<longleftrightarrow> length payload \<le> PAGE_SIZE - PAYLOAD_OFFSET"
  by (auto simp: encode_payload_page_def)

lemma page_header_meta [simp]: "page_header (meta_encode m) Meta"
  by (simp add: meta_encode_def page_layout)

lemma length_meta_encode [simp, bytes_simps]: "length (meta_encode m) = PAGE_SIZE"
  using page_header_meta page_header_def by blast

lemma meta_decode_encode: "meta_decode (meta_encode m) = Ok m"
proof -
  let ?p = "meta_encode m"
  note defs = meta_encode_def page_layout
  have "slice 16 20 ?p = to_le_bytes 4 (mp_page_size m)" "slice 20 24 ?p = to_le_bytes 4 (mp_page_count m)"
    "slice 24 28 ?p = to_le_bytes 4 (mp_catalog_page_id m)" "slice 28 36 ?p = to_le_bytes 8 (mp_next_txn_id m)"
    by (simp_all add: defs slice_copy_at_other slice_copy_at_same)
  then show ?thesis
    using page_header_kind [OF page_header_meta] page_header_valid [OF page_header_meta]
    by (simp add: meta_decode_def PAYLOAD_OFFSET_def)
qed

section \<open>Properties\<close>

text \<open>
  Property C31: a payload page is written exactly for the payloads that fit in a page, it has the
  page size, and reading it back with the same kind gives the payload; reading it as another kind
  is an error.
\<close>

theorem payload_page_roundtrip:
  "(if length payload \<le> 4080 then
      (\<exists>p. encode_payload_page k payload = Ok p \<and> length p = 4096 \<and> decode_payload p k = Ok payload \<and>
         (\<forall>k'. k' = k \<or> (\<exists>m. decode_payload p k' = Err (Storage m))))
    else (\<exists>m. encode_payload_page k payload = Err (Storage m)))"
proof (cases "length payload \<le> 4080")
  case True
  then obtain p where p: "encode_payload_page k payload = Ok p"
    using encode_payload_page_Ok_iff [of k payload] by (auto simp: page_layout)
  have "k' = k \<or> (\<exists>m. decode_payload p k' = Err (Storage m))" for k'
    using page_header_kind [OF encode_payload_page_header [OF p]]
      page_header_valid [OF encode_payload_page_header [OF p]]
    by (simp add: decode_payload_def)
  then show ?thesis
    using True p decode_encode_payload [OF p] length_encode_payload_page [OF p]
    by (auto simp: PAGE_SIZE_def)
next
  case False
  then show ?thesis by (auto simp: encode_payload_page_def page_layout)
qed

text \<open>The meta page round trips through its byte image.\<close>

lemma meta_page_roundtrip:
  "meta_decode (meta_encode m) = Ok m \<and> length (meta_encode m) = 4096"
  using meta_decode_encode by (simp add: PAGE_SIZE_def)

end
