(* ===== verification/V2_Wal.thy ===== *)
theory V2_Wal
  imports V2_Page
begin

text \<open>
  \<open>src/storage/v2/wal.rs\<close>: the write-ahead log. \<open>write_frame\<close> and \<open>write_commit\<close> append records,
  \<open>recover_frames\<close> scans a log and returns the frames of the transactions whose commit record is
  complete. The scan is modelled on the bytes that remain after the offset. Shown: recovery of a
  log refines a specification on lists of records, a torn tail changes nothing, and a batch written
  by one commit is recovered entirely or not at all.
\<close>

section \<open>Definitions\<close>

definition RECORD_FRAME :: byte where "RECORD_FRAME = 1"

definition RECORD_COMMIT :: byte where "RECORD_COMMIT = 2"

record wal_frame =
  wf_txn_id :: u64
  wf_page_id :: page_id
  wf_page_bytes :: "byte list"

definition write_frame :: "byte list \<Rightarrow> u64 \<Rightarrow> page_id \<Rightarrow> page \<Rightarrow> byte list result" where
  "write_frame out txn_id pid p =
     (if length p \<noteq> PAGE_SIZE then
        Err (Storage (''wal frames must contain exactly '' @ show_nat PAGE_SIZE @ '' bytes''))
      else Ok (out @ [RECORD_FRAME] @ to_le_bytes 8 txn_id @ to_le_bytes 4 pid @
               to_le_bytes 4 (word_of_nat (length p) :: u32) @ p))"

definition write_commit :: "byte list \<Rightarrow> u64 \<Rightarrow> u32 \<Rightarrow> byte list" where
  "write_commit out txn_id frame_count =
     out @ [RECORD_COMMIT] @ to_le_bytes 8 txn_id @ to_le_bytes 4 frame_count"

text \<open>\<open>pending.entry(txn_id).or_default().push(frame)\<close>.\<close>

definition push_pending ::
    "u64 \<Rightarrow> wal_frame \<Rightarrow> (u64, wal_frame list) hmap \<Rightarrow> (u64, wal_frame list) hmap" where
  "push_pending txn_id f pending =
     hm_insert txn_id ((case map_of pending txn_id of None \<Rightarrow> [] | Some fs \<Rightarrow> fs) @ [f]) pending"

text \<open>The loop of \<open>recover_frames\<close>, on the bytes after the offset.\<close>

function recover_loop ::
    "byte list \<Rightarrow> (u64, wal_frame list) hmap \<Rightarrow> wal_frame list \<Rightarrow> wal_frame list result" where
  "recover_loop [] pending committed = Ok committed"
| "recover_loop (record_type # rest) pending committed =
     (if record_type = RECORD_FRAME then
        if length rest < 8 + 4 + 4 then Ok committed
        else
          let txn_id = from_le_bytes (take 8 rest);
              pid = from_le_bytes (take 4 (drop 8 rest));
              page_len = unat (from_le_bytes (take 4 (drop 12 rest)) :: u32);
              rest' = drop 16 rest
          in if length rest' < page_len then Ok committed
             else if page_len \<noteq> PAGE_SIZE then
               Err (Storage (''wal frame for page '' @ show_word (pid :: u32) @ '' had '' @
                 show_nat page_len @ '' bytes instead of '' @ show_nat PAGE_SIZE))
             else
               recover_loop (drop page_len rest')
                 (push_pending txn_id
                   \<lparr>wf_txn_id = txn_id, wf_page_id = pid, wf_page_bytes = take page_len rest'\<rparr> pending)
                 committed
      else if record_type = RECORD_COMMIT then
        if length rest < 8 + 4 then Ok committed
        else
          let txn_id = from_le_bytes (take 8 rest);
              frame_count = unat (from_le_bytes (take 4 (drop 8 rest)) :: u32);
              rest' = drop 12 rest
          in (case map_of pending txn_id of
                None \<Rightarrow> recover_loop rest' pending committed
              | Some frames \<Rightarrow>
                  recover_loop rest' (hm_remove txn_id pending)
                    (if length frames = frame_count then committed @ frames else committed))
      else Err (Storage (''unknown storage_v2 wal record type: '' @ show_word record_type)))"
  by pat_completeness auto
termination
  by (relation "measure (\<lambda>(rest, pending, committed). length rest)") auto

declare recover_loop.simps(2) [simp del]

definition recover_frames :: "byte list \<Rightarrow> wal_frame list result" where
  "recover_frames bytes = recover_loop bytes [] []"

section \<open>Logs as lists of records\<close>

text \<open>What a log means: the records it holds and the frames a recovery should replay.\<close>

datatype wal_record = Frame u64 page_id page | Commit u64 u32

fun record_bytes :: "wal_record \<Rightarrow> byte list" where
  "record_bytes (Frame t pid p) =
     [RECORD_FRAME] @ to_le_bytes 8 t @ to_le_bytes 4 pid @ to_le_bytes 4 (word_of_nat PAGE_SIZE :: u32) @ p"
| "record_bytes (Commit t n) = [RECORD_COMMIT] @ to_le_bytes 8 t @ to_le_bytes 4 n"

fun record_ok :: "wal_record \<Rightarrow> bool" where
  "record_ok (Frame t pid p) = (length p = PAGE_SIZE)"
| "record_ok (Commit t n) = True"

fun replay_spec ::
    "wal_record list \<Rightarrow> (u64, wal_frame list) hmap \<Rightarrow> wal_frame list \<Rightarrow> wal_frame list" where
  "replay_spec [] pending committed = committed"
| "replay_spec (Frame t pid p # rs) pending committed =
     replay_spec rs (push_pending t \<lparr>wf_txn_id = t, wf_page_id = pid, wf_page_bytes = p\<rparr> pending) committed"
| "replay_spec (Commit t n # rs) pending committed =
     (case map_of pending t of
        None \<Rightarrow> replay_spec rs pending committed
      | Some fs \<Rightarrow> replay_spec rs (hm_remove t pending)
          (if length fs = unat n then committed @ fs else committed))"

lemma write_frame_record:
  "length p = PAGE_SIZE \<Longrightarrow> write_frame out t pid p = Ok (out @ record_bytes (Frame t pid p))"
  by (simp add: write_frame_def)

lemma write_commit_record: "write_commit out t n = out @ record_bytes (Commit t n)"
  by (simp add: write_commit_def)

lemma unat_page_size_u32: "unat (word_of_nat PAGE_SIZE :: u32) = PAGE_SIZE"
  by (simp add: PAGE_SIZE_def)

lemma recover_loop_frame:
  assumes "length p = PAGE_SIZE"
  shows "recover_loop (record_bytes (Frame t pid p) @ rest) pending committed =
    recover_loop rest (push_pending t \<lparr>wf_txn_id = t, wf_page_id = pid, wf_page_bytes = p\<rparr> pending) committed"
  using assms
  by (simp add: recover_loop.simps(2) Let_def RECORD_FRAME_def unat_page_size_u32)

lemma recover_loop_commit:
  "recover_loop (record_bytes (Commit t n) @ rest) pending committed =
     (case map_of pending t of
        None \<Rightarrow> recover_loop rest pending committed
      | Some fs \<Rightarrow> recover_loop rest (hm_remove t pending)
          (if length fs = unat n then committed @ fs else committed))"
  by (simp add: recover_loop.simps(2) Let_def RECORD_FRAME_def RECORD_COMMIT_def split: option.split)

lemma recover_loop_records:
  assumes "list_all record_ok rs"
    "\<And>pending committed. recover_loop rest pending committed = Ok committed"
  shows "recover_loop (concat (map record_bytes rs) @ rest) pending committed =
    Ok (replay_spec rs pending committed)"
  using assms(1)
proof (induction rs pending committed rule: replay_spec.induct)
  case (1 pending committed)
  then show ?case using assms(2) by simp
next
  case (2 t pid p rs pending committed)
  then show ?case
    using recover_loop_frame [of p t pid "concat (map record_bytes rs) @ rest"] by simp
next
  case (3 t n rs pending committed)
  then show ?case
    using recover_loop_commit [of t n "concat (map record_bytes rs) @ rest"]
    by (auto split: option.split)
qed

text \<open>A record cut anywhere before its end is ignored.\<close>

lemma recover_loop_torn:
  assumes "record_ok r" "strict_prefix torn (record_bytes r)"
  shows "recover_loop torn pending committed = Ok committed"
proof (cases torn)
  case (Cons b xs)
  show ?thesis
  proof (cases r)
    case (Frame t pid p)
    let ?tail = "to_le_bytes 8 t @ to_le_bytes 4 pid @ to_le_bytes 4 (word_of_nat PAGE_SIZE :: u32) @ p"
    have b: "b = RECORD_FRAME" and sp: "strict_prefix xs ?tail"
      using assms(2) Cons Frame by (auto simp: strict_prefix_def)
    then obtain ys where ys: "?tail = xs @ ys" "ys \<noteq> []" by (auto simp: strict_prefix_def prefix_def)
    show ?thesis
    proof (cases "length xs < 16")
      case True
      then show ?thesis by (simp add: Cons b recover_loop.simps(2))
    next
      case False
      have "take 4 (drop 12 ?tail) = to_le_bytes 4 (word_of_nat PAGE_SIZE :: u32)" by simp
      moreover have "take 4 (drop 12 ?tail) = take 4 (drop 12 xs)" using False by (simp add: ys(1))
      ultimately have "take 4 (drop 12 xs) = to_le_bytes 4 (word_of_nat PAGE_SIZE :: u32)" by metis
      moreover have "length ?tail = 16 + PAGE_SIZE" using assms(1) Frame by simp
      then have "length xs < 16 + PAGE_SIZE" using ys by (metis length_append length_greater_0_conv less_add_same_cancel1)
      ultimately show ?thesis
        by (simp add: Cons b recover_loop.simps(2) Let_def unat_page_size_u32)
    qed
  next
    case (Commit t n)
    then have "b = RECORD_COMMIT" "strict_prefix xs (to_le_bytes 8 t @ to_le_bytes 4 n)"
      using assms(2) Cons by (auto simp: strict_prefix_def)
    then have "length xs < 12" using prefix_length_less by fastforce
    with \<open>b = RECORD_COMMIT\<close> show ?thesis
      by (simp add: Cons recover_loop.simps(2) RECORD_COMMIT_def RECORD_FRAME_def)
  qed
qed simp

text \<open>Every prefix of a concatenation ends inside one of its parts.\<close>

lemma prefix_concat_map:
  assumes "prefix xs (concat (map f rs))"
  shows "\<exists>k torn. k \<le> length rs \<and> xs = concat (map f (take k rs)) @ torn \<and>
    (if k < length rs then strict_prefix torn (f (rs ! k)) else torn = [])"
  using assms
proof (induction rs arbitrary: xs)
  case Nil
  then show ?case by simp
next
  case (Cons r rs)
  show ?case
  proof (cases "strict_prefix xs (f r)")
    case True
    then show ?thesis by (intro exI [of _ 0] exI [of _ xs]) simp
  next
    case False
    with Cons.prems obtain ys where ys: "xs = f r @ ys" "prefix ys (concat (map f rs))"
      by (auto simp: prefix_append strict_prefix_def)
    from Cons.IH [OF ys(2)] obtain k torn where
      "k \<le> length rs" "ys = concat (map f (take k rs)) @ torn"
      "if k < length rs then strict_prefix torn (f (rs ! k)) else torn = []"
      by blast
    then show ?thesis using ys(1) by (intro exI [of _ "Suc k"] exI [of _ torn]) simp
  qed
qed

lemma recover_prefix:
  assumes "list_all record_ok rs" "prefix log (concat (map record_bytes rs))"
  shows "\<exists>k \<le> length rs. recover_frames log = Ok (replay_spec (take k rs) [] []) \<and>
    (k = length rs \<longleftrightarrow> log = concat (map record_bytes rs))"
proof -
  obtain k torn where k: "k \<le> length rs" "log = concat (map record_bytes (take k rs)) @ torn"
    "if k < length rs then strict_prefix torn (record_bytes (rs ! k)) else torn = []"
    using prefix_concat_map [OF assms(2)] by blast
  have torn: "recover_loop torn pending committed = Ok committed" for pending committed
  proof (cases "k < length rs")
    case True
    with assms(1) have "record_ok (rs ! k)" by (simp add: list_all_length)
    with True k(3) show ?thesis using recover_loop_torn by simp
  qed (use k(3) in simp)
  have "list_all record_ok (take k rs)" using assms(1) by (auto simp: list_all_iff dest: in_set_takeD)
  then have "recover_frames log = Ok (replay_spec (take k rs) [] [])"
    using torn by (simp add: recover_frames_def k(2) recover_loop_records)
  moreover have "k = length rs \<longleftrightarrow> log = concat (map record_bytes rs)"
  proof (cases "k < length rs")
    case True
    have "concat (map record_bytes rs) =
        concat (map record_bytes (take k rs)) @ record_bytes (rs ! k) @ concat (map record_bytes (drop (Suc k) rs))"
      using True by (metis (no_types, lifting) append_take_drop_id Cons_nth_drop_Suc concat.simps(2) concat_append list.simps(9) map_append)
    moreover have "torn \<noteq> record_bytes (rs ! k) @ ys" for ys
      using True k(3) by (auto simp: strict_prefix_def prefix_def)
    ultimately show ?thesis using True k(2) by auto
  qed (use k in simp)
  ultimately show ?thesis using k(1) by blast
qed

section \<open>The batch of one commit\<close>

text \<open>
  \<open>Pager::commit\<close> writes one frame per page and then one commit record carrying their number.
\<close>

definition commit_records :: "u64 \<Rightarrow> (page_id \<times> page) list \<Rightarrow> wal_record list" where
  "commit_records t pages =
     map (\<lambda>(pid, p). Frame t pid p) pages @ [Commit t (word_of_nat (length pages))]"

definition commit_frames :: "u64 \<Rightarrow> (page_id \<times> page) list \<Rightarrow> wal_frame list" where
  "commit_frames t pages =
     map (\<lambda>(pid, p). \<lparr>wf_txn_id = t, wf_page_id = pid, wf_page_bytes = p\<rparr>) pages"

lemma replay_frames_only:
  "replay_spec (map (\<lambda>(pid, p). Frame t pid p) pages @ rs) pending committed =
     replay_spec rs (fold (push_pending t) (commit_frames t pages) pending) committed"
  by (induction pages arbitrary: pending) (auto simp: commit_frames_def)

lemma fold_push_pending:
  "fs \<noteq> [] \<Longrightarrow> map_of (fold (push_pending t) fs pending) t =
     Some ((case map_of pending t of None \<Rightarrow> [] | Some gs \<Rightarrow> gs) @ fs)"
proof (induction fs arbitrary: pending)
  case (Cons f fs)
  then show ?case by (cases "fs = []") (auto simp: push_pending_def)
qed simp

lemma replay_commit_take:
  assumes "length pages < 2 ^ 32"
  shows "replay_spec (take k (commit_records t pages)) [] [] =
    (if length pages < k then commit_frames t pages else [])"
proof (cases "length pages < k")
  case True
  then have "take k (commit_records t pages) = commit_records t pages"
    by (simp add: commit_records_def)
  moreover have "unat (word_of_nat (length pages) :: u32) = length pages"
    using assms by (simp add: unat_of_nat take_bit_nat_eq_self)
  moreover have "length (commit_frames t pages) = length pages" by (simp add: commit_frames_def)
  ultimately show ?thesis
    using True fold_push_pending [of "commit_frames t pages" t "[]"]
    by (cases "pages = []") (auto simp: commit_records_def replay_frames_only commit_frames_def)
next
  case False
  then have "take k (commit_records t pages) = map (\<lambda>(pid, p). Frame t pid p) (take k pages) @ []"
    by (simp add: commit_records_def take_map)
  then show ?thesis using False replay_frames_only [of t "take k pages" "[]"] by simp
qed

lemma recover_commit_prefix:
  assumes "\<forall>(pid, p) \<in> set pages. length p = PAGE_SIZE" "length pages < 2 ^ 32"
    "prefix log (concat (map record_bytes (commit_records t pages)))"
  shows "recover_frames log =
    Ok (if log = concat (map record_bytes (commit_records t pages)) then commit_frames t pages else [])"
proof -
  have "list_all record_ok (commit_records t pages)"
    using assms(1) by (auto simp: commit_records_def list_all_iff)
  from recover_prefix [OF this assms(3)] obtain k where
    "k \<le> length (commit_records t pages)"
    "recover_frames log = Ok (replay_spec (take k (commit_records t pages)) [] [])"
    "k = length (commit_records t pages) \<longleftrightarrow> log = concat (map record_bytes (commit_records t pages))"
    by blast
  then show ?thesis
    using replay_commit_take [OF assms(2), of k t] by (auto simp: commit_records_def)
qed

section \<open>Properties\<close>



text \<open>
  The batch of a commit is atomic. Whatever prefix of it reached the log, recovery
  replays all its pages, in order, when the batch is complete, and nothing otherwise.
\<close>

lemma wal_commit_batch_atomic:
  assumes "\<forall>(pid, p) \<in> set pages. length p = PAGE_SIZE" "length pages < 2 ^ 32"
    "prefix log (concat (map record_bytes (commit_records t pages)))"
  shows "recover_frames log =
    Ok (if log = concat (map record_bytes (commit_records t pages)) then commit_frames t pages else [])"
  using assms by (rule recover_commit_prefix)

lemma wal_commit_batch_atomic_witness:
  "recover_frames (concat (map record_bytes (commit_records 5 [(2, replicate 4096 9)]))) =
    Ok [\<lparr>wf_txn_id = 5, wf_page_id = 2, wf_page_bytes = replicate 4096 9\<rparr>]"
  using wal_commit_batch_atomic [of "[(2, replicate 4096 9)]" _ 5]
  by (simp add: PAGE_SIZE_def commit_frames_def)

end
