(* ===== verification/V2_Txn.thy ===== *)
theory V2_Txn
  imports V2_Codec V2_Page
begin

text \<open>
  The transaction manager of the paged engine, \<open>src/storage/v2/tx_types.rs\<close> and the life-cycle half
  of \<open>src/storage/v2/txn_manager.rs\<close>: the manager's state, beginning, committing and aborting
  transactions, snapshots, row-id allocation, undo records and the purge of finished transactions.
  The locks are the subject of \<open>V2_Locks\<close>. The condition variable of the lock-wait notifier is
  represented by its epoch counter, the only data it guards.
\<close>

section \<open>Data\<close>

datatype txn_status = Active | Committed | Aborted

datatype isolation_level = ReadCommitted | RepeatableRead | Serializable

record page_write_set_entry =
  pw_page_id :: page_id
  pw_before_image :: "byte list option"
  pw_after_image :: "byte list"

datatype undo_record =
    PageWrite page_id
  | InsertRow string row_id
  | DeleteRow string row_id "byte list"
  | IndexInsert string string row_id "Value list"
  | IndexDelete string string row_id "Value list"

text \<open>A \<open>HashSet\<close> of pages is a list without duplicates.\<close>

record txn_write_set =
  touched_pages :: "page_id list"
  page_writes :: "page_write_set_entry list"

record txn_state =
  tx_id :: txn_id
  tx_isolation_level :: isolation_level
  tx_status :: txn_status
  terminal_error :: "string option"
  start_ts :: u64
  tx_commit_ts :: "u64 option"
  tx_snapshot :: txn_snapshot
  write_set :: txn_write_set
  tx_undo_records :: "undo_record list"
  purge_records :: "undo_record list"

datatype predicate_lock_kind =
    TableLockKind
  | RecordLock "Value list"
  | Gap "Value list" "bound option" "bound option"
  | NextKey "Value list" "bound option" "bound option"

record predicate_lock =
  pl_txn_id :: txn_id
  pl_table :: string
  pl_index :: "string option"
  pl_kind :: predicate_lock_kind

datatype table_lock_mode = IntentionRead | IntentionWrite | Exclusive

record table_lock =
  tl_txn_id :: txn_id
  tl_table :: string
  tl_mode :: table_lock_mode

record predicate_write_key =
  pk_table :: string
  pk_index_keys :: "(string \<times> Value list) list"

type_synonym blockers = "(txn_id, txn_id btset) hmap"

record txn_manager =
  next_txn_id :: u64
  next_commit_ts :: u64
  next_row_ids :: "(string, u64) hmap"
  txns :: "(txn_id, txn_state) hmap"
  table_locks :: "table_lock list"
  predicate_locks :: "predicate_lock list"
  table_wait_queues :: "(string, txn_id list) hmap"
  page_write_owners :: "(page_id, txn_id) hmap"
  page_write_wait_queues :: "(page_id, txn_id list) hmap"
  table_wait_blockers :: blockers
  predicate_write_wait_queues :: "(predicate_write_key, txn_id list) hmap"
  page_wait_blockers :: blockers
  predicate_wait_blockers :: blockers
  waits_for :: blockers
  lock_wait_epoch :: u64

type_synonym 'a tm_oper = "(txn_manager, 'a) oper"

definition with_next_txn_id :: "u64 \<Rightarrow> txn_manager" where
  "with_next_txn_id n = \<lparr>next_txn_id = n, next_commit_ts = sat_sub n 1, next_row_ids = [], txns = [],
     table_locks = [], predicate_locks = [], table_wait_queues = [], page_write_owners = [],
     page_write_wait_queues = [], table_wait_blockers = [], predicate_write_wait_queues = [],
     page_wait_blockers = [], predicate_wait_blockers = [], waits_for = [], lock_wait_epoch = 0\<rparr>"

text \<open>\<open>TxnManager::new\<close> and \<open>Default::default\<close>.\<close>

definition new_txn_manager :: txn_manager where
  "new_txn_manager = with_next_txn_id 1"

section \<open>Looking up transactions\<close>

definition not_active :: "txn_id \<Rightarrow> db_error" where
  "not_active t = Txn (''transaction '' @ show_word t @ '' is not active'')"

definition tm_get :: "txn_id \<Rightarrow> txn_manager \<Rightarrow> txn_state result" where
  "tm_get t s = ok_or (not_active t) (map_of (txns s) t)"

text \<open>\<open>get_mut\<close> followed by an update of the transaction through the reference.\<close>

definition update_txn :: "txn_id \<Rightarrow> (txn_state \<Rightarrow> txn_state) \<Rightarrow> txn_manager \<Rightarrow> txn_manager" where
  "update_txn t f s = s\<lparr>txns := hm_modify t f (txns s)\<rparr>"

definition ensure_active :: "txn_id \<Rightarrow> txn_manager \<Rightarrow> unit result" where
  "ensure_active t s = rbind (tm_get t s) (\<lambda>txn.
     if tx_status txn = Active then Ok ()
     else Err (case terminal_error txn of Some m \<Rightarrow> Txn m | None \<Rightarrow> not_active t))"

text \<open>The transactions that are active, as \<open>txns.values().filter(...)\<close> yields them.\<close>

definition active_list :: "txn_manager \<Rightarrow> txn_state list" where
  "active_list s = filter (\<lambda>x. tx_status x = Active) (map snd (txns s))"

section \<open>Beginning\<close>

definition insert_txn :: "txn_id \<Rightarrow> isolation_level \<Rightarrow> txn_manager \<Rightarrow> txn_manager" where
  "insert_txn t level s = s\<lparr>
     txns := hm_insert t \<lparr>tx_id = t, tx_isolation_level = level, tx_status = Active,
         terminal_error = None, start_ts = t, tx_commit_ts = None,
         tx_snapshot = \<lparr>visible_up_to = next_commit_ts s,
           active_txns = bs_extend (map tx_id (active_list s)) []\<rparr>,
         write_set = \<lparr>touched_pages = [], page_writes = []\<rparr>,
         tx_undo_records = [], purge_records = []\<rparr> (txns s),
     table_wait_blockers := hm_or_insert t [] (table_wait_blockers s),
     page_wait_blockers := hm_or_insert t [] (page_wait_blockers s),
     predicate_wait_blockers := hm_or_insert t [] (predicate_wait_blockers s),
     waits_for := hm_or_insert t [] (waits_for s)\<rparr>"

definition tm_begin :: "isolation_level \<Rightarrow> txn_manager \<Rightarrow> txn_id \<times> txn_manager" where
  "tm_begin level s =
     (let t = max (next_txn_id s) 1 in (t, insert_txn t level (s\<lparr>next_txn_id := t + 1\<rparr>)))"

definition begin_with_id :: "txn_id \<Rightarrow> isolation_level \<Rightarrow> unit tm_oper" where
  "begin_with_id t level s =
     (if map_of (txns s) t \<noteq> None
      then (Err (Txn (''transaction '' @ show_word t @ '' is already registered'')), s)
      else (Ok (), insert_txn t level
              (s\<lparr>next_txn_id := max (max (next_txn_id s) (sat_add t 1)) 1\<rparr>)))"

section \<open>Committing and aborting\<close>

definition reserve_commit_ts :: "txn_id \<Rightarrow> u64 tm_oper" where
  "reserve_commit_ts t = sbind (sget (ensure_active t)) (\<lambda>_ s.
     let ts = next_commit_ts s + 1 in (Ok ts, s\<lparr>next_commit_ts := ts\<rparr>))"

fun is_delete_row :: "undo_record \<Rightarrow> bool" where
  "is_delete_row (DeleteRow _ _ _) = True"
| "is_delete_row _ = False"

definition finalize_commit :: "txn_id \<Rightarrow> u64 \<Rightarrow> unit tm_oper" where
  "finalize_commit t ts = sbind (sget (tm_get t)) (\<lambda>txn.
     if tx_status txn \<noteq> Active then sfail (not_active t)
     else smodify (update_txn t (\<lambda>x. x\<lparr>tx_status := Committed, terminal_error := None,
            tx_commit_ts := Some ts,
            purge_records := filter is_delete_row (tx_undo_records x)\<rparr>)))"

definition tm_commit :: "txn_id \<Rightarrow> u64 tm_oper" where
  "tm_commit t = sbind (reserve_commit_ts t) (\<lambda>ts. sbind (finalize_commit t ts) (\<lambda>_. sret ts))"

definition tm_abort :: "txn_id \<Rightarrow> unit tm_oper" where
  "tm_abort t = sbind (sget (tm_get t)) (\<lambda>txn.
     if tx_status txn \<noteq> Active then sfail (not_active t)
     else smodify (update_txn t (\<lambda>x. x\<lparr>tx_status := Aborted, terminal_error := None\<rparr>)))"

definition has_active_transactions :: "txn_manager \<Rightarrow> bool" where
  "has_active_transactions s \<longleftrightarrow> list_ex (\<lambda>x. tx_status x = Active) (map snd (txns s))"

section \<open>Snapshots\<close>

definition refresh_snapshot :: "txn_id \<Rightarrow> txn_snapshot tm_oper" where
  "refresh_snapshot t s =
     (let snapshot = \<lparr>visible_up_to = next_commit_ts s,
        active_txns = bs_extend (map tx_id (filter (\<lambda>x. tx_id x \<noteq> t) (active_list s))) []\<rparr>
      in sbind (sget (tm_get t)) (\<lambda>_. sbind (smodify (update_txn t (\<lambda>x. x\<lparr>tx_snapshot := snapshot\<rparr>)))
           (\<lambda>_. sret snapshot)) s)"

definition tm_snapshot :: "txn_id \<Rightarrow> txn_manager \<Rightarrow> txn_snapshot result" where
  "tm_snapshot t s = rbind (tm_get t s) (\<lambda>x. Ok (tx_snapshot x))"

definition tm_isolation_level :: "txn_id \<Rightarrow> txn_manager \<Rightarrow> isolation_level result" where
  "tm_isolation_level t s = rbind (tm_get t s) (\<lambda>x. Ok (tx_isolation_level x))"

definition tm_txn_status :: "txn_id \<Rightarrow> txn_manager \<Rightarrow> txn_status result" where
  "tm_txn_status t s = rbind (tm_get t s) (\<lambda>x. Ok (tx_status x))"

section \<open>Row ids and write sets\<close>

fun sync_next_row_ids :: "(string, u64) btmap \<Rightarrow> txn_manager \<Rightarrow> txn_manager" where
  "sync_next_row_ids [] s = s"
| "sync_next_row_ids ((table, n) # rest) s = sync_next_row_ids rest
     (s\<lparr>next_row_ids := (case map_of (next_row_ids s) table of
          Some existing \<Rightarrow> hm_insert table (max existing n) (next_row_ids s)
        | None \<Rightarrow> hm_insert table n (next_row_ids s))\<rparr>)"

definition allocate_row_id :: "txn_id \<Rightarrow> string \<Rightarrow> u64 \<Rightarrow> row_id tm_oper" where
  "allocate_row_id t table fallback = sbind (sget (ensure_active t)) (\<lambda>_ s.
     let entry = (case map_of (next_row_ids s) table of Some n \<Rightarrow> n | None \<Rightarrow> max fallback 1);
         row_id = max entry (max fallback 1)
     in (Ok row_id, s\<lparr>next_row_ids := hm_insert table (row_id + 1) (next_row_ids s)\<rparr>))"

definition replace_page_write_set :: "txn_id \<Rightarrow> page_write_set_entry list \<Rightarrow> unit tm_oper" where
  "replace_page_write_set t writes = sbind (sget (tm_get t)) (\<lambda>_.
     smodify (update_txn t (\<lambda>x. x\<lparr>write_set :=
       \<lparr>touched_pages = remdups (map pw_page_id writes), page_writes = writes\<rparr>\<rparr>)))"

definition page_write_set :: "txn_id \<Rightarrow> txn_manager \<Rightarrow> txn_write_set result" where
  "page_write_set t s = rbind (tm_get t s) (\<lambda>x. Ok (write_set x))"

section \<open>Undo records\<close>

definition record_undo :: "txn_id \<Rightarrow> undo_record \<Rightarrow> unit tm_oper" where
  "record_undo t r = sbind (sget (tm_get t)) (\<lambda>_.
     smodify (update_txn t (\<lambda>x. x\<lparr>tx_undo_records := tx_undo_records x @ [r]\<rparr>)))"

definition tm_undo_records :: "txn_id \<Rightarrow> txn_manager \<Rightarrow> undo_record list result" where
  "tm_undo_records t s = rbind (tm_get t s) (\<lambda>x. Ok (tx_undo_records x))"

definition take_undo_records :: "txn_id \<Rightarrow> undo_record list tm_oper" where
  "take_undo_records t = sbind (sget (tm_get t)) (\<lambda>txn.
     sbind (smodify (update_txn t (\<lambda>x. x\<lparr>tx_undo_records := []\<rparr>)))
       (\<lambda>_. sret (rev (tx_undo_records txn))))"

definition clear_terminal_error :: "txn_id \<Rightarrow> unit tm_oper" where
  "clear_terminal_error t = sbind (sget (tm_get t)) (\<lambda>_.
     smodify (update_txn t (\<lambda>x. x\<lparr>terminal_error := None\<rparr>)))"

section \<open>Purging\<close>

definition purge_horizon :: "txn_manager \<Rightarrow> u64" where
  "purge_horizon s = (case map (\<lambda>x. visible_up_to (tx_snapshot x)) (active_list s) of
       [] \<Rightarrow> next_commit_ts s
     | v # vs \<Rightarrow> foldl min v vs)"

fun retained :: "u64 \<Rightarrow> txn_state \<Rightarrow> bool" where
  "retained horizon x =
     (case tx_status x of
        Active \<Rightarrow> True
      | Committed \<Rightarrow> (case tx_commit_ts x of None \<Rightarrow> True | Some ts \<Rightarrow> ts > horizon) \<or>
          purge_records x \<noteq> []
      | Aborted \<Rightarrow> tx_undo_records x \<noteq> [] \<or> terminal_error x \<noteq> None)"

definition purge_finished_transactions_up_to :: "u64 \<Rightarrow> txn_manager \<Rightarrow> txn_manager" where
  "purge_finished_transactions_up_to horizon s =
     s\<lparr>txns := hm_retain (\<lambda>_ x. retained horizon x) (txns s)\<rparr>"

definition purge_finished_transactions :: "txn_manager \<Rightarrow> txn_manager" where
  "purge_finished_transactions s = purge_finished_transactions_up_to (purge_horizon s) s"

definition history_list_length :: "txn_manager \<Rightarrow> nat" where
  "history_list_length s = sum_list (map (\<lambda>x. length (purge_records x))
     (filter (\<lambda>x. tx_status x = Committed) (map snd (txns s))))"

text \<open>The two nested loops of \<open>planned_purge_batch\<close>: the \<open>return\<close> inside leaves both.\<close>

fun plan_loop :: "nat \<Rightarrow> (txn_id \<times> undo_record) list \<Rightarrow> (txn_id \<times> undo_record) list \<Rightarrow>
    (txn_id \<times> undo_record) list" where
  "plan_loop limit planned [] = planned"
| "plan_loop limit planned (r # rs) =
     (if length planned = limit then planned else plan_loop limit (planned @ [r]) rs)"

definition planned_purge_batch :: "u64 \<Rightarrow> nat \<Rightarrow> txn_manager \<Rightarrow> (txn_id \<times> undo_record) list" where
  "planned_purge_batch horizon limit s =
     (if limit = 0 then [] else
      let committed = sort_key (\<lambda>x. case tx_commit_ts x of Some ts \<Rightarrow> ts | None \<Rightarrow> - 1)
        (filter (\<lambda>x. tx_status x = Committed \<and>
             (case tx_commit_ts x of Some ts \<Rightarrow> ts \<le> horizon | None \<Rightarrow> False) \<and>
             purge_records x \<noteq> [])
           (map snd (txns s)))
      in plan_loop limit [] (concat (map (\<lambda>x. map (Pair (tx_id x)) (purge_records x)) committed)))"

fun complete_purge_batch :: "(txn_id \<times> undo_record) list \<Rightarrow> unit tm_oper" where
  "complete_purge_batch [] s = (Ok (), s)"
| "complete_purge_batch ((t, r) # rest) s =
     (case map_of (txns s) t of
        None \<Rightarrow> (Err (not_active t), s)
      | Some txn \<Rightarrow>
          (case purge_records txn of
             [] \<Rightarrow> (Err (Storage (''missing purge record for transaction '' @ show_word t)), s)
           | front # others \<Rightarrow>
               let s' = update_txn t (\<lambda>x. x\<lparr>purge_records := others\<rparr>) s
               in if front \<noteq> r
                  then (Err (Storage (''purge record order mismatch for transaction '' @ show_word t)), s')
                  else complete_purge_batch rest s'))"

end
