(* ===== verification/V2_Locks.thy ===== *)
theory V2_Locks
  imports V2_Txn "HOL-Library.Product_Lexorder"
begin

text \<open>
  The lock manager inside \<open>src/storage/v2/txn_manager.rs\<close>: table locks in three modes, page write
  ownership, predicate locks with their conflict test, FIFO wait queues, the wait-for graph with its
  depth-first search, and the resolution of deadlocks by aborting a victim and trying again. Each
  \<open>acquire\<close> operation is one attempt followed, after a victim was aborted, by another; that this
  ends is a theorem (the set of waiting transactions shrinks with every victim).
\<close>

section \<open>Conflicts\<close>

fun table_lock_modes_conflict :: "table_lock_mode \<Rightarrow> table_lock_mode \<Rightarrow> bool" where
  "table_lock_modes_conflict IntentionRead IntentionRead = False"
| "table_lock_modes_conflict IntentionRead IntentionWrite = False"
| "table_lock_modes_conflict IntentionWrite IntentionRead = False"
| "table_lock_modes_conflict IntentionWrite IntentionWrite = False"
| "table_lock_modes_conflict _ _ = True"

text \<open>The derived order of \<open>TableLockMode\<close>.\<close>

fun mode_rank :: "table_lock_mode \<Rightarrow> nat" where
  "mode_rank IntentionRead = 0"
| "mode_rank IntentionWrite = 1"
| "mode_rank Exclusive = 2"

definition range_conflicts ::
    "string option \<Rightarrow> Value list \<Rightarrow> bound option \<Rightarrow> bound option \<Rightarrow> string \<times> Value list \<Rightarrow> bool" where
  "range_conflicts lock_index pre lower upper = (\<lambda>(index, key).
     lock_index = Some index \<and> prefix pre key \<and>
     length pre < length key \<and> matches_bounds (key ! length pre) lower upper)"

definition predicate_lock_conflicts :: "predicate_lock \<Rightarrow> (string \<times> Value list) list \<Rightarrow> bool" where
  "predicate_lock_conflicts lock index_keys =
     (case pl_kind lock of
        TableLockKind \<Rightarrow> True
      | RecordLock locked_key \<Rightarrow>
          list_ex (\<lambda>(index, key). pl_index lock = Some index \<and> key = locked_key) index_keys
      | Gap pre lower upper \<Rightarrow> list_ex (range_conflicts (pl_index lock) pre lower upper) index_keys
      | NextKey pre lower upper \<Rightarrow> list_ex (range_conflicts (pl_index lock) pre lower upper) index_keys)"

definition predicate_write_key_of :: "string \<Rightarrow> (string \<times> Value list) list \<Rightarrow> predicate_write_key" where
  "predicate_write_key_of table index_keys = \<lparr>pk_table = table, pk_index_keys = sort index_keys\<rparr>"

text \<open>The loops over the lock tables: an unregistered holder is an error.\<close>

fun conflict_loop :: "('l \<Rightarrow> txn_id) \<Rightarrow> ('l \<Rightarrow> string) \<Rightarrow> ('l \<Rightarrow> bool) \<Rightarrow> txn_id \<Rightarrow> string \<Rightarrow> txn_manager \<Rightarrow>
    'l list \<Rightarrow> txn_id btset \<Rightarrow> txn_id btset result" where
  "conflict_loop holder table_of conflicts t table s [] blockers = Ok blockers"
| "conflict_loop holder table_of conflicts t table s (lock # rest) blockers =
     (if holder lock = t \<or> table_of lock \<noteq> table
      then conflict_loop holder table_of conflicts t table s rest blockers
      else rbind (tm_get (holder lock) s) (\<lambda>txn.
        if tx_status txn \<noteq> Active
        then conflict_loop holder table_of conflicts t table s rest blockers
        else if conflicts lock
        then conflict_loop holder table_of conflicts t table s rest (bs_insert (holder lock) blockers)
        else conflict_loop holder table_of conflicts t table s rest blockers))"

definition conflicting_predicate_lock_txns ::
    "txn_id \<Rightarrow> string \<Rightarrow> (string \<times> Value list) list \<Rightarrow> txn_manager \<Rightarrow> txn_id btset result" where
  "conflicting_predicate_lock_txns t table index_keys s =
     conflict_loop pl_txn_id pl_table (\<lambda>lock. predicate_lock_conflicts lock index_keys) t table s
       (predicate_locks s) []"

definition conflicting_table_lock_txns ::
    "txn_id \<Rightarrow> string \<Rightarrow> table_lock_mode \<Rightarrow> txn_manager \<Rightarrow> txn_id btset result" where
  "conflicting_table_lock_txns t table mode s =
     conflict_loop tl_txn_id tl_table (\<lambda>lock. table_lock_modes_conflict (tl_mode lock) mode) t table s
       (table_locks s) []"

fun upsert_lock :: "txn_id \<Rightarrow> string \<Rightarrow> table_lock_mode \<Rightarrow> table_lock list \<Rightarrow> table_lock list" where
  "upsert_lock t table mode [] = [\<lparr>tl_txn_id = t, tl_table = table, tl_mode = mode\<rparr>]"
| "upsert_lock t table mode (lock # rest) =
     (if tl_txn_id lock = t \<and> tl_table lock = table
      then (if mode_rank (tl_mode lock) < mode_rank mode then lock\<lparr>tl_mode := mode\<rparr> else lock) # rest
      else lock # upsert_lock t table mode rest)"

definition upsert_table_lock :: "txn_id \<Rightarrow> string \<Rightarrow> table_lock_mode \<Rightarrow> txn_manager \<Rightarrow> txn_manager" where
  "upsert_table_lock t table mode s = s\<lparr>table_locks := upsert_lock t table mode (table_locks s)\<rparr>"

section \<open>Wait queues\<close>

text \<open>The three families of queues share their bodies; these are the bodies on one map.\<close>

definition queue_front :: "'k \<Rightarrow> ('k, txn_id list) hmap \<Rightarrow> txn_id option" where
  "queue_front k m = (case map_of m k of Some (t # _) \<Rightarrow> Some t | _ \<Rightarrow> None)"

definition queue_push :: "'k \<Rightarrow> txn_id \<Rightarrow> ('k, txn_id list) hmap \<Rightarrow> ('k, txn_id list) hmap" where
  "queue_push k t m =
     (let q = (case map_of m k of Some q \<Rightarrow> q | None \<Rightarrow> [])
      in hm_insert k (if t \<in> set q then q else q @ [t]) m)"

definition queue_pop :: "'k \<Rightarrow> txn_id \<Rightarrow> ('k, txn_id list) hmap \<Rightarrow> ('k, txn_id list) hmap" where
  "queue_pop k t m =
     (case map_of m k of
        None \<Rightarrow> m
      | Some q \<Rightarrow>
          let q' = (case q of x # xs \<Rightarrow> if x = t then xs else q | [] \<Rightarrow> q)
          in if q' = [] then hm_remove k m else hm_insert k q' m)"

definition queue_retain_key :: "txn_id \<Rightarrow> 'k \<Rightarrow> ('k, txn_id list) hmap \<Rightarrow> ('k, txn_id list) hmap" where
  "queue_retain_key t k m =
     (case map_of m k of
        None \<Rightarrow> m
      | Some q \<Rightarrow>
          let q' = filter (\<lambda>x. x \<noteq> t) q in if q' = [] then hm_remove k m else hm_insert k q' m)"

definition queue_drop :: "txn_id \<Rightarrow> ('k, txn_id list) hmap \<Rightarrow> ('k, txn_id list) hmap" where
  "queue_drop t m = fold (queue_retain_key t) (map fst (filter (\<lambda>(_, q). t \<in> set q) m)) m"

definition enqueue_table_waiter :: "string \<Rightarrow> txn_id \<Rightarrow> txn_manager \<Rightarrow> txn_manager" where
  "enqueue_table_waiter table t s = s\<lparr>table_wait_queues := queue_push table t (table_wait_queues s)\<rparr>"

definition dequeue_table_waiter :: "string \<Rightarrow> txn_id \<Rightarrow> txn_manager \<Rightarrow> txn_manager" where
  "dequeue_table_waiter table t s = s\<lparr>table_wait_queues := queue_pop table t (table_wait_queues s)\<rparr>"

definition remove_txn_from_table_wait_queues :: "txn_id \<Rightarrow> txn_manager \<Rightarrow> txn_manager" where
  "remove_txn_from_table_wait_queues t s = s\<lparr>table_wait_queues := queue_drop t (table_wait_queues s)\<rparr>"

definition enqueue_page_waiter :: "page_id \<Rightarrow> txn_id \<Rightarrow> txn_manager \<Rightarrow> txn_manager" where
  "enqueue_page_waiter p t s = s\<lparr>page_write_wait_queues := queue_push p t (page_write_wait_queues s)\<rparr>"

definition dequeue_front_waiter :: "page_id \<Rightarrow> txn_id \<Rightarrow> txn_manager \<Rightarrow> txn_manager" where
  "dequeue_front_waiter p t s = s\<lparr>page_write_wait_queues := queue_pop p t (page_write_wait_queues s)\<rparr>"

definition remove_txn_from_wait_queues :: "txn_id \<Rightarrow> txn_manager \<Rightarrow> txn_manager" where
  "remove_txn_from_wait_queues t s =
     s\<lparr>page_write_wait_queues := queue_drop t (page_write_wait_queues s)\<rparr>"

definition enqueue_predicate_waiter :: "predicate_write_key \<Rightarrow> txn_id \<Rightarrow> txn_manager \<Rightarrow> txn_manager" where
  "enqueue_predicate_waiter k t s =
     s\<lparr>predicate_write_wait_queues := queue_push k t (predicate_write_wait_queues s)\<rparr>"

definition dequeue_predicate_waiter :: "predicate_write_key \<Rightarrow> txn_id \<Rightarrow> txn_manager \<Rightarrow> txn_manager" where
  "dequeue_predicate_waiter k t s =
     s\<lparr>predicate_write_wait_queues := queue_pop k t (predicate_write_wait_queues s)\<rparr>"

definition remove_txn_from_predicate_wait_queues :: "txn_id \<Rightarrow> txn_manager \<Rightarrow> txn_manager" where
  "remove_txn_from_predicate_wait_queues t s =
     s\<lparr>predicate_write_wait_queues := queue_drop t (predicate_write_wait_queues s)\<rparr>"

section \<open>The wait-for graph\<close>

text \<open>\<open>map.get(&t).into_iter().flatten()\<close>.\<close>

definition successors :: "blockers \<Rightarrow> txn_id \<Rightarrow> txn_id list" where
  "successors m t = (case map_of m t of Some xs \<Rightarrow> xs | None \<Rightarrow> [])"

definition refresh_waits_for :: "txn_id \<Rightarrow> txn_manager \<Rightarrow> txn_manager" where
  "refresh_waits_for t s = s\<lparr>waits_for := hm_insert t
     (bs_extend (successors (predicate_wait_blockers s) t)
       (bs_extend (successors (page_wait_blockers s) t)
         (bs_extend (successors (table_wait_blockers s) t) []))) (waits_for s)\<rparr>"

definition set_table_wait_edges :: "txn_id \<Rightarrow> txn_id btset \<Rightarrow> txn_manager \<Rightarrow> txn_manager" where
  "set_table_wait_edges t bs s =
     refresh_waits_for t (s\<lparr>table_wait_blockers := hm_insert t bs (table_wait_blockers s)\<rparr>)"

definition clear_table_wait_edges :: "txn_id \<Rightarrow> txn_manager \<Rightarrow> txn_manager" where
  "clear_table_wait_edges t s =
     refresh_waits_for t (s\<lparr>table_wait_blockers := hm_insert t [] (table_wait_blockers s)\<rparr>)"

definition set_page_wait_edges :: "txn_id \<Rightarrow> txn_id btset \<Rightarrow> txn_manager \<Rightarrow> txn_manager" where
  "set_page_wait_edges t bs s =
     refresh_waits_for t (s\<lparr>page_wait_blockers := hm_insert t bs (page_wait_blockers s)\<rparr>)"

definition clear_page_wait_edges :: "txn_id \<Rightarrow> txn_manager \<Rightarrow> txn_manager" where
  "clear_page_wait_edges t s =
     refresh_waits_for t (s\<lparr>page_wait_blockers := hm_insert t [] (page_wait_blockers s)\<rparr>)"

definition set_predicate_wait_edges :: "txn_id \<Rightarrow> txn_id btset \<Rightarrow> txn_manager \<Rightarrow> txn_manager" where
  "set_predicate_wait_edges t bs s =
     refresh_waits_for t (s\<lparr>predicate_wait_blockers := hm_insert t bs (predicate_wait_blockers s)\<rparr>)"

definition clear_predicate_wait_edges :: "txn_id \<Rightarrow> txn_manager \<Rightarrow> txn_manager" where
  "clear_predicate_wait_edges t s =
     refresh_waits_for t (s\<lparr>predicate_wait_blockers := hm_insert t [] (predicate_wait_blockers s)\<rparr>)"

text \<open>One round of the loop of \<open>remove_wait_dependency_on\<close>.\<close>

definition drop_dependency :: "txn_id \<Rightarrow> txn_id \<Rightarrow> txn_manager \<Rightarrow> txn_manager" where
  "drop_dependency blocker t s = refresh_waits_for t (s\<lparr>
     table_wait_blockers := hm_modify t (bs_remove blocker) (table_wait_blockers s),
     page_wait_blockers := hm_modify t (bs_remove blocker) (page_wait_blockers s),
     predicate_wait_blockers := hm_modify t (bs_remove blocker) (predicate_wait_blockers s)\<rparr>)"

definition remove_wait_dependency_on :: "txn_id \<Rightarrow> txn_manager \<Rightarrow> txn_manager" where
  "remove_wait_dependency_on blocker s =
     fold (drop_dependency blocker) (filter (\<lambda>t. t \<noteq> blocker) (map fst (txns s))) s"

section \<open>Searching the graph\<close>

text \<open>
  The depth-first search threads the set of visited transactions through the calls. Its recursion
  ends because transaction ids are 64-bit numbers and every call that goes deeper visits a new one.
\<close>

function (sequential) has_wait_path :: "blockers \<Rightarrow> txn_id \<Rightarrow> txn_id btset \<Rightarrow> txn_id \<Rightarrow> bool \<times> txn_id btset"
    and any_wait_path :: "blockers \<Rightarrow> txn_id \<Rightarrow> txn_id btset \<Rightarrow> txn_id list \<Rightarrow> bool \<times> txn_id btset" where
  "has_wait_path g target visited current =
     (if current = target then (True, visited)
      else if current \<in> set visited then (False, visited)
      else any_wait_path g target (bs_insert current visited) (successors g current))"
| "any_wait_path g target visited [] = (False, visited)"
| "any_wait_path g target visited (next # rest) =
     (case has_wait_path g target visited next of
        (True, visited') \<Rightarrow> (True, visited')
      | (False, visited') \<Rightarrow> any_wait_path g target visited' rest)"
  by pat_completeness auto

function (sequential) wait_path_with_visited ::
      "blockers \<Rightarrow> txn_id \<Rightarrow> txn_id btset \<Rightarrow> txn_id \<Rightarrow> txn_id list option \<times> txn_id btset"
    and any_wait_path_with_visited ::
      "blockers \<Rightarrow> txn_id \<Rightarrow> txn_id btset \<Rightarrow> txn_id list \<Rightarrow> txn_id list option \<times> txn_id btset" where
  "wait_path_with_visited g target visited current =
     (if current = target then (Some [current], visited)
      else if current \<in> set visited then (None, visited)
      else case any_wait_path_with_visited g target (bs_insert current visited) (successors g current) of
          (Some path, visited') \<Rightarrow> (Some (current # path), visited')
        | (None, visited') \<Rightarrow> (None, visited'))"
| "any_wait_path_with_visited g target visited [] = (None, visited)"
| "any_wait_path_with_visited g target visited (next # rest) =
     (case wait_path_with_visited g target visited next of
        (Some path, visited') \<Rightarrow> (Some path, visited')
      | (None, visited') \<Rightarrow> any_wait_path_with_visited g target visited' rest)"
  by pat_completeness auto


text \<open>The search measure: unvisited ids, then the list still to go through.\<close>

definition unvisited :: "txn_id list \<Rightarrow> nat" where
  "unvisited visited = card (UNIV - set visited)"

lemma unvisited_insert: "x \<notin> set visited \<Longrightarrow> unvisited (bs_insert x visited) < unvisited visited"
  unfolding unvisited_def by (rule psubset_card_mono) auto

lemma unvisited_mono: "set visited \<subseteq> set visited' \<Longrightarrow> unvisited visited' \<le> unvisited visited"
  unfolding unvisited_def by (rule card_mono) auto

lemma has_wait_path_visited_partial:
  "has_wait_path_any_wait_path_dom (Inl (g, t, vis, c)) \<Longrightarrow> set vis \<subseteq> set (snd (has_wait_path g t vis c))"
  "has_wait_path_any_wait_path_dom (Inr (g, t, vis, xs)) \<Longrightarrow> set vis \<subseteq> set (snd (any_wait_path g t vis xs))"
proof (induction g t vis c and g t vis xs rule: has_wait_path_any_wait_path.pinduct)
  case (1 g t vis c)
  have "set vis \<subseteq> set (snd (any_wait_path g t (bs_insert c vis) (successors g c)))"
    if "c \<noteq> t" "c \<notin> set vis"
    using "1.IH" [OF that] by auto
  with "1.hyps" show ?case by (auto simp: has_wait_path.psimps)
next
  case (2 g t vis)
  then show ?case by (simp add: any_wait_path.psimps)
next
  case (3 g t vis n ns)
  obtain r vis' where r: "has_wait_path g t vis n = (r, vis')" by (cases "has_wait_path g t vis n")
  with "3.IH"(1) have "set vis \<subseteq> set vis'" by simp
  then show ?case
    using "3.hyps" "3.IH"(2) [OF r [symmetric]] r by (cases r) (auto simp: any_wait_path.psimps)
qed

termination has_wait_path
proof (relation "measures
    [\<lambda>x. case x of Inl (g, t, vis, c) \<Rightarrow> unvisited vis | Inr (g, t, vis, xs) \<Rightarrow> unvisited vis,
     \<lambda>x. case x of Inl _ \<Rightarrow> 0 | Inr (g, t, vis, xs) \<Rightarrow> Suc (length xs)]", goal_cases)
  case (4 g t vis n ns r vis')
  then have "set vis \<subseteq> set vis'"
    using has_wait_path_visited_partial(1) [of g t vis n] by (metis snd_conv)
  then show ?case using unvisited_mono [of vis vis'] by auto
qed (auto simp: unvisited_insert)


lemma wait_path_visited_partial:
  "wait_path_with_visited_any_wait_path_with_visited_dom (Inl (g, t, vis, c)) \<Longrightarrow> set vis \<subseteq> set (snd (wait_path_with_visited g t vis c))"
  "wait_path_with_visited_any_wait_path_with_visited_dom (Inr (g, t, vis, xs)) \<Longrightarrow> set vis \<subseteq> set (snd (any_wait_path_with_visited g t vis xs))"
proof (induction g t vis c and g t vis xs rule: wait_path_with_visited_any_wait_path_with_visited.pinduct)
  case (1 g t vis c)
  have "set vis \<subseteq> set (snd (any_wait_path_with_visited g t (bs_insert c vis) (successors g c)))"
    if "c \<noteq> t" "c \<notin> set vis"
    using "1.IH" [OF that] by auto
  with "1.hyps" show ?case by (auto simp: wait_path_with_visited.psimps split: prod.split option.split)
next
  case (2 g t vis)
  then show ?case by (simp add: any_wait_path_with_visited.psimps)
next
  case (3 g t vis n ns)
  obtain r vis' where r: "wait_path_with_visited g t vis n = (r, vis')" by (cases "wait_path_with_visited g t vis n")
  with "3.IH"(1) have "set vis \<subseteq> set vis'" by simp
  then show ?case
    using "3.hyps" "3.IH"(2) [OF r [symmetric]] r by (cases r) (auto simp: any_wait_path_with_visited.psimps)
qed

termination wait_path_with_visited
proof (relation "measures
    [\<lambda>x. case x of Inl (g, t, vis, c) \<Rightarrow> unvisited vis | Inr (g, t, vis, xs) \<Rightarrow> unvisited vis,
     \<lambda>x. case x of Inl _ \<Rightarrow> 0 | Inr (g, t, vis, xs) \<Rightarrow> Suc (length xs)]", goal_cases)
  case (4 g t vis n ns r vis')
  then have "set vis \<subseteq> set vis'"
    using wait_path_visited_partial(1) [of g t vis n] by (metis snd_conv)
  then show ?case using unvisited_mono [of vis vis'] by auto
qed (auto simp: unvisited_insert)


section \<open>Releasing\<close>

definition bump_lock_wait_epoch :: "txn_manager \<Rightarrow> txn_manager" where
  "bump_lock_wait_epoch s = s\<lparr>lock_wait_epoch := lock_wait_epoch s + 1\<rparr>"

definition release_resources :: "txn_id \<Rightarrow> txn_manager \<Rightarrow> txn_manager" where
  "release_resources t s =
     (let s1 = s\<lparr>table_locks := filter (\<lambda>l. tl_txn_id l \<noteq> t) (table_locks s)\<rparr>;
          s2 = s1\<lparr>page_write_owners := hm_retain (\<lambda>_ owner. owner \<noteq> t) (page_write_owners s1)\<rparr>;
          s3 = remove_txn_from_table_wait_queues t s2;
          s4 = remove_txn_from_wait_queues t s3;
          s5 = remove_txn_from_predicate_wait_queues t s4;
          s6 = s5\<lparr>predicate_locks := filter (\<lambda>l. pl_txn_id l \<noteq> t) (predicate_locks s5)\<rparr>;
          s7 = s6\<lparr>table_wait_blockers := hm_remove t (table_wait_blockers s6)\<rparr>;
          s8 = s7\<lparr>page_wait_blockers := hm_remove t (page_wait_blockers s7)\<rparr>;
          s9 = s8\<lparr>predicate_wait_blockers := hm_remove t (predicate_wait_blockers s8)\<rparr>;
          s10 = s9\<lparr>waits_for := hm_remove t (waits_for s9)\<rparr>
      in bump_lock_wait_epoch (remove_wait_dependency_on t s10))"

definition release_transaction_resources :: "txn_id \<Rightarrow> unit tm_oper" where
  "release_transaction_resources t = sbind (sget (tm_get t)) (\<lambda>_. smodify (release_resources t))"

section \<open>Deadlocks\<close>

definition abort_deadlock_victim :: "txn_id \<Rightarrow> string \<Rightarrow> unit tm_oper" where
  "abort_deadlock_victim t message = sbind (sget (tm_get t)) (\<lambda>txn.
     sbind (smodify (\<lambda>s. if tx_status txn = Active
         then update_txn t (\<lambda>x. x\<lparr>tx_status := Aborted, terminal_error := Some message\<rparr>) s else s))
       (\<lambda>_. release_transaction_resources t))"

definition wait_path :: "blockers \<Rightarrow> txn_id \<Rightarrow> txn_id \<Rightarrow> txn_id list option" where
  "wait_path g current target = fst (wait_path_with_visited g target [] current)"

text \<open>\<open>rollback_cost\<close> and the key of \<open>min_by_key\<close>; \<open>Reverse\<close> turns the order of \<open>start_ts\<close> around.\<close>

definition rollback_cost :: "txn_manager \<Rightarrow> txn_state \<Rightarrow> txn_id \<Rightarrow> nat" where
  "rollback_cost s txn t =
     length (tx_undo_records txn) + length (page_writes (write_set txn)) +
     length (filter (\<lambda>owner. owner = t) (map snd (page_write_owners s))) +
     length (filter (\<lambda>l. tl_txn_id l = t) (table_locks s)) +
     length (filter (\<lambda>l. pl_txn_id l = t) (predicate_locks s))"

type_synonym victim_key = "nat \<times> u64 \<times> nat"

definition key_less :: "victim_key \<Rightarrow> victim_key \<Rightarrow> bool" where
  "key_less = (\<lambda>(c, ts, r) (c', ts', r').
     c < c' \<or> c = c' \<and> (ts > ts' \<or> ts = ts' \<and> r < r'))"

definition victim_key :: "txn_manager \<Rightarrow> txn_id \<Rightarrow> txn_id \<Rightarrow> victim_key result" where
  "victim_key s requester t =
     (case map_of (txns s) t of
        None \<Rightarrow> Panic ''cycle members must exist''
      | Some txn \<Rightarrow> Ok (rollback_cost s txn t, start_ts txn, if t = requester then 0 else 1))"

text \<open>\<open>min_by_key\<close> keeps the first of equal minima.\<close>

fun min_by :: "('a \<times> victim_key) list \<Rightarrow> 'a option" where
  "min_by [] = None"
| "min_by [x] = Some (fst x)"
| "min_by (x # y # rest) = min_by ((if key_less (snd y) (snd x) then y else x) # rest)"

definition choose_deadlock_victim :: "txn_id \<Rightarrow> txn_id \<Rightarrow> txn_manager \<Rightarrow> txn_id option result" where
  "choose_deadlock_victim requester blocker s =
     (case wait_path (waits_for s) blocker requester of
        None \<Rightarrow> Ok None
      | Some path \<Rightarrow>
          let cycle = remdups_adj (sort (path @ [requester])) in
          rbind (collect_results (victim_key s requester) cycle) (\<lambda>keys. Ok (min_by (zip cycle keys))))"

definition resolve_deadlock :: "txn_id \<Rightarrow> txn_id \<Rightarrow> (txn_id \<Rightarrow> string) \<Rightarrow> bool tm_oper" where
  "resolve_deadlock requester blocker context =
     sbind (sget (choose_deadlock_victim requester blocker)) (\<lambda>choice.
       case choice of
         None \<Rightarrow> sret False
       | Some victim \<Rightarrow>
           sbind (abort_deadlock_victim victim (context victim)) (\<lambda>_.
             if victim = requester then sfail (Txn (context victim)) else sret True))"

text \<open>
  The loop over the blockers of a waiting request: \<open>Ok True\<close> when a victim was aborted and the
  request has to be tried again. A request that waits for one transaction only is the loop over it.
\<close>

fun deadlock_loop :: "txn_id \<Rightarrow> (txn_id \<Rightarrow> txn_id \<Rightarrow> string) \<Rightarrow> txn_id list \<Rightarrow> bool tm_oper" where
  "deadlock_loop t ctx [] s = (Ok False, s)"
| "deadlock_loop t ctx (blocker # rest) s =
     (if fst (has_wait_path (waits_for s) t [] blocker)
      then sbind (resolve_deadlock t blocker (ctx blocker)) (\<lambda>retry.
             if retry then sret True else deadlock_loop t ctx rest) s
      else deadlock_loop t ctx rest s)"

section \<open>Requests\<close>

text \<open>
  One attempt of a request ends in a grant, in a retry (the recursive call of the source, after a
  victim was aborted), or in an error that says for whom the transaction waits.
\<close>

datatype attempt = Granted | Retry

definition wait_or_retry :: "txn_id \<Rightarrow> (txn_id \<Rightarrow> txn_id \<Rightarrow> string) \<Rightarrow> txn_id list \<Rightarrow> db_error \<Rightarrow> attempt tm_oper" where
  "wait_or_retry t ctx bs wait = sbind (deadlock_loop t ctx bs) (\<lambda>retry.
     if retry then sret Retry else sfail wait)"

definition txn_list :: "txn_id list \<Rightarrow> string" where
  "txn_list ts = join '','' (map show_word ts)"

definition victim_message :: "string \<Rightarrow> txn_id \<Rightarrow> string" where
  "victim_message what victim = what @ ''; victim transaction '' @ show_word victim @ '' aborted''"

definition table_lock_attempt :: "txn_id \<Rightarrow> string \<Rightarrow> table_lock_mode \<Rightarrow> attempt tm_oper" where
  "table_lock_attempt t table mode = sbind (sget (ensure_active t)) (\<lambda>_.
     sbind (sget (conflicting_table_lock_txns t table mode)) (\<lambda>blockers s.
       let grant = sbind (smodify (\<lambda>s. upsert_table_lock t table mode
             (clear_table_wait_edges t (dequeue_table_waiter table t s)))) (\<lambda>_. sret Granted)
       in if blockers = [] then
            (case queue_front table (table_wait_queues s) of
               Some front \<Rightarrow>
                 if front \<noteq> t then
                   wait_or_retry t (\<lambda>_. victim_message
                       (''deadlock detected while waiting for table lock on '' @ table)) [front]
                     (Txn (''table lock wait on '' @ table @ ''; transaction '' @ show_word front @
                        '' is ahead in queue''))
                     (set_table_wait_edges t [front] (enqueue_table_waiter table t s))
                 else grant s
             | None \<Rightarrow> grant s)
          else
            wait_or_retry t (\<lambda>_. victim_message
                (''deadlock detected while acquiring table lock on '' @ table)) blockers
              (Txn (''table lock wait on '' @ table @ ''; waiting on transactions '' @ txn_list blockers))
              (set_table_wait_edges t blockers (enqueue_table_waiter table t s))))"

text \<open>The deadlock message of a page request, for a blocker and a victim.\<close>

definition page_context :: "txn_id \<Rightarrow> page_id \<Rightarrow> txn_id \<Rightarrow> txn_id \<Rightarrow> string" where
  "page_context t p blocker = victim_message (''deadlock detected between transactions '' @ show_word t @
     '' and '' @ show_word blocker @ '' on page '' @ show_word p)"

definition page_write_attempt :: "txn_id \<Rightarrow> page_id \<Rightarrow> attempt tm_oper" where
  "page_write_attempt t p s =
     (let ctx = page_context t p
      in case map_of (page_write_owners s) p of
        None \<Rightarrow>
          sbind (sget (ensure_active t)) (\<lambda>_ s.
            let grant = sbind (smodify (\<lambda>s. clear_page_wait_edges t
                  ((dequeue_front_waiter p t s)\<lparr>page_write_owners :=
                     hm_insert p t (page_write_owners (dequeue_front_waiter p t s))\<rparr>)))
                  (\<lambda>_. sret Granted)
            in case queue_front p (page_write_wait_queues s) of
                 Some front \<Rightarrow>
                   if front \<noteq> t then
                     wait_or_retry t ctx [front]
                       (Txn (''page write wait on page '' @ show_word p @ ''; transaction '' @
                          show_word front @ '' is ahead in queue''))
                       (set_page_wait_edges t [front] (enqueue_page_waiter p t s))
                   else grant s
               | None \<Rightarrow> grant s) s
      | Some owner \<Rightarrow>
          if owner = t then
            (Ok Granted, clear_page_wait_edges t (dequeue_front_waiter p t s))
          else
            sbind (sget (ensure_active t)) (\<lambda>_. sbind (sget (tm_get owner)) (\<lambda>_ s.
              wait_or_retry t ctx [owner]
                (Txn (''page write conflict on page '' @ show_word p @ '' held by transaction '' @
                   show_word owner))
                (set_page_wait_edges t [owner] (enqueue_page_waiter p t s)))) s)"

definition predicate_write_attempt ::
    "txn_id \<Rightarrow> string \<Rightarrow> (string \<times> Value list) list \<Rightarrow> attempt tm_oper" where
  "predicate_write_attempt t table index_keys = sbind (sget (ensure_active t)) (\<lambda>_.
     let wait_key = predicate_write_key_of table index_keys in
     sbind (sget (conflicting_predicate_lock_txns t table index_keys)) (\<lambda>blockers s.
       let grant = sbind (smodify (\<lambda>s. clear_predicate_wait_edges t
             (dequeue_predicate_waiter wait_key t s))) (\<lambda>_. sret Granted)
       in if blockers = [] then
            (case queue_front wait_key (predicate_write_wait_queues s) of
               Some front \<Rightarrow>
                 if front \<noteq> t then
                   wait_or_retry t (\<lambda>_. victim_message
                       (''deadlock detected while waiting for predicate write on table '' @ table)) [front]
                     (Txn (''predicate write wait on table '' @ table @ ''; transaction '' @
                        show_word front @ '' is ahead in queue''))
                     (set_predicate_wait_edges t [front] (enqueue_predicate_waiter wait_key t s))
                 else grant s
             | None \<Rightarrow> grant s)
          else
            wait_or_retry t (\<lambda>_. victim_message
                (''deadlock detected while writing table '' @ table)) blockers
              (Txn (''serializable conflict on table '' @ table @ ''; waiting on transactions '' @
                 txn_list blockers))
              (set_predicate_wait_edges t blockers (enqueue_predicate_waiter wait_key t s))))"

section \<open>The search is correct\<close>

declare has_wait_path.simps [simp del] wait_path_with_visited.simps [simp del]

text \<open>The wait-for relation of a graph.\<close>

definition wait_edges :: "blockers \<Rightarrow> (txn_id \<times> txn_id) set" where
  "wait_edges g = {(a, b). b \<in> set (successors g a)}"

lemma wait_path_sound:
  "fst (has_wait_path g t vis c) \<Longrightarrow> (c, t) \<in> (wait_edges g)\<^sup>*"
  "fst (any_wait_path g t vis ns) \<Longrightarrow> \<exists>n \<in> set ns. (n, t) \<in> (wait_edges g)\<^sup>*"
proof (induction g t vis c and g t vis ns rule: has_wait_path_any_wait_path.induct)
  case (1 g t vis c)
  then show ?case
    by (auto simp: has_wait_path.simps wait_edges_def split: if_splits intro: converse_rtrancl_into_rtrancl)
next
  case (3 g t vis n ns)
  then show ?case by (fastforce split: prod.splits bool.splits)
qed simp

text \<open>When the search fails, the visited transactions are closed under waiting and miss the target.\<close>

definition explored :: "blockers \<Rightarrow> txn_id \<Rightarrow> txn_id list \<Rightarrow> txn_id list \<Rightarrow> bool" where
  "explored g t vis vis' \<longleftrightarrow> set vis \<subseteq> set vis' \<and>
     (\<forall>x \<in> set vis' - set vis. x \<noteq> t \<and> set (successors g x) \<subseteq> set vis')"

lemma explored_refl: "explored g t vis vis"
  by (simp add: explored_def)

lemma explored_trans:
  assumes ab: "explored g t a b" and bc: "explored g t b c"
  shows "explored g t a c"
  unfolding explored_def
proof (intro conjI ballI)
  show "set a \<subseteq> set c" using ab bc by (auto simp: explored_def)
  fix x
  assume x: "x \<in> set c - set a"
  show "x \<noteq> t" using x ab bc by (cases "x \<in> set b") (auto simp: explored_def)
  show "set (successors g x) \<subseteq> set c"
  proof (cases "x \<in> set b")
    case True
    with x ab have "set (successors g x) \<subseteq> set b" by (simp add: explored_def)
    also have "set b \<subseteq> set c" using bc by (simp add: explored_def)
    finally show ?thesis .
  next
    case False
    with x bc show ?thesis by (simp add: explored_def)
  qed
qed

lemma wait_path_explored:
  "has_wait_path g t vis c = (False, vis') \<Longrightarrow> explored g t vis vis' \<and> c \<in> set vis' \<and> c \<noteq> t"
  "any_wait_path g t vis ns = (False, vis') \<Longrightarrow> explored g t vis vis' \<and> set ns \<subseteq> set vis' - {t}"
proof (induction g t vis c and g t vis ns arbitrary: vis' and vis' rule: has_wait_path_any_wait_path.induct)
  case (1 g t vis c)
  show ?case
  proof (cases "c = t \<or> c \<in> set vis")
    case True
    with "1.prems" show ?thesis by (auto simp: has_wait_path.simps explored_refl split: if_splits)
  next
    case False
    with "1.prems" have "any_wait_path g t (bs_insert c vis) (successors g c) = (False, vis')"
      by (simp add: has_wait_path.simps)
    then have "explored g t (bs_insert c vis) vis'" "set (successors g c) \<subseteq> set vis'"
      using "1.IH" False by auto
    with False show ?thesis by (auto simp: explored_def)
  qed
next
  case (2 g t vis)
  then show ?case by (simp add: explored_refl)
next
  case (3 g t vis n ns)
  then obtain vis1 where 1: "has_wait_path g t vis n = (False, vis1)"
      and 2: "any_wait_path g t vis1 ns = (False, vis')"
    by (auto split: prod.splits bool.splits)
  then have "explored g t vis vis1" "n \<in> set vis1" "n \<noteq> t"
    using "3.IH"(1) by auto
  moreover have "explored g t vis1 vis'" "set ns \<subseteq> set vis' - {t}"
    using "3.IH"(2) [OF 1 [symmetric] refl 2] by auto
  ultimately have "explored g t vis vis'" "set vis1 \<subseteq> set vis'"
    by (blast intro: explored_trans, simp add: explored_def)
  with \<open>n \<in> set vis1\<close> \<open>n \<noteq> t\<close> \<open>set ns \<subseteq> set vis' - {t}\<close> show ?case by auto
qed

lemma has_wait_path_iff: "fst (has_wait_path g t [] c) \<longleftrightarrow> (c, t) \<in> (wait_edges g)\<^sup>*"
proof
  assume "(c, t) \<in> (wait_edges g)\<^sup>*"
  show "fst (has_wait_path g t [] c)"
  proof (rule ccontr)
    assume "\<not> fst (has_wait_path g t [] c)"
    then obtain vis where "has_wait_path g t [] c = (False, vis)"
      by (metis (full_types) prod.collapse)
    then have vis: "explored g t [] vis" "c \<in> set vis"
      using wait_path_explored(1) by auto
    from \<open>(c, t) \<in> (wait_edges g)\<^sup>*\<close> vis(2) have "t \<in> set vis"
      by (induction rule: converse_rtrancl_induct)
        (use vis(1) in \<open>auto simp: explored_def wait_edges_def\<close>)
    with vis(1) show False by (auto simp: explored_def)
  qed
qed (rule wait_path_sound)

text \<open>The two searches agree, and a path found is a walk along wait-for edges to the target.\<close>

lemma wait_path_agrees:
  "has_wait_path g t vis c = (fst (wait_path_with_visited g t vis c) \<noteq> None,
     snd (wait_path_with_visited g t vis c))"
  "any_wait_path g t vis ns = (fst (any_wait_path_with_visited g t vis ns) \<noteq> None,
     snd (any_wait_path_with_visited g t vis ns))"
proof (induction g t vis c and g t vis ns rule: has_wait_path_any_wait_path.induct)
  case (1 g t vis c)
  then show ?case
    by (auto simp: has_wait_path.simps wait_path_with_visited.simps split: prod.split option.split)
next
  case (3 g t vis n ns)
  then show ?case by (cases "wait_path_with_visited g t vis n") (auto split: option.split)
qed simp

fun walk :: "blockers \<Rightarrow> txn_id \<Rightarrow> txn_id list \<Rightarrow> bool" where
  "walk g t [] = False"
| "walk g t [x] = (x = t)"
| "walk g t (x # y # rest) = (x \<noteq> t \<and> y \<in> set (successors g x) \<and> walk g t (y # rest))"

lemma wait_path_walk:
  "fst (wait_path_with_visited g t vis c) = Some path \<Longrightarrow> walk g t path \<and> hd path = c"
  "fst (any_wait_path_with_visited g t vis ns) = Some path \<Longrightarrow> walk g t path \<and> hd path \<in> set ns"
proof (induction g t vis c and g t vis ns arbitrary: path and path
    rule: wait_path_with_visited_any_wait_path_with_visited.induct)
  case (1 g t vis c)
  show ?case
  proof (cases "c = t \<or> c \<in> set vis")
    case True
    with "1.prems" show ?thesis by (auto simp: wait_path_with_visited.simps split: if_splits)
  next
    case False
    with "1.prems" obtain rest where path: "path = c # rest"
        and "fst (any_wait_path_with_visited g t (bs_insert c vis) (successors g c)) = Some rest"
      by (auto simp: wait_path_with_visited.simps split: prod.splits option.splits)
    then have "walk g t rest" "hd rest \<in> set (successors g c)"
      using "1.IH" False by auto
    with path False show ?thesis by (cases rest) auto
  qed
next
  case (3 g t vis n ns)
  then show ?case
    by (cases "wait_path_with_visited g t vis n") (auto split: option.splits)
qed simp

lemma walk_waiting: "walk g t path \<Longrightarrow> x \<in> set path \<Longrightarrow> x = t \<or> successors g x \<noteq> []"
  by (induction g t path rule: walk.induct) auto

lemma walk_members: "walk g t path \<Longrightarrow> x \<in> set path \<Longrightarrow> x = hd path \<or> (\<exists>a. x \<in> set (successors g a))"
  by (induction g t path rule: walk.induct) auto

lemma wait_path_None: "wait_path g c t = None \<longleftrightarrow> (c, t) \<notin> (wait_edges g)\<^sup>*"
  using has_wait_path_iff [of g t c] by (auto simp: wait_path_def wait_path_agrees)

section \<open>What the operations do to the graph\<close>

lemma successors_Nil [simp]: "successors [] u = []"
  by (simp add: successors_def)

lemma successors_insert [simp]: "successors (hm_insert t bs m) u = (if u = t then bs else successors m u)"
  by (simp add: successors_def)

lemma successors_remove [simp]: "successors (hm_remove t m) u = (if u = t then [] else successors m u)"
  by (simp add: successors_def)

lemma successors_or_insert [simp]: "successors (hm_or_insert t [] m) u = successors m u"
  by (auto simp: successors_def split: option.split)

lemma bs_remove_Nil [simp]: "bs_remove b [] = []"
  by (simp add: bs_remove_def)

lemma successors_modify [simp]:
  "successors (hm_modify t (bs_remove b) m) u = (if u = t then bs_remove b (successors m t) else successors m u)"
  by (auto simp: successors_def split: option.split)

text \<open>The transactions that wait for something, on any of the three accounts.\<close>

definition waits_on :: "txn_manager \<Rightarrow> txn_id \<Rightarrow> txn_id set" where
  "waits_on s t = set (successors (table_wait_blockers s) t) \<union>
     set (successors (page_wait_blockers s) t) \<union> set (successors (predicate_wait_blockers s) t)"

abbreviation waits_set :: "txn_manager \<Rightarrow> txn_id \<Rightarrow> txn_id set" where
  "waits_set s t \<equiv> set (successors (waits_for s) t)"

lemma waits_set_refresh [simp]:
  "waits_set (refresh_waits_for t s) u = (if u = t then waits_on s t else waits_set s u)"
  by (auto simp: refresh_waits_for_def waits_on_def)

lemma refresh_fields [simp]:
  "next_txn_id (refresh_waits_for t s) = next_txn_id s"
  "next_commit_ts (refresh_waits_for t s) = next_commit_ts s"
  "next_row_ids (refresh_waits_for t s) = next_row_ids s"
  "lock_wait_epoch (refresh_waits_for t s) = lock_wait_epoch s"
  "txns (refresh_waits_for t s) = txns s"
  "table_locks (refresh_waits_for t s) = table_locks s"
  "predicate_locks (refresh_waits_for t s) = predicate_locks s"
  "table_wait_queues (refresh_waits_for t s) = table_wait_queues s"
  "page_write_owners (refresh_waits_for t s) = page_write_owners s"
  "page_write_wait_queues (refresh_waits_for t s) = page_write_wait_queues s"
  "table_wait_blockers (refresh_waits_for t s) = table_wait_blockers s"
  "predicate_write_wait_queues (refresh_waits_for t s) = predicate_write_wait_queues s"
  "page_wait_blockers (refresh_waits_for t s) = page_wait_blockers s"
  "predicate_wait_blockers (refresh_waits_for t s) = predicate_wait_blockers s"
  by (simp_all add: refresh_waits_for_def)

lemma waits_on_refresh [simp]: "waits_on (refresh_waits_for t s) u = waits_on s u"
  by (simp add: waits_on_def)

lemma drop_dependency_fields [simp]:
  "next_txn_id (drop_dependency b t s) = next_txn_id s"
  "next_commit_ts (drop_dependency b t s) = next_commit_ts s"
  "next_row_ids (drop_dependency b t s) = next_row_ids s"
  "txns (drop_dependency b t s) = txns s"
  "table_locks (drop_dependency b t s) = table_locks s"
  "predicate_locks (drop_dependency b t s) = predicate_locks s"
  "table_wait_queues (drop_dependency b t s) = table_wait_queues s"
  "page_write_owners (drop_dependency b t s) = page_write_owners s"
  "page_write_wait_queues (drop_dependency b t s) = page_write_wait_queues s"
  "predicate_write_wait_queues (drop_dependency b t s) = predicate_write_wait_queues s"
  by (simp_all add: drop_dependency_def)

lemma fold_drop_fields [simp]:
  "next_txn_id (fold (drop_dependency b) ts s) = next_txn_id s"
  "next_commit_ts (fold (drop_dependency b) ts s) = next_commit_ts s"
  "next_row_ids (fold (drop_dependency b) ts s) = next_row_ids s"
  "txns (fold (drop_dependency b) ts s) = txns s"
  "table_locks (fold (drop_dependency b) ts s) = table_locks s"
  "predicate_locks (fold (drop_dependency b) ts s) = predicate_locks s"
  "table_wait_queues (fold (drop_dependency b) ts s) = table_wait_queues s"
  "page_write_owners (fold (drop_dependency b) ts s) = page_write_owners s"
  "page_write_wait_queues (fold (drop_dependency b) ts s) = page_write_wait_queues s"
  "predicate_write_wait_queues (fold (drop_dependency b) ts s) = predicate_write_wait_queues s"
  by (induction ts arbitrary: s) simp_all

lemma waits_on_drop [simp]:
  "waits_on (drop_dependency b t s) u = (if u = t then waits_on s t - {b} else waits_on s u)"
  by (auto simp: drop_dependency_def waits_on_def)

lemma waits_set_drop [simp]:
  "waits_set (drop_dependency b t s) u = (if u = t then waits_on s t - {b} else waits_set s u)"
  by (auto simp: drop_dependency_def) (auto simp: waits_on_def)

lemma waits_on_fold_drop:
  "waits_on (fold (drop_dependency b) ts s) u = (if u \<in> set ts then waits_on s u - {b} else waits_on s u)"
  by (induction ts arbitrary: s) auto

lemma waits_set_fold_drop:
  "waits_set (fold (drop_dependency b) ts s) u = (if u \<in> set ts then waits_on s u - {b} else waits_set s u)"
  by (induction ts arbitrary: s) (auto simp: waits_on_fold_drop)

lemma release_txns [simp]: "txns (release_resources t s) = txns s"
  by (simp add: release_resources_def Let_def bump_lock_wait_epoch_def remove_wait_dependency_on_def
      remove_txn_from_table_wait_queues_def remove_txn_from_wait_queues_def
      remove_txn_from_predicate_wait_queues_def)

lemmas release_simps = release_resources_def Let_def bump_lock_wait_epoch_def
  remove_wait_dependency_on_def remove_txn_from_table_wait_queues_def
  remove_txn_from_wait_queues_def remove_txn_from_predicate_wait_queues_def

lemma release_fields [simp]:
  "next_txn_id (release_resources t s) = next_txn_id s"
  "next_commit_ts (release_resources t s) = next_commit_ts s"
  "next_row_ids (release_resources t s) = next_row_ids s"
  "table_locks (release_resources t s) = filter (\<lambda>l. tl_txn_id l \<noteq> t) (table_locks s)"
  "predicate_locks (release_resources t s) = filter (\<lambda>l. pl_txn_id l \<noteq> t) (predicate_locks s)"
  "page_write_owners (release_resources t s) = hm_retain (\<lambda>_ owner. owner \<noteq> t) (page_write_owners s)"
  "table_wait_queues (release_resources t s) = queue_drop t (table_wait_queues s)"
  "page_write_wait_queues (release_resources t s) = queue_drop t (page_write_wait_queues s)"
  "predicate_write_wait_queues (release_resources t s) = queue_drop t (predicate_write_wait_queues s)"
  by (simp_all add: release_simps)

lemma waits_on_epoch [simp]: "waits_on (s\<lparr>lock_wait_epoch := e\<rparr>) u = waits_on s u"
  by (simp add: waits_on_def)

lemma waits_on_release:
  "waits_on (release_resources t s) u =
     (if u = t then {} else if u \<in> fst ` set (txns s) then waits_on s u - {t} else waits_on s u)"
  unfolding release_simps
  by (simp add: waits_on_fold_drop, auto simp: waits_on_def)

lemma waits_set_release:
  "waits_set (release_resources t s) u =
     (if u = t then {} else if u \<in> fst ` set (txns s) then waits_on s u - {t} else waits_set s u)"
  unfolding release_simps
  by (simp add: waits_set_fold_drop, auto simp: waits_on_def)

section \<open>Requests end\<close>

text \<open>The transactions other than the requester that wait for something.\<close>

definition other_waiters :: "txn_id \<Rightarrow> txn_manager \<Rightarrow> txn_id set" where
  "other_waiters t s = {u. u \<noteq> t \<and> (waits_on s u \<noteq> {} \<or> waits_set s u \<noteq> {})}"

lemma other_waiters_release:
  assumes "v \<noteq> t" "v \<in> other_waiters t s"
  shows "other_waiters t (release_resources v s) \<subset> other_waiters t s"
proof -
  have "other_waiters t (release_resources v s) \<subseteq> other_waiters t s - {v}"
    by (auto simp: other_waiters_def waits_on_release waits_set_release split: if_splits)
  with assms(2) show ?thesis by auto
qed

lemma update_txn_graph [simp]:
  "waits_on (update_txn t f s) u = waits_on s u" "waits_for (update_txn t f s) = waits_for s"
  "table_locks (update_txn t f s) = table_locks s" "predicate_locks (update_txn t f s) = predicate_locks s"
  "page_write_owners (update_txn t f s) = page_write_owners s"
  "table_wait_queues (update_txn t f s) = table_wait_queues s"
  "page_write_wait_queues (update_txn t f s) = page_write_wait_queues s"
  "predicate_write_wait_queues (update_txn t f s) = predicate_write_wait_queues s"
  "next_txn_id (update_txn t f s) = next_txn_id s"
  "next_commit_ts (update_txn t f s) = next_commit_ts s"
  by (simp_all add: update_txn_def waits_on_def)

lemma other_waiters_update [simp]: "other_waiters t (update_txn u f s) = other_waiters t s"
  by (simp add: other_waiters_def)

text \<open>The abort of a victim that exists: its status, then everything it held or waited for.\<close>

definition kill :: "txn_id \<Rightarrow> string \<Rightarrow> txn_manager \<Rightarrow> txn_manager" where
  "kill v m s = release_resources v (if tm_txn_status v s = Ok Active
     then update_txn v (\<lambda>x. x\<lparr>tx_status := Aborted, terminal_error := Some m\<rparr>) s else s)"

lemma abort_deadlock_victim_eq:
  "abort_deadlock_victim v m s =
     (case map_of (txns s) v of None \<Rightarrow> (Err (not_active v), s) | Some _ \<Rightarrow> (Ok (), kill v m s))"
  by (auto simp: abort_deadlock_victim_def tm_get_def kill_def tm_txn_status_def sbind_def
      release_transaction_resources_def update_txn_def split: option.split)

lemma min_by_member: "min_by xs = Some a \<Longrightarrow> a \<in> fst ` set xs"
  by (induction xs rule: min_by.induct) (auto split: if_splits)

text \<open>A resolved deadlock: the victim lies on the path from the blocker back to the requester.\<close>

lemma choose_victim_member:
  assumes "choose_deadlock_victim t b s = Ok (Some v)"
  obtains path where "wait_path (waits_for s) b t = Some path" "v \<in> insert t (set path)"
    "map_of (txns s) v \<noteq> None"
proof -
  obtain path keys where path: "wait_path (waits_for s) b t = Some path"
      and keys: "collect_results (victim_key s t) (remdups_adj (sort (path @ [t]))) = Ok keys"
      and v: "min_by (zip (remdups_adj (sort (path @ [t]))) keys) = Some v"
    using assms by (auto simp: choose_deadlock_victim_def Let_def rbind_eq_Ok split: option.splits)
  have *: "list_all2 (\<lambda>x y. victim_key s t x = Ok y) (remdups_adj (sort (path @ [t]))) keys"
    using keys by (simp add: collect_results_eq_Ok)
  obtain k where k: "(v, k) \<in> set (zip (remdups_adj (sort (path @ [t]))) keys)"
    using min_by_member [OF v] by auto
  then have "v \<in> insert t (set path)" by (auto dest: set_zip_leftD)
  moreover have "victim_key s t v = Ok k"
    using * k by (auto simp: list_all2_iff)
  ultimately show thesis
    using path by (intro that) (auto simp: victim_key_def split: option.splits)
qed

lemma min_by_None [simp]: "min_by xs = None \<longleftrightarrow> xs = []"
  by (induction xs rule: min_by.induct) auto

lemma collect_results_fail:
  "collect_results f xs = Err e \<Longrightarrow> \<exists>x \<in> set xs. f x = Err e"
  "collect_results f xs = Panic q \<Longrightarrow> \<exists>x \<in> set xs. f x = Panic q"
  by (induction xs) (auto simp: rbind_eq_Err rbind_eq_Panic)

lemma choose_victim_cases:
  obtains (none) "choose_deadlock_victim t b s = Ok None" "wait_path (waits_for s) b t = None"
  | (some) v path where "choose_deadlock_victim t b s = Ok (Some v)"
      "wait_path (waits_for s) b t = Some path" "v \<in> insert t (set path)" "map_of (txns s) v \<noteq> None"
  | (panic) q path x where "choose_deadlock_victim t b s = Panic q"
      "wait_path (waits_for s) b t = Some path" "x \<in> insert t (set path)" "map_of (txns s) x = None"
proof (cases "wait_path (waits_for s) b t")
  case None
  then show thesis by (intro none) (simp add: choose_deadlock_victim_def)
next
  case path: (Some path)
  let ?cycle = "remdups_adj (sort (path @ [t]))"
  have no_err: "victim_key s t x \<noteq> Err e" for x e
    by (simp add: victim_key_def split: option.split)
  show thesis
  proof (cases "collect_results (victim_key s t) ?cycle")
    case (Ok keys)
    then have "length keys = length ?cycle"
      by (auto simp: collect_results_eq_Ok dest: list_all2_lengthD)
    moreover have "set ?cycle \<noteq> {}" by simp
    then have "?cycle \<noteq> []" by (metis list.set(1))
    ultimately have "zip ?cycle keys \<noteq> []" by (cases ?cycle; cases keys) auto
    then obtain v where "min_by (zip ?cycle keys) = Some v" by (metis min_by_None not_None_eq)
    then have v: "choose_deadlock_victim t b s = Ok (Some v)"
      by (simp only: choose_deadlock_victim_def path Let_def Ok option.case rbind.simps)
    show thesis
      by (rule choose_victim_member [OF v]) (use path some v in auto)
  next
    case (Err e)
    then show thesis using collect_results_fail(1) no_err by blast
  next
    case (Panic q)
    then obtain x where "x \<in> set ?cycle" "victim_key s t x = Panic q"
      using collect_results_fail(2) by blast
    then show thesis
      using Panic path
      by (intro panic) (auto simp: choose_deadlock_victim_def Let_def victim_key_def split: option.splits)
  qed
qed

lemma resolve_deadlock_cases:
  obtains (none) "resolve_deadlock t b ctx s = (Ok False, s)" "(b, t) \<notin> (wait_edges (waits_for s))\<^sup>*"
  | (self) "resolve_deadlock t b ctx s = (Err (Txn (ctx t)), kill t (ctx t) s)" "map_of (txns s) t \<noteq> None"
  | (other) v where "resolve_deadlock t b ctx s = (Ok True, kill v (ctx v) s)" "v \<noteq> t"
      "v \<in> other_waiters t s" "map_of (txns s) v \<noteq> None"
  | (panic) q path x where "resolve_deadlock t b ctx s = (Panic q, s)"
      "wait_path (waits_for s) b t = Some path" "x \<in> insert t (set path)" "map_of (txns s) x = None"
proof (cases rule: choose_victim_cases [of t b s])
  case none
  then show thesis
    by (intro that(1)) (simp_all add: resolve_deadlock_def wait_path_None)
next
  case (some v path)
  then have walk: "walk (waits_for s) t path"
    using wait_path_walk(1) by (auto simp: wait_path_def)
  show thesis
  proof (cases "v = t")
    case True
    with some show thesis
      by (intro that(2)) (auto simp: resolve_deadlock_def abort_deadlock_victim_eq sbind_def)
  next
    case False
    with some walk_waiting [OF walk] have "v \<in> other_waiters t s"
      by (auto simp: other_waiters_def)
    with some False show thesis
      by (intro that(3)) (auto simp: resolve_deadlock_def abort_deadlock_victim_eq sbind_def)
  qed
next
  case (panic q path x)
  then show thesis by (intro that(4)) (auto simp: resolve_deadlock_def sbind_def)
qed

lemma kill_other_waiters: "v \<noteq> t \<Longrightarrow> v \<in> other_waiters t s \<Longrightarrow> other_waiters t (kill v m s) \<subset> other_waiters t s"
  unfolding kill_def by (rule order_less_le_trans [OF other_waiters_release]) simp_all

text \<open>
  The outcomes of a waiting request: a victim other than the requester was aborted and the
  request is tried again, the requester was the victim, or no blocker waits for the requester.
\<close>

lemma deadlock_loop_cases:
  obtains (waiting) "deadlock_loop t ctx bs s = (Ok False, s)"
      "\<And>b. b \<in> set bs \<Longrightarrow> (b, t) \<notin> (wait_edges (waits_for s))\<^sup>*"
  | (self) m where "deadlock_loop t ctx bs s = (Err (Txn m), kill t m s)" "map_of (txns s) t \<noteq> None"
      "m \<in> (\<lambda>b. ctx b t) ` set bs"
  | (other) v m where "deadlock_loop t ctx bs s = (Ok True, kill v m s)" "v \<noteq> t"
      "v \<in> other_waiters t s" "map_of (txns s) v \<noteq> None"
  | (panic) q b path x where "deadlock_loop t ctx bs s = (Panic q, s)" "b \<in> set bs"
      "wait_path (waits_for s) b t = Some path" "x \<in> insert t (set path)" "map_of (txns s) x = None"
proof (induction bs arbitrary: thesis)
  case Nil
  then show ?case by simp
next
  case (Cons b bs)
  show ?case
  proof (cases "fst (has_wait_path (waits_for s) t [] b)")
    case False
    then have eq: "deadlock_loop t ctx (b # bs) s = deadlock_loop t ctx bs s" by simp
    from False have "(b, t) \<notin> (wait_edges (waits_for s))\<^sup>*" by (simp add: has_wait_path_iff)
    with eq Cons.prems(1) have "deadlock_loop t ctx bs s = (Ok False, s) \<Longrightarrow>
        (\<And>b. b \<in> set bs \<Longrightarrow> (b, t) \<notin> (wait_edges (waits_for s))\<^sup>*) \<Longrightarrow> ?thesis"
      by auto
    then show ?thesis
      by (rule Cons.IH) (use eq in \<open>auto intro: Cons.prems(2-4)\<close>)
  next
    case True
    then have eq: "deadlock_loop t ctx (b # bs) s = sbind (resolve_deadlock t b (ctx b)) (\<lambda>retry.
        if retry then sret True else deadlock_loop t ctx bs) s" by simp
    show ?thesis
    proof (cases rule: resolve_deadlock_cases [of t b "ctx b" s])
      case none
      with True show ?thesis by (simp add: has_wait_path_iff)
    qed (use eq in \<open>auto simp: sbind_def intro: Cons.prems\<close>)
  qed
qed

lemma other_waiters_set_edges [simp]:
  "other_waiters t (set_table_wait_edges t bs s) = other_waiters t s"
  "other_waiters t (set_page_wait_edges t bs s) = other_waiters t s"
  "other_waiters t (set_predicate_wait_edges t bs s) = other_waiters t s"
  by (auto simp: other_waiters_def set_table_wait_edges_def set_page_wait_edges_def
      set_predicate_wait_edges_def) (auto simp: waits_on_def)

lemma other_waiters_enqueue [simp]:
  "other_waiters t (enqueue_table_waiter table u s) = other_waiters t s"
  "other_waiters t (enqueue_page_waiter p u s) = other_waiters t s"
  "other_waiters t (enqueue_predicate_waiter k u s) = other_waiters t s"
  by (simp_all add: other_waiters_def waits_on_def enqueue_table_waiter_def enqueue_page_waiter_def
      enqueue_predicate_waiter_def)

lemma wait_or_retry_Retry:
  assumes "wait_or_retry t ctx bs w s = (Ok Retry, s')"
  shows "other_waiters t s' \<subset> other_waiters t s"
proof -
  have "deadlock_loop t ctx bs s = (Ok True, s')"
    using assms by (auto simp: wait_or_retry_def sbind_def split: prod.splits result.splits if_splits)
  then show ?thesis
    by (cases rule: deadlock_loop_cases [of t ctx bs s]) (simp_all, metis kill_other_waiters)
qed

lemma ensure_active_cases:
  obtains (active) "ensure_active t s = Ok ()" "tm_txn_status t s = Ok Active"
  | (inactive) e where "ensure_active t s = Err e" "tm_txn_status t s \<noteq> Ok Active"
  by (cases "map_of (txns s) t") (auto simp: ensure_active_def tm_get_def tm_txn_status_def)

lemma not_Retry_grant [simp]: "sbind (smodify f) (\<lambda>_. sret Granted) s = (Ok Granted, f s)"
  by simp

lemma table_lock_attempt_Retry:
  assumes "table_lock_attempt t table mode s = (Ok Retry, s')"
  shows "other_waiters t s' \<subset> other_waiters t s"
  using assms wait_or_retry_Retry
  by (fastforce simp: table_lock_attempt_def Let_def sbind_def split: result.splits option.splits if_splits)

lemma page_write_attempt_Retry:
  assumes "page_write_attempt t p s = (Ok Retry, s')"
  shows "other_waiters t s' \<subset> other_waiters t s"
  using assms wait_or_retry_Retry
  by (fastforce simp: page_write_attempt_def Let_def sbind_def split: result.splits option.splits if_splits)

lemma predicate_write_attempt_Retry:
  assumes "predicate_write_attempt t table keys s = (Ok Retry, s')"
  shows "other_waiters t s' \<subset> other_waiters t s"
  using assms wait_or_retry_Retry
  by (fastforce simp: predicate_write_attempt_def Let_def sbind_def split: result.splits option.splits if_splits)

lemma other_waiters_decreases:
  "other_waiters t s' \<subset> other_waiters t s \<Longrightarrow> card (other_waiters t s') < card (other_waiters t s)"
  by (rule psubset_card_mono) simp_all

function acquire_table_lock :: "txn_id \<Rightarrow> string \<Rightarrow> table_lock_mode \<Rightarrow> unit tm_oper" where
  "acquire_table_lock t table mode s =
     (case table_lock_attempt t table mode s of
        (Ok Granted, s') \<Rightarrow> (Ok (), s')
      | (Ok Retry, s') \<Rightarrow> acquire_table_lock t table mode s'
      | (Err e, s') \<Rightarrow> (Err e, s')
      | (Panic q, s') \<Rightarrow> (Panic q, s'))"
  by pat_completeness auto

termination acquire_table_lock
  by (relation "measure (\<lambda>(t, table, mode, s). card (other_waiters t s))")
    (simp_all, metis other_waiters_decreases table_lock_attempt_Retry)

function acquire_page_write :: "txn_id \<Rightarrow> page_id \<Rightarrow> unit tm_oper" where
  "acquire_page_write t p s =
     (case page_write_attempt t p s of
        (Ok Granted, s') \<Rightarrow> (Ok (), s')
      | (Ok Retry, s') \<Rightarrow> acquire_page_write t p s'
      | (Err e, s') \<Rightarrow> (Err e, s')
      | (Panic q, s') \<Rightarrow> (Panic q, s'))"
  by pat_completeness auto

termination acquire_page_write
  by (relation "measure (\<lambda>(t, p, s). card (other_waiters t s))")
    (simp_all, metis other_waiters_decreases page_write_attempt_Retry)

function check_write_conflicts :: "txn_id \<Rightarrow> string \<Rightarrow> (string \<times> Value list) list \<Rightarrow> unit tm_oper" where
  "check_write_conflicts t table keys s =
     (case predicate_write_attempt t table keys s of
        (Ok Granted, s') \<Rightarrow> (Ok (), s')
      | (Ok Retry, s') \<Rightarrow> check_write_conflicts t table keys s'
      | (Err e, s') \<Rightarrow> (Err e, s')
      | (Panic q, s') \<Rightarrow> (Panic q, s'))"
  by pat_completeness auto

termination check_write_conflicts
  by (relation "measure (\<lambda>(t, table, keys, s). card (other_waiters t s))")
    (simp_all, metis other_waiters_decreases predicate_write_attempt_Retry)

declare acquire_table_lock.simps [simp del] acquire_page_write.simps [simp del]
  check_write_conflicts.simps [simp del]

section \<open>The public lock operations\<close>

definition acquire_predicate_lock :: "txn_id \<Rightarrow> predicate_lock \<Rightarrow> unit tm_oper" where
  "acquire_predicate_lock t lock = sbind (sget (tm_isolation_level t)) (\<lambda>level.
     if level \<noteq> Serializable then sret ()
     else smodify (\<lambda>s. if lock \<in> set (predicate_locks s) then s
       else s\<lparr>predicate_locks := predicate_locks s @ [lock]\<rparr>))"

definition acquire_table_intention_read :: "txn_id \<Rightarrow> string \<Rightarrow> unit tm_oper" where
  "acquire_table_intention_read t table = acquire_table_lock t table IntentionRead"

definition acquire_table_intention_write :: "txn_id \<Rightarrow> string \<Rightarrow> unit tm_oper" where
  "acquire_table_intention_write t table = acquire_table_lock t table IntentionWrite"

definition acquire_table_exclusive :: "txn_id \<Rightarrow> string \<Rightarrow> unit tm_oper" where
  "acquire_table_exclusive t table = acquire_table_lock t table Exclusive"

definition acquire_table_read_lock :: "txn_id \<Rightarrow> string \<Rightarrow> unit tm_oper" where
  "acquire_table_read_lock t table = sbind (acquire_table_intention_read t table) (\<lambda>_.
     acquire_predicate_lock t
       \<lparr>pl_txn_id = t, pl_table = table, pl_index = None, pl_kind = TableLockKind\<rparr>)"

definition acquire_record_lock :: "txn_id \<Rightarrow> string \<Rightarrow> string \<Rightarrow> Value list \<Rightarrow> unit tm_oper" where
  "acquire_record_lock t table index key = acquire_predicate_lock t
     \<lparr>pl_txn_id = t, pl_table = table, pl_index = Some index, pl_kind = RecordLock key\<rparr>"

definition acquire_exact_key_lock :: "txn_id \<Rightarrow> string \<Rightarrow> string \<Rightarrow> Value list \<Rightarrow> unit tm_oper" where
  "acquire_exact_key_lock t table index key = acquire_record_lock t table index key"

definition acquire_gap_lock ::
    "txn_id \<Rightarrow> string \<Rightarrow> string \<Rightarrow> Value list \<Rightarrow> bound option \<Rightarrow> bound option \<Rightarrow> unit tm_oper" where
  "acquire_gap_lock t table index pre lower upper = acquire_predicate_lock t
     \<lparr>pl_txn_id = t, pl_table = table, pl_index = Some index, pl_kind = Gap pre lower upper\<rparr>"

definition acquire_next_key_lock ::
    "txn_id \<Rightarrow> string \<Rightarrow> string \<Rightarrow> Value list \<Rightarrow> bound option \<Rightarrow> bound option \<Rightarrow> unit tm_oper" where
  "acquire_next_key_lock t table index pre lower upper = acquire_predicate_lock t
     \<lparr>pl_txn_id = t, pl_table = table, pl_index = Some index, pl_kind = NextKey pre lower upper\<rparr>"

definition acquire_range_lock ::
    "txn_id \<Rightarrow> string \<Rightarrow> string \<Rightarrow> Value list \<Rightarrow> bound option \<Rightarrow> bound option \<Rightarrow> unit tm_oper" where
  "acquire_range_lock t table index pre lower upper = acquire_next_key_lock t table index pre lower upper"

definition acquire_prefix_lock :: "txn_id \<Rightarrow> string \<Rightarrow> string \<Rightarrow> Value list \<Rightarrow> unit tm_oper" where
  "acquire_prefix_lock t table index pre = acquire_next_key_lock t table index pre None None"

end
