(* ===== verification/V2_Deadlock.thy ===== *)
theory V2_Deadlock
  imports V2_Locks
begin

text \<open>
  The invariants of the lock manager. A state is well formed when every holder, waiter and blocker
  is a registered transaction and \<open>waits_for\<close> is the union of the three kinds of wait edges; it is
  safe when no two active transactions hold conflicting table locks and the wait-for graph has no
  cycle. What the three kinds of requests (table locks, page writes, predicate writes) have in
  common is stated once as a locale, with the laws of an attempt as its assumptions; each
  \<open>acquire\<close> operation is an interpretation of it.
\<close>

section \<open>Well-formed states\<close>

definition registered :: "txn_manager \<Rightarrow> txn_id set" where
  "registered s = dom (map_of (txns s))"

definition active :: "txn_manager \<Rightarrow> txn_id \<Rightarrow> bool" where
  "active s t \<longleftrightarrow> tm_txn_status t s = Ok Active"

definition queues_in :: "txn_id set \<Rightarrow> ('k, txn_id list) hmap \<Rightarrow> bool" where
  "queues_in R m \<longleftrightarrow> (\<forall>k q. map_of m k = Some q \<longrightarrow> set q \<subseteq> R)"

definition holders_ok :: "txn_manager \<Rightarrow> bool" where
  "holders_ok s \<longleftrightarrow> hm_wf (txns s) \<and> hm_wf (page_write_owners s) \<and>
     tl_txn_id ` set (table_locks s) \<subseteq> registered s \<and>
     pl_txn_id ` set (predicate_locks s) \<subseteq> registered s \<and>
     ran (map_of (page_write_owners s)) \<subseteq> registered s \<and>
     queues_in (registered s) (table_wait_queues s) \<and>
     queues_in (registered s) (page_write_wait_queues s) \<and>
     queues_in (registered s) (predicate_write_wait_queues s)"

definition graph_ok :: "txn_manager \<Rightarrow> bool" where
  "graph_ok s \<longleftrightarrow> (\<forall>u. waits_set s u = waits_on s u \<and> waits_on s u \<subseteq> registered s \<and>
     (waits_on s u \<noteq> {} \<longrightarrow> u \<in> registered s))"

definition lock_wf :: "txn_manager \<Rightarrow> bool" where
  "lock_wf s \<longleftrightarrow> holders_ok s \<and> graph_ok s"

text \<open>The safety invariants.\<close>

definition locks_compatible :: "txn_manager \<Rightarrow> bool" where
  "locks_compatible s \<longleftrightarrow> (\<forall>l \<in> set (table_locks s). \<forall>l' \<in> set (table_locks s).
     tl_table l = tl_table l' \<and> tl_txn_id l \<noteq> tl_txn_id l' \<and>
     active s (tl_txn_id l) \<and> active s (tl_txn_id l') \<longrightarrow>
     \<not> table_lock_modes_conflict (tl_mode l) (tl_mode l'))"

definition no_deadlock :: "txn_manager \<Rightarrow> bool" where
  "no_deadlock s \<longleftrightarrow> acyclic (wait_edges (waits_for s))"

definition lock_inv :: "txn_manager \<Rightarrow> bool" where
  "lock_inv s \<longleftrightarrow> lock_wf s \<and> locks_compatible s \<and> no_deadlock s"

text \<open>What a transaction holds.\<close>

definition holdings ::
    "txn_manager \<Rightarrow> txn_id \<Rightarrow> table_lock list \<times> predicate_lock list \<times> page_id set" where
  "holdings s u = (filter (\<lambda>l. tl_txn_id l = u) (table_locks s),
     filter (\<lambda>l. pl_txn_id l = u) (predicate_locks s),
     {p. map_of (page_write_owners s) p = Some u})"

lemma active_registered: "active s t \<Longrightarrow> t \<in> registered s"
  by (auto simp: active_def tm_txn_status_def tm_get_def rbind_eq_Ok registered_def)

lemma active_iff: "active s t \<longleftrightarrow> (\<exists>x. map_of (txns s) t = Some x \<and> tx_status x = Active)"
  by (auto simp: active_def tm_txn_status_def tm_get_def rbind_eq_Ok)

lemma registered_cong: "txns s' = txns s \<Longrightarrow> registered s' = registered s"
  by (simp add: registered_def)

lemma active_cong: "txns s' = txns s \<Longrightarrow> active s' t = active s t"
  by (simp add: active_iff)

lemma modes_conflict_sym: "table_lock_modes_conflict a b = table_lock_modes_conflict b a"
  by (cases a; cases b) simp_all

lemma queues_in_push: "queues_in R m \<Longrightarrow> t \<in> R \<Longrightarrow> queues_in R (queue_push k t m)"
  by (cases "map_of m k") (auto simp: queues_in_def queue_push_def)

lemma queues_in_pop: "queues_in R m \<Longrightarrow> queues_in R (queue_pop k t m)"
  by (fastforce simp: queues_in_def queue_pop_def Let_def split: option.splits list.splits if_splits)

lemma queues_in_retain_key: "queues_in R m \<Longrightarrow> queues_in R (queue_retain_key t k m)"
  by (fastforce simp: queues_in_def queue_retain_key_def Let_def split: option.splits if_splits)

lemma queues_in_drop: "queues_in R m \<Longrightarrow> queues_in R (queue_drop t m)"
proof -
  have "queues_in R m \<Longrightarrow> queues_in R (fold (queue_retain_key t) ks m)" for ks
    by (induction ks arbitrary: m) (simp_all add: queues_in_retain_key)
  then show "queues_in R m \<Longrightarrow> queues_in R (queue_drop t m)" by (simp add: queue_drop_def)
qed

lemma queue_front_in: "queues_in R m \<Longrightarrow> queue_front k m = Some t \<Longrightarrow> t \<in> R"
  by (fastforce simp: queues_in_def queue_front_def split: option.splits list.splits)

section \<open>Aborting a victim\<close>

lemma registered_release [simp]: "registered (release_resources v s) = registered s"
  by (simp add: registered_def)

lemma registered_update_txn [simp]: "registered (update_txn t f s) = registered s"
  by (auto simp: registered_def update_txn_def)

lemma registered_kill [simp]: "registered (kill v m s) = registered s"
  by (simp add: kill_def)

lemma active_kill: "active (kill v m s) u \<longleftrightarrow> u \<noteq> v \<and> active s u"
  by (auto simp: kill_def active_iff update_txn_def tm_txn_status_def tm_get_def)

lemma holders_ok_release: "holders_ok s \<Longrightarrow> holders_ok (release_resources v s)"
  unfolding holders_ok_def release_fields release_txns registered_release
  by (auto intro: queues_in_drop simp: ran_def hm_get_retain split: option.splits if_splits)

lemma holders_ok_update_txn: "holders_ok s \<Longrightarrow> holders_ok (update_txn t f s)"
  unfolding holders_ok_def update_txn_graph registered_update_txn by (simp add: update_txn_def)

lemma holders_ok_kill: "holders_ok s \<Longrightarrow> holders_ok (kill v m s)"
  by (simp add: kill_def holders_ok_release holders_ok_update_txn)

lemma registered_iff: "u \<in> registered s \<longleftrightarrow> u \<in> fst ` set (txns s)"
  by (simp add: registered_def dom_map_of_conv_image_fst)

lemma graph_release:
  assumes "graph_ok s"
  shows "waits_on (release_resources v s) u = (if u = v then {} else waits_on s u - {v})"
    and "waits_set (release_resources v s) u = (if u = v then {} else waits_on s u - {v})"
proof -
  have "u \<notin> registered s \<Longrightarrow> waits_on s u = {} \<and> waits_set s u = {}"
    using assms by (auto simp: graph_ok_def)
  then show "waits_on (release_resources v s) u = (if u = v then {} else waits_on s u - {v})"
    and "waits_set (release_resources v s) u = (if u = v then {} else waits_on s u - {v})"
    by (auto simp: waits_on_release waits_set_release registered_iff)
qed

lemma graph_ok_release: "graph_ok s \<Longrightarrow> graph_ok (release_resources v s)"
  by (subst graph_ok_def) (auto simp: graph_release, auto simp: graph_ok_def)

lemma graph_ok_update_txn [simp]: "graph_ok (update_txn t f s) = graph_ok s"
  by (simp add: graph_ok_def)

lemma graph_kill:
  assumes "graph_ok s"
  shows "waits_on (kill v m s) u = (if u = v then {} else waits_on s u - {v})"
    and "waits_set (kill v m s) u = (if u = v then {} else waits_on s u - {v})"
  using assms by (simp_all add: kill_def graph_release)

lemma graph_ok_kill: "graph_ok s \<Longrightarrow> graph_ok (kill v m s)"
  by (simp add: kill_def graph_ok_release)

lemma lock_wf_kill: "lock_wf s \<Longrightarrow> lock_wf (kill v m s)"
  by (simp add: lock_wf_def holders_ok_kill graph_ok_kill)

lemma locks_compatible_subset:
  assumes "locks_compatible s" "set (table_locks s') \<subseteq> set (table_locks s)"
    "\<And>u. active s' u \<Longrightarrow> active s u"
  shows "locks_compatible s'"
  using assms unfolding locks_compatible_def by blast

lemma table_locks_kill [simp]: "table_locks (kill v m s) = filter (\<lambda>l. tl_txn_id l \<noteq> v) (table_locks s)"
  by (simp add: kill_def)

text \<open>
  A step by one transaction spares the others when it leaves each one's status and holdings alone,
  or has aborted it and released everything it held; it registers and removes nobody.
\<close>

definition spares :: "txn_id \<Rightarrow> txn_manager \<Rightarrow> txn_manager \<Rightarrow> bool" where
  "spares t s s' \<longleftrightarrow> registered s' = registered s \<and> next_txn_id s' = next_txn_id s \<and>
     (\<forall>u. map_option tx_id (map_of (txns s') u) = map_option tx_id (map_of (txns s) u)) \<and> (\<forall>u. u \<noteq> t \<longrightarrow>
     holdings s' u = holdings s u \<and> active s' u = active s u \<or>
     \<not> active s' u \<and> holdings s' u = ([], [], {}))"

lemma spares_refl [simp]: "spares t s s"
  by (simp add: spares_def)

lemma spares_trans: "spares t s s' \<Longrightarrow> spares t s' s'' \<Longrightarrow> spares t s s''"
  unfolding spares_def by metis

lemma tx_id_kill [simp]: "map_option tx_id (map_of (txns (kill v m s)) u) = map_option tx_id (map_of (txns s) u)"
  by (auto simp: kill_def update_txn_def option.map_comp comp_def)

lemma next_txn_id_kill [simp]: "next_txn_id (kill v m s) = next_txn_id s"
  by (simp add: kill_def)

lemma holdings_kill:
  assumes "holders_ok s"
  shows "holdings (kill v m s) u = (if u = v then ([], [], {}) else holdings s u)"
proof -
  have "hm_wf (page_write_owners s)" using assms by (simp add: holders_ok_def)
  then have "map_of (page_write_owners (kill v m s)) p = Some u \<longleftrightarrow>
      u \<noteq> v \<and> map_of (page_write_owners s) p = Some u" for p
    by (auto simp: kill_def hm_get_retain split: option.splits)
  then have "{p. map_of (page_write_owners (kill v m s)) p = Some u} =
      (if u = v then {} else {p. map_of (page_write_owners s) p = Some u})" by auto
  moreover have "filter (\<lambda>l. tl_txn_id l = u) (table_locks (kill v m s)) =
      (if u = v then [] else filter (\<lambda>l. tl_txn_id l = u) (table_locks s))"
    by (auto simp: kill_def intro: filter_cong)
  moreover have "filter (\<lambda>l. pl_txn_id l = u) (predicate_locks (kill v m s)) =
      (if u = v then [] else filter (\<lambda>l. pl_txn_id l = u) (predicate_locks s))"
    by (auto simp: kill_def intro: filter_cong)
  ultimately show ?thesis by (simp add: holdings_def)
qed

lemma spares_kill: "holders_ok s \<Longrightarrow> spares t s (kill v m s)"
  by (auto simp: spares_def holdings_kill active_kill)

lemma holdings_cong:
  "table_locks s' = table_locks s \<Longrightarrow> predicate_locks s' = predicate_locks s \<Longrightarrow>
     page_write_owners s' = page_write_owners s \<Longrightarrow> holdings s' u = holdings s u"
  by (simp add: holdings_def)

lemma locks_compatible_kill: "locks_compatible s \<Longrightarrow> locks_compatible (kill v m s)"
  by (erule locks_compatible_subset) (auto simp: active_kill)

section \<open>Adding wait edges\<close>

lemma trancl_Un_from:
  assumes "(x, y) \<in> (E \<union> {t} \<times> B)\<^sup>+"
  shows "(x, y) \<in> E\<^sup>+ \<or> (\<exists>b \<in> B. (x, t) \<in> (E \<union> {t} \<times> B)\<^sup>* \<and> (b, y) \<in> (E \<union> {t} \<times> B)\<^sup>*)"
  using assms
proof (induction rule: trancl_induct)
  case (base y)
  then show ?case by auto
next
  case (step y z)
  from step.hyps(1) have reach: "(x, y) \<in> (E \<union> {t} \<times> B)\<^sup>*" by (rule trancl_into_rtrancl)
  show ?case
  proof (cases "(y, z) \<in> E")
    case True
    from step.IH show ?thesis
    proof
      assume "(x, y) \<in> E\<^sup>+"
      with True show ?thesis by (auto intro: trancl_into_trancl)
    next
      assume "\<exists>b \<in> B. (x, t) \<in> (E \<union> {t} \<times> B)\<^sup>* \<and> (b, y) \<in> (E \<union> {t} \<times> B)\<^sup>*"
      with step.hyps(2) show ?thesis by (meson rtrancl.rtrancl_into_rtrancl)
    qed
  next
    case False
    with step.hyps(2) have "y = t" "z \<in> B" by auto
    with reach show ?thesis by auto
  qed
qed

lemma acyclic_Un_from:
  assumes "acyclic E" "\<And>b. b \<in> B \<Longrightarrow> (b, t) \<notin> (E \<union> {t} \<times> B)\<^sup>*"
  shows "acyclic (E \<union> {t} \<times> B)"
proof (rule acyclicI, intro allI notI)
  fix x
  assume "(x, x) \<in> (E \<union> {t} \<times> B)\<^sup>+"
  from trancl_Un_from [OF this] assms show False
    by (auto simp: acyclic_def dest: rtrancl_trans)
qed

text \<open>
  A kind of wait edges: \<open>set_edges\<close> replaces a transaction's edges of this kind, \<open>rest\<close> gives its
  edges of the other kinds. The graph without the transaction's edges of this kind stays acyclic
  while a request is tried; new edges are harmless when no blocker waits for the requester.
\<close>

locale wait_kind =
  fixes set_edges :: "txn_id \<Rightarrow> txn_id btset \<Rightarrow> txn_manager \<Rightarrow> txn_manager"
    and rest :: "txn_manager \<Rightarrow> txn_id \<Rightarrow> txn_id set"
  assumes waits_set_set_edges: "waits_set (set_edges t bs s) u = (if u = t then set bs \<union> rest s t else waits_set s u)"
    and waits_on_set_edges: "waits_on (set_edges t bs s) u = (if u = t then set bs \<union> rest s t else waits_on s u)"
    and rest_set_edges: "rest (set_edges t bs s) u = rest s u"
    and rest_kill: "rest (kill v m s) u \<subseteq> rest s u"
    and rest_waits_on: "rest s u \<subseteq> waits_on s u"
    and set_edges_fields: "txns (set_edges t bs s) = txns s"
      "next_txn_id (set_edges t bs s) = next_txn_id s"
      "table_locks (set_edges t bs s) = table_locks s"
      "predicate_locks (set_edges t bs s) = predicate_locks s"
      "page_write_owners (set_edges t bs s) = page_write_owners s"
      "table_wait_queues (set_edges t bs s) = table_wait_queues s"
      "page_write_wait_queues (set_edges t bs s) = page_write_wait_queues s"
      "predicate_write_wait_queues (set_edges t bs s) = predicate_write_wait_queues s"
begin

definition base_edges :: "txn_id \<Rightarrow> txn_manager \<Rightarrow> (txn_id \<times> txn_id) set" where
  "base_edges t s = {(a, b). b \<in> (if a = t then rest s t else waits_set s a)}"

lemma base_edges_subset: "graph_ok s \<Longrightarrow> base_edges t s \<subseteq> wait_edges (waits_for s)"
  using rest_waits_on [of s t]
  by (auto simp: base_edges_def wait_edges_def graph_ok_def split: if_splits)

lemma base_edges_set_edges: "base_edges t (set_edges t bs s) = base_edges t s"
  by (auto simp: base_edges_def rest_set_edges waits_set_set_edges split: if_splits)

lemma base_edges_kill: "graph_ok s \<Longrightarrow> base_edges t (kill v m s) \<subseteq> base_edges t s"
  using rest_kill [of v m s t]
  by (auto simp: base_edges_def graph_kill split: if_splits) (auto simp: graph_ok_def)

lemma wait_edges_set_edges:
  "wait_edges (waits_for (set_edges t bs s)) = base_edges t s \<union> {t} \<times> set bs"
  by (auto simp: wait_edges_def base_edges_def waits_set_set_edges split: if_splits)

lemma wait_edges_kill_self: "graph_ok s \<Longrightarrow> wait_edges (waits_for (kill t m s)) \<subseteq> base_edges t s"
  by (auto simp: wait_edges_def base_edges_def graph_kill graph_ok_def split: if_splits)

lemma set_edges_acyclic:
  assumes "acyclic (base_edges t s)"
    and "\<And>b. b \<in> set bs \<Longrightarrow> (b, t) \<notin> (wait_edges (waits_for (set_edges t bs s)))\<^sup>*"
  shows "no_deadlock (set_edges t bs s)"
  using acyclic_Un_from [OF assms(1)] assms(2) by (simp add: no_deadlock_def wait_edges_set_edges)

lemma holders_ok_set_edges: "holders_ok (set_edges t bs s) = holders_ok s"
  by (simp add: holders_ok_def set_edges_fields registered_cong [OF set_edges_fields(1)])

lemma graph_ok_set_edges:
  assumes "graph_ok s" "set bs \<subseteq> registered s" "t \<in> registered s"
  shows "graph_ok (set_edges t bs s)"
proof -
  have "rest s t \<subseteq> registered s"
    using assms(1) rest_waits_on [of s t] unfolding graph_ok_def by blast
  with assms show ?thesis
    by (auto simp: graph_ok_def waits_set_set_edges waits_on_set_edges registered_cong [OF set_edges_fields(1)])
qed

end

text \<open>
  A lock request of transaction \<open>t\<close>: an attempt of an active transaction either grants, or queues
  the transaction behind registered blockers and looks for a deadlock.
\<close>

locale lock_request = wait_kind set_edges rest
  for set_edges :: "txn_id \<Rightarrow> txn_id btset \<Rightarrow> txn_manager \<Rightarrow> txn_manager"
    and rest :: "txn_manager \<Rightarrow> txn_id \<Rightarrow> txn_id set" +
  fixes t :: txn_id
    and enq :: "txn_manager \<Rightarrow> txn_manager"
    and grant :: "txn_manager \<Rightarrow> txn_manager"
    and attempt_once :: "attempt tm_oper"
    and acquire :: "unit tm_oper"
  assumes acquire_eq: "acquire s = (case attempt_once s of
        (Ok Granted, s') \<Rightarrow> (Ok (), s')
      | (Ok Retry, s') \<Rightarrow> acquire s'
      | (Err e, s') \<Rightarrow> (Err e, s')
      | (Panic q, s') \<Rightarrow> (Panic q, s'))"
    and attempt_active: "active s t \<Longrightarrow> lock_wf s \<Longrightarrow> locks_compatible s \<Longrightarrow>
      attempt_once s = (Ok Granted, grant s) \<and> locks_compatible (grant s) \<or>
      (\<exists>ctx bs w. attempt_once s = wait_or_retry t ctx bs w (set_edges t bs (enq s)) \<and>
         set bs \<subseteq> registered s)"
    and attempt_inactive: "\<not> active s t \<Longrightarrow> lock_wf s \<Longrightarrow> locks_compatible s \<Longrightarrow>
      (\<exists>e. attempt_once s = (Err e, s)) \<or>
      attempt_once s = (Ok Granted, grant s) \<and> t \<in> registered s \<and> locks_compatible (grant s)"
    and enq_graph: "waits_set (enq s) u = waits_set s u" "waits_on (enq s) u = waits_on s u"
      "rest (enq s) u = rest s u"
    and enq_fields: "txns (enq s) = txns s" "next_txn_id (enq s) = next_txn_id s" "table_locks (enq s) = table_locks s"
      "predicate_locks (enq s) = predicate_locks s" "page_write_owners (enq s) = page_write_owners s"
    and enq_ok: "holders_ok s \<Longrightarrow> t \<in> registered s \<Longrightarrow> holders_ok (enq s)"
    and grant_graph: "waits_set (grant s) u = (if u = t then rest s t else waits_set s u)"
      "waits_on (grant s) u = (if u = t then rest s t else waits_on s u)"
    and grant_txns: "txns (grant s) = txns s" "next_txn_id (grant s) = next_txn_id s"
    and grant_ok: "holders_ok s \<Longrightarrow> t \<in> registered s \<Longrightarrow> holders_ok (grant s)"
    and grant_holdings: "attempt_once s = (Ok Granted, grant s) \<Longrightarrow> u \<noteq> t \<Longrightarrow>
      holdings (grant s) u = holdings s u"
begin

abbreviation parked :: "txn_id btset \<Rightarrow> txn_manager \<Rightarrow> txn_manager" where
  "parked bs s \<equiv> set_edges t bs (enq s)"

lemma registered_parked [simp]: "registered (parked bs s) = registered s"
  by (simp add: registered_def set_edges_fields enq_fields)

lemma active_parked [simp]: "active (parked bs s) u = active s u"
  by (simp add: active_iff set_edges_fields enq_fields)

lemma graph_ok_enq: "graph_ok (enq s) = graph_ok s"
  by (simp add: graph_ok_def enq_graph registered_cong [OF enq_fields(1)])

lemma lock_wf_parked:
  assumes "lock_wf s" "set bs \<subseteq> registered s" "t \<in> registered s"
  shows "lock_wf (parked bs s)"
  using assms
  by (simp add: lock_wf_def holders_ok_set_edges enq_ok graph_ok_set_edges graph_ok_enq
      registered_cong [OF enq_fields(1)])

lemma locks_compatible_parked: "locks_compatible (parked bs s) = locks_compatible s"
  by (simp add: locks_compatible_def set_edges_fields enq_fields)

lemma base_edges_parked: "base_edges t (parked bs s) = base_edges t s"
  unfolding base_edges_set_edges by (auto simp: base_edges_def enq_graph split: if_splits)

lemma spares_parked: "spares t s (parked bs s)"
proof -
  have "holdings (parked bs s) u = holdings s u" for u
    by (rule holdings_cong) (simp_all add: set_edges_fields enq_fields)
  then show ?thesis by (simp add: spares_def set_edges_fields enq_fields)
qed

lemma lock_inv_grant:
  assumes "lock_wf s" "locks_compatible (grant s)" "t \<in> registered s" "acyclic (base_edges t s)"
  shows "lock_inv (grant s)"
proof -
  have rest: "rest s t \<subseteq> registered s"
    using assms(1) rest_waits_on [of s t] unfolding lock_wf_def graph_ok_def by blast
  have "wait_edges (waits_for (grant s)) = base_edges t s"
    by (auto simp: wait_edges_def base_edges_def grant_graph)
  moreover have "graph_ok (grant s)"
    using assms(1,3) rest
    by (auto simp: lock_wf_def graph_ok_def grant_graph registered_cong [OF grant_txns(1)])
  ultimately show ?thesis
    using assms by (simp add: lock_inv_def lock_wf_def grant_ok no_deadlock_def)
qed

lemma spares_grant: "attempt_once s = (Ok Granted, grant s) \<Longrightarrow> spares t s (grant s)"
  by (simp add: spares_def grant_holdings grant_txns active_cong [OF grant_txns(1)]
      registered_cong [OF grant_txns(1)])

text \<open>The cycle found by the search consists of registered transactions, so no lookup panics.\<close>

lemma cycle_registered:
  assumes "graph_ok s" "t \<in> registered s" "b \<in> registered s" "wait_path (waits_for s) b t = Some path"
    "x \<in> insert t (set path)"
  shows "x \<in> registered s"
proof -
  have "walk (waits_for s) t path" "hd path = b"
    using wait_path_walk(1) assms(4) by (auto simp: wait_path_def)
  then have "x = t \<or> x = b \<or> (\<exists>a. x \<in> waits_set s a)"
    using walk_members assms(5) by blast
  with assms(1-3) show ?thesis by (auto simp: graph_ok_def)
qed

text \<open>The result of a request, whatever its outcome.\<close>

definition sound_result :: "txn_manager \<Rightarrow> unit result \<times> txn_manager \<Rightarrow> bool" where
  "sound_result s rs \<longleftrightarrow> lock_inv (snd rs) \<and> spares t s (snd rs) \<and> (\<forall>q. fst rs \<noteq> Panic q)"

lemma parked_outcome [consumes 5, case_names fails retry]:
  assumes "active s t" "lock_wf s" "locks_compatible s" "acyclic (base_edges t s)"
    "set bs \<subseteq> registered s"
  obtains (fails) e s' where "wait_or_retry t ctx bs w (parked bs s) = (Err e, s')"
      "lock_inv s'" "spares t s s'"
  | (retry) s' where "wait_or_retry t ctx bs w (parked bs s) = (Ok Retry, s')"
      "active s' t" "lock_wf s'" "locks_compatible s'" "acyclic (base_edges t s')" "spares t s s'"
proof -
  let ?p = "parked bs s"
  have t: "t \<in> registered s" using assms(1) by (rule active_registered)
  have wf: "lock_wf ?p" using lock_wf_parked [OF assms(2,5) t] .
  then have g: "graph_ok ?p" and h: "holders_ok ?p" by (simp_all add: lock_wf_def)
  have compat: "locks_compatible ?p" using assms(3) by (simp add: locks_compatible_parked)
  have base: "acyclic (base_edges t ?p)" using assms(4) by (simp add: base_edges_parked)
  have sp: "spares t s (kill v m ?p)" for v m
    using spares_trans [OF spares_parked spares_kill [OF h]] .
  show thesis
  proof (cases rule: deadlock_loop_cases [of t ctx bs ?p])
    case waiting
    have "acyclic (base_edges t (enq s))" using base by (simp add: base_edges_set_edges)
    then have "no_deadlock ?p" using waiting(2) by (rule set_edges_acyclic)
    with wf compat show thesis
      by (intro fails [of w ?p]) (simp_all add: wait_or_retry_def sbind_def waiting(1) lock_inv_def spares_parked)
  next
    case (self m)
    have "no_deadlock (kill t m ?p)"
      unfolding no_deadlock_def using base wait_edges_kill_self [OF g] by (rule acyclic_subset)
    with wf compat sp show thesis
      by (intro fails [of "Txn m" "kill t m ?p"])
        (simp_all add: wait_or_retry_def sbind_def self(1) lock_inv_def lock_wf_kill locks_compatible_kill)
  next
    case (other v m)
    have "acyclic (base_edges t (kill v m ?p))"
      using base base_edges_kill [OF g] by (rule acyclic_subset)
    with wf compat sp other assms(1) show thesis
      by (intro retry [of "kill v m ?p"])
        (simp_all add: wait_or_retry_def sbind_def lock_wf_kill locks_compatible_kill active_kill)
  next
    case (panic q b path x)
    then have "x \<in> registered ?p"
      using cycle_registered [OF g _ _ panic(3,4)] assms(5) t by auto
    with panic(5) show thesis by (auto simp: registered_def)
  qed
qed

lemma acquire_active:
  assumes "active s t" "lock_wf s" "locks_compatible s" "acyclic (base_edges t s)"
  shows "sound_result s (acquire s)"
  using assms
proof (induction "card (other_waiters t s)" arbitrary: s rule: less_induct)
  case less
  from attempt_active [OF less.prems(1-3)] show ?case
  proof (elim disjE exE conjE)
    assume g: "attempt_once s = (Ok Granted, grant s)" "locks_compatible (grant s)"
    then show ?thesis
      using less.prems active_registered lock_inv_grant
      by (simp add: acquire_eq [of s] sound_result_def spares_grant)
  next
    fix ctx bs w
    assume a: "attempt_once s = wait_or_retry t ctx bs w (parked bs s)" "set bs \<subseteq> registered s"
    from less.prems a(2) show ?thesis
    proof (cases rule: parked_outcome [where ctx = ctx and w = w])
      case (fails e s')
      then show ?thesis by (simp add: acquire_eq [of s] a(1) sound_result_def)
    next
      case (retry s')
      have "other_waiters t (parked bs s) = other_waiters t s"
        by (auto simp: other_waiters_def waits_on_set_edges waits_set_set_edges enq_graph)
      with wait_or_retry_Retry [OF retry(1)] have "card (other_waiters t s') < card (other_waiters t s)"
        by (intro other_waiters_decreases) simp
      from less.hyps [OF this retry(2-5)] show ?thesis
        using retry spares_trans by (auto simp: acquire_eq [of s] a(1) sound_result_def)
    qed
  qed
qed

lemma acquire_sound:
  assumes "lock_inv s"
  shows "sound_result s (acquire s)"
proof -
  have inv: "lock_wf s" "locks_compatible s" "no_deadlock s"
    using assms by (simp_all add: lock_inv_def)
  then have base: "acyclic (base_edges t s)"
    using acyclic_subset [OF _ base_edges_subset] by (auto simp: no_deadlock_def lock_wf_def)
  show ?thesis
  proof (cases "active s t")
    case True
    with inv base show ?thesis by (intro acquire_active)
  next
    case False
    from attempt_inactive [OF this inv(1,2)] show ?thesis
      using assms inv base lock_inv_grant
      by (auto simp: acquire_eq [of s] sound_result_def spares_grant)
  qed
qed

end

section \<open>The three kinds of wait edges\<close>

definition table_rest :: "txn_manager \<Rightarrow> txn_id \<Rightarrow> txn_id set" where
  "table_rest s t = set (successors (page_wait_blockers s) t) \<union> set (successors (predicate_wait_blockers s) t)"

definition page_rest :: "txn_manager \<Rightarrow> txn_id \<Rightarrow> txn_id set" where
  "page_rest s t = set (successors (table_wait_blockers s) t) \<union> set (successors (predicate_wait_blockers s) t)"

definition predicate_rest :: "txn_manager \<Rightarrow> txn_id \<Rightarrow> txn_id set" where
  "predicate_rest s t = set (successors (table_wait_blockers s) t) \<union> set (successors (page_wait_blockers s) t)"

text \<open>No kind of edges grows when a transaction is aborted.\<close>

lemma fold_drop_blockers:
  "set (successors (table_wait_blockers (fold (drop_dependency b) ts s)) u) \<subseteq> set (successors (table_wait_blockers s) u)"
  "set (successors (page_wait_blockers (fold (drop_dependency b) ts s)) u) \<subseteq> set (successors (page_wait_blockers s) u)"
  "set (successors (predicate_wait_blockers (fold (drop_dependency b) ts s)) u) \<subseteq> set (successors (predicate_wait_blockers s) u)"
proof (induction ts arbitrary: s)
  case (Cons t ts)
  have *: "set (successors (table_wait_blockers (drop_dependency b t s)) u) \<subseteq> set (successors (table_wait_blockers s) u)"
    "set (successors (page_wait_blockers (drop_dependency b t s)) u) \<subseteq> set (successors (page_wait_blockers s) u)"
    "set (successors (predicate_wait_blockers (drop_dependency b t s)) u) \<subseteq> set (successors (predicate_wait_blockers s) u)"
    for s
    by (auto simp: drop_dependency_def split: if_splits)
  { case 1 then show ?case using order_trans [OF Cons(1) [of "drop_dependency b t s"] *(1)] by simp }
  { case 2 then show ?case using order_trans [OF Cons(2) [of "drop_dependency b t s"] *(2)] by simp }
  { case 3 then show ?case using order_trans [OF Cons(3) [of "drop_dependency b t s"] *(3)] by simp }
qed simp_all

text \<open>The state of \<open>release_resources\<close> before the loop over the other transactions.\<close>

definition stripped :: "txn_id \<Rightarrow> txn_manager \<Rightarrow> txn_manager" where
  "stripped t s = s\<lparr>
     table_locks := filter (\<lambda>l. tl_txn_id l \<noteq> t) (table_locks s),
     page_write_owners := hm_retain (\<lambda>_ owner. owner \<noteq> t) (page_write_owners s),
     table_wait_queues := queue_drop t (table_wait_queues s),
     page_write_wait_queues := queue_drop t (page_write_wait_queues s),
     predicate_write_wait_queues := queue_drop t (predicate_write_wait_queues s),
     predicate_locks := filter (\<lambda>l. pl_txn_id l \<noteq> t) (predicate_locks s),
     table_wait_blockers := hm_remove t (table_wait_blockers s),
     page_wait_blockers := hm_remove t (page_wait_blockers s),
     predicate_wait_blockers := hm_remove t (predicate_wait_blockers s),
     waits_for := hm_remove t (waits_for s)\<rparr>"

lemma release_stripped:
  "release_resources t s = bump_lock_wait_epoch (remove_wait_dependency_on t (stripped t s))"
  by (simp add: release_resources_def Let_def stripped_def remove_txn_from_table_wait_queues_def
      remove_txn_from_wait_queues_def remove_txn_from_predicate_wait_queues_def)

lemma stripped_blockers:
  "set (successors (table_wait_blockers (stripped t s)) u) \<subseteq> set (successors (table_wait_blockers s) u)"
  "set (successors (page_wait_blockers (stripped t s)) u) \<subseteq> set (successors (page_wait_blockers s) u)"
  "set (successors (predicate_wait_blockers (stripped t s)) u) \<subseteq> set (successors (predicate_wait_blockers s) u)"
  by (simp_all add: stripped_def)

lemma bump_blockers [simp]:
  "table_wait_blockers (bump_lock_wait_epoch s) = table_wait_blockers s"
  "page_wait_blockers (bump_lock_wait_epoch s) = page_wait_blockers s"
  "predicate_wait_blockers (bump_lock_wait_epoch s) = predicate_wait_blockers s"
  by (simp_all add: bump_lock_wait_epoch_def)

lemma release_blockers:
  "set (successors (table_wait_blockers (release_resources v s)) u) \<subseteq> set (successors (table_wait_blockers s) u)"
  "set (successors (page_wait_blockers (release_resources v s)) u) \<subseteq> set (successors (page_wait_blockers s) u)"
  "set (successors (predicate_wait_blockers (release_resources v s)) u) \<subseteq> set (successors (predicate_wait_blockers s) u)"
  unfolding release_stripped remove_wait_dependency_on_def bump_blockers
  by (rule order_trans [OF fold_drop_blockers(1) stripped_blockers(1)]
      order_trans [OF fold_drop_blockers(2) stripped_blockers(2)]
      order_trans [OF fold_drop_blockers(3) stripped_blockers(3)])+

lemma update_txn_blockers [simp]:
  "table_wait_blockers (update_txn t f s) = table_wait_blockers s"
  "page_wait_blockers (update_txn t f s) = page_wait_blockers s"
  "predicate_wait_blockers (update_txn t f s) = predicate_wait_blockers s"
  by (simp_all add: update_txn_def)

lemma kill_blockers:
  "set (successors (table_wait_blockers (kill v m s)) u) \<subseteq> set (successors (table_wait_blockers s) u)"
  "set (successors (page_wait_blockers (kill v m s)) u) \<subseteq> set (successors (page_wait_blockers s) u)"
  "set (successors (predicate_wait_blockers (kill v m s)) u) \<subseteq> set (successors (predicate_wait_blockers s) u)"
  unfolding kill_def
  by (rule order_trans [OF release_blockers(1)], simp)
    (rule order_trans [OF release_blockers(2)], simp, rule order_trans [OF release_blockers(3)], simp)

lemmas edge_defs = set_table_wait_edges_def clear_table_wait_edges_def set_page_wait_edges_def
  clear_page_wait_edges_def set_predicate_wait_edges_def clear_predicate_wait_edges_def

lemmas queue_op_defs = enqueue_table_waiter_def dequeue_table_waiter_def enqueue_page_waiter_def
  dequeue_front_waiter_def enqueue_predicate_waiter_def dequeue_predicate_waiter_def

interpretation table_kind: wait_kind set_table_wait_edges table_rest
proof
  show "table_rest (kill v m s) u \<subseteq> table_rest s u" for v m s u
    using kill_blockers by (fastforce simp: table_rest_def)
qed (auto simp: edge_defs table_rest_def, auto simp: waits_on_def)

interpretation page_kind: wait_kind set_page_wait_edges page_rest
proof
  show "page_rest (kill v m s) u \<subseteq> page_rest s u" for v m s u
    using kill_blockers by (fastforce simp: page_rest_def)
qed (auto simp: edge_defs page_rest_def, auto simp: waits_on_def)

interpretation predicate_kind: wait_kind set_predicate_wait_edges predicate_rest
proof
  show "predicate_rest (kill v m s) u \<subseteq> predicate_rest s u" for v m s u
    using kill_blockers by (fastforce simp: predicate_rest_def)
qed (auto simp: edge_defs predicate_rest_def, auto simp: waits_on_def)

section \<open>Conflict tests\<close>

lemma conflict_loop_Ok:
  assumes "holder ` set locks \<subseteq> registered s"
  shows "\<exists>bs'. conflict_loop holder table_of conflicts t table s locks bs = Ok bs' \<and>
    set bs' = set bs \<union> holder ` {l \<in> set locks. holder l \<noteq> t \<and> table_of l = table \<and>
      active s (holder l) \<and> conflicts l}"
  using assms
proof (induction locks arbitrary: bs)
  case (Cons l locks)
  then obtain x where x: "map_of (txns s) (holder l) = Some x" by (auto simp: registered_def)
  then have act: "active s (holder l) \<longleftrightarrow> tx_status x = Active" by (simp add: active_iff)
  from Cons.prems have *: "holder ` set locks \<subseteq> registered s" by simp
  show ?case
    using Cons.IH [OF *, of bs] Cons.IH [OF *, of "bs_insert (holder l) bs"] act x
    by (auto simp: tm_get_def)
qed auto

lemma conflicting_table_Ok:
  assumes "holders_ok s"
  obtains bs where "conflicting_table_lock_txns t table mode s = Ok bs"
    "set bs = tl_txn_id ` {l \<in> set (table_locks s). tl_txn_id l \<noteq> t \<and> tl_table l = table \<and>
      active s (tl_txn_id l) \<and> table_lock_modes_conflict (tl_mode l) mode}"
  using conflict_loop_Ok [of tl_txn_id "table_locks s" s tl_table
      "\<lambda>l. table_lock_modes_conflict (tl_mode l) mode" t table "[]"] assms
  by (auto simp: conflicting_table_lock_txns_def holders_ok_def)

lemma conflicting_predicate_Ok:
  assumes "holders_ok s"
  obtains bs where "conflicting_predicate_lock_txns t table keys s = Ok bs"
    "set bs = pl_txn_id ` {l \<in> set (predicate_locks s). pl_txn_id l \<noteq> t \<and> pl_table l = table \<and>
      active s (pl_txn_id l) \<and> predicate_lock_conflicts l keys}"
  using conflict_loop_Ok [of pl_txn_id "predicate_locks s" s pl_table
      "\<lambda>l. predicate_lock_conflicts l keys" t table "[]"] assms
  by (auto simp: conflicting_predicate_lock_txns_def holders_ok_def)

lemma upsert_lock_cases:
  "l \<in> set (upsert_lock t table mode ls) \<Longrightarrow>
     l \<in> set ls \<or> tl_txn_id l = t \<and> tl_table l = table \<and> tl_mode l = mode"
  by (induction ls) (auto split: if_splits)

lemma upsert_lock_others: "u \<noteq> t \<Longrightarrow>
     filter (\<lambda>l. tl_txn_id l = u) (upsert_lock t table mode ls) = filter (\<lambda>l. tl_txn_id l = u) ls"
  by (induction ls) auto

text \<open>The states in which a request is granted.\<close>

definition grant_table :: "txn_id \<Rightarrow> string \<Rightarrow> table_lock_mode \<Rightarrow> txn_manager \<Rightarrow> txn_manager" where
  "grant_table t table mode s =
     upsert_table_lock t table mode (clear_table_wait_edges t (dequeue_table_waiter table t s))"

definition grant_page :: "txn_id \<Rightarrow> page_id \<Rightarrow> txn_manager \<Rightarrow> txn_manager" where
  "grant_page t p s = clear_page_wait_edges t ((dequeue_front_waiter p t s)\<lparr>page_write_owners :=
     if map_of (page_write_owners s) p = Some t then page_write_owners s
     else hm_insert p t (page_write_owners s)\<rparr>)"

definition grant_predicate :: "txn_id \<Rightarrow> predicate_write_key \<Rightarrow> txn_manager \<Rightarrow> txn_manager" where
  "grant_predicate t k s = clear_predicate_wait_edges t (dequeue_predicate_waiter k t s)"

lemma table_attempt_cases:
  assumes "holders_ok s"
  obtains (refused) e where "table_lock_attempt t table mode s = (Err e, s)" "\<not> active s t"
  | (waits) ctx bs w where "active s t" "set bs \<subseteq> registered s" "table_lock_attempt t table mode s =
      wait_or_retry t ctx bs w (set_table_wait_edges t bs (enqueue_table_waiter table t s))"
  | (granted) "active s t" "table_lock_attempt t table mode s = (Ok Granted, grant_table t table mode s)"
      "\<And>l. l \<in> set (table_locks s) \<Longrightarrow> tl_txn_id l \<noteq> t \<Longrightarrow> tl_table l = table \<Longrightarrow>
         active s (tl_txn_id l) \<Longrightarrow> \<not> table_lock_modes_conflict (tl_mode l) mode"
      "queue_front table (table_wait_queues s) \<in> {None, Some t}"
proof (cases rule: ensure_active_cases [of t s])
  case (inactive e)
  then show thesis
    by (intro refused [of e]) (simp_all add: table_lock_attempt_def sbind_def active_def)
next
  case act: active
  obtain bs where bs: "conflicting_table_lock_txns t table mode s = Ok bs"
      "set bs = tl_txn_id ` {l \<in> set (table_locks s). tl_txn_id l \<noteq> t \<and> tl_table l = table \<and>
        active s (tl_txn_id l) \<and> table_lock_modes_conflict (tl_mode l) mode}"
    using conflicting_table_Ok [OF assms] .
  have reg: "set bs \<subseteq> registered s" using bs(2) assms by (auto simp: holders_ok_def)
  show thesis
  proof (cases "bs = []")
    case False
    then show thesis
      using act bs(1) reg
      by (intro waits [of bs]) (auto simp: active_def table_lock_attempt_def sbind_def Let_def)
  next
    case True
    then have none: "{l \<in> set (table_locks s). tl_txn_id l \<noteq> t \<and> tl_table l = table \<and>
        active s (tl_txn_id l) \<and> table_lock_modes_conflict (tl_mode l) mode} = {}"
      using bs(2) by simp
    show thesis
    proof (cases "queue_front table (table_wait_queues s) \<in> {None, Some t}")
      case front: True
      then show thesis
        using act bs(1) True none
        by (intro granted) (auto simp: active_def table_lock_attempt_def sbind_def Let_def grant_table_def)
    next
      case False
      then obtain f where f: "queue_front table (table_wait_queues s) = Some f" "f \<noteq> t" by auto
      moreover have "f \<in> registered s"
        using queue_front_in f(1) assms by (auto simp: holders_ok_def)
      ultimately show thesis
        using act bs(1) True
        by (intro waits [of "[f]"]) (auto simp: active_def table_lock_attempt_def sbind_def Let_def)
    qed
  qed
qed

lemma predicate_attempt_cases:
  assumes "holders_ok s"
  obtains (refused) e where "predicate_write_attempt t table keys s = (Err e, s)" "\<not> active s t"
  | (waits) ctx bs w where "active s t" "set bs \<subseteq> registered s" "predicate_write_attempt t table keys s =
      wait_or_retry t ctx bs w (set_predicate_wait_edges t bs
        (enqueue_predicate_waiter (predicate_write_key_of table keys) t s))"
  | (granted) "active s t" "predicate_write_attempt t table keys s =
      (Ok Granted, grant_predicate t (predicate_write_key_of table keys) s)"
      "\<And>l. l \<in> set (predicate_locks s) \<Longrightarrow> pl_txn_id l \<noteq> t \<Longrightarrow> pl_table l = table \<Longrightarrow>
         active s (pl_txn_id l) \<Longrightarrow> \<not> predicate_lock_conflicts l keys"
      "queue_front (predicate_write_key_of table keys) (predicate_write_wait_queues s) \<in> {None, Some t}"
proof (cases rule: ensure_active_cases [of t s])
  case (inactive e)
  then show thesis
    by (intro refused [of e]) (simp_all add: predicate_write_attempt_def sbind_def active_def)
next
  case act: active
  let ?k = "predicate_write_key_of table keys"
  obtain bs where bs: "conflicting_predicate_lock_txns t table keys s = Ok bs"
      "set bs = pl_txn_id ` {l \<in> set (predicate_locks s). pl_txn_id l \<noteq> t \<and> pl_table l = table \<and>
        active s (pl_txn_id l) \<and> predicate_lock_conflicts l keys}"
    using conflicting_predicate_Ok [OF assms] .
  have reg: "set bs \<subseteq> registered s" using bs(2) assms by (auto simp: holders_ok_def)
  show thesis
  proof (cases "bs = []")
    case False
    then show thesis
      using act bs(1) reg
      by (intro waits [of bs]) (auto simp: active_def predicate_write_attempt_def sbind_def Let_def)
  next
    case True
    then have none: "{l \<in> set (predicate_locks s). pl_txn_id l \<noteq> t \<and> pl_table l = table \<and>
        active s (pl_txn_id l) \<and> predicate_lock_conflicts l keys} = {}"
      using bs(2) by simp
    show thesis
    proof (cases "queue_front ?k (predicate_write_wait_queues s) \<in> {None, Some t}")
      case front: True
      then show thesis
        using act bs(1) True none
        by (intro granted) (auto simp: active_def predicate_write_attempt_def sbind_def Let_def grant_predicate_def)
    next
      case False
      then obtain f where f: "queue_front ?k (predicate_write_wait_queues s) = Some f" "f \<noteq> t" by auto
      moreover have "f \<in> registered s"
        using queue_front_in f(1) assms by (auto simp: holders_ok_def)
      ultimately show thesis
        using act bs(1) True
        by (intro waits [of "[f]"]) (auto simp: active_def predicate_write_attempt_def sbind_def Let_def)
    qed
  qed
qed

lemma page_attempt_cases:
  assumes "holders_ok s"
  obtains (refused) e where "page_write_attempt t p s = (Err e, s)" "\<not> active s t"
  | (waits) ctx bs w where "active s t" "set bs \<subseteq> registered s" "page_write_attempt t p s =
      wait_or_retry t ctx bs w (set_page_wait_edges t bs (enqueue_page_waiter p t s))"
  | (granted) "t \<in> registered s" "page_write_attempt t p s = (Ok Granted, grant_page t p s)"
      "map_of (page_write_owners s) p = Some t \<or>
       map_of (page_write_owners s) p = None \<and> active s t \<and>
       queue_front p (page_write_wait_queues s) \<in> {None, Some t}"
proof (cases "map_of (page_write_owners s) p = Some t")
  case True
  then have "t \<in> registered s" using assms by (auto simp: holders_ok_def intro: ranI)
  with True show thesis
    by (intro granted) (simp_all add: page_write_attempt_def grant_page_def dequeue_front_waiter_def)
next
  case not_owner: False
  show thesis
  proof (cases rule: ensure_active_cases [of t s])
    case (inactive e)
    then show thesis
      using not_owner by (intro refused [of e])
        (auto simp: page_write_attempt_def sbind_def active_def Let_def split: option.split)
  next
    case act: active
    then have reg: "t \<in> registered s" by (simp add: active_def active_registered)
    show thesis
    proof (cases "map_of (page_write_owners s) p")
      case (Some owner)
      then have "owner \<in> registered s" using assms by (auto simp: holders_ok_def intro: ranI)
      then obtain x where "map_of (txns s) owner = Some x" by (auto simp: registered_def)
      with Some act not_owner \<open>owner \<in> registered s\<close> show thesis
        by (intro waits [of "[owner]"])
          (auto simp: active_def page_write_attempt_def sbind_def Let_def tm_get_def)
    next
      case None
      show thesis
      proof (cases "queue_front p (page_write_wait_queues s) \<in> {None, Some t}")
        case True
        with act None reg show thesis
          by (intro granted)
            (auto simp: active_def page_write_attempt_def sbind_def Let_def grant_page_def dequeue_front_waiter_def)
      next
        case False
        then obtain f where f: "queue_front p (page_write_wait_queues s) = Some f" "f \<noteq> t" by auto
        moreover have "f \<in> registered s"
          using queue_front_in f(1) assms by (auto simp: holders_ok_def)
        ultimately show thesis
          using act None
          by (intro waits [of "[f]"]) (auto simp: active_def page_write_attempt_def sbind_def Let_def)
      qed
    qed
  qed
qed

section \<open>The requests satisfy the contract\<close>

lemma registered_grant [simp]:
  "registered (grant_table t table mode s) = registered s"
  "registered (grant_page t p s) = registered s"
  "registered (grant_predicate t k s) = registered s"
  by (simp_all add: registered_def grant_table_def grant_page_def grant_predicate_def
      upsert_table_lock_def edge_defs queue_op_defs)

lemma active_grant [simp]:
  "active (grant_table t table mode s) u = active s u"
  "active (grant_page t p s) u = active s u"
  "active (grant_predicate t k s) u = active s u"
  by (simp_all add: active_iff grant_table_def grant_page_def grant_predicate_def
      upsert_table_lock_def edge_defs queue_op_defs)

lemma holders_ok_grant_table: "holders_ok s \<Longrightarrow> t \<in> registered s \<Longrightarrow> holders_ok (grant_table t table mode s)"
  unfolding holders_ok_def registered_grant
  by (auto simp: grant_table_def upsert_table_lock_def edge_defs queue_op_defs queues_in_pop
      dest!: upsert_lock_cases)

lemma holders_ok_grant_page: "holders_ok s \<Longrightarrow> t \<in> registered s \<Longrightarrow> holders_ok (grant_page t p s)"
  unfolding holders_ok_def registered_grant
  by (auto simp: grant_page_def edge_defs queue_op_defs queues_in_pop ran_def)

lemma holders_ok_grant_predicate: "holders_ok s \<Longrightarrow> holders_ok (grant_predicate t k s)"
  unfolding holders_ok_def registered_grant
  by (auto simp: grant_predicate_def edge_defs queue_op_defs queues_in_pop)

lemma registered_enqueue [simp]:
  "registered (enqueue_table_waiter table t s) = registered s"
  "registered (enqueue_page_waiter p t s) = registered s"
  "registered (enqueue_predicate_waiter k t s) = registered s"
  by (simp_all add: registered_def queue_op_defs)

lemma holders_ok_enqueue:
  assumes "holders_ok s" "t \<in> registered s"
  shows "holders_ok (enqueue_table_waiter table t s)" "holders_ok (enqueue_page_waiter p t s)"
    "holders_ok (enqueue_predicate_waiter k t s)"
  using assms unfolding holders_ok_def registered_enqueue
  by (auto simp: queue_op_defs queues_in_push)

lemma locks_compatible_grant_table:
  assumes "locks_compatible s"
    and "\<And>l. l \<in> set (table_locks s) \<Longrightarrow> tl_txn_id l \<noteq> t \<Longrightarrow> tl_table l = table \<Longrightarrow>
         active s (tl_txn_id l) \<Longrightarrow> \<not> table_lock_modes_conflict (tl_mode l) mode"
  shows "locks_compatible (grant_table t table mode s)"
proof -
  have locks: "table_locks (grant_table t table mode s) = upsert_lock t table mode (table_locks s)"
    by (simp add: grant_table_def upsert_table_lock_def edge_defs queue_op_defs)
  have "\<not> table_lock_modes_conflict (tl_mode l) (tl_mode l')"
    if l: "l \<in> set (upsert_lock t table mode (table_locks s))"
      "l' \<in> set (upsert_lock t table mode (table_locks s))"
      and c: "tl_table l = tl_table l'" "tl_txn_id l \<noteq> tl_txn_id l'"
        "active s (tl_txn_id l)" "active s (tl_txn_id l')" for l l'
    using upsert_lock_cases [OF l(1)] upsert_lock_cases [OF l(2)]
  proof (elim disjE conjE)
    assume "l \<in> set (table_locks s)" "l' \<in> set (table_locks s)"
    with assms(1) c show ?thesis unfolding locks_compatible_def by blast
  next
    assume "l \<in> set (table_locks s)" "tl_txn_id l' = t" "tl_table l' = table" "tl_mode l' = mode"
    with assms(2) [of l] c show ?thesis by simp
  next
    assume "tl_txn_id l = t" "tl_table l = table" "tl_mode l = mode" "l' \<in> set (table_locks s)"
    with assms(2) [of l'] c show ?thesis by (simp add: modes_conflict_sym [of mode])
  qed (use c in simp)
  then show ?thesis unfolding locks_compatible_def locks active_grant by blast
qed

interpretation table_request: lock_request set_table_wait_edges table_rest t "enqueue_table_waiter table t"
  "grant_table t table mode" "table_lock_attempt t table mode" "acquire_table_lock t table mode"
  for t table mode
proof
  fix s u
  show "active s t \<Longrightarrow> lock_wf s \<Longrightarrow> locks_compatible s \<Longrightarrow>
      table_lock_attempt t table mode s = (Ok Granted, grant_table t table mode s) \<and>
        locks_compatible (grant_table t table mode s) \<or>
      (\<exists>ctx bs w. table_lock_attempt t table mode s =
         wait_or_retry t ctx bs w (set_table_wait_edges t bs (enqueue_table_waiter table t s)) \<and>
         set bs \<subseteq> registered s)"
    by (cases rule: table_attempt_cases [of s t table mode])
      (auto simp: lock_wf_def intro: locks_compatible_grant_table)
  show "\<not> active s t \<Longrightarrow> lock_wf s \<Longrightarrow> locks_compatible s \<Longrightarrow>
      (\<exists>e. table_lock_attempt t table mode s = (Err e, s)) \<or>
      table_lock_attempt t table mode s = (Ok Granted, grant_table t table mode s) \<and>
        t \<in> registered s \<and> locks_compatible (grant_table t table mode s)"
    by (cases rule: table_attempt_cases [of s t table mode]) (auto simp: lock_wf_def)
  show "u \<noteq> t \<Longrightarrow> holdings (grant_table t table mode s) u = holdings s u"
    by (simp add: holdings_def upsert_lock_others grant_table_def upsert_table_lock_def edge_defs queue_op_defs)
  show "waits_set (grant_table t table mode s) u = (if u = t then table_rest s t else waits_set s u)"
    by (simp add: grant_table_def upsert_table_lock_def edge_defs queue_op_defs waits_on_def table_rest_def)
  show "waits_on (grant_table t table mode s) u = (if u = t then table_rest s t else waits_on s u)"
    by (simp add: grant_table_def upsert_table_lock_def edge_defs queue_op_defs waits_on_def table_rest_def)
qed (simp_all add: acquire_table_lock.simps holders_ok_enqueue holders_ok_grant_table,
    simp_all add: queue_op_defs waits_on_def table_rest_def grant_table_def upsert_table_lock_def edge_defs)

lemma locks_compatible_grant_others:
  "locks_compatible (grant_page t p s) = locks_compatible s"
  "locks_compatible (grant_predicate t k s) = locks_compatible s"
  by (simp_all add: locks_compatible_def, simp_all add: grant_page_def grant_predicate_def edge_defs queue_op_defs)

lemma holdings_grant_page:
  assumes "u \<noteq> t" "map_of (page_write_owners s) p \<in> {None, Some t}"
  shows "holdings (grant_page t p s) u = holdings s u"
  using assms by (auto simp: holdings_def grant_page_def edge_defs queue_op_defs)

lemma page_write_attempt_Granted:
  assumes "page_write_attempt t p s = (Ok Granted, s')"
  shows "map_of (page_write_owners s) p \<in> {None, Some t}"
proof (rule ccontr)
  assume "\<not> ?thesis"
  then obtain owner where "map_of (page_write_owners s) p = Some owner" "owner \<noteq> t" by auto
  with assms show False
    by (auto simp: page_write_attempt_def sbind_def Let_def wait_or_retry_def
        split: result.splits prod.splits if_splits)
qed

interpretation page_request: lock_request set_page_wait_edges page_rest t "enqueue_page_waiter p t"
  "grant_page t p" "page_write_attempt t p" "acquire_page_write t p"
  for t p
proof
  fix s u
  show "active s t \<Longrightarrow> lock_wf s \<Longrightarrow> locks_compatible s \<Longrightarrow>
      page_write_attempt t p s = (Ok Granted, grant_page t p s) \<and> locks_compatible (grant_page t p s) \<or>
      (\<exists>ctx bs w. page_write_attempt t p s =
         wait_or_retry t ctx bs w (set_page_wait_edges t bs (enqueue_page_waiter p t s)) \<and>
         set bs \<subseteq> registered s)"
    by (cases rule: page_attempt_cases [of s t p])
      (auto simp: lock_wf_def locks_compatible_grant_others)
  show "\<not> active s t \<Longrightarrow> lock_wf s \<Longrightarrow> locks_compatible s \<Longrightarrow>
      (\<exists>e. page_write_attempt t p s = (Err e, s)) \<or>
      page_write_attempt t p s = (Ok Granted, grant_page t p s) \<and>
        t \<in> registered s \<and> locks_compatible (grant_page t p s)"
    by (cases rule: page_attempt_cases [of s t p]) (auto simp: lock_wf_def locks_compatible_grant_others)
  show "page_write_attempt t p s = (Ok Granted, grant_page t p s) \<Longrightarrow> u \<noteq> t \<Longrightarrow>
      holdings (grant_page t p s) u = holdings s u"
    using page_write_attempt_Granted holdings_grant_page by blast
  show "waits_set (grant_page t p s) u = (if u = t then page_rest s t else waits_set s u)"
    by (simp add: grant_page_def edge_defs queue_op_defs waits_on_def page_rest_def)
  show "waits_on (grant_page t p s) u = (if u = t then page_rest s t else waits_on s u)"
    by (simp add: grant_page_def edge_defs queue_op_defs waits_on_def page_rest_def)
qed (simp_all add: acquire_page_write.simps holders_ok_enqueue holders_ok_grant_page,
    simp_all add: queue_op_defs waits_on_def page_rest_def grant_page_def edge_defs)

interpretation predicate_request: lock_request set_predicate_wait_edges predicate_rest t
  "enqueue_predicate_waiter (predicate_write_key_of table keys) t"
  "grant_predicate t (predicate_write_key_of table keys)"
  "predicate_write_attempt t table keys" "check_write_conflicts t table keys"
  for t table keys
proof
  let ?k = "predicate_write_key_of table keys"
  fix s u
  show "active s t \<Longrightarrow> lock_wf s \<Longrightarrow> locks_compatible s \<Longrightarrow>
      predicate_write_attempt t table keys s = (Ok Granted, grant_predicate t ?k s) \<and>
        locks_compatible (grant_predicate t ?k s) \<or>
      (\<exists>ctx bs w. predicate_write_attempt t table keys s =
         wait_or_retry t ctx bs w (set_predicate_wait_edges t bs (enqueue_predicate_waiter ?k t s)) \<and>
         set bs \<subseteq> registered s)"
    by (cases rule: predicate_attempt_cases [of s t table keys])
      (auto simp: lock_wf_def locks_compatible_grant_others)
  show "\<not> active s t \<Longrightarrow> lock_wf s \<Longrightarrow> locks_compatible s \<Longrightarrow>
      (\<exists>e. predicate_write_attempt t table keys s = (Err e, s)) \<or>
      predicate_write_attempt t table keys s = (Ok Granted, grant_predicate t ?k s) \<and>
        t \<in> registered s \<and> locks_compatible (grant_predicate t ?k s)"
    by (cases rule: predicate_attempt_cases [of s t table keys])
      (auto simp: lock_wf_def locks_compatible_grant_others)
  show "holdings (grant_predicate t ?k s) u = holdings s u"
    by (simp add: holdings_def grant_predicate_def edge_defs queue_op_defs)
  show "waits_set (grant_predicate t ?k s) u = (if u = t then predicate_rest s t else waits_set s u)"
    by (simp add: grant_predicate_def edge_defs queue_op_defs waits_on_def predicate_rest_def)
  show "waits_on (grant_predicate t ?k s) u = (if u = t then predicate_rest s t else waits_on s u)"
    by (simp add: grant_predicate_def edge_defs queue_op_defs waits_on_def predicate_rest_def)
qed (simp_all add: check_write_conflicts.simps holders_ok_enqueue holders_ok_grant_predicate,
    simp_all add: queue_op_defs waits_on_def predicate_rest_def grant_predicate_def edge_defs)

section \<open>Every operation keeps the invariant\<close>

lemma lock_inv_counters [simp]:
  "lock_inv (s\<lparr>next_commit_ts := a\<rparr>) = lock_inv s" "lock_inv (s\<lparr>next_row_ids := b\<rparr>) = lock_inv s"
  "lock_inv (s\<lparr>next_txn_id := c\<rparr>) = lock_inv s"
  by (simp_all add: lock_inv_def lock_wf_def holders_ok_def graph_ok_def locks_compatible_def no_deadlock_def
      registered_def active_iff waits_on_def)

text \<open>An update of a transaction's record that does not revive it.\<close>

lemma lock_inv_update_txn:
  assumes "lock_inv s" "\<And>x. tx_status (f x) = Active \<Longrightarrow> tx_status x = Active"
  shows "lock_inv (update_txn t f s)"
proof -
  have "active (update_txn t f s) u \<Longrightarrow> active s u" for u
    using assms(2) by (auto simp: active_iff update_txn_def split: if_splits)
  then have "locks_compatible (update_txn t f s)"
    using assms(1) locks_compatible_subset [of s "update_txn t f s"] by (auto simp: lock_inv_def)
  with assms(1) show ?thesis
    by (simp add: lock_inv_def lock_wf_def holders_ok_update_txn no_deadlock_def)
qed

lemma lock_inv_release:
  assumes "lock_inv s"
  shows "lock_inv (release_resources t s)"
proof -
  have g: "graph_ok s" using assms by (simp add: lock_inv_def lock_wf_def)
  have "wait_edges (waits_for (release_resources t s)) \<subseteq> wait_edges (waits_for s)"
    using g by (auto simp: wait_edges_def graph_release graph_ok_def split: if_splits)
  moreover have "active (release_resources t s) u = active s u" for u by (rule active_cong) simp
  ultimately show ?thesis
    using assms acyclic_subset locks_compatible_subset [of s "release_resources t s"]
    by (auto simp: lock_inv_def lock_wf_def holders_ok_release graph_ok_release no_deadlock_def)
qed

lemma lock_inv_release_op: "lock_inv s \<Longrightarrow> lock_inv (snd (release_transaction_resources t s))"
  by (cases "map_of (txns s) t")
    (simp_all add: release_transaction_resources_def tm_get_def sbind_def lock_inv_release)

lemma lock_inv_insert_txn:
  assumes "lock_inv s" "t \<notin> registered s"
  shows "lock_inv (insert_txn t level s)"
proof -
  have reg: "registered (insert_txn t level s) = insert t (registered s)"
    by (auto simp: registered_def insert_txn_def)
  have act: "active (insert_txn t level s) u = (u = t \<or> active s u)" for u
    by (auto simp: active_iff insert_txn_def)
  have graph: "waits_on (insert_txn t level s) u = waits_on s u"
    "waits_set (insert_txn t level s) u = waits_set s u" for u
    by (simp_all add: waits_on_def insert_txn_def)
  have "holders_ok (insert_txn t level s)"
    using assms(1) unfolding lock_inv_def lock_wf_def holders_ok_def reg
    by (auto simp: insert_txn_def queues_in_def subset_insertI2 dest: subsetD)
  moreover have "graph_ok (insert_txn t level s)"
    using assms(1) unfolding lock_inv_def lock_wf_def graph_ok_def graph reg by blast
  moreover have "wait_edges (waits_for (insert_txn t level s)) = wait_edges (waits_for s)"
    using graph(2) by (simp add: wait_edges_def)
  moreover have "locks_compatible (insert_txn t level s)"
  proof -
    have "tl_txn_id ` set (table_locks s) \<subseteq> registered s"
      using assms(1) by (simp add: lock_inv_def lock_wf_def holders_ok_def)
    with assms have "\<forall>l \<in> set (table_locks s). tl_txn_id l \<noteq> t" by auto
    moreover have "table_locks (insert_txn t level s) = table_locks s" by (simp add: insert_txn_def)
    ultimately show ?thesis
      using assms(1) unfolding lock_inv_def locks_compatible_def act by auto
  qed
  ultimately show ?thesis
    using assms(1) by (simp add: lock_inv_def lock_wf_def no_deadlock_def)
qed

lemma lock_inv_predicate_lock:
  assumes "lock_inv s" "pl_txn_id lock = t"
  shows "lock_inv (snd (acquire_predicate_lock t lock s))"
proof (cases "map_of (txns s) t")
  case None
  with assms show ?thesis by (simp add: acquire_predicate_lock_def tm_isolation_level_def tm_get_def sbind_def)
next
  case (Some x)
  then have "t \<in> registered s" by (auto simp: registered_def)
  have "lock_inv (s\<lparr>predicate_locks := predicate_locks s @ [lock]\<rparr>)"
    using assms \<open>t \<in> registered s\<close>
    by (simp add: lock_inv_def lock_wf_def holders_ok_def graph_ok_def locks_compatible_def no_deadlock_def
        registered_def active_iff waits_on_def)
  with Some assms(1) show ?thesis
    by (simp add: acquire_predicate_lock_def tm_isolation_level_def tm_get_def sbind_def)
qed

text \<open>
  A transaction is idle when it holds nothing, waits for nothing and nobody waits for it. The engine
  purges a finished transaction after it has released its resources.
\<close>

definition idle :: "txn_manager \<Rightarrow> txn_id \<Rightarrow> bool" where
  "idle s t \<longleftrightarrow> holdings s t = ([], [], {}) \<and>
     queues_in (- {t}) (table_wait_queues s) \<and> queues_in (- {t}) (page_write_wait_queues s) \<and>
     queues_in (- {t}) (predicate_write_wait_queues s) \<and>
     waits_on s t = {} \<and> (\<forall>u. t \<notin> waits_on s u)"

definition purgeable :: "u64 \<Rightarrow> txn_manager \<Rightarrow> bool" where
  "purgeable horizon s \<longleftrightarrow>
     (\<forall>t x. map_of (txns s) t = Some x \<longrightarrow> retained horizon x \<or> idle s t)"

declare retained.simps [simp del]

lemma queues_in_Diff:
  assumes "queues_in R m" "\<And>t. t \<in> R - R' \<Longrightarrow> queues_in (- {t}) m"
  shows "queues_in R' m"
  unfolding queues_in_def
proof (intro allI impI subsetI)
  fix k q t
  assume q: "map_of m k = Some q" "t \<in> set q"
  then have "t \<in> R" using assms(1) by (auto simp: queues_in_def)
  moreover have "\<not> queues_in (- {t}) m" using q by (auto simp: queues_in_def)
  ultimately show "t \<in> R'" using assms(2) by auto
qed

lemma idle_no_locks:
  "idle s t \<Longrightarrow> l \<in> set (table_locks s) \<Longrightarrow> tl_txn_id l \<noteq> t"
  "idle s t \<Longrightarrow> pl \<in> set (predicate_locks s) \<Longrightarrow> pl_txn_id pl \<noteq> t"
  "idle s t \<Longrightarrow> map_of (page_write_owners s) p \<noteq> Some t"
  by (auto simp: idle_def holdings_def filter_empty_conv)

lemma lock_inv_purge:
  assumes "lock_inv s" "purgeable horizon s"
  shows "lock_inv (purge_finished_transactions_up_to horizon s)" (is "lock_inv ?s'")
proof -
  have wf: "holders_ok s" "graph_ok s" and wf_txns: "hm_wf (txns s)"
    using assms(1) by (simp_all add: lock_inv_def lock_wf_def holders_ok_def)
  have reg: "registered ?s' \<subseteq> registered s"
    using wf_txns by (auto simp: registered_def purge_finished_transactions_up_to_def hm_get_retain split: option.splits)
  have act: "active ?s' u \<Longrightarrow> active s u" for u
    using wf_txns by (auto simp: active_iff purge_finished_transactions_up_to_def hm_get_retain split: option.splits if_splits)
  have idle: "idle s t" if "t \<in> registered s - registered ?s'" for t
  proof -
    from that obtain x where "map_of (txns s) t = Some x" by (auto simp: registered_def)
    moreover from this that have "\<not> retained horizon x"
      using wf_txns by (auto simp: registered_def purge_finished_transactions_up_to_def hm_get_retain)
    ultimately show ?thesis using assms(2) by (auto simp: purgeable_def)
  qed
  have frame: "table_locks ?s' = table_locks s" "predicate_locks ?s' = predicate_locks s"
    "page_write_owners ?s' = page_write_owners s" "table_wait_queues ?s' = table_wait_queues s"
    "page_write_wait_queues ?s' = page_write_wait_queues s" "waits_for ?s' = waits_for s"
    "predicate_write_wait_queues ?s' = predicate_write_wait_queues s" "waits_on ?s' u = waits_on s u" for u
    by (simp_all add: purge_finished_transactions_up_to_def waits_on_def)
  have "hm_wf (txns ?s')" using wf_txns by (simp add: purge_finished_transactions_up_to_def)
  moreover have "tl_txn_id l \<in> registered ?s'" if "l \<in> set (table_locks s)" for l
  proof (rule ccontr)
    assume "tl_txn_id l \<notin> registered ?s'"
    with that wf(1) have "tl_txn_id l \<in> registered s - registered ?s'" by (auto simp: holders_ok_def)
    from idle_no_locks(1) [OF idle [OF this] that] show False by simp
  qed
  moreover have "pl_txn_id l \<in> registered ?s'" if "l \<in> set (predicate_locks s)" for l
  proof (rule ccontr)
    assume "pl_txn_id l \<notin> registered ?s'"
    with that wf(1) have "pl_txn_id l \<in> registered s - registered ?s'" by (auto simp: holders_ok_def)
    from idle_no_locks(2) [OF idle [OF this] that] show False by simp
  qed
  moreover have "u \<in> registered ?s'" if "map_of (page_write_owners s) p = Some u" for p u
  proof (rule ccontr)
    assume "u \<notin> registered ?s'"
    with that wf(1) have "u \<in> registered s - registered ?s'" by (auto simp: holders_ok_def intro: ranI)
    from idle_no_locks(3) [OF idle [OF this]] that show False by simp
  qed
  moreover have "queues_in (registered ?s') (table_wait_queues s)"
    by (rule queues_in_Diff [of "registered s"])
      (use wf(1) in \<open>simp add: holders_ok_def\<close>, drule idle, simp add: idle_def)
  moreover have "queues_in (registered ?s') (page_write_wait_queues s)"
    by (rule queues_in_Diff [of "registered s"])
      (use wf(1) in \<open>simp add: holders_ok_def\<close>, drule idle, simp add: idle_def)
  moreover have "queues_in (registered ?s') (predicate_write_wait_queues s)"
    by (rule queues_in_Diff [of "registered s"])
      (use wf(1) in \<open>simp add: holders_ok_def\<close>, drule idle, simp add: idle_def)
  moreover have "hm_wf (page_write_owners s)" using wf(1) by (simp add: holders_ok_def)
  ultimately have "holders_ok ?s'"
    unfolding holders_ok_def frame by (auto simp: ran_def)
  moreover have "graph_ok ?s'"
    unfolding graph_ok_def frame
  proof (intro allI conjI impI subsetI)
    fix u b
    show "waits_set s u = waits_on s u" using wf(2) by (simp add: graph_ok_def)
    show "b \<in> registered ?s'" if "b \<in> waits_on s u"
      using that wf(2) idle [of b] unfolding graph_ok_def idle_def by blast
    show "u \<in> registered ?s'" if "waits_on s u \<noteq> {}"
      using that wf(2) idle [of u] unfolding graph_ok_def idle_def by blast
  qed
  moreover have "locks_compatible ?s'"
    using assms(1) locks_compatible_subset [of s ?s'] act frame(1) by (simp add: lock_inv_def)
  ultimately show ?thesis
    using assms(1) by (simp add: lock_inv_def lock_wf_def no_deadlock_def frame)
qed

lemma lock_inv_complete_purge: "lock_inv s \<Longrightarrow> lock_inv (snd (complete_purge_batch rs s))"
proof (induction rs s rule: complete_purge_batch.induct)
  case (2 t r rest s)
  have "lock_inv (update_txn t (\<lambda>x. x\<lparr>purge_records := others\<rparr>) s)" for others
    using 2(2) by (rule lock_inv_update_txn) simp
  with 2 show ?case by (auto simp: Let_def split: option.split list.split)
qed simp

section \<open>The manager as a state machine\<close>

text \<open>
  A transaction is stored under its own id, and ids are handed out in increasing order until the
  64-bit counter reaches its end.
\<close>

definition keyed :: "txn_manager \<Rightarrow> bool" where
  "keyed s \<longleftrightarrow> (\<forall>u. map_option tx_id (map_of (txns s) u) \<in> {None, Some u})"

lemma keyedD: "keyed s \<Longrightarrow> map_of (txns s) u = Some x \<Longrightarrow> tx_id x = u"
  unfolding keyed_def by (metis insert_iff option.distinct(1) option.inject option.simps(9) singletonD)

lemma keyedI: "(\<And>u x. map_of (txns s) u = Some x \<Longrightarrow> tx_id x = u) \<Longrightarrow> keyed s"
  by (auto simp: keyed_def)

definition ids_fresh :: "txn_manager \<Rightarrow> bool" where
  "ids_fresh s \<longleftrightarrow> keyed s \<and> (next_txn_id s = - 1 \<or> (\<forall>t \<in> registered s. t < next_txn_id s))"

text \<open>
  One step is one call of an operation that changes the manager, with the state it leaves behind
  whatever it returns. A transaction is begun while the id counter has not run out, and finished
  transactions are purged when they are idle.
\<close>

inductive tm_step :: "txn_manager \<Rightarrow> txn_manager \<Rightarrow> bool" where
  begin_step: "next_txn_id s \<noteq> - 1 \<Longrightarrow> tm_step s (snd (tm_begin level s))"
| begin_with_id_step: "tm_step s (snd (begin_with_id t level s))"
| reserve_step: "tm_step s (snd (reserve_commit_ts t s))"
| finalize_step: "tm_step s (snd (finalize_commit t ts s))"
| abort_step: "tm_step s (snd (tm_abort t s))"
| snapshot_step: "tm_step s (snd (refresh_snapshot t s))"
| sync_step: "tm_step s (sync_next_row_ids rows s)"
| allocate_step: "tm_step s (snd (allocate_row_id t table fallback s))"
| write_set_step: "tm_step s (snd (replace_page_write_set t writes s))"
| undo_step: "tm_step s (snd (record_undo t r s))"
| take_undo_step: "tm_step s (snd (take_undo_records t s))"
| clear_error_step: "tm_step s (snd (clear_terminal_error t s))"
| purge_step: "purgeable horizon s \<Longrightarrow> tm_step s (purge_finished_transactions_up_to horizon s)"
| complete_purge_step: "tm_step s (snd (complete_purge_batch rs s))"
| table_lock_step: "tm_step s (snd (acquire_table_lock t table mode s))"
| predicate_lock_step: "pl_txn_id lock = t \<Longrightarrow> tm_step s (snd (acquire_predicate_lock t lock s))"
| page_write_step: "tm_step s (snd (acquire_page_write t p s))"
| write_conflict_step: "tm_step s (snd (check_write_conflicts t table keys s))"
| release_step: "tm_step s (snd (release_transaction_resources t s))"

inductive reachable :: "txn_manager \<Rightarrow> bool" where
  start: "reachable (with_next_txn_id n)"
| step: "reachable s \<Longrightarrow> tm_step s s' \<Longrightarrow> reachable s'"

lemma reserve_state: "snd (reserve_commit_ts t s) = s \<or> snd (reserve_commit_ts t s) = s\<lparr>next_commit_ts := next_commit_ts s + 1\<rparr>"
  by (cases "ensure_active t s") (auto simp: reserve_commit_ts_def sbind_def Let_def)

lemma allocate_state: "\<exists>m. snd (allocate_row_id t table fb s) = s \<or> snd (allocate_row_id t table fb s) = s\<lparr>next_row_ids := m\<rparr>"
  by (cases "ensure_active t s") (auto simp: allocate_row_id_def sbind_def Let_def)

text \<open>The operations that only update one transaction's record, and never revive it.\<close>

definition quiet :: "txn_manager \<Rightarrow> txn_manager \<Rightarrow> bool" where
  "quiet s s' \<longleftrightarrow> s' = s \<or> (\<exists>t f. s' = update_txn t f s \<and>
     (\<forall>x. tx_id (f x) = tx_id x \<and> (tx_status (f x) = Active \<longrightarrow> tx_status x = Active)))"

lemma quiet_update:
  "(\<And>x. tx_id (f x) = tx_id x) \<Longrightarrow> (\<And>x. tx_status (f x) = Active \<Longrightarrow> tx_status x = Active) \<Longrightarrow>
     quiet s (update_txn t f s)"
  unfolding quiet_def by blast

lemma quiet_refl [simp]: "quiet s s"
  by (simp add: quiet_def)

lemma quiet_ops:
  "quiet s (snd (finalize_commit t ts s))" "quiet s (snd (tm_abort t s))"
  "quiet s (snd (refresh_snapshot t s))" "quiet s (snd (replace_page_write_set t writes s))"
  "quiet s (snd (record_undo t r s))" "quiet s (snd (take_undo_records t s))"
  "quiet s (snd (clear_terminal_error t s))"
  by (auto simp: finalize_commit_def tm_abort_def refresh_snapshot_def replace_page_write_set_def
      record_undo_def take_undo_records_def clear_terminal_error_def sbind_def tm_get_def Let_def
      intro!: quiet_update split: option.split result.split)

lemma lock_inv_quiet: "quiet s s' \<Longrightarrow> lock_inv s \<Longrightarrow> lock_inv s'"
  by (auto simp: quiet_def intro: lock_inv_update_txn)

lemma spares_ids: "spares t s s' \<Longrightarrow> ids_fresh s \<Longrightarrow> ids_fresh s'"
  by (simp add: spares_def ids_fresh_def keyed_def)

lemma keyed_update_txn: "(\<And>x. tx_id (f x) = tx_id x) \<Longrightarrow> keyed s \<Longrightarrow> keyed (update_txn t f s)"
  by (auto simp: keyed_def update_txn_def option.map_comp comp_def)

lemma ids_fresh_quiet: "quiet s s' \<Longrightarrow> ids_fresh s \<Longrightarrow> ids_fresh s'"
  by (auto simp: quiet_def ids_fresh_def intro: keyed_update_txn)

lemma ids_fresh_complete_purge: "ids_fresh s \<Longrightarrow> ids_fresh (snd (complete_purge_batch rs s))"
  by (induction rs s rule: complete_purge_batch.induct)
    (auto simp: Let_def ids_fresh_def keyed_update_txn split: option.split list.split)

lemma keyed_insert_txn [simp]: "keyed s \<Longrightarrow> keyed (insert_txn t level (s\<lparr>next_txn_id := n\<rparr>))"
  by (auto simp: keyed_def insert_txn_def)

lemma max_ne_top: "a \<noteq> - 1 \<Longrightarrow> b \<noteq> - 1 \<Longrightarrow> max a b \<noteq> - 1" for a b :: "'a::len word"
  by (auto simp: max_def)

lemma registered_insert_txn [simp]: "registered (insert_txn t level s) = insert t (registered s)"
  by (auto simp: registered_def insert_txn_def)

lemma next_txn_id_insert_txn [simp]: "next_txn_id (insert_txn t level s) = next_txn_id s"
  by (simp add: insert_txn_def)

lemma registered_next_txn_id [simp]: "registered (s\<lparr>next_txn_id := n\<rparr>) = registered s"
  by (simp add: registered_def)

lemma begin_fresh: "ids_fresh s \<Longrightarrow> next_txn_id s \<noteq> - 1 \<Longrightarrow> max (next_txn_id s) 1 \<notin> registered s"
  by (auto simp: ids_fresh_def)

lemma ids_fresh_begin:
  assumes "ids_fresh s" "next_txn_id s \<noteq> - 1"
  shows "ids_fresh (snd (tm_begin level s))"
proof -
  let ?t = "max (next_txn_id s) 1"
  have "?t \<noteq> - 1" using assms(2) by (intro max_ne_top) simp_all
  then have "?t < ?t + 1" by (rule word_less_add_one)
  moreover have "u < ?t + 1" if "u \<in> registered s" for u
  proof -
    have "u < next_txn_id s" using that assms by (simp add: ids_fresh_def)
    also have "\<dots> \<le> ?t" by simp
    also have "?t < ?t + 1" by fact
    finally show ?thesis .
  qed
  ultimately show ?thesis using assms(1) by (auto simp: ids_fresh_def tm_begin_def Let_def)
qed

lemma sat_add_greater: "sat_add t 1 \<noteq> - 1 \<Longrightarrow> t < sat_add t 1" for t :: u64
  using word_less_add_one [of t]
  by (cases "t = - 1") (auto simp: sat_add_def unsigned_minus_1_eq_mask mask_eq_exp_minus_1 split: if_splits)

lemma ids_fresh_begin_with_id:
  assumes "ids_fresh s"
  shows "ids_fresh (snd (begin_with_id t level s))"
proof (cases "map_of (txns s) t = None \<and> max (max (next_txn_id s) (sat_add t 1)) 1 \<noteq> - 1")
  case True
  let ?n = "max (max (next_txn_id s) (sat_add t 1)) 1"
  have "next_txn_id s \<noteq> - 1" "sat_add t 1 \<noteq> - 1"
    using True by (metis max.absorb1 max.absorb2 word_order.extremum)+
  then have "u < ?n" if "u \<in> insert t (registered s)" for u
    using that assms sat_add_greater [of t] by (auto simp: ids_fresh_def less_max_iff_disj)
  with True assms show ?thesis by (simp add: begin_with_id_def ids_fresh_def)
next
  case False
  with assms show ?thesis by (auto simp: begin_with_id_def ids_fresh_def)
qed

lemma sync_state: "\<exists>m. sync_next_row_ids rows s = s\<lparr>next_row_ids := m\<rparr>"
proof (induction rows s rule: sync_next_row_ids.induct)
  case (1 s)
  show ?case by (rule exI [of _ "next_row_ids s"]) simp
qed auto

lemma ids_fresh_counters [simp]:
  "ids_fresh (s\<lparr>next_commit_ts := a\<rparr>) = ids_fresh s" "ids_fresh (s\<lparr>next_row_ids := b\<rparr>) = ids_fresh s"
  by (simp_all add: ids_fresh_def registered_def keyed_def)

lemma lock_inv_start: "lock_inv (with_next_txn_id n)"
  by (simp add: with_next_txn_id_def lock_inv_def lock_wf_def holders_ok_def graph_ok_def registered_def
      locks_compatible_def no_deadlock_def queues_in_def waits_on_def wait_edges_def acyclic_def)

lemma lock_inv_begin_with_id: "lock_inv s \<Longrightarrow> lock_inv (snd (begin_with_id t level s))"
  by (auto simp: begin_with_id_def registered_def intro!: lock_inv_insert_txn)

lemma requests_sound:
  assumes "lock_inv s"
  shows "table_request.sound_result t s (acquire_table_lock t table mode s)"
    and "page_request.sound_result t s (acquire_page_write t p s)"
    and "predicate_request.sound_result t s (check_write_conflicts t table keys s)"
  using assms by (rule table_request.acquire_sound page_request.acquire_sound predicate_request.acquire_sound)+

lemmas sound_result_defs = table_request.sound_result_def page_request.sound_result_def
  predicate_request.sound_result_def

lemma quiet_inv: "quiet s s' \<Longrightarrow> lock_inv s \<Longrightarrow> ids_fresh s \<Longrightarrow> lock_inv s' \<and> ids_fresh s'"
  using lock_inv_quiet ids_fresh_quiet by blast

lemma requests_inv:
  assumes "lock_inv s" "ids_fresh s"
  shows "lock_inv (snd (acquire_table_lock t table mode s)) \<and> ids_fresh (snd (acquire_table_lock t table mode s))"
    and "lock_inv (snd (acquire_page_write t p s)) \<and> ids_fresh (snd (acquire_page_write t p s))"
    and "lock_inv (snd (check_write_conflicts t table keys s)) \<and> ids_fresh (snd (check_write_conflicts t table keys s))"
  using requests_sound [OF assms(1)] spares_ids [OF _ assms(2)] unfolding sound_result_defs by blast+

lemma step_inv:
  assumes "tm_step s s'" "lock_inv s" "ids_fresh s"
  shows "lock_inv s' \<and> ids_fresh s'"
  using assms(1)
proof cases
  case (begin_step level)
  with assms(2,3) begin_fresh [of s] show ?thesis
    by (auto simp: ids_fresh_begin) (auto simp: tm_begin_def Let_def intro!: lock_inv_insert_txn)
next
  case (purge_step horizon)
  have "registered (purge_finished_transactions_up_to horizon s) \<subseteq> registered s"
    by (auto simp: registered_def purge_finished_transactions_up_to_def hm_retain_def dom_map_of_conv_image_fst)
  moreover have "keyed (purge_finished_transactions_up_to horizon s)"
    using assms(2,3) keyedD [of s]
    by (intro keyedI) (auto simp: ids_fresh_def purge_finished_transactions_up_to_def
        lock_inv_def lock_wf_def holders_ok_def hm_get_retain split: option.splits if_splits)
  ultimately show ?thesis
    using purge_step assms(2,3)
    by (auto simp: lock_inv_purge ids_fresh_def) (auto simp: purge_finished_transactions_up_to_def)
next
  case (release_step t)
  with assms(2,3) show ?thesis
    by (cases "map_of (txns s) t")
      (auto simp: lock_inv_release_op, auto simp: release_transaction_resources_def tm_get_def sbind_def ids_fresh_def keyed_def)
next
  case (predicate_lock_step lock t)
  with assms(2,3) show ?thesis
    by (cases "map_of (txns s) t")
      (auto simp: lock_inv_predicate_lock, auto simp: acquire_predicate_lock_def tm_isolation_level_def
        tm_get_def sbind_def ids_fresh_def keyed_def registered_def)
next
  case (reserve_step t)
  with assms(2,3) reserve_state [of t s] show ?thesis by auto
next
  case (allocate_step t table fb)
  with assms(2,3) allocate_state [of t table fb s] show ?thesis by auto
next
  case (sync_step rows)
  with assms(2,3) sync_state [of rows s] show ?thesis by auto
qed (simp_all add: quiet_inv [OF quiet_ops(1)] quiet_inv [OF quiet_ops(2)] quiet_inv [OF quiet_ops(3)]
    quiet_inv [OF quiet_ops(4)] quiet_inv [OF quiet_ops(5)] quiet_inv [OF quiet_ops(6)]
    quiet_inv [OF quiet_ops(7)] requests_inv lock_inv_begin_with_id ids_fresh_begin_with_id
    lock_inv_complete_purge ids_fresh_complete_purge assms(2,3))

lemma reachable_inv: "reachable s \<Longrightarrow> lock_inv s \<and> ids_fresh s"
proof (induction rule: reachable.induct)
  case (start n)
  show ?case using lock_inv_start by (simp add: ids_fresh_def keyed_def registered_def) (simp add: with_next_txn_id_def)
next
  case (step s s')
  then show ?case using step_inv by blast
qed

section \<open>What a grant means\<close>

lemma acquire_table_lock_Ok:
  "acquire_table_lock t table mode s = (Ok (), s') \<Longrightarrow>
     \<exists>s0. table_lock_attempt t table mode s0 = (Ok Granted, s')"
  by (induction t table mode s rule: acquire_table_lock.induct)
    (subst (asm) (2) acquire_table_lock.simps, auto split: prod.splits result.splits attempt.splits)

lemma acquire_page_write_Ok:
  "acquire_page_write t p s = (Ok (), s') \<Longrightarrow> \<exists>s0. page_write_attempt t p s0 = (Ok Granted, s')"
  by (induction t p s rule: acquire_page_write.induct)
    (subst (asm) (2) acquire_page_write.simps, auto split: prod.splits result.splits attempt.splits)

lemma check_write_conflicts_Ok:
  "check_write_conflicts t table keys s = (Ok (), s') \<Longrightarrow>
     \<exists>s0. predicate_write_attempt t table keys s0 = (Ok Granted, s')"
  by (induction t table keys s rule: check_write_conflicts.induct)
    (subst (asm) (2) check_write_conflicts.simps, auto split: prod.splits result.splits attempt.splits)

lemma wait_or_retry_not_Granted: "wait_or_retry t ctx bs w s \<noteq> (Ok Granted, s')"
  by (auto simp: wait_or_retry_def sbind_def split: prod.split result.split if_splits)

lemma table_attempt_Granted:
  "table_lock_attempt t table mode s = (Ok Granted, s') \<Longrightarrow> s' = grant_table t table mode s"
  by (auto simp: table_lock_attempt_def sbind_def Let_def grant_table_def wait_or_retry_not_Granted
      split: result.splits option.splits if_splits)

lemma page_attempt_Granted: "page_write_attempt t p s = (Ok Granted, s') \<Longrightarrow> s' = grant_page t p s"
  by (auto simp: page_write_attempt_def sbind_def Let_def grant_page_def wait_or_retry_not_Granted
      dequeue_front_waiter_def split: result.splits option.splits if_splits)

lemma predicate_attempt_Granted:
  assumes "predicate_write_attempt t table keys s = (Ok Granted, s')"
  shows "s' = grant_predicate t (predicate_write_key_of table keys) s"
    and "conflicting_predicate_lock_txns t table keys s = Ok []"
  using assms
  by (auto simp: predicate_write_attempt_def sbind_def Let_def grant_predicate_def wait_or_retry_not_Granted
      split: result.splits option.splits if_splits)

lemma upsert_lock_held:
  "\<exists>l \<in> set (upsert_lock t table mode ls). tl_txn_id l = t \<and> tl_table l = table \<and>
     mode_rank mode \<le> mode_rank (tl_mode l)"
  by (induction ls) auto

lemma conflict_loop_complete:
  assumes "conflict_loop holder table_of conflicts t table s locks bs = Ok bs'"
    "l \<in> set locks" "holder l \<noteq> t" "table_of l = table" "active s (holder l)" "conflicts l"
  shows "holder l \<in> set bs'"
proof -
  have mono: "conflict_loop holder table_of conflicts t table s locks bs = Ok bs' \<Longrightarrow> set bs \<subseteq> set bs'"
    for locks bs
    by (induction locks arbitrary: bs) (fastforce simp: rbind_eq_Ok split: if_splits)+
  show ?thesis
    using assms
  proof (induction locks arbitrary: bs)
    case (Cons k locks)
    show ?case
    proof (cases "l = k")
      case True
      with Cons.prems have "conflict_loop holder table_of conflicts t table s locks (bs_insert (holder l) bs) = Ok bs'"
        by (auto simp: rbind_eq_Ok tm_get_def active_iff)
      from mono [OF this] show ?thesis by simp
    next
      case False
      with Cons.prems(2) have l: "l \<in> set locks" by simp
      obtain bs0 where "conflict_loop holder table_of conflicts t table s locks bs0 = Ok bs'"
        using Cons.prems(1) by (auto simp: rbind_eq_Ok split: if_splits)
      from Cons.IH [OF this l Cons.prems(3-6)] show ?thesis .
    qed
  qed simp
qed

section \<open>Releasing everything\<close>

definition strip_queue :: "txn_id \<Rightarrow> txn_id list option \<Rightarrow> txn_id list option" where
  "strip_queue t o_q = (case o_q of None \<Rightarrow> None | Some q \<Rightarrow>
     if filter (\<lambda>x. x \<noteq> t) q = [] then None else Some (filter (\<lambda>x. x \<noteq> t) q))"

lemma strip_queue_idem [simp]: "strip_queue t (strip_queue t o_q) = strip_queue t o_q"
  by (auto simp: strip_queue_def split: option.split)

lemma map_of_retain_key: "map_of (queue_retain_key t k m) = (map_of m)(k := strip_queue t (map_of m k))"
  by (auto simp: queue_retain_key_def strip_queue_def Let_def fun_eq_iff split: option.split)

lemma map_of_fold_retain:
  "map_of (fold (queue_retain_key t) ks m) k = (if k \<in> set ks then strip_queue t (map_of m k) else map_of m k)"
  by (induction ks arbitrary: m) (auto simp: map_of_retain_key)

lemma queue_drop_gone: "queues_in (- {t}) (queue_drop t m)"
  unfolding queues_in_def
proof (intro allI impI)
  fix k q
  assume q: "map_of (queue_drop t m) k = Some q"
  show "set q \<subseteq> - {t}"
  proof (cases "k \<in> set (map fst (filter (\<lambda>(_, q). t \<in> set q) m))")
    case True
    then have "strip_queue t (map_of m k) = Some q" using q by (simp add: queue_drop_def map_of_fold_retain)
    then show ?thesis by (auto simp: strip_queue_def split: option.splits if_splits)
  next
    case False
    then have "map_of m k = Some q" using q by (simp add: queue_drop_def map_of_fold_retain del: set_map)
    then have "(k, q) \<in> set m" by (rule map_of_SomeD)
    with False show ?thesis by force
  qed
qed

lemma idle_after_release:
  assumes "lock_wf s"
  shows "idle (release_resources t s) t"
proof -
  have "hm_wf (page_write_owners s)" using assms by (simp add: lock_wf_def holders_ok_def)
  then have "holdings (release_resources t s) t = ([], [], {})"
    by (auto simp: holdings_def filter_empty_conv hm_get_retain split: option.splits)
  with assms show ?thesis
    by (simp add: idle_def queue_drop_gone graph_release lock_wf_def)
qed

section \<open>The choice of the victim\<close>

lemma key_less_trans: "key_less a b \<Longrightarrow> key_less b c \<Longrightarrow> key_less a c"
  by (cases a; cases b; cases c) (auto simp: key_less_def)

lemma key_less_le_trans: "key_less a b \<Longrightarrow> \<not> key_less c b \<Longrightarrow> key_less a c"
  by (cases a; cases b; cases c) (auto simp: key_less_def)

lemma min_by_least:
  "min_by xs = Some a \<Longrightarrow> \<exists>k. (a, k) \<in> set xs \<and> (\<forall>y \<in> set xs. \<not> key_less (snd y) k)"
proof (induction xs rule: min_by.induct)
  case (2 x)
  then show ?case by (cases x) (auto simp: key_less_def)
next
  case (3 x y rest)
  show ?case
  proof (cases "key_less (snd y) (snd x)")
    case True
    with 3 obtain k where k: "(a, k) \<in> set (y # rest)" "\<forall>z \<in> set (y # rest). \<not> key_less (snd z) k" by auto
    have "\<not> key_less (snd x) k" using k(2) key_less_trans [OF True, of k] by auto
    with k show ?thesis by (intro exI [of _ k]) simp
  next
    case False
    with 3 obtain k where k: "(a, k) \<in> set (x # rest)" "\<forall>z \<in> set (x # rest). \<not> key_less (snd z) k" by auto
    have "\<not> key_less (snd y) k" using k(2) False key_less_le_trans [of "snd y" k "snd x"] by auto
    with k show ?thesis by (intro exI [of _ k]) auto
  qed
qed simp

end
