(* ===== verification/V2_Lock_Properties.thy ===== *)
theory V2_Lock_Properties
  imports V2_Deadlock
begin

text \<open>
  The properties of the lock manager: what holds in every state the manager can reach, what a
  granted request means, what a release leaves behind, and how a deadlock victim is chosen. Their
  proofs are the laws of \<open>V2_Deadlock\<close>; the witnesses run the manager on two transactions.
\<close>

section \<open>Invariants of reachable states\<close>

text \<open>
  Property C27: the depth-first search of the wait-for graph is exact. \<open>has_wait_path\<close>, started with
  no visited transaction, answers true exactly when the target can be reached from the start along
  wait-for edges, on every graph, cyclic ones included.
\<close>

theorem has_wait_path_exact:
  "fst (has_wait_path g target [] current) \<longleftrightarrow> (current, target) \<in> {(a, b). b \<in> set (successors g a)}\<^sup>*"
  using has_wait_path_iff by (simp add: wait_edges_def)

text \<open>
  Property C6: the lock manager never keeps a deadlock. In every reachable state, whatever requests
  were granted, queued, refused or resolved by aborting a victim, the wait-for graph has no cycle.
\<close>

theorem reachable_never_deadlocked:
  assumes "reachable s"
  shows "acyclic {(a, b). b \<in> set (successors (waits_for s) a)}"
  using reachable_inv [OF assms] by (simp add: lock_inv_def no_deadlock_def wait_edges_def)

text \<open>
  Property C7: table locks exclude each other. In every reachable state, two different active
  transactions that hold locks on the same table hold compatible modes; so at most one active
  transaction holds an exclusive lock, and then no other holds any lock on the table.
\<close>

theorem reachable_table_locks_exclude:
  assumes "reachable s"
    and "l \<in> set (table_locks s)" and "l' \<in> set (table_locks s)" and "tl_table l = tl_table l'"
    and "tl_txn_id l \<noteq> tl_txn_id l'"
    and "tm_txn_status (tl_txn_id l) s = Ok Active" and "tm_txn_status (tl_txn_id l') s = Ok Active"
  shows "tl_mode l \<noteq> Exclusive \<and> tl_mode l' \<noteq> Exclusive"
proof -
  have "locks_compatible s" using reachable_inv [OF assms(1)] by (simp add: lock_inv_def)
  then have "\<not> table_lock_modes_conflict (tl_mode l) (tl_mode l')"
    using assms(2-7) unfolding locks_compatible_def active_def by blast
  then show ?thesis by (cases "tl_mode l"; cases "tl_mode l'") simp_all
qed


section \<open>Grants and releases\<close>

lemma table_lock_held:
  assumes "acquire_table_lock t table mode s = (Ok (), s')"
  shows "\<exists>l \<in> set (table_locks s'). tl_txn_id l = t \<and> tl_table l = table \<and> mode_rank mode \<le> mode_rank (tl_mode l)"
proof -
  obtain s0 where "s' = grant_table t table mode s0"
    using acquire_table_lock_Ok [OF assms] table_attempt_Granted by blast
  then show ?thesis
    using upsert_lock_held by (simp add: grant_table_def upsert_table_lock_def edge_defs queue_op_defs)
qed

lemma release_epoch: "lock_wait_epoch (release_resources t s) = lock_wait_epoch s + 1"
proof -
  have "lock_wait_epoch (fold (drop_dependency t) us s) = lock_wait_epoch s" for us s
    by (induction us arbitrary: s) (simp_all add: drop_dependency_def refresh_waits_for_def Let_def)
  then show ?thesis by (simp add: release_simps)
qed

lemma queue_front_drop:
  assumes "queue_front k m = Some t" "t \<noteq> b"
  shows "queue_front k (queue_drop b m) = Some t"
proof -
  obtain q where "map_of m k = Some (t # q)"
    using assms(1) by (auto simp: queue_front_def split: option.splits list.splits)
  with assms(2) show ?thesis by (simp add: queue_front_def queue_drop_def map_of_fold_retain strip_queue_def)
qed

text \<open>
  Property C34: a released table lock goes to the first in the queue. When the only active transaction
  whose lock on the table conflicts with the request releases everything, the lock epoch moves, which wakes the
  sleeping sessions, and the transaction at the front of the queue gets its lock at the next attempt and
  holds it in at least the mode it asked for.
\<close>

theorem released_table_lock_goes_to_first_waiter:
  assumes "reachable s" "tm_txn_status t s = Ok Active" "t \<noteq> b"
    "queue_front table (table_wait_queues s) = Some t"
    "\<forall>l \<in> set (table_locks s). tl_table l = table \<and> tl_txn_id l \<noteq> t \<and> tl_txn_id l \<noteq> b \<longrightarrow>
      tm_txn_status (tl_txn_id l) s \<noteq> Ok Active \<or> \<not> table_lock_modes_conflict (tl_mode l) mode"
    "release_transaction_resources b s = (Ok (), s1)"
  shows "lock_wait_epoch s1 \<noteq> lock_wait_epoch s \<and>
    (\<exists>s2. acquire_table_lock t table mode s1 = (Ok (), s2) \<and>
      (\<exists>l \<in> set (table_locks s2). tl_txn_id l = t \<and> tl_table l = table \<and> mode_rank mode \<le> mode_rank (tl_mode l)))"
proof -
  have s1: "s1 = release_resources b s"
    using assms(6) by (auto simp: release_transaction_resources_def sbind_def tm_get_def split: result.splits)
  have "lock_inv s" using reachable_inv [OF assms(1)] by simp
  then have "holders_ok s1" unfolding s1 by (intro holders_ok_release) (simp add: lock_inv_def lock_wf_def)
  then obtain bs where bs: "conflicting_table_lock_txns t table mode s1 = Ok bs"
    "set bs = tl_txn_id ` {l \<in> set (table_locks s1). tl_txn_id l \<noteq> t \<and> tl_table l = table \<and>
      active s1 (tl_txn_id l) \<and> table_lock_modes_conflict (tl_mode l) mode}"
    by (rule conflicting_table_Ok)
  have status: "tm_txn_status u s1 = tm_txn_status u s" for u by (simp add: s1 tm_txn_status_def tm_get_def)
  have "set bs = {}" unfolding bs(2) using assms(5) by (auto simp: s1 active_def status [unfolded s1])
  moreover have "ensure_active t s1 = Ok ()"
    using assms(2) status by (cases rule: ensure_active_cases [of t s1]) simp_all
  moreover have "queue_front table (table_wait_queues s1) = Some t"
    using queue_front_drop [OF assms(4,3)] by (simp add: s1)
  ultimately obtain s2 where "acquire_table_lock t table mode s1 = (Ok (), s2)"
    using bs(1) by (simp add: acquire_table_lock.simps [of t table mode s1] table_lock_attempt_def Let_def sbind_def)
  moreover have "lock_wait_epoch s1 \<noteq> lock_wait_epoch s" by (simp add: s1 release_epoch)
  ultimately show ?thesis using table_lock_held by blast
qed

text \<open>
  No phantom is written. When \<open>check_write_conflicts\<close> lets a write of the index keys
  pass, no predicate lock (record, gap, next-key or table) of another active transaction on the
  table covers one of the keys.
\<close>

lemma write_passes_only_without_conflict:
  assumes "check_write_conflicts t table keys s = (Ok (), s')"
    and "lock \<in> set (predicate_locks s')" and "pl_table lock = table" and "pl_txn_id lock \<noteq> t"
    and "tm_txn_status (pl_txn_id lock) s' = Ok Active"
  shows "\<not> predicate_lock_conflicts lock keys"
proof
  assume conflict: "predicate_lock_conflicts lock keys"
  obtain s0 where s0: "s' = grant_predicate t (predicate_write_key_of table keys) s0"
      "conflicting_predicate_lock_txns t table keys s0 = Ok []"
    using check_write_conflicts_Ok [OF assms(1)] predicate_attempt_Granted by blast
  have "predicate_locks s' = predicate_locks s0"
    by (simp add: s0(1) grant_predicate_def edge_defs queue_op_defs)
  moreover have "active s0 (pl_txn_id lock)" using assms(5) s0(1) by (simp add: active_def [symmetric])
  ultimately have "pl_txn_id lock \<in> set []"
    using conflict_loop_complete [OF s0(2) [unfolded conflicting_predicate_lock_txns_def], of lock]
      assms(2-4) conflict by simp
  then show False by simp
qed

text \<open>
  Property C28: releasing a transaction leaves no trace of it. After \<open>release_transaction_resources\<close> in
  a reachable state it holds no table, predicate or page lock, stands in no queue, waits for nobody,
  and nobody waits for it; so it can be purged without stranding anyone.
\<close>

theorem release_leaves_no_trace:
  assumes "reachable s" and "release_transaction_resources t s = (Ok (), s')"
  shows "holdings s' t = ([], [], {}) \<and> successors (waits_for s') t = [] \<and>
    (\<forall>u. t \<notin> set (successors (waits_for s') u)) \<and>
    (\<forall>k q. map_of (table_wait_queues s') k = Some q \<longrightarrow> t \<notin> set q) \<and>
    (\<forall>k q. map_of (page_write_wait_queues s') k = Some q \<longrightarrow> t \<notin> set q) \<and>
    (\<forall>k q. map_of (predicate_write_wait_queues s') k = Some q \<longrightarrow> t \<notin> set q)"
proof -
  have inv: "lock_inv s" using reachable_inv [OF assms(1)] by simp
  have s': "s' = release_resources t s"
    using assms(2) by (auto simp: release_transaction_resources_def sbind_def tm_get_def split: result.splits)
  with inv have "idle s' t" using idle_after_release by (simp add: lock_inv_def)
  moreover have "waits_set s' u = waits_on s' u" for u
    using lock_inv_release [OF inv, of t] s' by (simp add: lock_inv_def lock_wf_def graph_ok_def)
  ultimately have "waits_set s' t = {}" "\<forall>u. t \<notin> waits_set s' u" "idle s' t"
    by (simp_all add: idle_def)
  then show ?thesis by (auto simp: idle_def queues_in_def)
qed

text \<open>
  The victim of a deadlock is a cheapest member of the cycle. The chosen transaction lies
  on the cycle through the requester, and no other member has a smaller key (rollback cost first,
  then the youngest, then the requester itself).
\<close>

lemma victim_is_cheapest_on_cycle:
  assumes "choose_deadlock_victim requester blocker s = Ok (Some victim)"
    and "wait_path (waits_for s) blocker requester = Some path"
  shows "victim \<in> insert requester (set path) \<and>
    (\<exists>kv. victim_key s requester victim = Ok kv \<and>
      (\<forall>x \<in> insert requester (set path). \<exists>kx. victim_key s requester x = Ok kx \<and> \<not> key_less kx kv))"
proof -
  let ?cycle = "remdups_adj (sort (path @ [requester]))"
  obtain keys where keys: "list_all2 (\<lambda>x k. victim_key s requester x = Ok k) ?cycle keys"
      and "min_by (zip ?cycle keys) = Some victim"
    using assms by (auto simp: choose_deadlock_victim_def Let_def rbind_eq_Ok collect_results_eq_Ok)
  from min_by_least [OF this(2)] obtain kv
    where kv: "(victim, kv) \<in> set (zip ?cycle keys)" "\<forall>y \<in> set (zip ?cycle keys). \<not> key_less (snd y) kv"
    by blast
  have key: "victim_key s requester x = Ok k" if "(x, k) \<in> set (zip ?cycle keys)" for x k
    using keys that by (auto simp: list_all2_iff)
  show ?thesis
  proof (rule conjI, use set_zip_leftD [OF kv(1)] in simp, rule exI [of _ kv], intro conjI ballI)
    show "victim_key s requester victim = Ok kv" using key [OF kv(1)] .
    fix x
    assume "x \<in> insert requester (set path)"
    then have "x \<in> set ?cycle" by simp
    then obtain k where k: "(x, k) \<in> set (zip ?cycle keys)"
      using list_all2_lengthD [OF keys] by (metis in_set_impl_in_set_zip1)
    then show "\<exists>kx. victim_key s requester x = Ok kx \<and> \<not> key_less kx kv"
      using key [OF k] bspec [OF kv(2) k] by simp
  qed
qed

section \<open>A gap in the range locks\<close>

text \<open>
  A range bound with an ordering operator matches no \<open>REAL\<close> and no \<open>BLOB\<close>, because \<open>compare_values\<close> is
  undefined on them: a serializable range lock on such an index column conflicts with no write.
\<close>

lemma real_key_escapes_range_lock:
  assumes "op \<in> {Gt, Gte, Lt, Lte}" and "key ! length pre \<in> range Real \<union> range Blob"
  shows "\<not> predicate_lock_conflicts
    \<lparr>pl_txn_id = t, pl_table = table, pl_index = Some index, pl_kind = NextKey pre (Some (op, v)) upper\<rparr>
    [(index, key)]"
proof -
  have "compare_values (key ! length pre) v = None"
    using assms(2) by (auto simp: compare_values_None_iff)
  with assms(1) show ?thesis
    by (auto simp: predicate_lock_conflicts_def range_conflicts_def matches_bounds_def)
qed

section \<open>Witnesses\<close>

text \<open>Two transactions on one manager, a table \<open>t\<close>, a page and a serializable predicate lock.\<close>

definition demo_two :: txn_manager where
  "demo_two = snd (tm_begin Serializable (snd (tm_begin Serializable new_txn_manager)))"

definition demo_shared :: txn_manager where
  "demo_shared = snd (acquire_table_lock 2 ''t'' IntentionWrite
     (snd (acquire_table_lock 1 ''t'' IntentionRead demo_two)))"

text \<open>Transaction 2 waits for page 7 of transaction 1, which then asks for page 8 of transaction 2.\<close>

definition demo_waiting :: txn_manager where
  "demo_waiting = snd (acquire_page_write 2 7 (snd (acquire_page_write 2 8 (snd (acquire_page_write 1 7 demo_two)))))"

lemma reachable_demo_two: "reachable demo_two"
proof -
  have 0: "reachable new_txn_manager" unfolding new_txn_manager_def by (rule start)
  have 1: "reachable (snd (tm_begin Serializable new_txn_manager))"
    by (rule step [OF 0 begin_step]) code_simp
  show ?thesis unfolding demo_two_def by (rule step [OF 1 begin_step]) code_simp
qed

lemma reachable_demo_shared: "reachable demo_shared"
  unfolding demo_shared_def by (intro step [OF _ table_lock_step] reachable_demo_two)

lemma reachable_demo_waiting: "reachable demo_waiting"
  unfolding demo_waiting_def by (intro step [OF _ page_write_step] reachable_demo_two)

theorem reachable_never_deadlocked_witness:
  "acyclic {(a, b). b \<in> set (successors (waits_for demo_waiting) a)}"
  using reachable_never_deadlocked [OF reachable_demo_waiting] .

theorem reachable_table_locks_exclude_witness:
  "tl_mode \<lparr>tl_txn_id = 1, tl_table = ''t'', tl_mode = IntentionRead\<rparr> \<noteq> Exclusive"
proof -
  have "\<lparr>tl_txn_id = 1, tl_table = ''t'', tl_mode = IntentionRead\<rparr> \<in> set (table_locks demo_shared)"
    "\<lparr>tl_txn_id = 2, tl_table = ''t'', tl_mode = IntentionWrite\<rparr> \<in> set (table_locks demo_shared)"
    "tm_txn_status 1 demo_shared = Ok Active" "tm_txn_status 2 demo_shared = Ok Active"
    by code_simp+
  then show ?thesis
    using reachable_table_locks_exclude [OF reachable_demo_shared,
        of "\<lparr>tl_txn_id = 1, tl_table = ''t'', tl_mode = IntentionRead\<rparr>"
          "\<lparr>tl_txn_id = 2, tl_table = ''t'', tl_mode = IntentionWrite\<rparr>"] by simp
qed


text \<open>Transaction 1 holds the table exclusively, transaction 2 waits for it.\<close>

definition demo_queued :: txn_manager where
  "demo_queued = snd (acquire_table_lock 2 ''t'' Exclusive (snd (acquire_table_lock 1 ''t'' Exclusive demo_two)))"

theorem released_table_lock_goes_to_first_waiter_witness:
  "\<exists>s1 s2. release_transaction_resources 1 demo_queued = (Ok (), s1) \<and>
     acquire_table_lock 2 ''t'' Exclusive s1 = (Ok (), s2)"
proof -
  have reach: "reachable demo_queued"
    unfolding demo_queued_def by (intro step [OF _ table_lock_step] reachable_demo_two)
  have facts: "tm_txn_status 2 demo_queued = Ok Active" "queue_front ''t'' (table_wait_queues demo_queued) = Some 2"
    "list_all (\<lambda>l. tl_txn_id l = 1) (table_locks demo_queued)"
    "fst (release_transaction_resources 1 demo_queued) = Ok ()"
    by (code_simp, code_simp, code_simp, code_simp)
  obtain s1 where s1: "release_transaction_resources 1 demo_queued = (Ok (), s1)"
    using facts(4) by (metis prod.collapse)
  show ?thesis
    using released_table_lock_goes_to_first_waiter [OF reach facts(1) _ facts(2) _ s1, of Exclusive] facts(3) s1
    by (auto simp: list_all_iff)
qed

definition demo_predicate :: txn_manager where
  "demo_predicate = snd (acquire_record_lock 1 ''t'' ''i'' [Integer 5] demo_two)"

lemma write_passes_only_without_conflict_witness:
  "\<not> predicate_lock_conflicts
     \<lparr>pl_txn_id = 1, pl_table = ''t'', pl_index = Some ''i'', pl_kind = RecordLock [Integer 5]\<rparr>
     [(''i'', [Integer 6])]"
proof -
  let ?s = "snd (check_write_conflicts 2 ''t'' [(''i'', [Integer 6])] demo_predicate)"
  have "fst (check_write_conflicts 2 ''t'' [(''i'', [Integer 6])] demo_predicate) = Ok ()"
    "\<lparr>pl_txn_id = 1, pl_table = ''t'', pl_index = Some ''i'', pl_kind = RecordLock [Integer 5]\<rparr>
       \<in> set (predicate_locks ?s)"
    "tm_txn_status 1 ?s = Ok Active"
    by code_simp+
  then show ?thesis
    using write_passes_only_without_conflict [of 2 "''t''" "[(''i'', [Integer 6])]" demo_predicate ?s
        "\<lparr>pl_txn_id = 1, pl_table = ''t'', pl_index = Some ''i'', pl_kind = RecordLock [Integer 5]\<rparr>"]
    by (simp add: prod_eq_iff)
qed

theorem release_leaves_no_trace_witness:
  "holdings (snd (release_transaction_resources 2 demo_waiting)) 2 = ([], [], {})"
proof -
  have "fst (release_transaction_resources 2 demo_waiting) = Ok ()" by code_simp
  then show ?thesis
    using release_leaves_no_trace [OF reachable_demo_waiting, of 2] by (metis prod.collapse)
qed

text \<open>Transaction 1 asks for page 8, so that both wait for each other.\<close>

definition demo_cycle :: txn_manager where
  "demo_cycle = set_page_wait_edges 1 [2] demo_waiting"

lemma victim_is_cheapest_on_cycle_witness:
  "\<exists>kv. victim_key demo_cycle 1 2 = Ok kv \<and>
     (\<forall>x \<in> {1, 2}. \<exists>kx. victim_key demo_cycle 1 x = Ok kx \<and> \<not> key_less kx kv)"
proof -
  have "choose_deadlock_victim 1 2 demo_cycle = Ok (Some 2)"
    "wait_path (waits_for demo_cycle) 2 1 = Some [2, 1]"
    by code_simp+
  from victim_is_cheapest_on_cycle [OF this] have
    "\<exists>kv. victim_key demo_cycle 1 2 = Ok kv \<and> (\<forall>x \<in> insert 1 (set [2, 1]).
       \<exists>kx. victim_key demo_cycle 1 x = Ok kx \<and> \<not> key_less kx kv)" by (rule conjunct2)
  moreover have "insert 1 (set [2, 1]) = {1, 2 :: txn_id}" by auto
  ultimately show ?thesis by (simp only:)
qed

end
