(* ===== verification/V2_Txn_Properties.thy ===== *)
theory V2_Txn_Properties
  imports V2_Lock_Properties
begin

text \<open>
  The properties of the transaction life cycle: which commits a snapshot includes, what the purge of
  finished transactions may drop, that a planned purge batch can be completed, and that row ids are
  never handed out twice.
\<close>

section \<open>Snapshots and commits\<close>

lemma set_active_list:
  "x \<in> set (active_list s) \<longleftrightarrow> tx_status x = Active \<and> (\<exists>k. (k, x) \<in> set (txns s))"
  by (force simp: active_list_def)

lemma active_ids:
  assumes "hm_wf (txns s)" "keyed s"
  shows "tx_id ` set (active_list s) = {t. active s t}"
proof (intro set_eqI iffI)
  fix t
  assume "t \<in> tx_id ` set (active_list s)"
  then obtain x k where x: "t = tx_id x" "tx_status x = Active" "(k, x) \<in> set (txns s)"
    by (auto simp: set_active_list)
  then have "map_of (txns s) k = Some x" using assms(1) by (simp add: hm_in_set_iff)
  with keyedD [OF assms(2) this] x show "t \<in> {t. active s t}" by (auto simp: active_iff)
next
  fix t
  assume "t \<in> {t. active s t}"
  then obtain x where x: "map_of (txns s) t = Some x" "tx_status x = Active" by (auto simp: active_iff)
  then have "x \<in> set (active_list s)" by (auto simp: set_active_list dest: map_of_SomeD)
  with keyedD [OF assms(2) x(1)] show "t \<in> tx_id ` set (active_list s)" by force
qed

text \<open>The snapshot taken by \<open>begin\<close> and by \<open>refresh_snapshot\<close>.\<close>

lemma begin_snapshot:
  assumes "tm_begin level s = (t, s')"
  shows "\<exists>x. map_of (txns s') t = Some x \<and> visible_up_to (tx_snapshot x) = next_commit_ts s \<and>
    set (active_txns (tx_snapshot x)) = tx_id ` set (active_list s)"
  using assms by (auto simp: tm_begin_def Let_def insert_txn_def active_list_def)

lemma commit_state:
  assumes "tm_commit t s = (Ok ts, s')"
  obtains x where "map_of (txns s) t = Some x" "tx_status x = Active" "ts = next_commit_ts s + 1"
    "s' = update_txn t (\<lambda>x. x\<lparr>tx_status := Committed, terminal_error := None, tx_commit_ts := Some ts,
       purge_records := filter is_delete_row (tx_undo_records x)\<rparr>) (s\<lparr>next_commit_ts := ts\<rparr>)"
proof (cases "map_of (txns s) t")
  case None
  with assms show thesis
    by (simp add: tm_commit_def reserve_commit_ts_def ensure_active_def tm_get_def sbind_def)
next
  case (Some x)
  with assms show thesis
    by (intro that [of x])
      (auto simp: tm_commit_def reserve_commit_ts_def finalize_commit_def ensure_active_def tm_get_def
        sbind_def Let_def split: if_splits)
qed


section \<open>Purging\<close>

lemma foldl_min_le: "x \<in> set (v # vs) \<Longrightarrow> foldl min v vs \<le> x" for v :: "'a::linorder"
proof (induction vs arbitrary: v)
  case (Cons a vs)
  have le: "foldl min w vs \<le> w" for w
    by (induction vs arbitrary: w) (simp, metis foldl_Cons min.bounded_iff)
  show ?case
  proof (cases "x \<in> {v, a}")
    case True
    have "min v a \<le> x" using True by auto
    with le [of "min v a"] have "foldl min (min v a) vs \<le> x" by (rule order_trans)
    then show ?thesis by simp
  next
    case False
    with Cons show ?thesis by auto
  qed
qed simp

lemma purge_horizon_le:
  assumes "x \<in> set (active_list s)"
  shows "purge_horizon s \<le> visible_up_to (tx_snapshot x)"
proof (cases "active_list s")
  case Nil
  with assms show ?thesis by simp
next
  case (Cons y ys)
  with assms have "visible_up_to (tx_snapshot x) \<in> set (map (\<lambda>x. visible_up_to (tx_snapshot x)) (y # ys))"
    by auto
  then show ?thesis
    using Cons foldl_min_le [of "visible_up_to (tx_snapshot x)"] by (auto simp: purge_horizon_def)
qed


text \<open>The records of one transaction in a batch, and what a transaction has left to purge.\<close>

definition batch_of :: "txn_id \<Rightarrow> (txn_id \<times> undo_record) list \<Rightarrow> undo_record list" where
  "batch_of t batch = map snd (filter (\<lambda>e. fst e = t) batch)"

definition to_purge :: "txn_manager \<Rightarrow> txn_id \<Rightarrow> undo_record list" where
  "to_purge s t = (case map_of (txns s) t of Some x \<Rightarrow> purge_records x | None \<Rightarrow> [])"

lemma batch_of_simps [simp]:
  "batch_of t [] = []" "batch_of t (e # es) = (if fst e = t then snd e # batch_of t es else batch_of t es)"
  by (simp_all add: batch_of_def)

lemma batch_of_append [simp]: "batch_of t (xs @ ys) = batch_of t xs @ batch_of t ys"
  by (simp add: batch_of_def)

lemma complete_purge_Ok:
  assumes "\<And>t. prefix (batch_of t batch) (to_purge s t)"
  shows "\<exists>s'. complete_purge_batch batch s = (Ok (), s') \<and>
    (\<forall>t. to_purge s' t = drop (length (batch_of t batch)) (to_purge s t))"
  using assms
proof (induction batch arbitrary: s)
  case (Cons e batch)
  obtain t r where e: "e = (t, r)" by (cases e)
  from Cons.prems [of t] obtain x rest
    where x: "map_of (txns s) t = Some x" "purge_records x = r # rest"
    by (auto simp: e to_purge_def prefix_def split: option.splits)
  let ?s = "update_txn t (\<lambda>x. x\<lparr>purge_records := rest\<rparr>) s"
  have upd: "to_purge ?s u = (if u = t then rest else to_purge s u)" for u
    using x by (simp add: to_purge_def update_txn_def)
  have "prefix (batch_of u batch) (to_purge ?s u)" for u
    using Cons.prems [of u] x unfolding upd by (auto simp: e to_purge_def split: if_splits)
  from Cons.IH [OF this] obtain s' where "complete_purge_batch batch ?s = (Ok (), s')"
      "\<forall>u. to_purge s' u = drop (length (batch_of u batch)) (to_purge ?s u)" by blast
  moreover have "complete_purge_batch (e # batch) s = complete_purge_batch batch ?s"
    using x by (simp add: e Let_def)
  moreover have "to_purge s t = r # rest" using x by (simp add: to_purge_def)
  ultimately show ?case by (intro exI [of _ s']) (auto simp: e upd)
qed simp

lemma plan_loop_take: "length planned \<le> limit \<Longrightarrow> plan_loop limit planned rs = planned @ take (limit - length planned) rs"
proof (induction limit planned rs rule: plan_loop.induct)
  case (2 limit planned r rs)
  then show ?case by (cases "length planned = limit") (auto simp: take_Cons' Suc_diff_le)
qed simp

lemma batch_of_records:
  "batch_of t (map (Pair u) rs) = (if t = u then rs else [])"
  by (induction rs) auto

lemma batch_of_concat:
  assumes "distinct (map tx_id xs)"
  shows "batch_of t (concat (map (\<lambda>x. map (Pair (tx_id x)) (purge_records x)) xs)) =
    (case find (\<lambda>x. tx_id x = t) xs of None \<Rightarrow> [] | Some x \<Rightarrow> purge_records x)"
  using assms
proof (induction xs)
  case (Cons x xs)
  have "find (\<lambda>y. tx_id y = tx_id x) xs = None"
    using Cons.prems by (auto simp: find_None_iff) (metis imageI)
  with Cons show ?case by (auto simp: batch_of_records)
qed simp

text \<open>
  A planned purge batch can be completed. The batch has at most \<open>limit\<close> records, all of
  transactions committed up to the horizon; \<open>complete_purge_batch\<close> on it succeeds, and afterwards
  every transaction is left with exactly the records that were not in the batch, in order.
\<close>

lemma planned_batch_completes:
  assumes "hm_wf (txns s)" and "keyed s" and "batch = planned_purge_batch horizon limit s"
  shows "length batch \<le> limit \<and>
    (\<exists>s'. complete_purge_batch batch s = (Ok (), s') \<and>
      (\<forall>t. to_purge s t = batch_of t batch @ to_purge s' t))"
proof -
  let ?p = "\<lambda>x. tx_status x = Committed \<and>
    (case tx_commit_ts x of Some ts \<Rightarrow> ts \<le> horizon | None \<Rightarrow> False) \<and> purge_records x \<noteq> []"
  define xs where "xs = sort_key (\<lambda>x. case tx_commit_ts x of Some ts \<Rightarrow> ts | None \<Rightarrow> - 1)
    (filter ?p (map snd (txns s)))"
  define all where "all = concat (map (\<lambda>x. map (Pair (tx_id x)) (purge_records x)) xs)"
  have batch: "batch = take limit all"
    using assms(3) by (simp add: planned_purge_batch_def plan_loop_take xs_def all_def Let_def)
  have stored: "tx_id x = k \<and> map_of (txns s) k = Some x" if "(k, x) \<in> set (txns s)" for k x
  proof -
    have "map_of (txns s) k = Some x" using that assms(1) by (simp add: hm_in_set_iff)
    with keyedD [OF assms(2) this] show ?thesis by simp
  qed
  have members: "map_of (txns s) (tx_id x) = Some x" if "x \<in> set xs" for x
    using that stored unfolding xs_def by fastforce
  have "map tx_id (map snd (txns s)) = map fst (txns s)" using stored by auto
  then have "distinct (map tx_id (map snd (txns s)))" using assms(1) unfolding hm_wf_def by (simp only:)
  then have "distinct (map tx_id (filter ?p (map snd (txns s))))" by (rule distinct_map_filter)
  then have dist: "distinct (map tx_id xs)"
    by (simp add: xs_def distinct_map)
  have "prefix (batch_of t batch) (to_purge s t)" for t
  proof -
    have "prefix (batch_of t batch) (batch_of t all)"
      by (metis append_take_drop_id batch batch_of_append prefixI)
    also have "prefix (batch_of t all) (to_purge s t)"
    proof (cases "find (\<lambda>x. tx_id x = t) xs")
      case (Some x)
      then have "x \<in> set xs" "tx_id x = t" by (auto simp: find_Some_iff)
      with members [of x] Some show ?thesis by (simp add: all_def batch_of_concat [OF dist] to_purge_def)
    qed (simp add: all_def batch_of_concat [OF dist])
    finally show ?thesis .
  qed
  from complete_purge_Ok [of batch s, OF this] obtain s' where s': "complete_purge_batch batch s = (Ok (), s')"
      "\<forall>t. to_purge s' t = drop (length (batch_of t batch)) (to_purge s t)" by blast
  have "to_purge s t = batch_of t batch @ to_purge s' t" for t
    using \<open>\<And>t. prefix (batch_of t batch) (to_purge s t)\<close> [of t] s'(2) by (auto simp: prefix_def)
  with s'(1) show ?thesis by (auto simp: batch)
qed

section \<open>Row ids\<close>

text \<open>
  Row ids are handed out once. Each id is at least 1 and at least the fallback of the
  caller, and a later allocation for the same table, by any transaction, gives a larger id (as long
  as the 64-bit counter has not run out).
\<close>

lemma row_ids_increase:
  assumes "allocate_row_id t table fallback s = (Ok r, s1)"
    and "allocate_row_id t' table fallback' s1 = (Ok r', s2)" and "r \<noteq> - 1"
  shows "1 \<le> r \<and> fallback \<le> r \<and> r < r'"
proof -
  have "map_of (next_row_ids s1) table = Some (r + 1)" "1 \<le> r" "fallback \<le> r"
    using assms(1)
    by (auto simp: allocate_row_id_def sbind_def Let_def max_def split: result.splits option.splits if_splits)
  moreover have "r + 1 \<le> r'"
    using assms(2) calculation(1)
    by (auto simp: allocate_row_id_def sbind_def Let_def max_def split: result.splits if_splits)
  moreover have "r < r + 1" using assms(3) by (rule word_less_add_one)
  ultimately show ?thesis by simp
qed

section \<open>Witnesses\<close>


definition demo_finished :: txn_manager where
  "demo_finished = snd (tm_abort 2 (snd (finalize_commit 1 1 (snd (reserve_commit_ts 1 demo_two)))))"


definition demo_history :: txn_manager where
  "demo_history = snd (finalize_commit 1 1 (snd (reserve_commit_ts 1
     (snd (record_undo 1 (DeleteRow ''t'' 5 [0]) demo_two)))))"

lemma reachable_demo_history: "reachable demo_history"
  unfolding demo_history_def
  by (intro step [OF _ finalize_step] step [OF _ reserve_step] step [OF _ undo_step] reachable_demo_two)

lemma planned_batch_completes_witness:
  "planned_purge_batch 1 8 demo_history = [(1, DeleteRow ''t'' 5 [0])] \<and>
   (\<exists>s'. complete_purge_batch [(1, DeleteRow ''t'' 5 [0])] demo_history = (Ok (), s'))"
proof -
  have batch: "planned_purge_batch 1 8 demo_history = [(1, DeleteRow ''t'' 5 [0])]" by code_simp
  have "hm_wf (txns demo_history)" "keyed demo_history"
    using reachable_inv [OF reachable_demo_history]
    by (simp_all add: lock_inv_def lock_wf_def holders_ok_def ids_fresh_def)
  from planned_batch_completes [OF this batch [symmetric]] batch show ?thesis by blast
qed

lemma row_ids_increase_witness:
  "\<exists>r r'. fst (allocate_row_id 1 ''t'' 0 demo_two) = Ok r \<and>
     fst (allocate_row_id 2 ''t'' 0 (snd (allocate_row_id 1 ''t'' 0 demo_two))) = Ok r' \<and> r < r'"
proof -
  let ?a = "allocate_row_id 1 ''t'' 0 demo_two"
  let ?b = "allocate_row_id 2 ''t'' 0 (snd ?a)"
  have r: "fst ?a = Ok 1" "fst ?b = Ok 2" by code_simp+
  then have "?a = (Ok 1, snd ?a)" "?b = (Ok 2, snd ?b)" by (simp_all add: prod_eq_iff)
  from row_ids_increase [OF this] r show ?thesis by simp
qed

end
