(* ===== verification/V2_Pager.thy ===== *)
theory V2_Pager
  imports V2_Wal V2_Txn_Properties
begin

text \<open>
  The pager of the paged engine, \<open>src/storage/v2/pager.rs\<close>: the database file and its write-ahead
  log as byte lists, raw page reads and writes, the page cache, the page writes of the open
  transactions with their before images, commit through the log, rollback, page allocation and
  recovery when a file is opened. The cache, the lock manager and the files are shared between
  sessions; what other threads do to them while this one sleeps in
  \<open>wait_for_page_write_lock\<close> is a list of changes in the state (\<open>pg_others\<close>). A wait that nobody
  ends has the outcome \<open>blocked\<close>, which like a panic is a call that does not return. Failures of the
  operating system other than a read past the end of a file are not represented.
\<close>

section \<open>Data\<close>

record page_write =
  pgw_before_image :: "byte list option"
  pgw_after_image :: "byte list"

record page_write_snapshot =
  pws_page_id :: page_id
  pws_before_image :: "byte list option"
  pws_after_image :: "byte list"

type_synonym txn_page_state = "(page_id, page_write) btmap"

record shared =
  sh_manager :: txn_manager
  sh_cache :: "(page_id, byte list) hmap"
  sh_db :: "byte list"
  sh_wal :: "byte list"

record pager =
  pg_shared :: shared
  pg_meta :: meta_page
  committed_page_count :: u32
  txn_page_states :: "(u64, txn_page_state) hmap"
  pg_others :: "(shared \<Rightarrow> shared) list"

type_synonym 'a pg_oper = "(pager, 'a) oper"

definition blocked :: "'a result" where
  "blocked = Panic ''waits for a lock that nobody releases''"

text \<open>Access to the shared parts.\<close>

definition cache_of :: "pager \<Rightarrow> (page_id, byte list) hmap" where
  "cache_of s = sh_cache (pg_shared s)"

definition update_shared :: "(shared \<Rightarrow> shared) \<Rightarrow> pager \<Rightarrow> pager" where
  "update_shared f s = s\<lparr>pg_shared := f (pg_shared s)\<rparr>"

definition update_cache :: "((page_id, byte list) hmap \<Rightarrow> (page_id, byte list) hmap) \<Rightarrow> pager \<Rightarrow> pager" where
  "update_cache f = update_shared (\<lambda>sh. sh\<lparr>sh_cache := f (sh_cache sh)\<rparr>)"

text \<open>A call of the shared transaction manager.\<close>

definition on_manager :: "'a tm_oper \<Rightarrow> 'a pg_oper" where
  "on_manager m s = (case m (sh_manager (pg_shared s)) of
     (r, tm) \<Rightarrow> (r, update_shared (\<lambda>sh. sh\<lparr>sh_manager := tm\<rparr>) s))"

section \<open>Raw pages\<close>

text \<open>Writing at an offset of a file: a gap behind the end is filled with zeros.\<close>

definition write_at :: "nat \<Rightarrow> byte list \<Rightarrow> byte list \<Rightarrow> byte list" where
  "write_at off data file =
     take off (file @ replicate (off - length file) 0) @ data @ drop (off + length data) file"

definition write_raw_page :: "page_id \<Rightarrow> byte list \<Rightarrow> byte list \<Rightarrow> byte list result" where
  "write_raw_page p page file =
     (if length page \<noteq> PAGE_SIZE
      then Err (Storage (''storage_v2 page writes require exactly '' @ show_nat PAGE_SIZE @ '' bytes''))
      else Ok (write_at (unat p * PAGE_SIZE) page file))"

definition read_raw_page :: "page_id \<Rightarrow> byte list \<Rightarrow> byte list result" where
  "read_raw_page p file =
     ok_or (Io ''failed to fill whole buffer'')
       (get_range (unat p * PAGE_SIZE) (unat p * PAGE_SIZE + PAGE_SIZE) file)"

section \<open>Errors\<close>

definition is_deadlock_error :: "db_error \<Rightarrow> bool" where
  "is_deadlock_error e = str_contains (db_error_to_string e) ''deadlock''"

definition is_waitable_lock_error :: "db_error \<Rightarrow> bool" where
  "is_waitable_lock_error e =
     (let message = db_error_to_string e in
      str_contains message ''page write conflict'' \<or> str_contains message ''page write wait'' \<or>
      str_contains message ''serializable conflict'' \<or> str_contains message ''predicate write wait'')"

section \<open>Opening\<close>

definition bootstrap_meta :: meta_page where
  "bootstrap_meta = \<lparr>mp_page_size = word_of_nat PAGE_SIZE, mp_page_count = 2, mp_catalog_page_id = 1,
     mp_next_txn_id = 1\<rparr>"

text \<open>The files of a new database: \<open>(meta, database file, log file)\<close>.\<close>

definition bootstrap_new_file :: "(meta_page \<times> byte list \<times> byte list) result" where
  "bootstrap_new_file =
     rbind (write_raw_page 0 (meta_encode bootstrap_meta) []) (\<lambda>db1.
     rbind (encode_payload_page Catalog []) (\<lambda>catalog_page.
     rbind (write_raw_page 1 catalog_page db1) (\<lambda>db2.
       Ok (bootstrap_meta, db2, []))))"

fun apply_frames :: "wal_frame list \<Rightarrow> byte list \<Rightarrow> unit result \<times> byte list" where
  "apply_frames [] db = (Ok (), db)"
| "apply_frames (f # fs) db =
     (case write_raw_page (wf_page_id f) (wf_page_bytes f) db of
        Ok db' \<Rightarrow> apply_frames fs db'
      | Err e \<Rightarrow> (Err e, db)
      | Panic q \<Rightarrow> (Panic q, db))"

text \<open>Recovery: the outcome and the two files afterwards; \<open>None\<close> is a log file that does not exist.\<close>

definition load_meta_and_recover ::
    "byte list \<Rightarrow> byte list option \<Rightarrow> meta_page result \<times> byte list \<times> byte list option" where
  "load_meta_and_recover db wal =
     (case wal of
        None \<Rightarrow> (rbind (read_raw_page 0 db) meta_decode, db, None)
      | Some log \<Rightarrow>
          (case recover_frames log of
             Err e \<Rightarrow> (Err e, db, wal)
           | Panic q \<Rightarrow> (Panic q, db, wal)
           | Ok frames \<Rightarrow>
               (case apply_frames frames db of
                  (Err e, db') \<Rightarrow> (Err e, db', wal)
                | (Panic q, db') \<Rightarrow> (Panic q, db', wal)
                | (Ok _, db') \<Rightarrow> (rbind (read_raw_page 0 db') meta_decode, db', Some []))))"

text \<open>\<open>Pager::open\<close> with the cache registered for the path, if there is one.\<close>

definition pager_open ::
    "byte list option \<Rightarrow> byte list option \<Rightarrow> (page_id, byte list) hmap option \<Rightarrow> (shared \<Rightarrow> shared) list \<Rightarrow>
      pager result" where
  "pager_open db wal cache others =
     rbind (case db of
         Some file \<Rightarrow>
           (case load_meta_and_recover file wal of
              (r, db', wal') \<Rightarrow> rbind r (\<lambda>meta. Ok (meta, db', case wal' of Some w \<Rightarrow> w | None \<Rightarrow> [])))
       | None \<Rightarrow> bootstrap_new_file)
       (\<lambda>(meta, db', wal'). Ok \<lparr>
          pg_shared = \<lparr>sh_manager = with_next_txn_id (mp_next_txn_id meta),
            sh_cache = (case cache of Some c \<Rightarrow> c | None \<Rightarrow> []), sh_db = db', sh_wal = wal'\<rparr>,
          pg_meta = meta, committed_page_count = mp_page_count meta, txn_page_states = [],
          pg_others = others\<rparr>)"

section \<open>Page counts\<close>

text \<open>\<open>keys.map(|id| id.saturating_add(1)).max().unwrap_or(c).max(c)\<close>.\<close>

definition count_from :: "page_id list \<Rightarrow> u32 \<Rightarrow> u32" where
  "count_from ids c =
     max (case map (\<lambda>p. sat_add p 1) ids of [] \<Rightarrow> c | x # xs \<Rightarrow> foldl max x xs) c"

definition committed_page_count_after_commit :: "(page_id, byte list) btmap \<Rightarrow> pager \<Rightarrow> u32" where
  "committed_page_count_after_commit pages s = count_from (map fst pages) (committed_page_count s)"

definition effective_page_count :: "u32 \<Rightarrow> pager \<Rightarrow> u32" where
  "effective_page_count c s = count_from (concat (map (\<lambda>(_, st). map fst st) (txn_page_states s))) c"

definition set_page_count :: "u32 \<Rightarrow> pager \<Rightarrow> pager" where
  "set_page_count n s = s\<lparr>pg_meta := (pg_meta s)\<lparr>mp_page_count := n\<rparr>\<rparr>"

section \<open>Transactions\<close>

definition pager_validate_transaction :: "u64 \<Rightarrow> pager \<Rightarrow> unit result" where
  "pager_validate_transaction t s =
     (if map_of (txn_page_states s) t \<noteq> None then Ok () else Err (not_active t))"

definition begin_with_txn_id :: "u64 \<Rightarrow> unit pg_oper" where
  "begin_with_txn_id t s =
     (if map_of (txn_page_states s) t \<noteq> None
      then (Err (Txn (''transaction '' @ show_word t @ '' is already active'')), s)
      else (Ok (), s\<lparr>
        pg_meta := (pg_meta s)\<lparr>mp_next_txn_id := max (mp_next_txn_id (pg_meta s)) (sat_add t 1)\<rparr>,
        txn_page_states := hm_insert t [] (txn_page_states s)\<rparr>))"

definition pager_begin :: "u64 pg_oper" where
  "pager_begin s =
     (case tm_begin ReadCommitted (sh_manager (pg_shared s)) of
        (t, tm) \<Rightarrow>
          (case begin_with_txn_id t (update_shared (\<lambda>sh. sh\<lparr>sh_manager := tm\<rparr>) s) of
             (Ok _, s') \<Rightarrow> (Ok t, s')
           | (Err e, s') \<Rightarrow> (Err e, snd (on_manager (tm_abort t) s'))
           | (Panic q, s') \<Rightarrow> (Panic q, s')))"

text \<open>The page images a rollback puts back, last page first.\<close>

fun restore_page :: "page_id \<times> page_write \<Rightarrow> (page_id, byte list) hmap \<Rightarrow> (page_id, byte list) hmap" where
  "restore_page (p, w) cache =
     (case pgw_before_image w of Some before \<Rightarrow> hm_insert p before cache | None \<Rightarrow> hm_remove p cache)"

definition restore_pages :: "txn_page_state \<Rightarrow> (page_id, byte list) hmap \<Rightarrow> (page_id, byte list) hmap" where
  "restore_pages st cache = fold restore_page (rev st) cache"

text \<open>Dropping the page writes of a transaction, as rollback and the clean-up after a deadlock do.\<close>

definition drop_page_writes :: "u64 \<Rightarrow> pager \<Rightarrow> pager" where
  "drop_page_writes t s =
     (let s1 = (case map_of (txn_page_states s) t of
          Some st \<Rightarrow> update_cache (restore_pages st) (s\<lparr>txn_page_states := hm_remove t (txn_page_states s)\<rparr>)
        | None \<Rightarrow> s)
      in set_page_count (effective_page_count (committed_page_count s1) s1) s1)"

definition pager_rollback :: "u64 \<Rightarrow> unit pg_oper" where
  "pager_rollback t = sbind (sget (pager_validate_transaction t)) (\<lambda>_.
     sbind (smodify (drop_page_writes t)) (\<lambda>_. on_manager (release_transaction_resources t)))"

definition cleanup_aborted_transaction_state :: "u64 \<Rightarrow> pager \<Rightarrow> pager" where
  "cleanup_aborted_transaction_state t s =
     (if tm_txn_status t (sh_manager (pg_shared s)) = Ok Aborted then drop_page_writes t s else s)"

section \<open>Commit\<close>

fun write_frames :: "u64 \<Rightarrow> (page_id \<times> byte list) list \<Rightarrow> byte list \<Rightarrow> byte list result" where
  "write_frames t [] out = Ok out"
| "write_frames t ((p, page) # rest) out = rbind (write_frame out t p page) (write_frames t rest)"

fun write_pages :: "(page_id \<times> byte list) list \<Rightarrow> unit pg_oper" where
  "write_pages [] s = (Ok (), s)"
| "write_pages ((p, page) # rest) s =
     (case write_raw_page p page (sh_db (pg_shared s)) of
        Ok db \<Rightarrow> write_pages rest
          (update_cache (hm_insert p page) (update_shared (\<lambda>sh. sh\<lparr>sh_db := db\<rparr>) s))
      | Err e \<Rightarrow> (Err e, s)
      | Panic q \<Rightarrow> (Panic q, s))"

text \<open>The pages of the commit: the after images, then the new meta page on page 0.\<close>

definition committed_meta :: "txn_page_state \<Rightarrow> pager \<Rightarrow> meta_page" where
  "committed_meta st s = (pg_meta s)\<lparr>mp_page_count :=
     committed_page_count_after_commit (map (\<lambda>(p, w). (p, pgw_after_image w)) st) s\<rparr>"

definition pages_to_commit :: "txn_page_state \<Rightarrow> pager \<Rightarrow> (page_id, byte list) btmap" where
  "pages_to_commit st s =
     bt_insert 0 (meta_encode (committed_meta st s)) (map (\<lambda>(p, w). (p, pgw_after_image w)) st)"

definition pager_commit :: "u64 \<Rightarrow> unit pg_oper" where
  "pager_commit t s0 =
     (case map_of (txn_page_states s0) t of
        None \<Rightarrow> (Err (not_active t), s0)
      | Some st \<Rightarrow>
          let s = s0\<lparr>txn_page_states := hm_remove t (txn_page_states s0)\<rparr>;
              count = mp_page_count (committed_meta st s);
              pages = pages_to_commit st s
          in sbind (sget (\<lambda>_. write_frames t pages [])) (\<lambda>frames.
             let log = write_commit frames t (word_of_nat (length pages)) in
             sbind (smodify (update_shared (\<lambda>sh. sh\<lparr>sh_wal := log\<rparr>))) (\<lambda>_.
             sbind (write_pages pages) (\<lambda>_.
             sbind (smodify (update_shared (\<lambda>sh. sh\<lparr>sh_wal := []\<rparr>))) (\<lambda>_.
             sbind (smodify (\<lambda>s. s\<lparr>committed_page_count := count\<rparr>)) (\<lambda>_.
             sbind (smodify (\<lambda>s. set_page_count (effective_page_count count s) s)) (\<lambda>_.
             on_manager (release_transaction_resources t))))))) s)"

section \<open>Reading\<close>

definition out_of_bounds :: "page_id \<Rightarrow> u32 \<Rightarrow> db_error" where
  "out_of_bounds p n = Storage (''page '' @ show_word p @ '' is out of bounds for database with '' @
     show_word n @ '' pages'')"

definition read_page :: "page_id \<Rightarrow> pager \<Rightarrow> byte list result" where
  "read_page p s =
     (case map_of (cache_of s) p of
        Some page \<Rightarrow> Ok page
      | None \<Rightarrow>
          if committed_page_count s \<le> p then Err (out_of_bounds p (committed_page_count s))
          else read_raw_page p (sh_db (pg_shared s)))"

definition current_before_image :: "page_id \<Rightarrow> pager \<Rightarrow> byte list option result" where
  "current_before_image p s =
     (case map_of (cache_of s) p of
        Some page \<Rightarrow> Ok (Some page)
      | None \<Rightarrow>
          if p < committed_page_count s
          then rbind (read_raw_page p (sh_db (pg_shared s))) (\<lambda>page. Ok (Some page))
          else Ok None)"

definition pending_page_writes :: "u64 \<Rightarrow> pager \<Rightarrow> page_write_snapshot list result" where
  "pending_page_writes t s = rbind (pager_validate_transaction t s) (\<lambda>_.
     case map_of (txn_page_states s) t of
       None \<Rightarrow> Panic ''validated transaction must have a page-write state''
     | Some st \<Rightarrow> Ok (map (\<lambda>(p, w). \<lparr>pws_page_id = p, pws_before_image = pgw_before_image w,
           pws_after_image = pgw_after_image w\<rparr>) st))"

section \<open>Waiting for a page\<close>

text \<open>
  A failed request is retried at once when the lock epoch has moved since it was read (the request
  itself aborted a victim), and otherwise after the next change by another thread.
\<close>

definition manager_of :: "pager \<Rightarrow> txn_manager" where
  "manager_of s = sh_manager (pg_shared s)"

lemma on_manager_state:
  "on_manager m s = (r, s') \<Longrightarrow> m (manager_of s) = (r, manager_of s') \<and>
     s' = update_shared (\<lambda>sh. sh\<lparr>sh_manager := manager_of s'\<rparr>) s"
  by (auto simp: on_manager_def manager_of_def update_shared_def split: prod.splits)

text \<open>The victim of a deadlock gets an error that says so.\<close>

lemma contains_deadlock:
  "str_contains (victim_message (''deadlock detected'' @ m) v) ''deadlock''"
  unfolding victim_message_def
  by (rule str_contains_append_right, rule str_contains_append_right) simp

lemma deadlock_messages: "is_deadlock_error (Txn (victim_message (''deadlock detected'' @ m) v))"
  unfolding is_deadlock_error_def db_error_to_string.simps
  by (rule str_contains_append_left) (rule contains_deadlock)

lemma page_edges_epoch [simp]:
  "lock_wait_epoch (set_page_wait_edges t bs s) = lock_wait_epoch s"
  "lock_wait_epoch (enqueue_page_waiter p t s) = lock_wait_epoch s"
  by (simp_all add: set_page_wait_edges_def enqueue_page_waiter_def)

lemma wait_or_retry_Err:
  assumes "wait_or_retry t ctx bs w s = (Err e, s')" "\<not> is_deadlock_error e"
    "\<And>b v. is_deadlock_error (Txn (ctx b v))"
  shows "s' = s \<and> e = w"
proof (cases rule: deadlock_loop_cases [of t ctx bs s])
  case waiting
  with assms(1) show ?thesis by (simp add: wait_or_retry_def sbind_def)
next
  case (self m)
  with assms show ?thesis by (auto simp: wait_or_retry_def sbind_def)
qed (use assms(1) in \<open>simp_all add: wait_or_retry_def sbind_def\<close>)

text \<open>The message of a page request, whoever is the blocker and the victim, names a deadlock.\<close>

lemma page_context_deadlock: "is_deadlock_error (Txn (page_context t p b v))"
  unfolding page_context_def
  using deadlock_messages [of "'' between transactions '' @ show_word t @ '' and '' @ show_word b @
      '' on page '' @ show_word p" v] by simp

lemma page_attempt_Err:
  assumes "page_write_attempt t p s = (Err e, s')" "\<not> is_deadlock_error e"
  shows "lock_wait_epoch s' = lock_wait_epoch s \<and> other_waiters t s' = other_waiters t s"
proof -
  have parked: "lock_wait_epoch s' = lock_wait_epoch s \<and> other_waiters t s' = other_waiters t s"
    if "wait_or_retry t (page_context t p) [b] w (set_page_wait_edges t [b] (enqueue_page_waiter p t s)) = (Err e, s')"
    for b w
    using wait_or_retry_Err [OF that assms(2) page_context_deadlock] by simp
  show ?thesis
  proof (cases rule: ensure_active_cases [of t s])
    case (inactive e')
    then have "s' = s"
      using assms(1) by (auto simp: page_write_attempt_def Let_def sbind_def split: option.splits if_splits)
    then show ?thesis by simp
  next
    case active
    show ?thesis
    proof (cases "map_of (page_write_owners s) p")
      case None
      with active assms(1) show ?thesis
        by (cases "queue_front p (page_write_wait_queues s)")
          (simp_all add: page_write_attempt_def Let_def sbind_def split: if_splits, erule parked)
    next
      case (Some owner)
      with active assms(1) show ?thesis
        by (cases "tm_get owner s"; cases "owner = t")
          (simp_all add: page_write_attempt_def Let_def sbind_def, erule parked)
    qed
  qed
qed

lemma acquire_page_write_Err:
  assumes "acquire_page_write t p s = (Err e, s')" "\<not> is_deadlock_error e"
  shows "other_waiters t s' \<subseteq> other_waiters t s \<and>
    (lock_wait_epoch s' \<noteq> lock_wait_epoch s \<longrightarrow> other_waiters t s' \<subset> other_waiters t s)"
  using assms
proof (induction t p s rule: acquire_page_write.induct)
  case (1 t p s)
  obtain r s1 where att: "page_write_attempt t p s = (r, s1)" by (cases "page_write_attempt t p s")
  show ?case
  proof (cases "r = Ok Retry")
    case True
    with att 1(2) have "acquire_page_write t p s1 = (Err e, s')"
      by (simp add: acquire_page_write.simps [of t p s])
    with 1(1) [OF att [symmetric]] True assms(2) have "other_waiters t s' \<subseteq> other_waiters t s1" by auto
    moreover have "other_waiters t s1 \<subset> other_waiters t s"
      using page_write_attempt_Retry att True by simp
    ultimately show ?thesis by blast
  next
    case False
    with att 1(2) have "r = Err e" "s1 = s'"
      by (auto simp: acquire_page_write.simps [of t p s] split: result.splits attempt.splits)
    with page_attempt_Err [of t p s e s'] att assms(2) show ?thesis by simp
  qed
qed

lemma cleanup_fields [simp]:
  "manager_of (cleanup_aborted_transaction_state t s) = manager_of s"
  "pg_others (cleanup_aborted_transaction_state t s) = pg_others s"
  by (simp_all add: cleanup_aborted_transaction_state_def drop_page_writes_def Let_def manager_of_def
      set_page_count_def update_cache_def update_shared_def split: option.split)

function wait_for_page_write_lock :: "u64 \<Rightarrow> page_id \<Rightarrow> unit pg_oper" where
  "wait_for_page_write_lock t p s =
     (let observed_epoch = lock_wait_epoch (manager_of s) in
      case on_manager (acquire_page_write t p) s of
        (Ok _, s1) \<Rightarrow> (Ok (), s1)
      | (Panic q, s1) \<Rightarrow> (Panic q, s1)
      | (Err e, s1) \<Rightarrow>
          let s2 = cleanup_aborted_transaction_state t s1 in
          if is_deadlock_error e then (Err e, s2)
          else if is_waitable_lock_error e then
            (if lock_wait_epoch (manager_of s2) \<noteq> observed_epoch then wait_for_page_write_lock t p s2
             else case pg_others s2 of
                 [] \<Rightarrow> (blocked, s2)
               | change # rest \<Rightarrow>
                   wait_for_page_write_lock t p (update_shared change (s2\<lparr>pg_others := rest\<rparr>)))
          else (Err e, s2))"
  by pat_completeness auto

lemma on_manager_others: "on_manager m s = (r, s') \<Longrightarrow> pg_others s' = pg_others s"
  by (auto simp: on_manager_def update_shared_def split: prod.splits)

termination wait_for_page_write_lock
proof (relation "measures [\<lambda>(t, p, s). length (pg_others s), \<lambda>(t, p, s). card (other_waiters t (manager_of s))]",
    goal_cases)
  case (2 t p s epoch r s1 e s2)
  then have om: "on_manager (acquire_page_write t p) s = (Err e, s1)" by (simp only:)
  then have acq: "acquire_page_write t p (manager_of s) = (Err e, manager_of s1)"
    using on_manager_state [of "acquire_page_write t p" s "Err e" s1] by blast
  with 2 have "other_waiters t (manager_of s1) \<subset> other_waiters t (manager_of s)"
    using acquire_page_write_Err [OF acq] by (simp only: cleanup_fields) simp
  then have "card (other_waiters t (manager_of s1)) < card (other_waiters t (manager_of s))"
    by (rule other_waiters_decreases)
  with 2(4) on_manager_others [OF om] show ?case by simp
next
  case (3 t p s epoch r s1 e s2 change rest)
  then have om: "on_manager (acquire_page_write t p) s = (Err e, s1)" by (simp only:)
  with 3(4,8) on_manager_others [OF om] show ?case by (simp add: update_shared_def)
qed simp

declare wait_for_page_write_lock.simps [simp del]


section \<open>Writing and allocating\<close>

definition acquire_page_write_lock :: "u64 \<Rightarrow> page_id \<Rightarrow> unit pg_oper" where
  "acquire_page_write_lock t p = sbind (sget (pager_validate_transaction t)) (\<lambda>_. wait_for_page_write_lock t p)"

definition no_page_state :: "'a result" where
  "no_page_state = Panic ''validated transaction must have a page-write state''"

text \<open>Recording a page write: the after image goes to the transaction's state and into the cache.\<close>

definition record_page_write :: "u64 \<Rightarrow> page_id \<Rightarrow> byte list option \<Rightarrow> byte list \<Rightarrow> pager \<Rightarrow> pager" where
  "record_page_write t p before page s =
     update_cache (hm_insert p page) (s\<lparr>txn_page_states := hm_modify t
       (bt_insert p \<lparr>pgw_before_image = before, pgw_after_image = page\<rparr>) (txn_page_states s)\<rparr>)"

definition write_page :: "u64 \<Rightarrow> page_id \<Rightarrow> byte list \<Rightarrow> unit pg_oper" where
  "write_page t p page =
     sbind (sget (pager_validate_transaction t)) (\<lambda>_.
     sbind (sget (\<lambda>s.
       if length page \<noteq> PAGE_SIZE
       then Err (Storage (''storage_v2 page writes require exactly '' @ show_nat PAGE_SIZE @ '' bytes''))
       else if mp_page_count (pg_meta s) \<le> p then Err (out_of_bounds p (mp_page_count (pg_meta s)))
       else Ok ())) (\<lambda>_.
     sbind (wait_for_page_write_lock t p) (\<lambda>_ s.
       case map_of (txn_page_states s) t of
         None \<Rightarrow> (no_page_state, s)
       | Some st \<Rightarrow>
           (case (case map_of st p of Some w \<Rightarrow> Ok (pgw_before_image w) | None \<Rightarrow> current_before_image p s) of
              Ok before \<Rightarrow> (Ok (), record_page_write t p before page s)
            | Err e \<Rightarrow> (Err e, s)
            | Panic q \<Rightarrow> (Panic q, s)))))"

definition allocate_page_with_kind :: "u64 \<Rightarrow> page_kind \<Rightarrow> page_id pg_oper" where
  "allocate_page_with_kind t kind s0 =
     (case pager_validate_transaction t s0 of
        Err e \<Rightarrow> (Err e, s0)
      | Panic q \<Rightarrow> (Panic q, s0)
      | Ok _ \<Rightarrow>
          let p = mp_page_count (pg_meta s0) in
          case wait_for_page_write_lock t p (set_page_count (p + 1) s0) of
            (Err e, s) \<Rightarrow> (Err e, set_page_count (sat_sub (mp_page_count (pg_meta s)) 1) s)
          | (Panic q, s) \<Rightarrow> (Panic q, s)
          | (Ok _, s) \<Rightarrow>
              (case map_of (txn_page_states s) t of
                 None \<Rightarrow> (no_page_state, s)
               | Some _ \<Rightarrow> (Ok p, record_page_write t p None (empty_page kind) s)))"

definition allocate_page :: "u64 \<Rightarrow> page_id pg_oper" where
  "allocate_page t = allocate_page_with_kind t Leaf"

definition allocate_leaf_page :: "u64 \<Rightarrow> page_id pg_oper" where
  "allocate_leaf_page t = allocate_page_with_kind t Leaf"

definition allocate_internal_page :: "u64 \<Rightarrow> page_id pg_oper" where
  "allocate_internal_page t = allocate_page_with_kind t Internal"


end
