(* ===== verification/V2_Pager_Recovery.thy ===== *)
theory V2_Pager_Recovery
  imports V2_Pager
begin

text \<open>
  Crashes during \<open>Pager::commit\<close> and what opening the file makes of them. A file is compared byte by
  byte (\<open>file_at\<close>, zero behind the end); \<open>apply_pages\<close> is the effect of all the page writes of a
  commit. A crash leaves the log cut anywhere, or the log complete and the pages written partly and
  in any order, or the pages complete and the log being emptied (\<open>commit_crash\<close>). Recovery gives the
  database file of before or of after the commit.
\<close>

section \<open>Files byte by byte\<close>

definition file_at :: "byte list \<Rightarrow> nat \<Rightarrow> byte" where
  "file_at f i = (if i < length f then f ! i else 0)"

lemma file_eqI: "length f = length g \<Longrightarrow> (\<And>i. file_at f i = file_at g i) \<Longrightarrow> f = g"
  by (rule nth_equalityI) (auto simp: file_at_def split: if_splits, metis)

lemma length_write_at [simp]: "length (write_at off bs f) = max (off + length bs) (length f)"
  by (simp add: write_at_def)

lemma file_at_write_at:
  "file_at (write_at off bs f) i =
     (if off \<le> i \<and> i < off + length bs then bs ! (i - off) else file_at f i)"
  by (auto simp: file_at_def write_at_def nth_append min_def)

definition in_page :: "nat \<Rightarrow> page_id \<Rightarrow> bool" where
  "in_page i p \<longleftrightarrow> i div PAGE_SIZE = unat p"

lemma in_page_iff: "in_page i p \<longleftrightarrow> unat p * PAGE_SIZE \<le> i \<and> i < unat p * PAGE_SIZE + PAGE_SIZE"
  unfolding in_page_def PAGE_SIZE_def by auto

definition write_one :: "page_id \<times> byte list \<Rightarrow> byte list \<Rightarrow> byte list" where
  "write_one = (\<lambda>(p, page). write_at (unat p * PAGE_SIZE) page)"

definition apply_pages :: "(page_id \<times> byte list) list \<Rightarrow> byte list \<Rightarrow> byte list" where
  "apply_pages = fold write_one"

definition whole_pages :: "(page_id \<times> byte list) list \<Rightarrow> bool" where
  "whole_pages pages \<longleftrightarrow> (\<forall>(p, page) \<in> set pages. length page = PAGE_SIZE)"

lemma apply_pages_simps [simp]:
  "apply_pages [] f = f"
  "apply_pages ((p, page) # pages) f = apply_pages pages (write_at (unat p * PAGE_SIZE) page f)"
  by (simp_all add: apply_pages_def write_one_def)

lemma whole_pages_simps [simp]:
  "whole_pages []"
  "whole_pages ((p, page) # pages) \<longleftrightarrow> length page = PAGE_SIZE \<and> whole_pages pages"
  by (auto simp: whole_pages_def)

lemma write_raw_page_whole:
  "length page = PAGE_SIZE \<Longrightarrow> write_raw_page p page f = Ok (write_at (unat p * PAGE_SIZE) page f)"
  by (simp add: write_raw_page_def)

text \<open>Bytes of the written pages do not depend on the file, the others are those of the file.\<close>

lemma file_at_apply_pages:
  assumes "whole_pages pages"
  shows "\<exists>p \<in> fst ` set pages. in_page i p \<Longrightarrow>
      file_at (apply_pages pages f) i = file_at (apply_pages pages g) i"
    and "\<not> (\<exists>p \<in> fst ` set pages. in_page i p) \<Longrightarrow> file_at (apply_pages pages f) i = file_at f i"
proof -
  have "if \<exists>p \<in> fst ` set pages. in_page i p
    then file_at (apply_pages pages f) i = file_at (apply_pages pages g) i
    else file_at (apply_pages pages f) i = file_at f i"
    using assms
  proof (induction pages arbitrary: f g)
    case (Cons x pages)
    obtain p page where x: "x = (p, page)" by (cases x)
    let ?f = "write_at (unat p * PAGE_SIZE) page f" and ?g = "write_at (unat p * PAGE_SIZE) page g"
    have "length page = PAGE_SIZE" using Cons.prems x by simp
    then have here: "in_page i p \<Longrightarrow> file_at ?f i = file_at ?g i"
      and away: "\<not> in_page i p \<Longrightarrow> file_at ?f i = file_at f i"
      by (auto simp: file_at_write_at in_page_iff)
    have IH: "if \<exists>p \<in> fst ` set pages. in_page i p
      then file_at (apply_pages pages u) i = file_at (apply_pages pages v) i
      else file_at (apply_pages pages u) i = file_at u i" for u v
      using Cons.IH [of u v] Cons.prems x by simp
    show ?case
    proof (cases "\<exists>p \<in> fst ` set pages. in_page i p")
      case True
      then show ?thesis using IH [of ?f ?g] x by auto
    next
      case False
      then show ?thesis using IH [of ?f] IH [of ?g] here away x by auto
    qed
  qed simp
  then show "\<exists>p \<in> fst ` set pages. in_page i p \<Longrightarrow>
      file_at (apply_pages pages f) i = file_at (apply_pages pages g) i"
    and "\<not> (\<exists>p \<in> fst ` set pages. in_page i p) \<Longrightarrow> file_at (apply_pages pages f) i = file_at f i"
    by metis+
qed

lemma length_apply_pages:
  "length f \<le> length (apply_pages pages f)"
  "length f \<le> length g \<Longrightarrow> length g \<le> length (apply_pages pages f) \<Longrightarrow>
     length (apply_pages pages g) = length (apply_pages pages f)"
proof -
  have max: "length (apply_pages pages f) =
    max (length f) (length (apply_pages pages []))" for f
  proof (induction pages arbitrary: f)
    case (Cons x pages)
    obtain p page where x: "x = (p, page)" by (cases x)
    show ?case
      using Cons.IH [of "write_at (unat p * PAGE_SIZE) page f"] Cons.IH [of "write_at (unat p * PAGE_SIZE) page []"]
      by (simp add: x)
  qed simp
  show "length f \<le> length (apply_pages pages f)" using max [of f] by simp
  assume "length f \<le> length g" "length g \<le> length (apply_pages pages f)"
  then show "length (apply_pages pages g) = length (apply_pages pages f)" using max [of f] max [of g] by simp
qed

section \<open>The points where a commit can be cut off\<close>

text \<open>Some bytes of the pages have reached the file, in whatever order, and nothing else has.\<close>

definition partly_written :: "(page_id \<times> byte list) list \<Rightarrow> byte list \<Rightarrow> byte list \<Rightarrow> bool" where
  "partly_written pages f g \<longleftrightarrow>
     length f \<le> length g \<and> length g \<le> length (apply_pages pages f) \<and>
     (\<forall>i < length g. (\<forall>p \<in> fst ` set pages. \<not> in_page i p) \<longrightarrow> g ! i = file_at f i)"

lemma apply_pages_again:
  assumes "whole_pages pages" "partly_written pages f g"
  shows "apply_pages pages g = apply_pages pages f"
proof (rule file_eqI)
  show len: "length (apply_pages pages g) = length (apply_pages pages f)"
    using assms(2) by (intro length_apply_pages(2)) (auto simp: partly_written_def)
  fix i
  show "file_at (apply_pages pages g) i = file_at (apply_pages pages f) i"
  proof (cases "\<exists>p \<in> fst ` set pages. in_page i p")
    case False
    have "file_at g i = file_at f i"
    proof (cases "i < length g")
      case True
      with False assms(2) show ?thesis by (simp add: partly_written_def file_at_def)
    next
      case out: False
      with assms(2) show ?thesis by (simp add: partly_written_def file_at_def)
    qed
    then show ?thesis using False file_at_apply_pages(2) [OF assms(1)] by metis
  qed (rule file_at_apply_pages(1) [OF assms(1)])
qed

lemma partly_written_take:
  assumes "whole_pages pages"
  shows "partly_written pages f (apply_pages (take k pages) f)"
proof -
  have split: "apply_pages pages f = apply_pages (drop k pages) (apply_pages (take k pages) f)"
    unfolding apply_pages_def by (metis append_take_drop_id comp_apply fold_append)
  have "whole_pages (take k pages)"
    using assms by (auto simp: whole_pages_def dest: in_set_takeD)
  then have "file_at (apply_pages (take k pages) f) i = file_at f i"
    if "\<forall>p \<in> fst ` set pages. \<not> in_page i p" for i
    using that file_at_apply_pages(2) [of "take k pages" i f] by (meson image_mono set_take_subset subsetD)
  then show ?thesis
    using length_apply_pages(1) split unfolding partly_written_def by (metis file_at_def)
qed

text \<open>What the commit of the pages logs.\<close>

definition commit_log :: "u64 \<Rightarrow> (page_id \<times> byte list) list \<Rightarrow> byte list" where
  "commit_log t pages = concat (map record_bytes (commit_records t pages))"

lemma write_frames_whole:
  "whole_pages pages \<Longrightarrow>
     write_frames t pages out = Ok (out @ concat (map record_bytes (map (\<lambda>(p, page). Frame t p page) pages)))"
  by (induction t pages out rule: write_frames.induct) (simp_all add: write_frame_record)

lemma write_commit_log:
  assumes "whole_pages pages" "write_frames t pages [] = Ok frames"
  shows "write_commit frames t (word_of_nat (length pages)) = commit_log t pages"
  using assms by (simp add: write_frames_whole write_commit_record commit_log_def commit_records_def)

inductive commit_crash ::
    "u64 \<Rightarrow> (page_id \<times> byte list) list \<Rightarrow> byte list \<Rightarrow> byte list \<Rightarrow> byte list \<Rightarrow> bool"
  for t pages db where
  writing_log: "write_frames t pages [] = Ok frames \<Longrightarrow>
    prefix wal (write_commit frames t (word_of_nat (length pages))) \<Longrightarrow> commit_crash t pages db db wal"
| writing_pages: "write_frames t pages [] = Ok frames \<Longrightarrow> partly_written pages db db' \<Longrightarrow>
    commit_crash t pages db db' (write_commit frames t (word_of_nat (length pages)))"
| clearing_log: "write_frames t pages [] = Ok frames \<Longrightarrow>
    prefix wal (write_commit frames t (word_of_nat (length pages))) \<Longrightarrow>
    commit_crash t pages db (apply_pages pages db) wal"

section \<open>Recovery\<close>

lemma apply_frames_commit:
  "whole_pages pages \<Longrightarrow> apply_frames (commit_frames t pages) f = (Ok (), apply_pages pages f)"
  by (induction pages arbitrary: f) (auto simp: commit_frames_def write_raw_page_whole)

lemma recover_cut_log:
  assumes "whole_pages pages" "length pages < 2 ^ 32" "prefix wal (commit_log t pages)"
  shows "load_meta_and_recover f (Some wal) =
    (let f' = if wal = commit_log t pages then apply_pages pages f else f
     in (rbind (read_raw_page 0 f') meta_decode, f', Some []))"
proof -
  have "\<forall>(pid, p) \<in> set pages. length p = PAGE_SIZE" using assms(1) by (simp add: whole_pages_def)
  from recover_commit_prefix [OF this assms(2), of wal t] assms(3)
  have "recover_frames wal = Ok (if wal = commit_log t pages then commit_frames t pages else [])"
    by (simp add: commit_log_def)
  then show ?thesis
    using apply_frames_commit [OF assms(1)] by (simp add: load_meta_and_recover_def Let_def)
qed

lemma crash_recovery:
  assumes "whole_pages pages" "length pages < 2 ^ 32" "commit_crash t pages db db' wal"
  shows "load_meta_and_recover db' (Some wal) =
      (rbind (read_raw_page 0 db) meta_decode, db, Some []) \<or>
    load_meta_and_recover db' (Some wal) =
      (rbind (read_raw_page 0 (apply_pages pages db)) meta_decode, apply_pages pages db, Some [])"
  using assms(3)
proof (cases rule: commit_crash.cases)
  case (writing_log frames)
  then have "prefix wal (commit_log t pages)" using write_commit_log [OF assms(1)] by metis
  with writing_log recover_cut_log [OF assms(1,2) this] show ?thesis by (simp add: Let_def)
next
  case (writing_pages frames)
  then have "wal = commit_log t pages" using write_commit_log [OF assms(1)] by metis
  then have "load_meta_and_recover db' (Some wal) =
      (rbind (read_raw_page 0 (apply_pages pages db')) meta_decode, apply_pages pages db', Some [])"
    using recover_cut_log [OF assms(1,2), of wal t db'] by (simp add: Let_def)
  then show ?thesis using apply_pages_again [OF assms(1) writing_pages(3)] by simp
next
  case (clearing_log frames)
  then have "prefix wal (commit_log t pages)" using write_commit_log [OF assms(1)] by metis
  moreover have "apply_pages pages (apply_pages pages db) = apply_pages pages db"
    using apply_pages_again [OF assms(1)] partly_written_take [OF assms(1), of db "length pages"] by simp
  ultimately show ?thesis
    using clearing_log recover_cut_log [OF assms(1,2), of wal t db'] by (simp add: Let_def)
qed

section \<open>What a commit leaves\<close>

lemma read_raw_page_iff:
  "read_raw_page p f = Ok page \<longleftrightarrow>
     length page = PAGE_SIZE \<and> unat p * PAGE_SIZE + PAGE_SIZE \<le> length f \<and>
     (\<forall>i < PAGE_SIZE. file_at f (unat p * PAGE_SIZE + i) = page ! i)"
  unfolding read_raw_page_def ok_or_eq_Ok get_range_def
  by (auto simp: file_at_def list_eq_iff_nth_eq split: if_splits)

lemma file_at_page:
  assumes "whole_pages pages" "distinct (map fst pages)" "(p, page) \<in> set pages" "in_page i p"
  shows "file_at (apply_pages pages f) i = page ! (i - unat p * PAGE_SIZE)"
  using assms
proof (induction pages arbitrary: f)
  case (Cons x pages)
  obtain q qpage where x: "x = (q, qpage)" by (cases x)
  show ?case
  proof (cases "(p, page) \<in> set pages")
    case True
    then show ?thesis using Cons x by simp
  next
    case False
    then have "p = q" "page = qpage" "p \<notin> fst ` set pages" using Cons.prems x by auto
    moreover from this have "\<not> (\<exists>r \<in> fst ` set pages. in_page i r)"
      using Cons.prems(4) by (auto simp: in_page_def word_unat_eq_iff [symmetric] rev_image_eqI)
    ultimately show ?thesis
      using file_at_apply_pages(2) [of pages i] Cons.prems x by (simp add: file_at_write_at in_page_iff)
  qed
qed simp

lemma length_apply_pages_member:
  assumes "whole_pages pages" "(p, page) \<in> set pages"
  shows "unat p * PAGE_SIZE + PAGE_SIZE \<le> length (apply_pages pages f)"
  using assms
proof (induction pages arbitrary: f)
  case (Cons x pages)
  then show ?case
    using length_apply_pages(1) [of "write_at (unat p * PAGE_SIZE) page f" pages]
    by (cases x) auto
qed simp

lemma read_applied_page:
  assumes "whole_pages pages" "distinct (map fst pages)" "(p, page) \<in> set pages"
  shows "read_raw_page p (apply_pages pages f) = Ok page"
  unfolding read_raw_page_iff
proof (intro conjI allI impI)
  show "length page = PAGE_SIZE" using assms(1,3) by (auto simp: whole_pages_def)
  show "unat p * PAGE_SIZE + PAGE_SIZE \<le> length (apply_pages pages f)"
    using length_apply_pages_member [OF assms(1,3)] .
  fix i assume "i < PAGE_SIZE"
  then show "file_at (apply_pages pages f) (unat p * PAGE_SIZE + i) = page ! i"
    using file_at_page [OF assms, of "unat p * PAGE_SIZE + i"] by (simp add: in_page_iff)
qed

lemma read_other_page:
  assumes "whole_pages pages" "p \<notin> fst ` set pages" "read_raw_page p f = Ok page"
  shows "read_raw_page p (apply_pages pages f) = Ok page"
proof -
  have "file_at (apply_pages pages f) (unat p * PAGE_SIZE + i) = file_at f (unat p * PAGE_SIZE + i)"
    if "i < PAGE_SIZE" for i
  proof (rule file_at_apply_pages(2) [OF assms(1)])
    show "\<not> (\<exists>q \<in> fst ` set pages. in_page (unat p * PAGE_SIZE + i) q)"
      using assms(2) that by (auto simp: in_page_def PAGE_SIZE_def word_unat_eq_iff [symmetric] rev_image_eqI)
  qed
  then show ?thesis
    using assms(3) length_apply_pages(1) [of f pages] unfolding read_raw_page_iff by auto
qed

lemma write_pages_whole:
  "whole_pages pages \<Longrightarrow> write_pages pages s = (Ok (), s\<lparr>pg_shared := (pg_shared s)\<lparr>
     sh_db := apply_pages pages (sh_db (pg_shared s)),
     sh_cache := fold (\<lambda>(p, page). hm_insert p page) pages (sh_cache (pg_shared s))\<rparr>\<rparr>)"
  by (induction pages s rule: write_pages.induct)
    (simp_all add: write_raw_page_whole update_cache_def update_shared_def)

text \<open>The page states of the open transactions: sorted by page, with whole page images.\<close>

definition page_state_wf :: "txn_page_state \<Rightarrow> bool" where
  "page_state_wf st \<longleftrightarrow> bt_wf st \<and> (\<forall>(p, w) \<in> set st. length (pgw_after_image w) = PAGE_SIZE)"

definition pager_wf :: "pager \<Rightarrow> bool" where
  "pager_wf s \<longleftrightarrow> hm_wf (txn_page_states s) \<and> (\<forall>(t, st) \<in> set (txn_page_states s). page_state_wf st)"

lemma pager_wf_state: "pager_wf s \<Longrightarrow> map_of (txn_page_states s) t = Some st \<Longrightarrow> page_state_wf st"
  by (auto simp: pager_wf_def dest: map_of_SomeD)

lemma set_bt_insert: "bt_wf m \<Longrightarrow> set (bt_insert k v m) = insert (k, v) {x \<in> set m. fst x \<noteq> k}"
  by (induction k v m rule: bt_insert.induct) (auto simp: bt_wf_def)

lemma length_bt_insert: "length (bt_insert k v m) \<le> Suc (length m)"
  by (induction k v m rule: bt_insert.induct) auto

abbreviation after_images :: "txn_page_state \<Rightarrow> (page_id, byte list) btmap" where
  "after_images st \<equiv> map (\<lambda>(p, w). (p, pgw_after_image w)) st"

lemma after_images_wf: "bt_wf st \<Longrightarrow> bt_wf (after_images st)"
  by (simp add: bt_wf_def comp_def case_prod_beta)

lemma pages_to_commit_facts:
  assumes "page_state_wf st"
  shows "whole_pages (pages_to_commit st s)" "distinct (map fst (pages_to_commit st s))"
    "set (pages_to_commit st s) = insert (0, meta_encode (committed_meta st s))
       {(p, pgw_after_image w) | p w. (p, w) \<in> set st \<and> p \<noteq> 0}"
proof -
  have wf: "bt_wf (after_images st)" using assms after_images_wf by (simp add: page_state_wf_def)
  show set: "set (pages_to_commit st s) = insert (0, meta_encode (committed_meta st s))
       {(p, pgw_after_image w) | p w. (p, w) \<in> set st \<and> p \<noteq> 0}"
    unfolding pages_to_commit_def set_bt_insert [OF wf] by force
  show "whole_pages (pages_to_commit st s)"
    using assms unfolding whole_pages_def set page_state_wf_def by auto
  show "distinct (map fst (pages_to_commit st s))"
    unfolding pages_to_commit_def by (rule bt_wf_distinct) (simp add: wf)
qed

text \<open>
  The whole effect of a commit. The answer of the lock manager, asked last, does not change what has
  been written.
\<close>

definition after_commit :: "u64 \<Rightarrow> txn_page_state \<Rightarrow> pager \<Rightarrow> pager" where
  "after_commit t st s0 =
     (let s = s0\<lparr>txn_page_states := hm_remove t (txn_page_states s0)\<rparr>;
          pages = pages_to_commit st s;
          count = mp_page_count (committed_meta st s)
      in set_page_count (effective_page_count count s) (s\<lparr>pg_shared := (pg_shared s)\<lparr>
             sh_db := apply_pages pages (sh_db (pg_shared s)),
             sh_cache := fold (\<lambda>(p, page). hm_insert p page) pages (sh_cache (pg_shared s)), sh_wal := []\<rparr>,
           committed_page_count := count\<rparr>))"

lemma pages_to_commit_remove [simp]:
  "pages_to_commit st (s\<lparr>txn_page_states := x\<rparr>) = pages_to_commit st s"
  "committed_meta st (s\<lparr>txn_page_states := x\<rparr>) = committed_meta st s"
  by (simp_all add: pages_to_commit_def committed_meta_def committed_page_count_after_commit_def)

lemma pager_commit_effect:
  assumes "map_of (txn_page_states s) t = Some st" "page_state_wf st"
  shows "pager_commit t s = on_manager (release_transaction_resources t) (after_commit t st s)"
proof -
  note facts = pages_to_commit_facts [OF assms(2)]
  show ?thesis
    by (simp add: pager_commit_def assms(1) Let_def sbind_def write_frames_whole [OF facts(1)]
        write_pages_whole [OF facts(1)] after_commit_def update_shared_def set_page_count_def
        effective_page_count_def)
qed

section \<open>Page counts\<close>

lemma count_from_ge: "c \<le> count_from ids c"
  by (simp add: count_from_def)

lemma foldl_max: "foldl max x xs = Max (insert x (set xs))" for x :: "'a::linorder"
proof (induction xs arbitrary: x)
  case (Cons a xs)
  show ?case by (cases "xs = []") (simp_all add: Cons.IH max.assoc max.left_commute)
qed simp

lemma count_from_member: "p \<in> set ids \<Longrightarrow> sat_add p 1 \<le> count_from ids c"
  by (cases ids) (auto simp: count_from_def le_max_iff_disj foldl_max)

lemma sat_add_gt: "p \<noteq> - 1 \<Longrightarrow> p < sat_add p 1" for p :: page_id
proof -
  assume "p \<noteq> - 1"
  then have "unat p \<noteq> 2 ^ 32 - 1"
    by (simp add: word_unat_eq_iff unsigned_minus_1_eq_mask mask_eq_exp_minus_1)
  moreover have "unat p < 2 ^ 32" using unsigned_less [of p] by simp
  ultimately show ?thesis by (simp add: word_less_nat_alt unat_sat_add)
qed

lemma count_from_above: "p \<in> set ids \<Longrightarrow> p \<noteq> - 1 \<Longrightarrow> p < count_from ids c"
  by (rule less_le_trans [OF sat_add_gt count_from_member])

section \<open>After a commit\<close>

lemma fold_hm_insert:
  "distinct (map fst pages) \<Longrightarrow> map_of (fold (\<lambda>(p, page). hm_insert p page) pages c) q =
     (case map_of pages q of Some page \<Rightarrow> Some page | None \<Rightarrow> map_of c q)"
  by (induction pages arbitrary: c)
    (auto split: option.splits dest!: map_of_SomeD simp: rev_image_eqI)

lemma on_manager_files:
  "pg_shared (snd (on_manager m s)) = (pg_shared s)\<lparr>sh_manager := snd (m (manager_of s))\<rparr>"
  "committed_page_count (snd (on_manager m s)) = committed_page_count s"
  "pg_meta (snd (on_manager m s)) = pg_meta s"
  "txn_page_states (snd (on_manager m s)) = txn_page_states s"
  by (simp_all add: on_manager_def manager_of_def update_shared_def split: prod.split)

lemma commit_files:
  assumes "map_of (txn_page_states s) t = Some st" "page_state_wf st"
  defines "s' \<equiv> snd (pager_commit t s)"
  shows "sh_db (pg_shared s') = apply_pages (pages_to_commit st s) (sh_db (pg_shared s))"
    and "sh_wal (pg_shared s') = []"
    and "committed_page_count s' = mp_page_count (committed_meta st s)"
    and "cache_of s' = fold (\<lambda>(p, page). hm_insert p page) (pages_to_commit st s) (cache_of s)"
    and "txn_page_states s' = hm_remove t (txn_page_states s)"
  unfolding s'_def pager_commit_effect [OF assms(1,2)] cache_of_def
  by (simp_all add: on_manager_files after_commit_def Let_def set_page_count_def)

lemma commit_crash_written:
  assumes "whole_pages pages"
  shows "commit_crash t pages (sh_db (pg_shared s))
    (sh_db (pg_shared (snd (write_pages (take k pages) s)))) (commit_log t pages)"
proof -
  have "whole_pages (take k pages)" using assms by (auto simp: whole_pages_def dest: in_set_takeD)
  then show ?thesis
    using writing_pages [OF write_frames_whole [OF assms] partly_written_take [OF assms, of "sh_db (pg_shared s)" k], of t]
      write_commit_log [OF assms write_frames_whole [OF assms], of t]
    by (simp add: write_pages_whole)
qed

lemma reopen_committed:
  assumes "whole_pages pages" "distinct (map fst pages)" "(0, meta_encode meta) \<in> set pages"
  shows "pager_open (Some (apply_pages pages db)) (Some []) None others = Ok \<lparr>
     pg_shared = \<lparr>sh_manager = with_next_txn_id (mp_next_txn_id meta), sh_cache = [],
       sh_db = apply_pages pages db, sh_wal = []\<rparr>,
     pg_meta = meta, committed_page_count = mp_page_count meta, txn_page_states = [], pg_others = others\<rparr>"
proof -
  have "load_meta_and_recover (apply_pages pages db) (Some []) = (Ok meta, apply_pages pages db, Some [])"
    using read_applied_page [OF assms] meta_decode_encode [of meta]
    by (simp add: load_meta_and_recover_def recover_frames_def)
  then show ?thesis by (simp add: pager_open_def)
qed

lemma committed_page_counted:
  assumes "(p, w) \<in> set st" "p \<noteq> - 1"
  shows "p < mp_page_count (committed_meta st s)"
proof -
  have "p \<in> set (map fst (after_images st))" using assms(1) by force
  then show ?thesis
    using count_from_above assms(2) by (simp add: committed_meta_def committed_page_count_after_commit_def)
qed

section \<open>Properties\<close>


lemma committed_page_read:
  assumes "pager_wf s" "map_of (txn_page_states s) t = Some st" "(p, w) \<in> set st" "p \<noteq> 0" "p \<noteq> - 1"
  defines "s' \<equiv> snd (pager_commit t s)"
  obtains later where "pager_open (Some (sh_db (pg_shared s'))) (Some (sh_wal (pg_shared s'))) None [] = Ok later"
    "pg_meta later = committed_meta st s" "read_page p later = Ok (pgw_after_image w)"
    "read_page p s' = Ok (pgw_after_image w)"
    "sh_db (pg_shared later) = apply_pages (pages_to_commit st s) (sh_db (pg_shared s))"
proof -
  note wf = pager_wf_state [OF assms(1,2)]
  note facts = pages_to_commit_facts [OF wf, of s]
  note files = commit_files [OF assms(2) wf]
  have mem: "(p, pgw_after_image w) \<in> set (pages_to_commit st s)" using facts(3) assms(3,4) by auto
  have "p < mp_page_count (committed_meta st s)" using committed_page_counted [OF assms(3,5)] .
  moreover have "map_of (pages_to_commit st s) p = Some (pgw_after_image w)"
    using map_of_is_SomeI [OF facts(2) mem] .
  ultimately show ?thesis
    using that reopen_committed [OF facts(1,2), of "committed_meta st s"] facts(3) files
      read_applied_page [OF facts(1,2) mem]
    by (simp add: s'_def read_page_def cache_of_def fold_hm_insert [OF facts(2)])
qed

text \<open>
  Property C2: what was committed is durable. After a commit, the session that committed and every
  later session that opens the two files read the page images the transaction wrote, the meta page
  is the committed one, and pages the transaction did not write are unchanged in the file. This
  holds whatever the lock manager answers when it is told to release the locks.
\<close>

theorem commit_durable:
  assumes "pager_wf s" "map_of (txn_page_states s) t = Some st"
    "(p, w) \<in> set st" "p \<noteq> 0" "p \<noteq> - 1"
    "q \<noteq> 0" "q \<notin> fst ` set st" "read_raw_page q (sh_db (pg_shared s)) = Ok untouched"
  defines "s' \<equiv> snd (pager_commit t s)"
  shows "\<exists>later. pager_open (Some (sh_db (pg_shared s'))) (Some (sh_wal (pg_shared s'))) None [] = Ok later \<and>
    pg_meta later = committed_meta st s \<and> read_page p later = Ok (pgw_after_image w) \<and>
    read_page p s' = Ok (pgw_after_image w) \<and> read_raw_page q (sh_db (pg_shared later)) = Ok untouched"
proof -
  note facts = pages_to_commit_facts [OF pager_wf_state [OF assms(1,2)], of s]
  have "q \<notin> fst ` set (pages_to_commit st s)"
    using assms(6,7) facts(3) by (auto simp: rev_image_eqI)
  note other = read_other_page [OF facts(1) this assms(8)]
  show ?thesis
    unfolding s'_def by (rule committed_page_read [OF assms(1-5)]) (use other in auto)
qed

text \<open>A database of two pages in which transaction 5 has written page 2.\<close>

definition demo_state :: txn_page_state where
  "demo_state = [(2, \<lparr>pgw_before_image = None, pgw_after_image = replicate PAGE_SIZE 7\<rparr>)]"

definition demo_pager :: pager where
  "demo_pager = \<lparr>pg_shared = \<lparr>sh_manager = with_next_txn_id 1, sh_cache = [],
      sh_db = replicate (2 * PAGE_SIZE) 1, sh_wal = []\<rparr>,
    pg_meta = bootstrap_meta, committed_page_count = 2, txn_page_states = [(5, demo_state)], pg_others = []\<rparr>"

lemma demo_pager_wf: "pager_wf demo_pager" "map_of (txn_page_states demo_pager) 5 = Some demo_state"
  by (simp_all add: pager_wf_def demo_pager_def hm_wf_def page_state_wf_def demo_state_def bt_wf_def)


theorem commit_durable_witness:
  "\<exists>later. pager_open (Some (sh_db (pg_shared (snd (pager_commit 5 demo_pager)))))
      (Some (sh_wal (pg_shared (snd (pager_commit 5 demo_pager))))) None [] = Ok later \<and>
    pg_meta later = committed_meta demo_state demo_pager \<and> read_page 2 later = Ok (replicate PAGE_SIZE 7) \<and>
    read_page 2 (snd (pager_commit 5 demo_pager)) = Ok (replicate PAGE_SIZE 7) \<and>
    read_raw_page 1 (sh_db (pg_shared later)) = Ok (replicate PAGE_SIZE 1)"
proof -
  have "read_raw_page 1 (sh_db (pg_shared demo_pager)) = Ok (replicate PAGE_SIZE 1)"
    by (simp add: read_raw_page_def demo_pager_def get_range_def)
  moreover have "(2, \<lparr>pgw_before_image = None, pgw_after_image = replicate PAGE_SIZE 7\<rparr>) \<in> set demo_state"
    "1 \<notin> fst ` set demo_state"
    by (simp_all add: demo_state_def)
  ultimately show ?thesis
    using commit_durable [OF demo_pager_wf, of 2 "\<lparr>pgw_before_image = None, pgw_after_image = replicate PAGE_SIZE 7\<rparr>" 1]
    by simp
qed

end
