(* ===== verification/V2_Pager_Properties.thy ===== *)
theory V2_Pager_Properties
  imports V2_Pager_Recovery
begin

text \<open>
  The pager between commits: the invariant of its page states, what a granted wait leaves alone,
  read-your-own-writes, and rollback as the undoing of any sequence of writes and allocations.
\<close>

section \<open>The page states are well formed\<close>

lemma pager_wf_states:
  "txn_page_states s' = txn_page_states s \<Longrightarrow> pager_wf s' = pager_wf s"
  by (simp add: pager_wf_def)

lemma pager_wf_iff:
  "pager_wf s \<longleftrightarrow> hm_wf (txn_page_states s) \<and>
     (\<forall>t st. map_of (txn_page_states s) t = Some st \<longrightarrow> page_state_wf st)"
  unfolding pager_wf_def using hm_in_set_iff [of "txn_page_states s"] by fast

lemma pager_wf_remove:
  "pager_wf s \<Longrightarrow> txn_page_states s' = hm_remove t (txn_page_states s) \<Longrightarrow> pager_wf s'"
  by (simp add: pager_wf_iff)

lemma pager_wf_modify:
  assumes "pager_wf s" "txn_page_states s' = hm_modify t f (txn_page_states s)"
    "\<And>st. page_state_wf st \<Longrightarrow> page_state_wf (f st)"
  shows "pager_wf s'"
  using assms by (auto simp: pager_wf_iff)

lemma page_state_wf_insert:
  "page_state_wf st \<Longrightarrow> length (pgw_after_image w) = PAGE_SIZE \<Longrightarrow> page_state_wf (bt_insert p w st)"
  by (auto simp: page_state_wf_def set_bt_insert)

lemma states_unchanged [simp]:
  "txn_page_states (set_page_count n s) = txn_page_states s"
  "txn_page_states (update_cache c s) = txn_page_states s"
  "txn_page_states (update_shared g s) = txn_page_states s"
  by (simp_all add: set_page_count_def update_cache_def update_shared_def)

lemma drop_states:
  "txn_page_states (drop_page_writes t s) =
     (if map_of (txn_page_states s) t = None then txn_page_states s else hm_remove t (txn_page_states s))"
  by (auto simp: drop_page_writes_def Let_def split: option.split)

lemma pager_wf_drop: "pager_wf s \<Longrightarrow> pager_wf (drop_page_writes t s)"
  using drop_states [of t s] by (auto split: if_splits intro: pager_wf_remove elim: pager_wf_states [THEN iffD2])

lemma pager_wf_cleanup: "pager_wf s \<Longrightarrow> pager_wf (cleanup_aborted_transaction_state t s)"
  by (simp add: cleanup_aborted_transaction_state_def pager_wf_drop)

lemma pager_wf_on_manager: "pager_wf (snd (on_manager m s)) = pager_wf s"
  by (rule pager_wf_states) (simp add: on_manager_files)

lemma pager_wf_wait: "pager_wf s \<Longrightarrow> pager_wf (snd (wait_for_page_write_lock t p s))"
proof (induction t p s rule: wait_for_page_write_lock.induct)
  case (1 t p s)
  obtain r s1 where om: "on_manager (acquire_page_write t p) s = (r, s1)" by fastforce
  then have wf1: "pager_wf s1" using pager_wf_on_manager [of "acquire_page_write t p" s] 1(3) by simp
  then have wf2: "pager_wf (cleanup_aborted_transaction_state t s1)" by (rule pager_wf_cleanup)
  note IH = 1(1) [OF refl om [symmetric] _ refl] 1(2) [OF refl om [symmetric] _ refl]
  show ?case
  proof (cases r)
    case (Err e)
    have "pager_wf (update_shared c ((cleanup_aborted_transaction_state t s1)\<lparr>pg_others := rest\<rparr>))" for c rest
      using wf2 by (simp add: pager_wf_def)
    with Err om wf2 IH show ?thesis
      by (subst wait_for_page_write_lock.simps) (simp add: Let_def split: list.split)
  qed (use om wf1 in \<open>subst wait_for_page_write_lock.simps, simp\<close>)+
qed
lemma keeps_on_manager [simp]: "keeps pager_wf (on_manager m)"
  by (simp add: keeps_def pager_wf_on_manager)

lemma pager_wf_record:
  "length page = PAGE_SIZE \<Longrightarrow> pager_wf s \<Longrightarrow> pager_wf (record_page_write t p before page s)"
  by (rule pager_wf_modify [where t = t and
        f = "bt_insert p \<lparr>pgw_before_image = before, pgw_after_image = page\<rparr>"])
    (simp_all add: record_page_write_def page_state_wf_insert)

lemma keeps_begin_with_txn_id: "keeps pager_wf (begin_with_txn_id t)"
  by (rule keepsI) (auto simp: begin_with_txn_id_def pager_wf_iff page_state_wf_def)

lemma keeps_pager_begin: "keeps pager_wf pager_begin"
proof (rule keepsI)
  fix s assume wf: "pager_wf s"
  obtain t tm where tm: "tm_begin ReadCommitted (sh_manager (pg_shared s)) = (t, tm)" by fastforce
  let ?s = "update_shared (\<lambda>sh. sh\<lparr>sh_manager := tm\<rparr>) s"
  have "pager_wf (snd (begin_with_txn_id t ?s))"
    using keepsD [OF keeps_begin_with_txn_id, of ?s] wf by (simp add: pager_wf_def)
  then show "pager_wf (snd (pager_begin s))"
    by (auto simp: pager_begin_def tm pager_wf_on_manager split: prod.splits result.splits)
qed

lemma keeps_pager_rollback: "keeps pager_wf (pager_rollback t)"
  unfolding pager_rollback_def by (intro keeps_sbind keeps_smodify pager_wf_drop) simp_all

lemma keeps_pager_commit: "keeps pager_wf (pager_commit t)"
proof (rule keepsI)
  fix s assume wf: "pager_wf s"
  show "pager_wf (snd (pager_commit t s))"
  proof (cases "map_of (txn_page_states s) t")
    case None
    then show ?thesis using wf by (simp add: pager_commit_def)
  next
    case (Some st)
    from commit_files(5) [OF Some pager_wf_state [OF wf Some]] show ?thesis by (rule pager_wf_remove [OF wf])
  qed
qed

lemma keeps_acquire_page_write_lock: "keeps pager_wf (acquire_page_write_lock t p)"
  unfolding acquire_page_write_lock_def
  by (intro keeps_sbind) (simp_all add: keeps_def pager_wf_wait)

lemma keeps_wait: "keeps pager_wf (wait_for_page_write_lock t p)"
  by (simp add: keeps_def pager_wf_wait)

lemma keeps_write_page: "keeps pager_wf (write_page t p page)"
proof (cases "length page = PAGE_SIZE")
  case True
  then show ?thesis
    unfolding write_page_def
    by (intro keeps_sbind keeps_wait)
      (auto simp: keeps_def pager_wf_record split: option.split result.split)
next
  case False
  then show ?thesis by (auto simp: write_page_def keeps_def sbind_def split: result.split)
qed

lemma keeps_allocate: "keeps pager_wf (allocate_page_with_kind t kind)"
proof (rule keepsI)
  fix s assume wf: "pager_wf s"
  let ?p = "mp_page_count (pg_meta s)"
  let ?w = "wait_for_page_write_lock t ?p (set_page_count (?p + 1) s)"
  have "pager_wf (set_page_count (?p + 1) s)" using wf by (simp add: pager_wf_def)
  then have "pager_wf (snd ?w)" by (rule pager_wf_wait)
  moreover have "pager_wf (set_page_count n x) = pager_wf x" for n x by (simp add: pager_wf_def)
  ultimately show "pager_wf (snd (allocate_page_with_kind t kind s))"
    using wf by (auto simp: allocate_page_with_kind_def Let_def pager_wf_record
        split: prod.splits result.splits option.splits)
qed

lemma pager_open_wf: "pager_open db wal cache others = Ok s \<Longrightarrow> pager_wf s"
  by (auto simp: pager_open_def rbind_eq_Ok pager_wf_iff)

text \<open>
  A freshly opened pager is well formed and every operation of the pager keeps it so,
  whether it succeeds or fails: each open transaction has one state, its pages are in ascending order
  without duplicates, and every after image is exactly one page, so that a commit never fails on the
  size of a page.
\<close>

lemma pager_operations_keep_wf:
  "keeps pager_wf pager_begin \<and> keeps pager_wf (begin_with_txn_id t) \<and> keeps pager_wf (pager_commit t) \<and>
   keeps pager_wf (pager_rollback t) \<and> keeps pager_wf (acquire_page_write_lock t p) \<and>
   keeps pager_wf (write_page t p page) \<and> keeps pager_wf (allocate_page t) \<and>
   keeps pager_wf (allocate_leaf_page t) \<and> keeps pager_wf (allocate_internal_page t) \<and>
   (case pager_open db wal cache others of Ok s \<Rightarrow> pager_wf s | _ \<Rightarrow> True)"
  using keeps_begin_with_txn_id keeps_pager_begin keeps_pager_rollback keeps_pager_commit
    keeps_acquire_page_write_lock keeps_write_page keeps_allocate pager_open_wf
  by (auto simp: allocate_page_def allocate_leaf_page_def allocate_internal_page_def split: result.split)

section \<open>A granted wait\<close>

text \<open>
  A request that is granted while no other thread interferes changes nothing but the lock manager,
  unless the transaction lost its page state on the way.
\<close>

definition same_but_manager :: "pager \<Rightarrow> pager \<Rightarrow> bool" where
  "same_but_manager s s' \<longleftrightarrow> s' = update_shared (\<lambda>sh. sh\<lparr>sh_manager := manager_of s'\<rparr>) s"

lemma same_but_manager_refl [simp]: "same_but_manager s s"
  by (simp add: same_but_manager_def update_shared_def manager_of_def)

lemma same_but_manager_trans: "same_but_manager a b \<Longrightarrow> same_but_manager b c \<Longrightarrow> same_but_manager a c"
  unfolding same_but_manager_def update_shared_def manager_of_def
  by (metis (no_types, lifting) pager.update_convs(1) pager.select_convs(1) pager.surjective shared.surjective shared.update_convs(1))

lemma same_but_manager_on_manager: "on_manager m s = (r, s') \<Longrightarrow> same_but_manager s s'"
  unfolding same_but_manager_def by (drule on_manager_state) (erule conjunct2)

lemma same_but_managerD:
  assumes "same_but_manager s s'"
  shows "txn_page_states s' = txn_page_states s" "cache_of s' = cache_of s" "pg_meta s' = pg_meta s"
    "committed_page_count s' = committed_page_count s" "sh_db (pg_shared s') = sh_db (pg_shared s)"
    "pg_others s' = pg_others s"
  by (subst assms [unfolded same_but_manager_def], simp add: update_shared_def cache_of_def)+

lemma cleanup_cases:
  obtains (active) "cleanup_aborted_transaction_state t s = s"
  | (aborted) "tm_txn_status t (manager_of s) = Ok Aborted"
      "cleanup_aborted_transaction_state t s = drop_page_writes t s"
      "map_of (txn_page_states (cleanup_aborted_transaction_state t s)) t = None"
  using drop_states [of t s]
  by (cases "tm_txn_status t (sh_manager (pg_shared s)) = Ok Aborted")
    (auto simp: cleanup_aborted_transaction_state_def manager_of_def)

lemma wait_keeps_absent:
  "map_of (txn_page_states s) t = None \<Longrightarrow>
     map_of (txn_page_states (snd (wait_for_page_write_lock t p s))) t = None"
proof (induction t p s rule: wait_for_page_write_lock.induct)
  case (1 t p s)
  obtain r s1 where om: "on_manager (acquire_page_write t p) s = (r, s1)" by fastforce
  then have absent: "map_of (txn_page_states s1) t = None"
    using 1(3) same_but_managerD(1) [OF same_but_manager_on_manager [OF om]] by simp
  then have absent2: "map_of (txn_page_states (cleanup_aborted_transaction_state t s1)) t = None"
    by (cases rule: cleanup_cases [of t s1]) simp_all
  note IH = 1(1) [OF refl om [symmetric] _ refl] 1(2) [OF refl om [symmetric] _ refl]
  show ?case
  proof (cases r)
    case (Err e)
    with om absent2 IH show ?thesis
      by (subst wait_for_page_write_lock.simps) (simp add: Let_def split: list.split)
  qed (use om absent in \<open>subst wait_for_page_write_lock.simps, simp\<close>)+
qed

lemma wait_granted_alone:
  "wait_for_page_write_lock t p s = (Ok (), s') \<Longrightarrow> pg_others s = [] \<Longrightarrow>
     map_of (txn_page_states s') t \<noteq> None \<Longrightarrow> same_but_manager s s'"
proof (induction t p s rule: wait_for_page_write_lock.induct)
  case (1 t p s)
  obtain r s1 where om: "on_manager (acquire_page_write t p) s = (r, s1)" by fastforce
  note same = same_but_manager_on_manager [OF om]
  show ?case
  proof (cases r)
    case (Err e)
    let ?s2 = "cleanup_aborted_transaction_state t s1"
    have again: "wait_for_page_write_lock t p ?s2 = (Ok (), s')"
      and moved: "\<not> is_deadlock_error e" "is_waitable_lock_error e"
        "lock_wait_epoch (manager_of ?s2) \<noteq> lock_wait_epoch (manager_of s)"
      using 1(3,4) om Err same_but_managerD(6) [OF same]
      by (simp_all add: wait_for_page_write_lock.simps [of t p s] Let_def blocked_def split: if_splits)
    then have "map_of (txn_page_states ?s2) t \<noteq> None"
      using wait_keeps_absent [of ?s2 t p] 1(5) by auto
    then have "?s2 = s1" by (cases rule: cleanup_cases [of t s1]) simp_all
    moreover have "same_but_manager ?s2 s'"
      using 1(1) [OF refl om [symmetric] Err refl moved again _ 1(5)] 1(4) same_but_managerD(6) [OF same]
      by simp
    ultimately show ?thesis using same_but_manager_trans same by metis
  qed (use om same 1(3) in \<open>simp_all add: wait_for_page_write_lock.simps [of t p s]\<close>)
qed

section \<open>Rollback\<close>

text \<open>What a transaction does to pages before it ends.\<close>

datatype page_op = WriteOp page_id "byte list" | AllocateOp page_kind

fun run_page_ops :: "u64 \<Rightarrow> page_op list \<Rightarrow> unit pg_oper" where
  "run_page_ops t [] = sret ()"
| "run_page_ops t (WriteOp p page # ops) = sbind (write_page t p page) (\<lambda>_. run_page_ops t ops)"
| "run_page_ops t (AllocateOp kind # ops) =
     sbind (allocate_page_with_kind t kind) (\<lambda>_. run_page_ops t ops)"

lemma restore_pages_get:
  assumes "bt_wf st"
  shows "map_of (restore_pages st c) p =
    (case map_of st p of Some w \<Rightarrow> pgw_before_image w | None \<Rightarrow> map_of c p)"
proof -
  have "distinct (map fst xs) \<Longrightarrow> map_of (fold restore_page xs c) p =
    (case map_of xs p of Some w \<Rightarrow> pgw_before_image w | None \<Rightarrow> map_of c p)" for xs
  proof (induction xs arbitrary: c)
    case (Cons x xs)
    obtain q w where x: "x = (q, w)" by (cases x)
    have "map_of (restore_page x c) p = (if p = q then pgw_before_image w else map_of c p)"
      by (simp add: x split: option.split)
    moreover have "map_of xs q = None" using Cons.prems x by (simp add: map_of_eq_None_iff)
    ultimately show ?case using Cons x by (auto split: option.split)
  qed simp
  moreover have "distinct (map fst st)" using assms by (rule bt_wf_distinct)
  moreover from this have "map_of (rev st) = map_of st"
    by (intro map_of_inject_set [THEN iffD2]) (simp_all add: rev_map [symmetric])
  ultimately show ?thesis
    unfolding restore_pages_def by (metis distinct_rev rev_map)
qed

text \<open>
  How a state during the transaction relates to the one at its begin: every page it has written has
  the old content as before image, every other page is as it was.
\<close>

definition in_bounds :: "pager \<Rightarrow> bool" where
  "in_bounds s \<longleftrightarrow> pg_others s = [] \<and> committed_page_count s \<le> mp_page_count (pg_meta s) \<and>
     (\<forall>p. mp_page_count (pg_meta s) \<le> p \<longrightarrow> map_of (cache_of s) p = None)"

definition old_page :: "pager \<Rightarrow> page_id \<Rightarrow> byte list option \<Rightarrow> bool" where
  "old_page s0 p before = (case before of
     Some page \<Rightarrow> read_page p s0 = Ok page
   | None \<Rightarrow> map_of (cache_of s0) p = None \<and> committed_page_count s0 \<le> p)"

definition undoable :: "u64 \<Rightarrow> pager \<Rightarrow> pager \<Rightarrow> txn_page_state \<Rightarrow> bool" where
  "undoable t s0 s st \<longleftrightarrow>
     map_of (txn_page_states s) t = Some st \<and> bt_wf st \<and> in_bounds s \<and>
     hm_remove t (txn_page_states s) = hm_remove t (txn_page_states s0) \<and>
     committed_page_count s = committed_page_count s0 \<and> sh_db (pg_shared s) = sh_db (pg_shared s0) \<and>
     (\<forall>p w. map_of st p = Some w \<longrightarrow> p < mp_page_count (pg_meta s) \<and> old_page s0 p (pgw_before_image w)) \<and>
     (\<forall>p. map_of st p = None \<longrightarrow> map_of (cache_of s) p = map_of (cache_of s0) p)"

lemma remove_modify [simp]: "hm_remove t (hm_modify t f m) = hm_remove t m"
  by (simp add: hm_modify_def hm_remove_def hm_insert_def delete_update_same split: option.split)

lemma undoable_begin:
  assumes "map_of (txn_page_states s) t = Some []" "in_bounds s"
  shows "undoable t s s []"
  using assms by (simp add: undoable_def)

lemma undoable_manager:
  assumes "undoable t s0 s st" "same_but_manager s s'"
  shows "undoable t s0 s' st"
  using assms(1) unfolding undoable_def in_bounds_def same_but_managerD [OF assms(2)] .

lemma undoable_record:
  assumes un: "undoable t s0 s st" and p: "p < mp_page_count (pg_meta s)"
    and before: "old_page s0 p before"
  shows "undoable t s0 (record_page_write t p before page s)
    (bt_insert p \<lparr>pgw_before_image = before, pgw_after_image = page\<rparr> st)"
proof -
  let ?s = "record_page_write t p before page s"
  have fields: "txn_page_states ?s = hm_modify t
      (bt_insert p \<lparr>pgw_before_image = before, pgw_after_image = page\<rparr>) (txn_page_states s)"
    "cache_of ?s = hm_insert p page (cache_of s)" "pg_meta ?s = pg_meta s" "pg_others ?s = pg_others s"
    "committed_page_count ?s = committed_page_count s" "sh_db (pg_shared ?s) = sh_db (pg_shared s)"
    by (simp_all add: record_page_write_def update_cache_def update_shared_def cache_of_def)
  have "in_bounds ?s" using un p by (auto simp: undoable_def in_bounds_def fields)
  with un p before show ?thesis
    unfolding undoable_def fields by simp
qed

lemma undoable_before:
  assumes "undoable t s0 s st" "map_of st p = None" "current_before_image p s = Ok before"
  shows "old_page s0 p before"
proof -
  have "map_of (cache_of s) p = map_of (cache_of s0) p"
    "committed_page_count s = committed_page_count s0" "sh_db (pg_shared s) = sh_db (pg_shared s0)"
    using assms(1,2) by (simp_all add: undoable_def)
  with assms(3) show ?thesis
    by (auto simp: current_before_image_def old_page_def read_page_def rbind_eq_Ok not_less
        split: option.splits if_splits)
qed

lemma undoable_write:
  assumes un: "undoable t s0 s st" and ok: "write_page t p page s = (Ok (), s')"
  shows "\<exists>st'. undoable t s0 s' st' \<and> mp_page_count (pg_meta s') = mp_page_count (pg_meta s)"
proof -
  obtain s1 where bound: "p < mp_page_count (pg_meta s)"
    and wait: "wait_for_page_write_lock t p s = (Ok (), s1)"
    and last: "(case map_of (txn_page_states s1) t of
         None \<Rightarrow> (no_page_state, s1)
       | Some st \<Rightarrow>
           (case (case map_of st p of Some w \<Rightarrow> Ok (pgw_before_image w) | None \<Rightarrow> current_before_image p s1) of
              Ok before \<Rightarrow> (Ok (), record_page_write t p before page s1)
            | Err e \<Rightarrow> (Err e, s1)
            | Panic q \<Rightarrow> (Panic q, s1))) = (Ok (), s')"
    using ok unfolding write_page_def
    by (auto elim!: sbind_eq_OkE split: if_splits simp: not_le)
  have present: "map_of (txn_page_states s1) t \<noteq> None"
    using last by (cases "map_of (txn_page_states s1) t") (simp_all add: no_page_state_def)
  have "pg_others s = []" using un by (simp add: undoable_def in_bounds_def)
  then have same: "same_but_manager s s1" using wait_granted_alone [OF wait _ present] by simp
  note un1 = undoable_manager [OF un same]
  have "map_of (txn_page_states s1) t = Some st" using un1 by (simp add: undoable_def)
  with last obtain before where
    "(case map_of st p of Some w \<Rightarrow> Ok (pgw_before_image w) | None \<Rightarrow> current_before_image p s1) = Ok before"
    and s': "s' = record_page_write t p before page s1"
    by (auto split: result.splits)
  then have "old_page s0 p before"
    using un1 undoable_before [OF un1, of p before] by (auto simp: undoable_def split: option.splits)
  then show ?thesis
    using undoable_record [OF un1] bound same_but_managerD(3) [OF same] s'
    by (auto simp: record_page_write_def update_cache_def update_shared_def)
qed

lemma count_up: "unat n + k < 2 ^ 32 \<Longrightarrow> 0 < k \<Longrightarrow> unat (n + 1) = unat n + 1" for n :: u32
  by (simp add: unat_word_ariths)

lemma undoable_allocate:
  assumes un: "undoable t s0 s st" and ok: "allocate_page_with_kind t kind s = (Ok p, s')"
    and room: "unat (mp_page_count (pg_meta s)) + 1 < 2 ^ 32"
  shows "\<exists>st'. undoable t s0 s' st' \<and> unat (mp_page_count (pg_meta s')) = unat (mp_page_count (pg_meta s)) + 1"
proof -
  let ?n = "mp_page_count (pg_meta s)"
  let ?s = "set_page_count (?n + 1) s"
  obtain s1 where p: "p = ?n"
    and wait: "wait_for_page_write_lock t ?n ?s = (Ok (), s1)"
    and present: "map_of (txn_page_states s1) t \<noteq> None"
    and s': "s' = record_page_write t ?n None (empty_page kind) s1"
    using ok by (auto simp: allocate_page_with_kind_def Let_def no_page_state_def
        split: result.splits prod.splits option.splits)
  have up: "unat (?n + 1) = unat ?n + 1" using count_up [of ?n 1] room by simp
  then have less: "?n < ?n + 1" by (simp add: word_less_nat_alt)
  have fields: "map_of (cache_of ?s) = map_of (cache_of s)" "pg_others ?s = pg_others s"
    "committed_page_count ?s = committed_page_count s" "sh_db (pg_shared ?s) = sh_db (pg_shared s)"
    "mp_page_count (pg_meta ?s) = ?n + 1"
    by (simp_all add: set_page_count_def cache_of_def)
  have "in_bounds ?s" using un less unfolding undoable_def in_bounds_def fields
    by (meson less_imp_le order_trans)
  then have un': "undoable t s0 ?s st"
    using un less unfolding undoable_def fields by (simp, meson less_trans)
  have "pg_others ?s = []" using un by (simp add: undoable_def in_bounds_def set_page_count_def)
  then have same: "same_but_manager ?s s1" using wait_granted_alone [OF wait _ present] by simp
  note un1 = undoable_manager [OF un' same]
  have "map_of st ?n = None" using un by (cases "map_of st ?n") (auto simp: undoable_def)
  then have "old_page s0 ?n None"
    using un by (auto simp: undoable_def in_bounds_def old_page_def)
  then have "undoable t s0 s' (bt_insert ?n \<lparr>pgw_before_image = None, pgw_after_image = empty_page kind\<rparr> st)"
    unfolding s' by (intro undoable_record [OF un1]) (simp_all add: same_but_managerD(3) [OF same] fields(5) less)
  moreover have "mp_page_count (pg_meta s') = ?n + 1"
    using same_but_managerD(3) [OF same] fields(5)
    by (simp add: s' record_page_write_def update_cache_def update_shared_def)
  ultimately show ?thesis using up by auto
qed

lemma undoable_run:
  assumes "undoable t s0 s st" "run_page_ops t ops s = (Ok (), s')"
    "unat (mp_page_count (pg_meta s)) + length ops < 2 ^ 32"
  shows "\<exists>st'. undoable t s0 s' st'"
  using assms
proof (induction t ops arbitrary: s st rule: run_page_ops.induct)
  case (2 t p page ops)
  then obtain s1 where "write_page t p page s = (Ok (), s1)" "run_page_ops t ops s1 = (Ok (), s')"
    by (auto elim: sbind_eq_OkE)
  with 2 undoable_write [OF 2(2)] show ?case by fastforce
next
  case (3 t kind ops)
  then obtain q s1 where "allocate_page_with_kind t kind s = (Ok q, s1)" "run_page_ops t ops s1 = (Ok (), s')"
    by (auto elim: sbind_eq_OkE)
  with 3 undoable_allocate [OF 3(2)] show ?case by fastforce
qed auto

lemma undoable_rollback:
  assumes un: "undoable t s0 s st"
  defines "s' \<equiv> snd (pager_rollback t s)"
  shows "read_page p s' = read_page p s0"
    "txn_page_states s' = hm_remove t (txn_page_states s0)"
    "mp_page_count (pg_meta s') = effective_page_count (committed_page_count s0) s'"
proof -
  have st: "map_of (txn_page_states s) t = Some st" and wf: "bt_wf st" using un by (simp_all add: undoable_def)
  have s': "s' = snd (on_manager (release_transaction_resources t) (drop_page_writes t s))"
    by (simp add: s'_def pager_rollback_def pager_validate_transaction_def st)
  have cache: "cache_of s' = restore_pages st (cache_of s)"
    by (simp add: s' cache_of_def on_manager_files drop_page_writes_def Let_def st set_page_count_def
        update_cache_def update_shared_def)
  have files: "committed_page_count s' = committed_page_count s0" "sh_db (pg_shared s') = sh_db (pg_shared s0)"
    using un by (simp_all add: undoable_def s' on_manager_files drop_page_writes_def Let_def st set_page_count_def
        update_cache_def update_shared_def)
  show states: "txn_page_states s' = hm_remove t (txn_page_states s0)"
    using un by (simp add: s' on_manager_files drop_states undoable_def)
  show "mp_page_count (pg_meta s') = effective_page_count (committed_page_count s0) s'"
    using un unfolding effective_page_count_def states
    by (simp add: s' on_manager_files drop_page_writes_def Let_def st set_page_count_def
        update_cache_def update_shared_def effective_page_count_def undoable_def)
  show "read_page p s' = read_page p s0"
  proof (cases "map_of st p")
    case None
    then have "map_of (cache_of s') p = map_of (cache_of s0) p"
      using un by (simp add: cache restore_pages_get [OF wf] undoable_def)
    then show ?thesis by (simp add: read_page_def files split: option.split)
  next
    case (Some w)
    then have "map_of (cache_of s') p = pgw_before_image w" "old_page s0 p (pgw_before_image w)"
      using un by (simp_all add: cache restore_pages_get [OF wf] undoable_def)
    then show ?thesis
      by (cases "pgw_before_image w") (auto simp: old_page_def read_page_def files)
  qed
qed

text \<open>
  Property C13: rollback undoes everything. After a transaction has written and allocated any number
  of pages in any order, rolling it back makes every page read as it did when the transaction began,
  forgets the transaction, and brings the page count back to what the committed pages and the other
  open transactions need, so that pages it allocated are out of bounds again.
\<close>

theorem rollback_undoes_all_page_operations:
  assumes "map_of (txn_page_states s) t = Some []" "in_bounds s"
    "run_page_ops t ops s = (Ok (), s1)" "unat (mp_page_count (pg_meta s)) + length ops < 2 ^ 32"
  defines "s2 \<equiv> snd (pager_rollback t s1)"
  shows "read_page p s2 = read_page p s \<and> txn_page_states s2 = hm_remove t (txn_page_states s) \<and>
    mp_page_count (pg_meta s2) = effective_page_count (committed_page_count s) s2"
proof -
  obtain st where "undoable t s s1 st"
    using undoable_run [OF undoable_begin [OF assms(1,2)] assms(3,4)] by blast
  from undoable_rollback [OF this] show ?thesis by (simp add: s2_def)
qed

text \<open>
  A transaction reads its own writes. After a successful write the page reads as the
  bytes written, also when other threads changed the shared state while the call waited for the page,
  and the write appears among the transaction's pending writes with these bytes as after image.
\<close>

lemma write_page_reads_back:
  assumes "write_page t p page s = (Ok (), s')"
  shows "read_page p s' = Ok page \<and>
    (\<exists>before ws. pending_page_writes t s' = Ok ws \<and>
      \<lparr>pws_page_id = p, pws_before_image = before, pws_after_image = page\<rparr> \<in> set ws)"
proof -
  obtain before s1 st where s': "s' = record_page_write t p before page s1"
    and st: "map_of (txn_page_states s1) t = Some st"
    using assms unfolding write_page_def
    by (auto elim!: sbind_eq_OkE split: if_splits option.splits result.splits simp: no_page_state_def)
  have "(p, \<lparr>pgw_before_image = before, pgw_after_image = page\<rparr>) \<in>
      set (bt_insert p \<lparr>pgw_before_image = before, pgw_after_image = page\<rparr> st)"
    by (rule map_of_SomeD) simp
  then have "\<lparr>pws_page_id = p, pws_before_image = before, pws_after_image = page\<rparr> \<in>
      (\<lambda>(p, w). \<lparr>pws_page_id = p, pws_before_image = pgw_before_image w, pws_after_image = pgw_after_image w\<rparr>) `
      set (bt_insert p \<lparr>pgw_before_image = before, pgw_after_image = page\<rparr> st)"
    by (rule rev_image_eqI) simp
  moreover have "map_of (txn_page_states s') t =
      Some (bt_insert p \<lparr>pgw_before_image = before, pgw_after_image = page\<rparr> st)"
    by (simp add: s' record_page_write_def st)
  moreover have "map_of (cache_of s') p = Some page"
    by (simp add: s' record_page_write_def cache_of_def update_cache_def update_shared_def)
  ultimately show ?thesis
    by (auto simp: pending_page_writes_def pager_validate_transaction_def read_page_def)
qed

section \<open>Witnesses\<close>

lemma wait_granted_at_once:
  "acquire_page_write t p (manager_of s) = (Ok (), tm) \<Longrightarrow>
     wait_for_page_write_lock t p s = (Ok (), update_shared (\<lambda>sh. sh\<lparr>sh_manager := tm\<rparr>) s)"
  by (simp add: wait_for_page_write_lock.simps on_manager_def manager_of_def)

lemma two_above_one [simp]: "\<not> (2 :: u32) \<le> 1"
  by (simp add: word_le_nat_alt)

definition demo_manager :: txn_manager where
  "demo_manager = snd (tm_begin ReadCommitted (with_next_txn_id 1))"

definition demo_session :: pager where
  "demo_session = \<lparr>pg_shared = \<lparr>sh_manager = demo_manager,
      sh_cache = [], sh_db = replicate (2 * PAGE_SIZE) 1, sh_wal = []\<rparr>,
    pg_meta = bootstrap_meta, committed_page_count = 2, txn_page_states = [(1, [])], pg_others = []\<rparr>"

text \<open>The lock manager after transaction 1 has been granted a page, and granted it again.\<close>

definition demo_granted :: "page_id \<Rightarrow> nat \<Rightarrow> txn_manager" where
  "demo_granted p n = ((\<lambda>tm. snd (acquire_page_write 1 p tm)) ^^ n) demo_manager"

lemma demo_grants:
  "acquire_page_write 1 2 (demo_granted 2 0) = (Ok (), demo_granted 2 1)"
  "acquire_page_write 1 2 (demo_granted 2 1) = (Ok (), demo_granted 2 2)"
  "acquire_page_write 1 1 (demo_granted 1 0) = (Ok (), demo_granted 1 1)"
  by (code_simp, code_simp, code_simp)

lemma demo_write:
  "write_page 1 1 (replicate PAGE_SIZE 9) demo_session =
     (Ok (), record_page_write 1 1 (Some (replicate PAGE_SIZE 1)) (replicate PAGE_SIZE 9)
       (update_shared (\<lambda>sh. sh\<lparr>sh_manager := demo_granted 1 1\<rparr>) demo_session))"
proof -
  have "wait_for_page_write_lock 1 1 demo_session =
      (Ok (), update_shared (\<lambda>sh. sh\<lparr>sh_manager := demo_granted 1 1\<rparr>) demo_session)"
    using demo_grants(3) by (intro wait_granted_at_once) (simp add: demo_granted_def manager_of_def demo_session_def)
  then show ?thesis
    by (simp add: write_page_def sbind_def pager_validate_transaction_def demo_session_def bootstrap_meta_def
        update_shared_def current_before_image_def cache_of_def read_raw_page_def get_range_def)
qed

lemma write_page_reads_back_witness:
  "read_page 1 (snd (write_page 1 1 (replicate PAGE_SIZE 9) demo_session)) = Ok (replicate PAGE_SIZE 9)"
  using write_page_reads_back [OF demo_write] by (simp add: demo_write)

definition demo_ops :: "page_op list" where
  "demo_ops = [AllocateOp Leaf, WriteOp 2 (replicate PAGE_SIZE 9)]"

lemma demo_run: "fst (run_page_ops 1 demo_ops demo_session) = Ok ()"
proof -
  let ?s0 = "set_page_count 3 demo_session"
  let ?s1 = "record_page_write 1 2 None (empty_page Leaf)
    (update_shared (\<lambda>sh. sh\<lparr>sh_manager := demo_granted 2 1\<rparr>) ?s0)"
  have "wait_for_page_write_lock 1 2 ?s0 =
      (Ok (), update_shared (\<lambda>sh. sh\<lparr>sh_manager := demo_granted 2 1\<rparr>) ?s0)"
    using demo_grants(1)
    by (intro wait_granted_at_once) (simp add: demo_granted_def manager_of_def set_page_count_def demo_session_def)
  then have allocate: "allocate_page_with_kind 1 Leaf demo_session = (Ok 2, ?s1)"
    by (simp add: allocate_page_with_kind_def pager_validate_transaction_def demo_session_def
        bootstrap_meta_def update_shared_def set_page_count_def)
  have "wait_for_page_write_lock 1 2 ?s1 =
      (Ok (), update_shared (\<lambda>sh. sh\<lparr>sh_manager := demo_granted 2 2\<rparr>) ?s1)"
    using demo_grants(2)
    by (intro wait_granted_at_once)
      (simp add: record_page_write_def update_cache_def update_shared_def manager_of_def)
  then have "fst (write_page 1 2 (replicate PAGE_SIZE 9) ?s1) = Ok ()"
    by (simp add: write_page_def sbind_def pager_validate_transaction_def demo_session_def bootstrap_meta_def
        record_page_write_def update_cache_def update_shared_def set_page_count_def hm_insert_def hm_modify_def)
  then show ?thesis
    by (cases "write_page 1 2 (replicate PAGE_SIZE 9) ?s1") (simp add: demo_ops_def allocate)
qed

theorem rollback_undoes_all_page_operations_witness:
  "read_page 1 (snd (pager_rollback 1 (snd (run_page_ops 1 demo_ops demo_session)))) = Ok (replicate PAGE_SIZE 1) \<and>
   mp_page_count (pg_meta (snd (pager_rollback 1 (snd (run_page_ops 1 demo_ops demo_session))))) = 2"
proof -
  let ?s2 = "snd (pager_rollback 1 (snd (run_page_ops 1 demo_ops demo_session)))"
  have run: "run_page_ops 1 demo_ops demo_session = (Ok (), snd (run_page_ops 1 demo_ops demo_session))"
    using demo_run by (metis prod.collapse)
  have start: "map_of (txn_page_states demo_session) 1 = Some []" "in_bounds demo_session"
    "unat (mp_page_count (pg_meta demo_session)) + length demo_ops < 2 ^ 32"
    by (simp_all add: demo_session_def in_bounds_def bootstrap_meta_def cache_of_def demo_ops_def)
  have "read_page 1 demo_session = Ok (replicate PAGE_SIZE 1)"
    by (simp add: read_page_def demo_session_def cache_of_def read_raw_page_def get_range_def)
  moreover have "hm_remove 1 (txn_page_states demo_session) = []" "committed_page_count demo_session = 2"
    by (simp_all add: demo_session_def hm_remove_def)
  ultimately show ?thesis
    using rollback_undoes_all_page_operations [OF start(1,2) run start(3), of 1]
    by (simp add: effective_page_count_def count_from_def)
qed

section \<open>Allocation after a deadlock\<close>

lemma drop_page_count:
  "mp_page_count (pg_meta (drop_page_writes t s)) =
     effective_page_count (committed_page_count (drop_page_writes t s)) (drop_page_writes t s)"
  by (simp add: drop_page_writes_def Let_def set_page_count_def effective_page_count_def
      update_cache_def update_shared_def split: option.split)

lemma wait_failed_aborted:
  "wait_for_page_write_lock t p s = (Err e, s') \<Longrightarrow> tm_txn_status t (manager_of s') = Ok Aborted \<Longrightarrow>
     mp_page_count (pg_meta s') = effective_page_count (committed_page_count s') s'"
proof (induction t p s rule: wait_for_page_write_lock.induct)
  case (1 t p s)
  obtain r s1 where om: "on_manager (acquire_page_write t p) s = (r, s1)" by fastforce
  let ?s2 = "cleanup_aborted_transaction_state t s1"
  note IH = 1(1) [OF refl om [symmetric] _ refl] 1(2) [OF refl om [symmetric] _ refl]
  have cleaned: "mp_page_count (pg_meta ?s2) = effective_page_count (committed_page_count ?s2) ?s2"
    if "tm_txn_status t (manager_of ?s2) = Ok Aborted"
    using that drop_page_count [of t s1]
    by (auto simp: cleanup_aborted_transaction_state_def manager_of_def)
  show ?case
  proof (cases r)
    case (Err e')
    with om IH 1(3,4) cleaned show ?thesis
      by (auto simp: wait_for_page_write_lock.simps [of t p s] Let_def blocked_def
          split: if_splits list.splits)
  qed (use om 1(3) in \<open>simp_all add: wait_for_page_write_lock.simps [of t p s]\<close>)
qed

lemma effective_no_writes:
  "\<forall>(u, st) \<in> set (txn_page_states s). st = [] \<Longrightarrow> effective_page_count c s = c"
proof -
  assume "\<forall>(u, st) \<in> set (txn_page_states s). st = []"
  then have "concat (map (\<lambda>(_, st). map fst st) (txn_page_states s)) = []" by auto
  then show ?thesis unfolding effective_page_count_def by (simp only:) (simp add: count_from_def)
qed

lemma sat_sub_one: "n \<noteq> 0 \<Longrightarrow> sat_sub n 1 = n - 1 \<and> n - 1 < n" for n :: u32
  by (simp add: sat_sub_def word_less_nat_alt unat_minus_one word_le_nat_alt unat_gt_0 Suc_leI)

text \<open>
  Property C36: an allocation that ends in a deadlock leaves the page count one below the committed
  one. The clean-up of the victim already sets the count to what the committed pages need, and the
  error path of the allocation then subtracts one more, so that the next page this session allocates
  has the number of the last committed page.
\<close>

theorem deadlocked_allocation_loses_a_page:
  assumes "allocate_page_with_kind t kind s = (Err e, s')" "tm_txn_status t (manager_of s') = Ok Aborted"
    "pager_validate_transaction t s = Ok ()" "\<forall>(u, st) \<in> set (txn_page_states s'). st = []"
    "committed_page_count s' \<noteq> 0"
  shows "mp_page_count (pg_meta s') = committed_page_count s' - 1 \<and>
    committed_page_count s' - 1 < committed_page_count s' \<and>
    (\<forall>u kind' p s''. allocate_page_with_kind u kind' s' = (Ok p, s'') \<longrightarrow> p = committed_page_count s' - 1)"
proof -
  obtain s1 where wait: "wait_for_page_write_lock t (mp_page_count (pg_meta s))
      (set_page_count (mp_page_count (pg_meta s) + 1) s) = (Err e, s1)"
    and s': "s' = set_page_count (sat_sub (mp_page_count (pg_meta s1)) 1) s1"
    using assms(1,3) by (auto simp: allocate_page_with_kind_def Let_def no_page_state_def
        split: prod.splits result.splits option.splits)
  have "manager_of s1 = manager_of s'" "txn_page_states s1 = txn_page_states s'"
    "committed_page_count s1 = committed_page_count s'"
    by (simp_all add: s' set_page_count_def manager_of_def)
  with wait_failed_aborted [OF wait] assms(2,4) effective_no_writes [of s1]
  have "mp_page_count (pg_meta s1) = committed_page_count s'" by simp
  then have "mp_page_count (pg_meta s') = committed_page_count s' - 1"
    using sat_sub_one [OF assms(5)] by (simp add: s' set_page_count_def)
  moreover from this have "p = committed_page_count s' - 1"
    if "allocate_page_with_kind u kind' s' = (Ok p, s'')" for u kind' p s''
    using that by (auto simp: allocate_page_with_kind_def Let_def no_page_state_def
        split: prod.splits result.splits option.splits)
  ultimately show ?thesis using sat_sub_one [OF assms(5)] by blast
qed

lemma wait_deadlock:
  "acquire_page_write t p (manager_of s) = (Err e, tm) \<Longrightarrow> is_deadlock_error e \<Longrightarrow>
     wait_for_page_write_lock t p s =
       (Err e, cleanup_aborted_transaction_state t (update_shared (\<lambda>sh. sh\<lparr>sh_manager := tm\<rparr>) s))"
  by (simp add: wait_for_page_write_lock.simps on_manager_def manager_of_def Let_def)

text \<open>Transaction 1 owns page 2 and waits for page 8, which transaction 2 owns; 2 then allocates.\<close>

definition demo_waits :: txn_manager where
  "demo_waits = snd (acquire_page_write 1 8 (snd (acquire_page_write 2 8 (snd (acquire_page_write 1 2 demo_two)))))"

definition demo_deadlock :: pager where
  "demo_deadlock = \<lparr>pg_shared = \<lparr>sh_manager = demo_waits, sh_cache = [], sh_db = [], sh_wal = []\<rparr>,
    pg_meta = bootstrap_meta, committed_page_count = 2, txn_page_states = [(2, [])], pg_others = []\<rparr>"

lemma demo_deadlocked:
  obtains e where "acquire_page_write 2 2 demo_waits = (Err e, snd (acquire_page_write 2 2 demo_waits))"
    "is_deadlock_error e" "tm_txn_status 2 (snd (acquire_page_write 2 2 demo_waits)) = Ok Aborted"
proof -
  have "case fst (acquire_page_write 2 2 demo_waits) of Err e \<Rightarrow> is_deadlock_error e | _ \<Rightarrow> False" by code_simp
  moreover have "tm_txn_status 2 (snd (acquire_page_write 2 2 demo_waits)) = Ok Aborted" by code_simp
  ultimately show ?thesis using that by (cases "acquire_page_write 2 2 demo_waits") (auto split: result.splits)
qed

theorem deadlocked_allocation_loses_a_page_witness:
  "mp_page_count (pg_meta (snd (allocate_page_with_kind 2 Leaf demo_deadlock))) = 1"
proof -
  obtain e where acq: "acquire_page_write 2 2 demo_waits = (Err e, snd (acquire_page_write 2 2 demo_waits))"
    "is_deadlock_error e" "tm_txn_status 2 (snd (acquire_page_write 2 2 demo_waits)) = Ok Aborted"
    by (rule demo_deadlocked)
  let ?s = "set_page_count 3 demo_deadlock"
  let ?s1 = "cleanup_aborted_transaction_state 2
    (update_shared (\<lambda>sh. sh\<lparr>sh_manager := snd (acquire_page_write 2 2 demo_waits)\<rparr>) ?s)"
  have "wait_for_page_write_lock 2 2 ?s = (Err e, ?s1)"
    using acq(1,2) by (intro wait_deadlock) (simp_all add: manager_of_def set_page_count_def demo_deadlock_def)
  moreover have valid: "pager_validate_transaction 2 demo_deadlock = Ok ()"
    "mp_page_count (pg_meta demo_deadlock) = 2"
    by (simp_all add: pager_validate_transaction_def demo_deadlock_def bootstrap_meta_def)
  ultimately have run: "allocate_page_with_kind 2 Leaf demo_deadlock =
      (Err e, set_page_count (sat_sub (mp_page_count (pg_meta ?s1)) 1) ?s1)"
    by (simp add: allocate_page_with_kind_def)
  have "txn_page_states ?s1 = []" "committed_page_count ?s1 = 2"
    "manager_of ?s1 = snd (acquire_page_write 2 2 demo_waits)"
    using acq(3) by (simp_all add: cleanup_aborted_transaction_state_def drop_states hm_remove_def demo_deadlock_def
        drop_page_writes_def Let_def set_page_count_def update_shared_def update_cache_def manager_of_def)
  then show ?thesis
    using deadlocked_allocation_loses_a_page [OF run _ valid(1)] acq(3)
    by (simp add: run set_page_count_def manager_of_def)
qed

end
