(* ===== verification/V2_Tree.thy ===== *)
theory V2_Tree
  imports Rust_Slices V2_Pager
begin

text \<open>
  The B+-trees of the paged engine. \<open>src/storage/v2/btree.rs\<close> (rows by row id) and
  \<open>src/storage/v2/index_tree.rs\<close> (index entries by encoded key) are the same algorithm for two key
  types; the operations are defined once for any linearly ordered key, over the five operations of
  the pager they call (\<open>store\<close>), and then fixed to the pager and to the two key types. A node is one
  page: its \<open>serde_json\<close> image in the payload. \<open>serde_json\<close> is not part of the repository, its
  \<open>to_vec\<close> and \<open>from_slice\<close> for nodes are parameters. The first argument of a recursive operation is
  the number of stack frames it may use; without one left it ends in \<open>stack_overflow\<close>, as the program
  would on a cyclic tree.
\<close>

section \<open>Nodes\<close>

definition LEAF_MAX_ENTRIES :: nat where "LEAF_MAX_ENTRIES = 16"

definition INTERNAL_MAX_KEYS :: nat where "INTERNAL_MAX_KEYS = 16"

text \<open>A \<open>LeafEntry\<close> is its key with its value.\<close>

type_synonym 'k leaf_entry = "'k \<times> byte list"

record 'k leaf_node =
  lf_entries :: "'k leaf_entry list"
  lf_next :: "page_id option"

record 'k internal_node =
  in_separators :: "'k list"
  in_children :: "page_id list"

datatype 'k node = LeafN "'k leaf_node" | InternalN "'k internal_node"

record 'k split_result =
  separator_key :: 'k
  right_page_id :: page_id

definition leaf_empty :: "'k leaf_node" where
  "leaf_empty = \<lparr>lf_entries = [], lf_next = None\<rparr>"

definition leaf_lookup :: "'k leaf_node \<Rightarrow> 'k \<Rightarrow> byte list option" where
  "leaf_lookup leaf k = map_option snd (find (\<lambda>entry. fst entry = k) (lf_entries leaf))"

definition leaf_search :: "'k::linorder leaf_node \<Rightarrow> 'k \<Rightarrow> search" where
  "leaf_search leaf k = binary_search_by (\<lambda>entry. cmp_of (fst entry) k) (lf_entries leaf)"

definition index_leaf_lookup :: "'k::linorder leaf_node \<Rightarrow> 'k \<Rightarrow> byte list option" where
  "index_leaf_lookup leaf k =
     (case leaf_search leaf k of Found i \<Rightarrow> Some (snd (lf_entries leaf ! i)) | Missing _ \<Rightarrow> None)"

definition child_index :: "'k::linorder internal_node \<Rightarrow> 'k \<Rightarrow> nat" where
  "child_index internal k = partition_point (\<lambda>separator. k \<ge> separator) (in_separators internal)"

definition from_split :: "page_id \<Rightarrow> 'k \<Rightarrow> page_id \<Rightarrow> 'k internal_node" where
  "from_split left k right = \<lparr>in_separators = [k], in_children = [left, right]\<rparr>"

section \<open>The pager as the trees see it\<close>

record ('s, 'k) store =
  st_lock :: "page_id \<Rightarrow> ('s, unit) oper"
  st_read :: "page_id \<Rightarrow> 's \<Rightarrow> 'k node result"
  st_write :: "page_id \<Rightarrow> 'k node \<Rightarrow> ('s, unit) oper"
  st_alloc_leaf :: "('s, page_id) oper"
  st_alloc_internal :: "('s, page_id) oper"

definition read_node :: "(byte list \<Rightarrow> 'k node result) \<Rightarrow> page_id \<Rightarrow> pager \<Rightarrow> 'k node result" where
  "read_node from_slice p s =
     rbind (read_page p s) (\<lambda>page. rbind (page_kind page) (\<lambda>kind.
       case kind of
         Leaf \<Rightarrow> rbind (decode_payload page Leaf) from_slice
       | Internal \<Rightarrow> rbind (decode_payload page Internal) from_slice
       | other \<Rightarrow> Err (Storage (''page '' @ show_word p @ '' has non-tree page kind '' @ page_kind_debug other))))"

definition write_node :: "('k node \<Rightarrow> byte list result) \<Rightarrow> u64 \<Rightarrow> page_id \<Rightarrow> 'k node \<Rightarrow> unit pg_oper" where
  "write_node to_vec t p node =
     sbind (sget (\<lambda>_. rbind (to_vec node) (\<lambda>payload.
       encode_payload_page (case node of LeafN _ \<Rightarrow> Leaf | InternalN _ \<Rightarrow> Internal) payload)))
     (\<lambda>page. write_page t p page)"

definition pager_store ::
    "('k node \<Rightarrow> byte list result) \<Rightarrow> (byte list \<Rightarrow> 'k node result) \<Rightarrow> u64 \<Rightarrow> (pager, 'k) store" where
  "pager_store to_vec from_slice t = \<lparr>
     st_lock = acquire_page_write_lock t, st_read = read_node from_slice, st_write = write_node to_vec t,
     st_alloc_leaf = allocate_leaf_page t, st_alloc_internal = allocate_internal_page t\<rparr>"

section \<open>Searching\<close>

definition stack_overflow :: "'a result" where
  "stack_overflow = Panic ''stack overflow''"

fun find_leaf :: "nat \<Rightarrow> ('s, 'k::linorder) store \<Rightarrow> page_id \<Rightarrow> 'k \<Rightarrow> 's \<Rightarrow> 'k leaf_node result" where
  "find_leaf 0 P p k s = stack_overflow"
| "find_leaf (Suc d) P p k s = rbind (st_read P p s) (\<lambda>node.
     case node of
       LeafN leaf \<Rightarrow> Ok leaf
     | InternalN internal \<Rightarrow>
         rbind (index_at (in_children internal) (child_index internal k)) (\<lambda>child.
           find_leaf d P child k s))"

fun leftmost_leaf_page :: "nat \<Rightarrow> ('s, 'k) store \<Rightarrow> page_id \<Rightarrow> 's \<Rightarrow> page_id result" where
  "leftmost_leaf_page 0 P p s = stack_overflow"
| "leftmost_leaf_page (Suc d) P p s = rbind (st_read P p s) (\<lambda>node.
     case node of
       LeafN _ \<Rightarrow> Ok p
     | InternalN internal \<Rightarrow>
         rbind (index_at (in_children internal) 0) (\<lambda>child. leftmost_leaf_page d P child s))"

text \<open>The loop over the leaf chain; the first argument bounds the number of leaves.\<close>

fun scan_leaves ::
    "nat \<Rightarrow> string \<Rightarrow> ('s, 'k) store \<Rightarrow> page_id option \<Rightarrow> 'k leaf_entry list \<Rightarrow> 's \<Rightarrow> 'k leaf_entry list result" where
  "scan_leaves n what P None rows s = Ok rows"
| "scan_leaves 0 what P (Some p) rows s = Panic ''endless leaf chain''"
| "scan_leaves (Suc n) what P (Some p) rows s = rbind (st_read P p s) (\<lambda>node.
     case node of
       InternalN _ \<Rightarrow> Err (Storage (''expected leaf page '' @ show_word p @ '' while scanning '' @ what @ '' leaf chain''))
     | LeafN leaf \<Rightarrow> scan_leaves n what P (lf_next leaf) (rows @ lf_entries leaf) s)"

section \<open>Inserting\<close>

definition put_entry :: "'k::linorder leaf_node \<Rightarrow> 'k \<Rightarrow> byte list \<Rightarrow> 'k leaf_entry list" where
  "put_entry leaf k v =
     (case leaf_search leaf k of
        Found i \<Rightarrow> (lf_entries leaf)[i := (fst (lf_entries leaf ! i), v)]
      | Missing i \<Rightarrow> insert_at i (k, v) (lf_entries leaf))"

definition insert_into_leaf ::
    "('s, 'k::linorder) store \<Rightarrow> page_id \<Rightarrow> 'k leaf_node \<Rightarrow> 'k \<Rightarrow> byte list \<Rightarrow> ('s, 'k split_result option) oper" where
  "insert_into_leaf P p leaf k v =
     (let entries = put_entry leaf k v in
      if length entries \<le> LEAF_MAX_ENTRIES then
        sbind (st_write P p (LeafN (leaf\<lparr>lf_entries := entries\<rparr>))) (\<lambda>_. sret None)
      else
        let split_at = length entries div 2;
            right_entries = drop split_at entries
        in
        sbind (sget (\<lambda>_. index_at right_entries 0)) (\<lambda>first.
        sbind (st_alloc_leaf P) (\<lambda>new_page_id.
        sbind (st_write P p (LeafN \<lparr>lf_entries = take split_at entries, lf_next = Some new_page_id\<rparr>)) (\<lambda>_.
        sbind (st_write P new_page_id (LeafN \<lparr>lf_entries = right_entries, lf_next = lf_next leaf\<rparr>)) (\<lambda>_.
        sret (Some \<lparr>separator_key = fst first, right_page_id = new_page_id\<rparr>))))))"

text \<open>The branch of an internal node whose child has split.\<close>

definition insert_child ::
    "('s, 'k) store \<Rightarrow> page_id \<Rightarrow> 'k internal_node \<Rightarrow> nat \<Rightarrow> 'k split_result \<Rightarrow> ('s, 'k split_result option) oper" where
  "insert_child P p internal i split =
     (let separators = insert_at i (separator_key split) (in_separators internal);
          children = insert_at (i + 1) (right_page_id split) (in_children internal)
      in
      if length separators \<le> INTERNAL_MAX_KEYS then
        sbind (st_write P p (InternalN \<lparr>in_separators = separators, in_children = children\<rparr>)) (\<lambda>_. sret None)
      else
        let mid = length separators div 2 in
        sbind (sget (\<lambda>_. index_at separators mid)) (\<lambda>promoted_key.
        sbind (sget (\<lambda>_. if mid + 1 \<le> length children then Ok ()
                         else Panic ''`at` split index should be <= len'')) (\<lambda>_.
        sbind (st_alloc_internal P) (\<lambda>new_page_id.
        sbind (st_write P p (InternalN \<lparr>in_separators = take mid separators,
          in_children = take (mid + 1) children\<rparr>)) (\<lambda>_.
        sbind (st_write P new_page_id (InternalN \<lparr>in_separators = drop (mid + 1) separators,
          in_children = drop (mid + 1) children\<rparr>)) (\<lambda>_.
        sret (Some \<lparr>separator_key = promoted_key, right_page_id = new_page_id\<rparr>)))))))"

fun insert_into_page ::
    "nat \<Rightarrow> ('s, 'k::linorder) store \<Rightarrow> page_id \<Rightarrow> 'k \<Rightarrow> byte list \<Rightarrow> ('s, 'k split_result option) oper" where
  "insert_into_page 0 P p k v = sget (\<lambda>_. stack_overflow)"
| "insert_into_page (Suc d) P p k v =
     sbind (st_lock P p) (\<lambda>_.
     sbind (sget (st_read P p)) (\<lambda>node.
       case node of
         LeafN leaf \<Rightarrow> insert_into_leaf P p leaf k v
       | InternalN internal \<Rightarrow>
           sbind (sget (\<lambda>_. index_at (in_children internal) (child_index internal k))) (\<lambda>child_page_id.
           sbind (insert_into_page d P child_page_id k v) (\<lambda>child_split.
             case child_split of
               None \<Rightarrow> sret None
             | Some split \<Rightarrow> insert_child P p internal (child_index internal k) split))))"

section \<open>Deleting\<close>

fun delete_from_page :: "nat \<Rightarrow> ('s, 'k::linorder) store \<Rightarrow> page_id \<Rightarrow> 'k \<Rightarrow> ('s, unit) oper" where
  "delete_from_page 0 P p k = sget (\<lambda>_. stack_overflow)"
| "delete_from_page (Suc d) P p k =
     sbind (st_lock P p) (\<lambda>_.
     sbind (sget (st_read P p)) (\<lambda>node.
       case node of
         LeafN leaf \<Rightarrow>
           (case leaf_search leaf k of
              Found i \<Rightarrow> st_write P p (LeafN (leaf\<lparr>lf_entries := remove_at i (lf_entries leaf)\<rparr>))
            | Missing _ \<Rightarrow> sret ())
       | InternalN internal \<Rightarrow>
           sbind (sget (\<lambda>_. index_at (in_children internal) (child_index internal k))) (\<lambda>child_page_id.
             delete_from_page d P child_page_id k)))"

section \<open>The public operations\<close>

text \<open>A tree is its root page; an insertion returns the root afterwards.\<close>

definition tree_create :: "('s, 'k) store \<Rightarrow> ('s, page_id) oper" where
  "tree_create P = sbind (st_alloc_leaf P) (\<lambda>root.
     sbind (st_write P root (LeafN leaf_empty)) (\<lambda>_. sret root))"

definition tree_get :: "nat \<Rightarrow> ('s, 'k::linorder) store \<Rightarrow> page_id \<Rightarrow> 'k \<Rightarrow> 's \<Rightarrow> byte list option result" where
  "tree_get d P root k s = rbind (find_leaf d P root k s) (\<lambda>leaf. Ok (leaf_lookup leaf k))"

definition tree_insert ::
    "nat \<Rightarrow> ('s, 'k::linorder) store \<Rightarrow> page_id \<Rightarrow> 'k \<Rightarrow> byte list \<Rightarrow> ('s, page_id) oper" where
  "tree_insert d P root k v = sbind (insert_into_page d P root k v) (\<lambda>split.
     case split of
       None \<Rightarrow> sret root
     | Some sp \<Rightarrow>
         sbind (st_alloc_internal P) (\<lambda>new_root.
         sbind (st_write P new_root (InternalN (from_split root (separator_key sp) (right_page_id sp)))) (\<lambda>_.
         sret new_root)))"

definition tree_scan_all ::
    "nat \<Rightarrow> nat \<Rightarrow> string \<Rightarrow> ('s, 'k) store \<Rightarrow> page_id \<Rightarrow> 's \<Rightarrow> 'k leaf_entry list result" where
  "tree_scan_all d n what P root s =
     rbind (leftmost_leaf_page d P root s) (\<lambda>p. scan_leaves n what P (Some p) [] s)"

definition tree_delete :: "nat \<Rightarrow> ('s, 'k::linorder) store \<Rightarrow> page_id \<Rightarrow> 'k \<Rightarrow> ('s, unit) oper" where
  "tree_delete d P root k = delete_from_page d P root k"

end
