(* ===== verification/V2_Tree_Refinement.thy ===== *)
theory V2_Tree_Refinement
  imports V2_Tree
begin

text \<open>
  Trees of pages as trees: \<open>tree\<close> is the shape, \<open>stored\<close> says that the pages of a store hold it with
  its leaves chained, \<open>ordered\<close> that every key lies between the separators around it. The interface
  of the store is the locale \<open>node_store\<close>; inside it the operations are shown to refine the sorted
  association list of the tree's entries.
\<close>

section \<open>Shapes\<close>

datatype 'k tree = Lf page_id "'k leaf_entry list" | Nd page_id "'k list" "'k tree list"

fun root_of :: "'k tree \<Rightarrow> page_id" where
  "root_of (Lf p es) = p"
| "root_of (Nd p ks ts) = p"

fun first_leaf :: "'k tree \<Rightarrow> page_id" where
  "first_leaf (Lf p es) = p"
| "first_leaf (Nd p ks []) = p"
| "first_leaf (Nd p ks (t # ts)) = first_leaf t"

fun entries_of :: "'k tree \<Rightarrow> 'k leaf_entry list" where
  "entries_of (Lf p es) = es"
| "entries_of (Nd p ks ts) = concat (map entries_of ts)"

fun pages_of :: "'k tree \<Rightarrow> page_id list" where
  "pages_of (Lf p es) = [p]"
| "pages_of (Nd p ks ts) = p # concat (map pages_of ts)"

text \<open>The number of leaves, and whether a number of stack frames is enough for a tree.\<close>

fun leaf_count :: "'k tree \<Rightarrow> nat" where
  "leaf_count (Lf p es) = 1"
| "leaf_count (Nd p ks ts) = sum_list (map leaf_count ts)"

fun fits :: "nat \<Rightarrow> 'k tree \<Rightarrow> bool" where
  "fits 0 t = False"
| "fits (Suc d) (Lf p es) = True"
| "fits (Suc d) (Nd p ks ts) = (\<forall>t \<in> set ts. fits d t)"

text \<open>Bounds on keys: at least the lower one, short_of the upper one.\<close>

definition at_least :: "'k::linorder option \<Rightarrow> 'k \<Rightarrow> bool" where
  "at_least lo x = (case lo of None \<Rightarrow> True | Some l \<Rightarrow> l \<le> x)"

definition short_of :: "'k::linorder option \<Rightarrow> 'k \<Rightarrow> bool" where
  "short_of hi x = (case hi of None \<Rightarrow> True | Some h \<Rightarrow> x < h)"

definition at_most :: "'k::linorder option \<Rightarrow> 'k \<Rightarrow> bool" where
  "at_most hi x = (case hi of None \<Rightarrow> True | Some h \<Rightarrow> x \<le> h)"

lemmas bound_defs = at_least_def short_of_def at_most_def

lemma bound_simps [simp]:
  "at_least None x" "short_of None x" "at_most None x"
  "at_least (Some l) x \<longleftrightarrow> l \<le> x" "short_of (Some l) x \<longleftrightarrow> x < l" "at_most (Some l) x \<longleftrightarrow> x \<le> l"
  by (simp_all add: bound_defs)

lemma bound_trans:
  "at_least lo x \<Longrightarrow> x \<le> y \<Longrightarrow> at_least lo y" "short_of hi y \<Longrightarrow> x \<le> y \<Longrightarrow> short_of hi x"
  "at_most hi y \<Longrightarrow> x < y \<Longrightarrow> short_of hi x" "short_of hi x \<Longrightarrow> at_most hi x"
  "at_most hi y \<Longrightarrow> x \<le> y \<Longrightarrow> at_most hi x"
  by (auto simp: bound_defs split: option.splits)

function ordered :: "'k::linorder option \<Rightarrow> 'k option \<Rightarrow> 'k tree \<Rightarrow> bool"
  and ordered_list :: "'k option \<Rightarrow> 'k list \<Rightarrow> 'k tree list \<Rightarrow> 'k option \<Rightarrow> bool" where
  "ordered lo hi (Lf p es) = (bt_wf es \<and> (\<forall>(k, v) \<in> set es. at_least lo k \<and> short_of hi k))"
| "ordered lo hi (Nd p ks ts) = ordered_list lo ks ts hi"
| "ordered_list lo [] [t] hi = ordered lo hi t"
| "ordered_list lo (k # ks) (t # ts) hi =
     (at_least lo k \<and> at_most hi k \<and> ordered lo (Some k) t \<and> ordered_list (Some k) ks ts hi)"
| "ordered_list lo [] [] hi = False"
| "ordered_list lo [] (t # u # ts) hi = False"
| "ordered_list lo (k # ks) [] hi = False"
  by pat_completeness auto
termination
  by (relation "measure (\<lambda>x. case x of Inl (lo, hi, t) \<Rightarrow> size t | Inr (lo, ks, ts, hi) \<Rightarrow> size_list size ts)")
    (auto)

text \<open>A store holds a tree whose last leaf is followed by \<open>nxt\<close>.\<close>

function stored :: "(page_id \<Rightarrow> 'k node result) \<Rightarrow> page_id option \<Rightarrow> 'k tree \<Rightarrow> bool"
  and stored_list :: "(page_id \<Rightarrow> 'k node result) \<Rightarrow> page_id option \<Rightarrow> 'k tree list \<Rightarrow> bool" where
  "stored r nxt (Lf p es) = (r p = Ok (LeafN \<lparr>lf_entries = es, lf_next = nxt\<rparr>))"
| "stored r nxt (Nd p ks ts) =
     (r p = Ok (InternalN \<lparr>in_separators = ks, in_children = map root_of ts\<rparr>) \<and> stored_list r nxt ts)"
| "stored_list r nxt [] = True"
| "stored_list r nxt (t # ts) =
     (stored r (if ts = [] then nxt else Some (first_leaf (hd ts))) t \<and> stored_list r nxt ts)"
  by pat_completeness auto
termination
  by (relation "measure (\<lambda>x. case x of Inl (r, nxt, t) \<Rightarrow> size t | Inr (r, nxt, ts) \<Rightarrow> size_list size ts)")
    auto

section \<open>Bounds of the entries\<close>

lemma ordered_list_iff:
  "ordered_list lo [] ts hi \<longleftrightarrow> (\<exists>t. ts = [t] \<and> ordered lo hi t)"
  "ordered_list lo (k # ks) ts hi \<longleftrightarrow> (\<exists>t us. ts = t # us \<and>
     at_least lo k \<and> at_most hi k \<and> ordered lo (Some k) t \<and> ordered_list (Some k) ks us hi)"
proof -
  show "ordered_list lo [] ts hi \<longleftrightarrow> (\<exists>t. ts = [t] \<and> ordered lo hi t)"
    by (cases ts; cases "tl ts") auto
  show "ordered_list lo (k # ks) ts hi \<longleftrightarrow> (\<exists>t us. ts = t # us \<and>
     at_least lo k \<and> at_most hi k \<and> ordered lo (Some k) t \<and> ordered_list (Some k) ks us hi)"
    by (cases ts) auto
qed

lemma ordered_length: "ordered_list lo ks ts hi \<Longrightarrow> length ts = Suc (length ks)"
  by (induction ks arbitrary: lo ts) (auto simp: ordered_list_iff)

text \<open>All keys of an ordered tree lie within its bounds.\<close>

definition within :: "'k::linorder option \<Rightarrow> 'k option \<Rightarrow> 'k leaf_entry list \<Rightarrow> bool" where
  "within lo hi es \<longleftrightarrow> (\<forall>x \<in> set es. at_least lo (fst x) \<and> short_of hi (fst x))"

lemma within_append [simp]: "within lo hi (xs @ ys) \<longleftrightarrow> within lo hi xs \<and> within lo hi ys"
  by (auto simp: within_def)

lemma within_Nil [simp]: "within lo hi []"
  by (simp add: within_def)

lemma within_shrink:
  "within lo (Some k) es \<Longrightarrow> at_most hi k \<Longrightarrow> within lo hi es"
  "within (Some k) hi es \<Longrightarrow> at_least lo k \<Longrightarrow> within lo hi es"
  unfolding within_def by (metis bound_simps(5) bound_trans(3)) (metis bound_simps(4) bound_trans(1))

lemma ordered_bounds:
  "ordered lo hi t \<Longrightarrow> within lo hi (entries_of t)"
  "ordered_list lo ks ts hi \<Longrightarrow> within lo hi (concat (map entries_of ts))"
proof (induction lo hi t and lo ks ts hi rule: ordered_ordered_list.induct)
  case (1 lo hi p es)
  then show ?case by (auto simp: within_def)
next
  case (4 lo k ks t ts hi)
  then show ?case using within_shrink by auto
qed simp_all

lemma bt_wf_append:
  "bt_wf (xs @ ys) \<longleftrightarrow> bt_wf xs \<and> bt_wf ys \<and> (\<forall>x \<in> set xs. \<forall>y \<in> set ys. fst x < fst y)"
  by (auto simp: bt_wf_def sorted_wrt_append)

lemma bt_wf_joined: "bt_wf xs \<Longrightarrow> bt_wf ys \<Longrightarrow> within lo (Some k) xs \<Longrightarrow> within (Some k) hi ys \<Longrightarrow> bt_wf (xs @ ys)"
  unfolding bt_wf_append within_def by (metis bound_simps(4,5) less_le_trans)

lemma ordered_sorted:
  "ordered lo hi t \<Longrightarrow> bt_wf (entries_of t)"
  "ordered_list lo ks ts hi \<Longrightarrow> bt_wf (concat (map entries_of ts))"
proof (induction lo hi t and lo ks ts hi rule: ordered_ordered_list.induct)
  case (4 lo k ks t ts hi)
  then show ?case
    using bt_wf_joined [OF _ _ ordered_bounds(1) ordered_bounds(2)]
    by (simp, blast)
qed simp_all

section \<open>The child on the way to a key\<close>

lemma separators_sorted: "ordered_list lo ks ts hi \<Longrightarrow> sorted ks \<and> (\<forall>k \<in> set ks. at_least lo k \<and> at_most hi k)"
proof (induction ks arbitrary: lo ts)
  case (Cons k ks)
  then obtain t us where o: "at_least lo k" "at_most hi k" "ordered_list (Some k) ks us hi"
    by (auto simp: ordered_list_iff)
  with Cons.IH [OF o(3)] show ?case by (auto dest: bound_trans(1))
qed simp

lemma child_index_sorted:
  "sorted (in_separators n) \<Longrightarrow> child_index n k = length (takeWhile (\<lambda>x. x \<le> k) (in_separators n))"
  unfolding child_index_def
  by (rule partition_point_prefix) (meson order_trans sorted_nth_mono)

text \<open>The bounds of the child between two groups of separators.\<close>

definition lower :: "'k option \<Rightarrow> 'k list \<Rightarrow> 'k option" where
  "lower lo ks = (if ks = [] then lo else Some (last ks))"

definition upper :: "'k list \<Rightarrow> 'k option \<Rightarrow> 'k option" where
  "upper ks hi = (if ks = [] then hi else Some (hd ks))"

lemma ordered_list_child:
  assumes "ordered_list lo (ks1 @ ks2) (ts1 @ c # ts2) hi" "length ts1 = length ks1"
  shows "ordered (lower lo ks1) (upper ks2 hi) c"
  using assms
proof (induction ks1 arbitrary: lo ts1)
  case Nil
  then show ?case by (cases ks2) (auto simp: ordered_list_iff lower_def upper_def)
next
  case (Cons k ks1)
  then obtain t us where ts1: "ts1 = t # us" by (cases ts1) auto
  with Cons.prems Cons.IH [of "Some k" us] show ?case
    by (cases "ks1 = []") (auto simp: lower_def)
qed

lemma ordered_list_replace:
  assumes "ordered_list lo (ks1 @ ks2) (ts1 @ c # ts2) hi" "length ts1 = length ks1"
    "ordered_list (lower lo ks1) cks cts (upper ks2 hi)"
  shows "ordered_list lo (ks1 @ cks @ ks2) (ts1 @ cts @ ts2) hi"
  using assms
proof (induction ks1 arbitrary: lo ts1)
  case Nil
  show ?case
  proof (cases ks2)
    case Nil
    with Nil.prems show ?thesis by (auto simp: ordered_list_iff lower_def upper_def)
  next
    case (Cons k ks)
    then have rest: "at_most hi k" "at_least lo k" "ordered_list (Some k) ks ts2 hi"
      and child: "ordered_list lo cks cts (Some k)"
      using Nil.prems by (auto simp: lower_def upper_def)
    from child rest(2) have "ordered_list lo (cks @ k # ks) (cts @ ts2) hi"
    proof (induction cks arbitrary: lo cts)
      case Nil
      then show ?case using rest by (auto simp: ordered_list_iff)
    next
      case (Cons x cks)
      then show ?case using rest(1) by (auto simp: ordered_list_iff dest: bound_trans(5))
    qed
    with Cons Nil.prems(2) show ?thesis by simp
  qed
next
  case (Cons k ks1)
  then obtain t us where ts1: "ts1 = t # us" by (cases ts1) auto
  have "lower lo (k # ks1) = lower (Some k) ks1" by (simp add: lower_def)
  with ts1 Cons.prems Cons.IH [of "Some k" us] show ?case by simp
qed

lemma ordered_list_split:
  assumes "ordered_list lo (ks1 @ k # ks2) (ts1 @ ts2) hi" "length ts1 = Suc (length ks1)"
  shows "ordered_list lo ks1 ts1 (Some k) \<and> ordered_list (Some k) ks2 ts2 hi \<and> at_least lo k \<and> at_most hi k"
  using assms
proof (induction ks1 arbitrary: lo ts1)
  case Nil
  then obtain t where "ts1 = [t]" by (cases ts1) auto
  with Nil show ?case by simp
next
  case (Cons x ks1)
  then obtain t us where ts1: "ts1 = t # us" by (cases ts1) auto
  then have o: "at_least lo x" "at_most hi x" "ordered lo (Some x) t" "ordered_list (Some x) (ks1 @ k # ks2) (us @ ts2) hi"
    using Cons.prems by simp_all
  then have "ordered_list (Some x) ks1 us (Some k) \<and> ordered_list (Some k) ks2 ts2 hi \<and> x \<le> k \<and> at_most hi k"
    using Cons.IH [OF o(4)] Cons.prems(2) ts1 by simp
  then show ?case using ts1 o bound_trans(1) by auto
qed

text \<open>Entries left of the child are smaller than the key, entries right of it greater.\<close>

lemma entries_around:
  assumes "ordered_list lo (ks1 @ ks2) (ts1 @ c # ts2) hi" "length ts1 = length ks1"
    "\<forall>x \<in> set ks1. x \<le> k" "ks2 = [] \<or> k < hd ks2"
  shows "\<forall>x \<in> set (concat (map entries_of ts1)). fst x < k"
    and "\<forall>x \<in> set (concat (map entries_of ts2)). k < fst x"
proof -
  show "\<forall>x \<in> set (concat (map entries_of ts1)). fst x < k"
  proof (cases ks1 rule: rev_cases)
    case (snoc ks y)
    then have "ordered_list lo ks ts1 (Some y)"
      using ordered_list_split [of lo ks y ks2 ts1 "c # ts2" hi] assms(1,2) by simp
    from ordered_bounds(2) [OF this] have "\<forall>x \<in> set (concat (map entries_of ts1)). fst x < y"
      by (simp only: within_def bound_simps) simp
    moreover have "y \<le> k" using assms(3) snoc by simp
    ultimately show ?thesis by (meson less_le_trans)
  qed (use assms(2) in simp)
  show "\<forall>x \<in> set (concat (map entries_of ts2)). k < fst x"
  proof (cases ks2)
    case Nil
    then have "ts2 = []" using ordered_length [OF assms(1)] assms(2) by simp
    then show ?thesis by simp
  next
    case (Cons y ks)
    then have "ordered_list (Some y) ks ts2 hi"
      using ordered_list_split [of lo ks1 y ks "ts1 @ [c]" ts2 hi] assms(1,2) by simp
    from ordered_bounds(2) [OF this] have "\<forall>x \<in> set (concat (map entries_of ts2)). y \<le> fst x"
      by (simp only: within_def bound_simps) simp
    then show ?thesis using assms(4) Cons by fastforce
  qed
qed

text \<open>The separators around the child the search takes.\<close>

lemma child_index_around:
  assumes "ordered_list lo ks ts hi" "at_least lo k" "short_of hi k" "in_separators n = ks"
  obtains ks1 ks2 ts1 c ts2 where "ks = ks1 @ ks2" "ts = ts1 @ c # ts2" "length ts1 = length ks1"
    "child_index n k = length ks1" "\<forall>x \<in> set ks1. x \<le> k" "ks2 = [] \<or> k < hd ks2"
    "at_least (lower lo ks1) k" "short_of (upper ks2 hi) k"
proof -
  let ?ks1 = "takeWhile (\<lambda>x. x \<le> k) ks" and ?ks2 = "dropWhile (\<lambda>x. x \<le> k) ks"
  let ?i = "length ?ks1"
  have len: "?i < length ts" using ordered_length [OF assms(1)] length_takeWhile_le [of "\<lambda>x. x \<le> k" ks] by simp
  have around: "\<forall>x \<in> set ?ks1. x \<le> k" "?ks2 = [] \<or> k < hd ?ks2"
    using hd_dropWhile [of "\<lambda>x. x \<le> k" ks] set_takeWhileD by (metis, metis not_le)
  have "at_least (lower lo ?ks1) k" using around(1) assms(2) by (simp add: lower_def)
  moreover have "short_of (upper ?ks2 hi) k" using around(2) assms(3) by (auto simp: upper_def)
  moreover have "child_index n k = ?i"
    using separators_sorted [OF assms(1)] by (simp add: assms(4) child_index_sorted)
  moreover have "ts = take ?i ts @ ts ! ?i # drop (Suc ?i) ts" using len by (simp add: id_take_nth_drop)
  moreover have "length (take ?i ts) = ?i" using len by simp
  ultimately show ?thesis using that [of ?ks1 ?ks2 "take ?i ts" "ts ! ?i" "drop (Suc ?i) ts"] around by simp
qed

section \<open>Stored trees\<close>

lemma stored_list_append:
  "stored_list r nxt (ts1 @ ts2) \<longleftrightarrow>
     stored_list r (if ts2 = [] then nxt else Some (first_leaf (hd ts2))) ts1 \<and> stored_list r nxt ts2"
  by (induction ts1) auto

text \<open>Only the pages of the tree matter.\<close>

lemma stored_cong:
  "stored r nxt t \<Longrightarrow> \<forall>q \<in> set (pages_of t). r' q = r q \<Longrightarrow> stored r' nxt t"
  "stored_list r nxt ts \<Longrightarrow> \<forall>q \<in> set (concat (map pages_of ts)). r' q = r q \<Longrightarrow> stored_list r' nxt ts"
  by (induction r nxt t and r nxt ts rule: stored_stored_list.induct) simp_all

lemma root_in_pages [simp]: "root_of t \<in> set (pages_of t)"
  by (cases t) auto

section \<open>Lookup\<close>

lemma map_of_middle:
  "k \<notin> fst ` set xs \<Longrightarrow> k \<notin> fst ` set zs \<Longrightarrow> map_of (xs @ ys @ zs) k = map_of ys k"
  by (simp add: map_add_def map_of_eq_None_iff [symmetric] split: option.split)

lemma find_leaf_stored:
  assumes "fits d t" "stored (\<lambda>q. st_read P q s) nxt t" "ordered lo hi t" "at_least lo k" "short_of hi k"
  shows "\<exists>leaf. find_leaf d P (root_of t) k s = Ok leaf \<and> bt_wf (lf_entries leaf) \<and>
    map_of (lf_entries leaf) k = map_of (entries_of t) k"
  using assms
proof (induction d t arbitrary: lo hi nxt rule: fits.induct)
  case (3 d p ks ts)
  let ?n = "\<lparr>in_separators = ks, in_children = map root_of ts\<rparr>"
  from 3(4) have ord: "ordered_list lo ks ts hi" by simp
  obtain ks1 ks2 ts1 c ts2 where at: "ks = ks1 @ ks2" "ts = ts1 @ c # ts2" "length ts1 = length ks1"
    "child_index ?n k = length ks1" "\<forall>x \<in> set ks1. x \<le> k" "ks2 = [] \<or> k < hd ks2"
    "at_least (lower lo ks1) k" "short_of (upper ks2 hi) k"
    by (rule child_index_around [OF ord 3(5,6), of ?n]) simp
  have read: "st_read P p s = Ok (InternalN ?n)" using 3(3) by simp
  have child: "index_at (in_children ?n) (child_index ?n k) = Ok (root_of c)"
    using at(2-4) by (simp add: index_at_def nth_append)
  have in_ts: "c \<in> set ts" and fit_c: "fits d c" using at(2) 3(2) by auto
  have stored_c: "stored (\<lambda>q. st_read P q s) (if ts2 = [] then nxt else Some (first_leaf (hd ts2))) c"
    using 3(3) at(2) by (simp add: stored_list_append)
  obtain leaf where leaf: "find_leaf d P (root_of c) k s = Ok leaf" "bt_wf (lf_entries leaf)"
    "map_of (lf_entries leaf) k = map_of (entries_of c) k"
    using 3(1) [OF in_ts fit_c stored_c ordered_list_child [OF ord [unfolded at(1,2)] at(3)] at(7,8)] by blast
  have "map_of (entries_of (Nd p ks ts)) k = map_of (entries_of c) k"
    using map_of_middle [of k "concat (map entries_of ts1)" "concat (map entries_of ts2)" "entries_of c"]
      entries_around [OF ord [unfolded at(1,2)] at(3,5,6)] at(2) by fastforce
  with leaf read child show ?case by simp
qed simp_all

lemma leaf_lookup_sorted: "bt_wf (lf_entries leaf) \<Longrightarrow> leaf_lookup leaf k = map_of (lf_entries leaf) k"
proof -
  have "map_option snd (find (\<lambda>e. fst e = k) es) = map_of es k" for es :: "('a \<times> byte list) list"
    by (induction es) auto
  then show ?thesis by (simp add: leaf_lookup_def)
qed

text \<open>In a sorted leaf the search finds the key or the place where it belongs.\<close>

lemma leaf_search_sorted [consumes 1, case_names found missing]:
  assumes "bt_wf (lf_entries leaf)"
  obtains (found) xs v ys where "lf_entries leaf = xs @ (k, v) # ys" "leaf_search leaf k = Found (length xs)"
      "\<forall>x \<in> set xs. fst x < k" "\<forall>y \<in> set ys. k < fst y"
  | (missing) xs ys where "lf_entries leaf = xs @ ys" "leaf_search leaf k = Missing (length xs)"
      "\<forall>x \<in> set xs. fst x < k" "\<forall>y \<in> set ys. k < fst y"
proof -
  define xs where "xs = takeWhile (\<lambda>x. fst x < k) (lf_entries leaf)"
  define ys where "ys = dropWhile (\<lambda>x. fst x < k) (lf_entries leaf)"
  have es: "lf_entries leaf = xs @ ys" by (simp add: xs_def ys_def)
  have low: "\<forall>x \<in> set xs. fst x < k" unfolding xs_def by (meson set_takeWhileD)
  have sorted: "sorted_wrt (<) (map fst (lf_entries leaf))" using assms by (simp add: bt_wf_def)
  have search: "leaf_search leaf k =
      (if length xs < length (xs @ ys) \<and> fst ((xs @ ys) ! length xs) = k then Found (length xs) else Missing (length xs))"
    unfolding leaf_search_def es [symmetric] using binary_search_sorted [OF sorted, of k]
    by (simp add: Let_def xs_def)
  show ?thesis
  proof (cases ys)
    case Nil
    then show ?thesis using missing [of xs "[]"] search es low by simp
  next
    case (Cons y zs)
    obtain k' v where y: "y = (k', v)" by (cases y)
    have "\<not> fst (hd ys) < k" using hd_dropWhile [of "\<lambda>x. fst x < k" "lf_entries leaf"] Cons unfolding ys_def by simp
    then have ge: "k \<le> k'" using Cons y by simp
    have "bt_wf ((k', v) # zs)" using assms unfolding es Cons y bt_wf_append by simp
    then have high: "\<forall>z \<in> set zs. k' < fst z" by (simp add: bt_wf_def)
    show ?thesis
    proof (cases "k' = k")
      case True
      then show ?thesis using found [of xs v zs] es search low high Cons y by simp
    next
      case False
      then have "\<forall>z \<in> set ys. k < fst z" using ge high Cons y by auto
      then show ?thesis using missing [of xs ys] es search low False Cons y by simp
    qed
  qed
qed

lemma index_leaf_lookup_sorted:
  assumes "bt_wf (lf_entries leaf)"
  shows "index_leaf_lookup leaf k = map_of (lf_entries leaf) k"
  using assms
proof (cases rule: leaf_search_sorted [where k = k])
  case (found xs v ys)
  then have "map_of xs k = None" by (auto simp: map_of_eq_None_iff)
  with found show ?thesis by (simp add: index_leaf_lookup_def map_add_def)
next
  case (missing xs ys)
  then have "map_of xs k = None" "map_of ys k = None" by (auto simp: map_of_eq_None_iff)
  with missing show ?thesis by (simp add: index_leaf_lookup_def map_add_def)
qed

section \<open>Insertion into sorted lists\<close>

lemma bt_insert_less: "\<forall>x \<in> set xs. fst x < k \<Longrightarrow> bt_insert k v (xs @ ys) = xs @ bt_insert k v ys"
  by (induction xs) (auto dest: less_asym)

lemma bt_insert_greater: "\<forall>z \<in> set zs. k < fst z \<Longrightarrow> bt_insert k v (ys @ zs) = bt_insert k v ys @ zs"
proof (induction k v ys rule: bt_insert.induct)
  case (1 k v)
  then show ?case by (cases zs) auto
qed simp_all

lemma put_entry_sorted:
  assumes "bt_wf (lf_entries leaf)"
  shows "put_entry leaf k v = bt_insert k v (lf_entries leaf)"
  using assms
proof (cases rule: leaf_search_sorted [where k = k])
  case (found xs w ys)
  then show ?thesis by (simp add: put_entry_def bt_insert_less)
next
  case (missing xs ys)
  have "bt_insert k v ys = (k, v) # ys" using missing(4) by (cases ys) auto
  with missing show ?thesis by (simp add: put_entry_def bt_insert_less insert_at_def)
qed

lemma remove_entry_sorted:
  assumes "bt_wf (lf_entries leaf)"
  shows "(case leaf_search leaf k of Found i \<Rightarrow> remove_at i (lf_entries leaf) | Missing _ \<Rightarrow> lf_entries leaf) =
    bt_remove k (lf_entries leaf)"
  using assms
proof (cases rule: leaf_search_sorted [where k = k])
  case (found xs w ys)
  then have "filter (\<lambda>e. fst e \<noteq> k) xs = xs" "filter (\<lambda>e. fst e \<noteq> k) ys = ys" by (auto simp: filter_id_conv)
  with found show ?thesis by (simp add: bt_remove_def remove_at_def)
next
  case (missing xs ys)
  then have "filter (\<lambda>e. fst e \<noteq> k) xs = xs" "filter (\<lambda>e. fst e \<noteq> k) ys = ys" by (auto simp: filter_id_conv)
  with missing show ?thesis by (simp add: bt_remove_def)
qed

lemma within_insert: "within lo hi es \<Longrightarrow> at_least lo k \<Longrightarrow> short_of hi k \<Longrightarrow> within lo hi (bt_insert k v es)"
  by (induction k v es rule: bt_insert.induct) (auto simp: within_def)

lemma ordered_leaf: "ordered lo hi (Lf p es) \<longleftrightarrow> bt_wf es \<and> within lo hi es"
  by (auto simp: within_def)

lemma ordered_halves:
  assumes "bt_wf es" "within lo hi es" "0 < n" "n < length es"
  shows "ordered_list lo [fst (es ! n)] [Lf p (take n es), Lf q (drop n es)] hi"
proof -
  obtain left e right where es: "es = left @ e # right" "length left = n"
    using assms(4) by (metis id_take_nth_drop length_take less_imp_le min.absorb2)
  have left: "\<forall>x \<in> set left. fst x < fst e" and right: "\<forall>x \<in> set right. fst e \<le> fst x"
    using assms(1) unfolding es(1) bt_wf_append by (auto simp: bt_wf_def intro: less_imp_le)
  have "bt_wf left" "bt_wf (e # right)" using assms(1) unfolding es(1) bt_wf_append by auto
  moreover have "within lo (Some (fst e)) left" "within (Some (fst e)) hi (e # right)"
    "at_least lo (fst e)" "at_most hi (fst e)"
    using assms(2) left right bound_trans(4) unfolding es(1) by (auto simp: within_def)
  moreover have "take n es = left" "drop n es = e # right" "es ! n = e" using es by auto
  ultimately show ?thesis unfolding ordered_list.simps ordered_leaf by simp
qed

section \<open>The interface of the store\<close>

lemma sbind_eq_Ok: "sbind m k s = (Ok b, s'') \<longleftrightarrow> (\<exists>a s'. m s = (Ok a, s') \<and> k a s' = (Ok b, s''))"
  by (auto elim: sbind_eq_OkE)

locale node_store =
  fixes P :: "('s, 'k::linorder) store"
    and ok :: "'s \<Rightarrow> bool" and used :: "'s \<Rightarrow> page_id set" and room :: "'s \<Rightarrow> nat"
  assumes lock_law: "ok s \<Longrightarrow> st_lock P p s = (Ok (), s') \<Longrightarrow>
      ok s' \<and> used s' = used s \<and> room s' = room s \<and> (\<forall>q. st_read P q s' = st_read P q s)"
    and write_law: "ok s \<Longrightarrow> st_write P p n s = (Ok (), s') \<Longrightarrow>
      ok s' \<and> used s' = used s \<and> room s' = room s \<and> st_read P p s' = Ok n \<and>
      (\<forall>q. q \<noteq> p \<longrightarrow> st_read P q s' = st_read P q s)"
    and alloc_leaf_law: "ok s \<Longrightarrow> 0 < room s \<Longrightarrow> st_alloc_leaf P s = (Ok p, s') \<Longrightarrow>
      ok s' \<and> p \<notin> used s \<and> used s' = insert p (used s) \<and> room s = Suc (room s') \<and>
      (\<forall>q. q \<noteq> p \<longrightarrow> st_read P q s' = st_read P q s)"
    and alloc_internal_law: "ok s \<Longrightarrow> 0 < room s \<Longrightarrow> st_alloc_internal P s = (Ok p, s') \<Longrightarrow>
      ok s' \<and> p \<notin> used s \<and> used s' = insert p (used s) \<and> room s = Suc (room s') \<and>
      (\<forall>q. q \<noteq> p \<longrightarrow> st_read P q s' = st_read P q s)"
begin

abbreviation rd :: "'s \<Rightarrow> page_id \<Rightarrow> 'k node result" where
  "rd s \<equiv> \<lambda>q. st_read P q s"

text \<open>
  Trees that replace the pages \<open>old\<close> of the state \<open>s\<close> in the state \<open>s'\<close>: all other pages in use are
  as they were, and further pages of the trees are new.
\<close>

definition replaces :: "'s \<Rightarrow> 's \<Rightarrow> page_id option \<Rightarrow> page_id set \<Rightarrow> 'k tree list \<Rightarrow> bool" where
  "replaces s s' nxt old ts \<longleftrightarrow>
     stored_list (rd s') nxt ts \<and> distinct (concat (map pages_of ts)) \<and>
     set (concat (map pages_of ts)) \<subseteq> used s' \<and> set (concat (map pages_of ts)) \<inter> used s \<subseteq> old \<and>
     used s \<subseteq> used s' \<and> (\<forall>q \<in> used s - old. rd s' q = rd s q)"

definition tree_in :: "'s \<Rightarrow> page_id option \<Rightarrow> 'k tree \<Rightarrow> bool" where
  "tree_in s nxt t \<longleftrightarrow> stored (rd s) nxt t \<and> distinct (pages_of t) \<and> set (pages_of t) \<subseteq> used s"

text \<open>What an insertion makes of a tree: one tree on the same root page, or two with a separator.\<close>

definition inserted ::
    "'s \<Rightarrow> 's \<Rightarrow> page_id option \<Rightarrow> nat \<Rightarrow> 'k option \<Rightarrow> 'k option \<Rightarrow> 'k tree \<Rightarrow> 'k \<Rightarrow> byte list \<Rightarrow> 'k list \<Rightarrow> 'k tree list \<Rightarrow> bool" where
  "inserted s s' nxt d lo hi t k v cks cts \<longleftrightarrow>
     replaces s s' nxt (set (pages_of t)) cts \<and> ordered_list lo cks cts hi \<and> (\<forall>c \<in> set cts. fits d c) \<and>
     concat (map entries_of cts) = bt_insert k v (entries_of t) \<and>
     root_of (hd cts) = root_of t \<and> first_leaf (hd cts) = first_leaf t"

definition outcome :: "'k split_result option \<Rightarrow> 'k list \<Rightarrow> 'k tree list \<Rightarrow> bool" where
  "outcome res cks cts = (case res of
     None \<Rightarrow> cks = [] \<and> (\<exists>t. cts = [t])
   | Some sp \<Rightarrow> cks = [separator_key sp] \<and> (\<exists>t u. cts = [t, u] \<and> right_page_id sp = root_of u))"

lemma leaf_case:
  assumes "ok s" "0 < room s" "tree_in s nxt (Lf p es)" "ordered lo hi (Lf p es)"
    "at_least lo k" "short_of hi k"
    "insert_into_leaf P p \<lparr>lf_entries = es, lf_next = nxt\<rparr> k v s = (Ok res, s')"
  shows "ok s' \<and> room s \<le> Suc (room s') \<and>
    (\<exists>cks cts. inserted s s' nxt (Suc d) lo hi (Lf p es) k v cks cts \<and> outcome res cks cts)"
proof -
  let ?es = "bt_insert k v es"
  have old: "bt_wf es" "within lo hi es" using assms(4) unfolding ordered_leaf by simp_all
  have wf: "bt_wf ?es" "within lo hi ?es" using old(1) within_insert [OF old(2) assms(5,6)] by simp_all
  have put: "put_entry \<lparr>lf_entries = es, lf_next = nxt\<rparr> k v = ?es"
    using old(1) put_entry_sorted [of "\<lparr>lf_entries = es, lf_next = nxt\<rparr>"] by simp
  have p: "p \<in> used s" using assms(3) by (simp add: tree_in_def)
  show ?thesis
  proof (cases "length ?es \<le> LEAF_MAX_ENTRIES")
    case True
    then have res: "res = None" and wr: "st_write P p (LeafN \<lparr>lf_entries = ?es, lf_next = nxt\<rparr>) s = (Ok (), s')"
      using assms(7) by (auto simp: insert_into_leaf_def put elim!: sbind_eq_OkE)
    note laws = write_law [OF assms(1) wr]
    have "ordered lo hi (Lf p ?es)" using wf unfolding ordered_leaf by simp
    then have "inserted s s' nxt (Suc d) lo hi (Lf p es) k v [] [Lf p ?es]"
      using laws p unfolding inserted_def replaces_def by (simp del: ordered.simps)
    then show ?thesis using laws res unfolding outcome_def by fastforce
  next
    case False
    let ?n = "length ?es div 2"
    have n: "0 < ?n" "?n < length ?es" using False by (auto simp: LEAF_MAX_ENTRIES_def)
    then have first: "index_at (drop ?n ?es) 0 = Ok (?es ! ?n)" by (simp add: index_at_def)
    let ?cts = "\<lambda>q. [Lf p (take ?n ?es), Lf q (drop ?n ?es)]"
    obtain q s1 s2 where alloc: "st_alloc_leaf P s = (Ok q, s1)"
      and left: "st_write P p (LeafN \<lparr>lf_entries = take ?n ?es, lf_next = Some q\<rparr>) s1 = (Ok (), s2)"
      and right: "st_write P q (LeafN \<lparr>lf_entries = drop ?n ?es, lf_next = nxt\<rparr>) s2 = (Ok (), s')"
      and res: "res = Some \<lparr>separator_key = fst (?es ! ?n), right_page_id = q\<rparr>"
      using assms(7) False by (auto simp: insert_into_leaf_def put first Let_def elim!: sbind_eq_OkE)
    note laws = alloc_leaf_law [OF assms(1,2) alloc]
    note laws2 = write_law [OF laws [THEN conjunct1] left]
    note laws3 = write_law [OF laws2 [THEN conjunct1] right]
    have "rd s' x = rd s x" if "x \<in> used s - {p}" for x
      using that laws laws2 laws3 by (metis DiffD1 DiffD2 singletonI)
    then have "\<forall>x \<in> used s - {p}. rd s' x = rd s x" by blast
    moreover have "p \<noteq> q" "rd s' p = rd s2 p" using p laws laws3 by metis+
    ultimately have "replaces s s' nxt {p} (?cts q)"
      using laws laws2 laws3 p unfolding replaces_def by (simp add: subset_insertI)
    moreover have "ordered_list lo [fst (?es ! ?n)] (?cts q) hi"
      using ordered_halves [OF wf n] .
    moreover have "concat (map entries_of (?cts q)) = ?es" by simp
    ultimately have "inserted s s' nxt (Suc d) lo hi (Lf p es) k v [fst (?es ! ?n)] (?cts q)"
      unfolding inserted_def by simp
    moreover have "outcome res [fst (?es ! ?n)] (?cts q)" by (simp add: outcome_def res)
    moreover have "ok s' \<and> room s \<le> Suc (room s')" using laws laws2 laws3 by simp
    ultimately show ?thesis by blast
  qed
qed

text \<open>The children of a node after one of them has been replaced.\<close>

lemma replace_child:
  assumes t: "tree_in s nxt (Nd p ks (ts1 @ c # ts2))"
    and ins: "inserted s s' (if ts2 = [] then nxt else Some (first_leaf (hd ts2))) d lo hi c k v cks cts"
  shows "replaces s s' nxt (set (concat (map pages_of (ts1 @ c # ts2)))) (ts1 @ cts @ ts2)"
    and "rd s' p = rd s p" "p \<notin> set (concat (map pages_of (ts1 @ cts @ ts2)))"
proof -
  let ?new = "set (concat (map pages_of cts))" and ?old = "set (pages_of c)"
  let ?rest = "set (concat (map pages_of ts1)) \<union> set (concat (map pages_of ts2))"
  have cts: "cts \<noteq> []" "first_leaf (hd cts) = first_leaf c"
    using ins ordered_length [of lo cks cts hi] by (auto simp: inserted_def)
  have rep: "stored_list (rd s') (if ts2 = [] then nxt else Some (first_leaf (hd ts2))) cts"
    "distinct (concat (map pages_of cts))" "?new \<subseteq> used s'" "?new \<inter> used s \<subseteq> ?old" "used s \<subseteq> used s'"
    "\<And>q. q \<in> used s \<Longrightarrow> q \<notin> ?old \<Longrightarrow> rd s' q = rd s q"
    using ins by (auto simp: inserted_def replaces_def)
  have tree: "stored_list (rd s) (Some (first_leaf c)) ts1" "stored_list (rd s) nxt ts2"
    "distinct (concat (map pages_of ts1))" "distinct (concat (map pages_of ts2))"
    "?rest \<subseteq> used s" "p \<in> used s" "p \<notin> ?rest" "p \<notin> ?old" "?rest \<inter> ?old = {}"
    "set (concat (map pages_of ts1)) \<inter> set (concat (map pages_of ts2)) = {}"
    using t by (auto simp: tree_in_def stored_list_append)
  have same: "rd s' q = rd s q" if "q \<in> ?rest" for q
    using that tree(5,9) by (intro rep(6)) blast+
  have disjoint: "?new \<inter> ?rest = {}" using rep(4) tree(5,9) by blast
  show "rd s' p = rd s p" using rep(6) tree(6,8) by simp
  show "p \<notin> set (concat (map pages_of (ts1 @ cts @ ts2)))" using rep(4) tree(6,7,8) by auto
  have "stored_list (rd s') (Some (first_leaf c)) ts1" "stored_list (rd s') nxt ts2"
    by (rule stored_cong(2) [OF tree(1)], use same in blast, rule stored_cong(2) [OF tree(2)], use same in blast)
  with rep(1) cts have "stored_list (rd s') nxt (ts1 @ cts @ ts2)" by (simp add: stored_list_append)
  moreover have "distinct (concat (map pages_of (ts1 @ cts @ ts2)))"
    using rep(2) tree(3,4,10) disjoint by auto
  moreover have "set (concat (map pages_of (ts1 @ cts @ ts2))) \<subseteq> used s'" using rep(3,5) tree(5) by auto
  moreover have "set (concat (map pages_of (ts1 @ cts @ ts2))) \<inter> used s \<subseteq> set (concat (map pages_of (ts1 @ c # ts2)))"
    using rep(4) by auto
  moreover have "\<forall>q \<in> used s - set (concat (map pages_of (ts1 @ c # ts2))). rd s' q = rd s q"
    using rep(6) by auto
  ultimately show "replaces s s' nxt (set (concat (map pages_of (ts1 @ c # ts2)))) (ts1 @ cts @ ts2)"
    using rep(5) by (simp only: replaces_def)
qed

text \<open>Writing the node above trees that have been replaced, in one page or in two.\<close>

lemma replaces_node:
  assumes rep: "replaces s s1 nxt old ts" and p: "p \<in> used s" "p \<notin> set (concat (map pages_of ts))"
    and laws: "used s' = used s1" "rd s' p = Ok (InternalN \<lparr>in_separators = ks, in_children = map root_of ts\<rparr>)"
      "\<And>q. q \<noteq> p \<Longrightarrow> rd s' q = rd s1 q"
  shows "replaces s s' nxt (insert p old) [Nd p ks ts]"
proof -
  have "stored_list (rd s1) nxt ts" using rep by (simp add: replaces_def)
  moreover have "\<forall>q \<in> set (concat (map pages_of ts)). rd s' q = rd s1 q" using p(2) laws(3) by metis
  ultimately have "stored_list (rd s') nxt ts" by (rule stored_cong(2))
  moreover have "rd s' x = rd s x" if "x \<in> used s - insert p old" for x
    using rep laws(3) [of x] that by (auto simp: replaces_def)
  moreover have "distinct (concat (map pages_of ts))" "set (concat (map pages_of ts)) \<subseteq> used s1"
    "set (concat (map pages_of ts)) \<inter> used s \<subseteq> old" "used s \<subseteq> used s1"
    using rep by (simp_all add: replaces_def)
  ultimately show ?thesis using p laws(1,2) unfolding replaces_def by auto
qed

lemma replaces_two_nodes:
  assumes rep: "replaces s s1 nxt old (ts1 @ ts2)" and ne: "ts1 \<noteq> []" "ts2 \<noteq> []"
    and p: "p \<in> used s" "p \<notin> set (concat (map pages_of (ts1 @ ts2)))" and q: "q \<notin> used s1"
    and laws: "used s' = insert q (used s1)"
      "rd s' p = Ok (InternalN \<lparr>in_separators = ks1, in_children = map root_of ts1\<rparr>)"
      "rd s' q = Ok (InternalN \<lparr>in_separators = ks2, in_children = map root_of ts2\<rparr>)"
      "\<And>x. x \<noteq> p \<Longrightarrow> x \<noteq> q \<Longrightarrow> rd s' x = rd s1 x"
  shows "replaces s s' nxt (insert p old) [Nd p ks1 ts1, Nd q ks2 ts2]"
proof -
  have sub: "set (concat (map pages_of (ts1 @ ts2))) \<subseteq> used s1" "used s \<subseteq> used s1"
    using rep by (auto simp: replaces_def)
  have q': "q \<notin> set (concat (map pages_of (ts1 @ ts2)))" "q \<noteq> p" "q \<notin> used s" using q sub p(1) by auto
  have "stored_list (rd s') nxt (ts1 @ ts2)"
  proof (rule stored_cong(2) [of "rd s1"])
    show "stored_list (rd s1) nxt (ts1 @ ts2)" using rep by (simp add: replaces_def)
    show "\<forall>x \<in> set (concat (map pages_of (ts1 @ ts2))). rd s' x = rd s1 x"
      using laws(4) p(2) q'(1) by metis
  qed
  moreover have "first_leaf (Nd q ks2 ts2) = first_leaf (hd ts2)" using ne(2) by (cases ts2) auto
  ultimately have "stored_list (rd s') nxt [Nd p ks1 ts1, Nd q ks2 ts2]"
    using ne laws(2,3) by (simp add: stored_list_append)
  moreover have "distinct (concat (map pages_of [Nd p ks1 ts1, Nd q ks2 ts2]))"
    using rep p(2) q' by (auto simp: replaces_def)
  moreover have "set (concat (map pages_of [Nd p ks1 ts1, Nd q ks2 ts2])) \<subseteq> used s'"
    using sub p(1) laws(1) by auto
  moreover have "set (concat (map pages_of [Nd p ks1 ts1, Nd q ks2 ts2])) \<inter> used s \<subseteq> insert p old"
    using rep q'(3) by (auto simp: replaces_def)
  moreover have "rd s' x = rd s x" if "x \<in> used s - insert p old" for x
    using rep laws(4) [of x] that q'(3) by (auto simp: replaces_def)
  ultimately show ?thesis using sub laws(1) unfolding replaces_def by blast
qed

lemma fits_Nd: "\<forall>t \<in> set ts. fits d t \<Longrightarrow> fits (Suc d) (Nd p ks ts)"
  by simp

lemma insert_child_split:
  assumes "insert_child P p n i sp s1 = (Ok res, s')"
    and n: "insert_at i (separator_key sp) (in_separators n) = ks"
      "insert_at (i + 1) (right_page_id sp) (in_children n) = cs"
    and large: "\<not> length ks \<le> INTERNAL_MAX_KEYS"
  obtains q s2 s3 where "st_alloc_internal P s1 = (Ok q, s2)"
    "st_write P p (InternalN \<lparr>in_separators = take (length ks div 2) ks,
       in_children = take (length ks div 2 + 1) cs\<rparr>) s2 = (Ok (), s3)"
    "st_write P q (InternalN \<lparr>in_separators = drop (length ks div 2 + 1) ks,
       in_children = drop (length ks div 2 + 1) cs\<rparr>) s3 = (Ok (), s')"
    "res = Some \<lparr>separator_key = ks ! (length ks div 2), right_page_id = q\<rparr>"
proof -
  have mid: "index_at ks (length ks div 2) = Ok (ks ! (length ks div 2))"
    using large by (auto simp: index_at_def INTERNAL_MAX_KEYS_def)
  show ?thesis
    using assms(1) large unfolding insert_child_def Let_def n if_not_P [OF large]
    by (auto simp: sbind_eq_Ok mid intro!: that split: if_splits)
qed

lemma child_case:
  assumes ok: "ok s1" "0 < room s1" and p: "p \<in> used s" "p \<notin> set (concat (map pages_of ts'))"
    and rep: "replaces s s1 nxt old ts'" and ord: "ordered_list lo ks' ts' hi"
    and n: "insert_at i (separator_key sp) (in_separators n) = ks'"
      "insert_at (i + 1) (right_page_id sp) (in_children n) = map root_of ts'"
    and run: "insert_child P p n i sp s1 = (Ok res, s')"
  shows "ok s' \<and> room s1 \<le> Suc (room s') \<and> (\<exists>cks cts.
    replaces s s' nxt (insert p old) cts \<and> ordered_list lo cks cts hi \<and>
    (\<forall>c \<in> set cts. \<forall>d. (\<forall>t \<in> set ts'. fits d t) \<longrightarrow> fits (Suc d) c) \<and>
    concat (map entries_of cts) = concat (map entries_of ts') \<and>
    root_of (hd cts) = p \<and> first_leaf (hd cts) = first_leaf (hd ts') \<and> outcome res cks cts)"
proof -
  have len: "length ts' = Suc (length ks')" using ordered_length [OF ord] .
  show ?thesis
  proof (cases "length ks' \<le> INTERNAL_MAX_KEYS")
    case True
    then have res: "res = None"
      and wr: "st_write P p (InternalN \<lparr>in_separators = ks', in_children = map root_of ts'\<rparr>) s1 = (Ok (), s')"
      using run unfolding insert_child_def Let_def n if_P [OF True] by (simp_all add: sbind_eq_Ok)
    note laws = write_law [OF ok(1) wr]
    have "replaces s s' nxt (insert p old) [Nd p ks' ts']"
      using laws by (intro replaces_node [OF rep p]) simp_all
    moreover have "first_leaf (Nd p ks' ts') = first_leaf (hd ts')" using len by (cases ts') auto
    ultimately show ?thesis
      using laws res ord by (intro conjI exI [of _ "[] :: 'k list"] exI [of _ "[Nd p ks' ts']"]) (simp_all add: outcome_def)
  next
    case False
    let ?m = "length ks' div 2"
    let ?ts1 = "take (?m + 1) ts'" and ?ts2 = "drop (?m + 1) ts'"
    have m: "?m < length ks'" using False by (auto simp: INTERNAL_MAX_KEYS_def)
    obtain q s2 s3 where alloc: "st_alloc_internal P s1 = (Ok q, s2)"
      and left: "st_write P p (InternalN \<lparr>in_separators = take ?m ks', in_children = take (?m + 1) (map root_of ts')\<rparr>) s2 = (Ok (), s3)"
      and right: "st_write P q (InternalN \<lparr>in_separators = drop (?m + 1) ks', in_children = drop (?m + 1) (map root_of ts')\<rparr>) s3 = (Ok (), s')"
      and res: "res = Some \<lparr>separator_key = ks' ! ?m, right_page_id = q\<rparr>"
      by (rule insert_child_split [OF run n False])
    note laws = alloc_internal_law [OF ok alloc]
    note laws2 = write_law [OF laws [THEN conjunct1] left]
    note laws3 = write_law [OF laws2 [THEN conjunct1] right]
    let ?cts = "[Nd p (take ?m ks') ?ts1, Nd q (drop (?m + 1) ks') ?ts2]"
    have r1: "replaces s s' nxt (insert p old) ?cts"
    proof (rule replaces_two_nodes)
      show "replaces s s1 nxt old (?ts1 @ ?ts2)" using rep by simp
      show "?ts1 \<noteq> []" "?ts2 \<noteq> []" using m len by auto
      show "p \<in> used s" "p \<notin> set (concat (map pages_of (?ts1 @ ?ts2)))" using p by simp_all
      show "q \<notin> used s1" using laws by simp
      show "used s' = insert q (used s1)" using laws laws2 laws3 by simp
      have "p \<noteq> q" using laws p(1) rep by (auto simp: replaces_def)
      then show "rd s' p = Ok (InternalN \<lparr>in_separators = take ?m ks', in_children = map root_of ?ts1\<rparr>)"
        using laws2 laws3 by (simp add: take_map)
      show "rd s' q = Ok (InternalN \<lparr>in_separators = drop (?m + 1) ks', in_children = map root_of ?ts2\<rparr>)"
        using laws3 by (simp add: drop_map)
      show "rd s' x = rd s1 x" if "x \<noteq> p" "x \<noteq> q" for x using that laws laws2 laws3 by simp
    qed
    have r2: "ordered_list lo [ks' ! ?m] ?cts hi"
    proof -
      have "ordered_list lo (take ?m ks' @ ks' ! ?m # drop (?m + 1) ks') (?ts1 @ ?ts2) hi"
        using ord id_take_nth_drop [OF m] by (metis Suc_eq_plus1 append_take_drop_id)
      from ordered_list_split [OF this] show ?thesis using m len by simp
    qed
    have r3: "\<forall>c \<in> set ?cts. \<forall>d. (\<forall>t \<in> set ts'. fits d t) \<longrightarrow> fits (Suc d) c"
      by (auto dest: in_set_takeD in_set_dropD)
    have r4: "concat (map entries_of ?cts) = concat (map entries_of ts')"
      by simp (metis append_take_drop_id concat_append map_append)
    have r5: "first_leaf (hd ?cts) = first_leaf (hd ts')" using len by (cases ts') auto
    have r6: "outcome res [ks' ! ?m] ?cts" by (simp add: outcome_def res)
    have r7: "ok s'" "room s1 \<le> Suc (room s')" using laws laws2 laws3 by simp_all
    show ?thesis
      by (intro conjI exI [of _ "[ks' ! ?m]"] exI [of _ ?cts] r1 r2 r3 r4 r5 r6 r7) simp
  qed
qed

lemma tree_in_lock:
  assumes "tree_in s nxt t" "used s' = used s" "\<forall>q. rd s' q = rd s q"
  shows "tree_in s' nxt t"
  using assms stored_cong(1) [of "rd s" nxt t "rd s'"] by (simp add: tree_in_def)

lemma tree_in_child:
  "tree_in s nxt (Nd p ks (ts1 @ c # ts2)) \<Longrightarrow>
     tree_in s (if ts2 = [] then nxt else Some (first_leaf (hd ts2))) c"
  by (auto simp: tree_in_def stored_list_append)

lemma insert_at_middle: "length xs = i \<Longrightarrow> insert_at i y (xs @ zs) = xs @ y # zs"
  by (auto simp: insert_at_def)

lemma insert_into_page_Suc [consumes 1, case_names leaf whole split]:
  assumes "insert_into_page (Suc d) P p k v s = (Ok res, s')"
  obtains (leaf) s1 leaf where "st_lock P p s = (Ok (), s1)" "rd s1 p = Ok (LeafN leaf)"
      "insert_into_leaf P p leaf k v s1 = (Ok res, s')"
  | (whole) s1 n c where "st_lock P p s = (Ok (), s1)" "rd s1 p = Ok (InternalN n)"
      "index_at (in_children n) (child_index n k) = Ok c"
      "insert_into_page d P c k v s1 = (Ok None, s')" "res = None"
  | (split) s1 n c s2 sp where "st_lock P p s = (Ok (), s1)" "rd s1 p = Ok (InternalN n)"
      "index_at (in_children n) (child_index n k) = Ok c"
      "insert_into_page d P c k v s1 = (Ok (Some sp), s2)"
      "insert_child P p n (child_index n k) sp s2 = (Ok res, s')"
proof -
  from assms obtain u s1 node where "st_lock P p s = (Ok u, s1)" and lock: "rd s1 p = Ok node"
    and run: "(case node of
         LeafN leaf \<Rightarrow> insert_into_leaf P p leaf k v
       | InternalN internal \<Rightarrow>
           sbind (sget (\<lambda>_. index_at (in_children internal) (child_index internal k))) (\<lambda>child_page_id.
           sbind (insert_into_page d P child_page_id k v) (\<lambda>child_split.
             case child_split of
               None \<Rightarrow> sret None
             | Some split \<Rightarrow> insert_child P p internal (child_index internal k) split))) s1 = (Ok res, s')"
    unfolding insert_into_page.simps by (simp only: sbind_eq_Ok sget_apply prod.inject) blast
  then have lock: "st_lock P p s = (Ok (), s1)" "rd s1 p = Ok node" by simp_all
  show ?thesis
  proof (cases node)
    case (LeafN leaf)
    then show ?thesis using run lock that(1) by simp
  next
    case (InternalN n)
    from run obtain c cres s2 where "index_at (in_children n) (child_index n k) = Ok c"
      "insert_into_page d P c k v s1 = (Ok cres, s2)"
      "(case cres of None \<Rightarrow> sret None | Some split \<Rightarrow> insert_child P p n (child_index n k) split) s2 = (Ok res, s')"
      unfolding InternalN node.case by (simp only: sbind_eq_Ok sget_apply prod.inject) blast
    then show ?thesis using that(2,3) lock InternalN by (cases cres) auto
  qed
qed

end

context node_store
begin

text \<open>Insertion refines insertion into the sorted list of entries.\<close>

lemma inserted_lock:
  "inserted s1 s' nxt d lo hi t k v cks cts \<Longrightarrow> used s1 = used s \<Longrightarrow> \<forall>q. rd s1 q = rd s q \<Longrightarrow>
     inserted s s' nxt d lo hi t k v cks cts"
  by (simp add: inserted_def replaces_def)

lemma insert_into_page_leaf:
  assumes "ok s" "0 < room s" "tree_in s nxt (Lf p es)" "ordered lo hi (Lf p es)" "at_least lo k" "short_of hi k"
    "insert_into_page (Suc d) P p k v s = (Ok res, s')"
  shows "ok s' \<and> room s \<le> Suc (room s') \<and>
    (\<exists>cks cts. inserted s s' nxt (Suc d) lo hi (Lf p es) k v cks cts \<and> outcome res cks cts)"
proof -
  have node: "rd s p = Ok (LeafN \<lparr>lf_entries = es, lf_next = nxt\<rparr>)" using assms(3) by (simp add: tree_in_def)
  obtain s1 leaf where run: "st_lock P p s = (Ok (), s1)" "rd s1 p = Ok (LeafN leaf)"
    "insert_into_leaf P p leaf k v s1 = (Ok res, s')"
    using assms(7)
  proof (cases rule: insert_into_page_Suc)
    case (leaf s1 leaf)
    then show ?thesis using that by blast
  next
    case (whole s1 n c)
    then show ?thesis using node lock_law [OF assms(1) whole(1)] by simp
  next
    case (split s1 n c s2 sp)
    then show ?thesis using node lock_law [OF assms(1) split(1)] by simp
  qed
  note laws = lock_law [OF assms(1) run(1)]
  have t1: "tree_in s1 nxt (Lf p es)" using laws by (intro tree_in_lock [OF assms(3)]) simp_all
  have leaf: "leaf = \<lparr>lf_entries = es, lf_next = nxt\<rparr>" using run(2) node laws by simp
  have "0 < room s1" "ok s1" using laws assms(2) by simp_all
  from leaf_case [OF this(2,1) t1 assms(4-6) run(3) [unfolded leaf], of d] laws
  show ?thesis using inserted_lock by (metis (no_types, lifting))
qed

lemma insert_into_page_internal:
  assumes "insert_into_page (Suc d) P p k v s = (Ok res, s')" "ok s" "rd s p = Ok (InternalN n)"
  obtains s1 c cres s2 where "ok s1" "used s1 = used s" "room s1 = room s" "\<forall>q. rd s1 q = rd s q"
    "index_at (in_children n) (child_index n k) = Ok c" "insert_into_page d P c k v s1 = (Ok cres, s2)"
    "case cres of None \<Rightarrow> res = None \<and> s' = s2
     | Some sp \<Rightarrow> insert_child P p n (child_index n k) sp s2 = (Ok res, s')"
  using assms(1)
proof (cases rule: insert_into_page_Suc)
  case (leaf s1 leaf)
  then show ?thesis using assms(3) lock_law [OF assms(2) leaf(1)] by simp
next
  case (whole s1 n' c)
  note laws = lock_law [OF assms(2) whole(1)]
  then have "n' = n" using whole(2) assms(3) by simp
  then show ?thesis using that [of s1 c None s'] laws whole by simp
next
  case (split s1 n' c s2 sp)
  note laws = lock_law [OF assms(2) split(1)]
  then have "n' = n" using split(2) assms(3) by simp
  then show ?thesis using that [of s1 c "Some sp" s2] laws split by simp
qed

text \<open>One level of the induction: the child has been replaced, the node above it follows.\<close>

lemma insert_above:
  assumes t: "tree_in s nxt (Nd p ks ts)" and ord: "ordered_list lo ks ts hi" and fit: "\<forall>u \<in> set ts. fits d u"
    and at: "ks = ks1 @ ks2" "ts = ts1 @ c # ts2" "length ts1 = length ks1"
      "\<forall>x \<in> set ks1. x \<le> k" "ks2 = [] \<or> k < hd ks2"
    and ins: "inserted s s2 (if ts2 = [] then nxt else Some (first_leaf (hd ts2))) d (lower lo ks1) (upper ks2 hi) c k v cks cts"
    and out: "outcome cres cks cts" and ok2: "ok s2" "0 < room s2"
    and fin: "case cres of None \<Rightarrow> res = None \<and> s' = s2
     | Some sp \<Rightarrow> insert_child P p \<lparr>in_separators = ks, in_children = map root_of ts\<rparr> (length ks1) sp s2 = (Ok res, s')"
  shows "ok s' \<and> room s2 \<le> Suc (room s') \<and>
    (\<exists>cks cts. inserted s s' nxt (Suc d) lo hi (Nd p ks ts) k v cks cts \<and> outcome res cks cts)"
proof -
  let ?ts = "ts1 @ cts @ ts2" and ?ks = "ks1 @ cks @ ks2"
  note rc = replace_child [OF t [unfolded at(2)] ins]
  have p: "p \<in> used s" "rd s p = Ok (InternalN \<lparr>in_separators = ks, in_children = map root_of ts\<rparr>)"
    using t by (simp_all add: tree_in_def)
  have c: "ordered_list (lower lo ks1) cks cts (upper ks2 hi)" "\<forall>u \<in> set cts. fits d u"
    "concat (map entries_of cts) = bt_insert k v (entries_of c)"
    "root_of (hd cts) = root_of c" "first_leaf (hd cts) = first_leaf c"
    using ins by (simp_all add: inserted_def)
  have ord': "ordered_list lo ?ks ?ts hi" using ordered_list_replace [OF ord [unfolded at(1,2)] at(3) c(1)] .
  have fit': "\<forall>u \<in> set ?ts. fits d u" using fit c(2) at(2) by auto
  have entries: "concat (map entries_of ?ts) = bt_insert k v (entries_of (Nd p ks ts))"
    using entries_around [OF ord [unfolded at(1,2)] at(3-5)]
    by (simp add: at(2) c(3) bt_insert_less bt_insert_greater)
  have cts: "cts \<noteq> []" using out by (auto simp: outcome_def split: option.splits)
  then have first: "first_leaf (hd ?ts) = first_leaf (Nd p ks ts)"
    using c(5) at(2) by (cases ts1) auto
  have pages: "insert p (set (concat (map pages_of (ts1 @ c # ts2)))) = set (pages_of (Nd p ks ts))"
    using at(2) by simp
  show ?thesis
  proof (cases cres)
    case None
    then obtain u where u: "cks = []" "cts = [u]" using out by (auto simp: outcome_def)
    have "replaces s s2 nxt (set (pages_of (Nd p ks ts))) [Nd p ks ?ts]"
      unfolding pages [symmetric] using rc p c(4) u at
      by (intro replaces_node [OF rc(1) p(1) rc(3)]) simp_all
    then have "inserted s s2 nxt (Suc d) lo hi (Nd p ks ts) k v [] [Nd p ks ?ts]"
      unfolding inserted_def using ord' fit' entries first cts u at(1) by (cases ts1) simp_all
    moreover have "outcome None [] [Nd p ks ?ts]" by (simp add: outcome_def)
    ultimately show ?thesis using None fin ok2 by auto
  next
    case (Some sp)
    then obtain u w where u: "cks = [separator_key sp]" "cts = [u, w]" "right_page_id sp = root_of w"
      using out by (auto simp: outcome_def)
    have n: "insert_at (length ks1) (separator_key sp) (in_separators \<lparr>in_separators = ks, in_children = map root_of ts\<rparr>) = ?ks"
      "insert_at (length ks1 + 1) (right_page_id sp) (in_children \<lparr>in_separators = ks, in_children = map root_of ts\<rparr>) = map root_of ?ts"
      using insert_at_middle [of "map root_of ts1 @ [root_of c]" "length ks1 + 1" "root_of w" "map root_of ts2"]
        at(1-3) u c(4) by (simp_all add: insert_at_middle)
    have run: "insert_child P p \<lparr>in_separators = ks, in_children = map root_of ts\<rparr> (length ks1) sp s2 = (Ok res, s')"
      using fin Some by simp
    obtain cks' cts' where r: "replaces s s' nxt (set (pages_of (Nd p ks ts))) cts'" "ordered_list lo cks' cts' hi"
      "\<forall>c \<in> set cts'. \<forall>d. (\<forall>t \<in> set ?ts. fits d t) \<longrightarrow> fits (Suc d) c"
      "concat (map entries_of cts') = concat (map entries_of ?ts)"
      "root_of (hd cts') = p" "first_leaf (hd cts') = first_leaf (hd ?ts)" "outcome res cks' cts'"
      and ok': "ok s'" "room s2 \<le> Suc (room s')"
      using child_case [OF ok2 p(1) rc(3) rc(1) ord' n run] unfolding pages by blast
    have "inserted s s' nxt (Suc d) lo hi (Nd p ks ts) k v cks' cts'"
      unfolding inserted_def entries [symmetric] first [symmetric] root_of.simps using r fit' by blast
    then show ?thesis using r(7) ok' by blast
  qed
qed

lemma insert_into_page_refines:
  assumes "fits d t" "ok s" "d \<le> room s" "tree_in s nxt t" "ordered lo hi t" "at_least lo k" "short_of hi k"
    "insert_into_page d P (root_of t) k v s = (Ok res, s')"
  shows "ok s' \<and> room s \<le> d + room s' \<and>
    (\<exists>cks cts. inserted s s' nxt d lo hi t k v cks cts \<and> outcome res cks cts)"
  using assms
proof (induction d t arbitrary: lo hi nxt s s' res rule: fits.induct)
  case (2 d p es)
  then show ?case using insert_into_page_leaf [of s nxt p es lo hi k d v res s'] by auto
next
  case (3 d p ks ts)
  let ?n = "\<lparr>in_separators = ks, in_children = map root_of ts\<rparr>"
  have ord: "ordered_list lo ks ts hi" using 3(6) by simp
  have node: "rd s p = Ok (InternalN ?n)" "p \<in> used s" using 3(5) by (simp_all add: tree_in_def)
  obtain ks1 ks2 ts1 c ts2 where at: "ks = ks1 @ ks2" "ts = ts1 @ c # ts2" "length ts1 = length ks1"
    "child_index ?n k = length ks1" "\<forall>x \<in> set ks1. x \<le> k" "ks2 = [] \<or> k < hd ks2"
    "at_least (lower lo ks1) k" "short_of (upper ks2 hi) k"
    by (rule child_index_around [OF ord 3(7,8), of ?n]) simp
  have "insert_into_page (Suc d) P p k v s = (Ok res, s')" using 3(9) by simp
  then obtain s1 c' cres s2 where s1: "ok s1" "used s1 = used s" "room s1 = room s" "\<forall>q. rd s1 q = rd s q"
    and child: "index_at (in_children ?n) (child_index ?n k) = Ok c'" "insert_into_page d P c' k v s1 = (Ok cres, s2)"
    and fin: "case cres of None \<Rightarrow> res = None \<and> s' = s2
     | Some sp \<Rightarrow> insert_child P p ?n (child_index ?n k) sp s2 = (Ok res, s')"
    by (rule insert_into_page_internal [OF _ 3(3) node(1)])
  have c': "c' = root_of c" using child(1) at by (simp add: index_at_def nth_append)
  let ?nxt = "if ts2 = [] then nxt else Some (first_leaf (hd ts2))"
  have t1: "tree_in s1 nxt (Nd p ks (ts1 @ c # ts2))"
    using tree_in_lock [OF 3(5) s1(2,4)] at(2) by simp
  have IH: "ok s2" "room s1 \<le> d + room s2" and ex: "\<exists>cks cts.
      inserted s1 s2 ?nxt d (lower lo ks1) (upper ks2 hi) c k v cks cts \<and> outcome cres cks cts"
    using 3(1) [OF _ _ s1(1) _ tree_in_child [OF t1] ordered_list_child [OF ord [unfolded at(1,2)] at(3)] at(7,8)
        child(2) [unfolded c']] 3(2,4) at(2) s1(3)
    by auto
  from ex obtain cks cts where ins: "inserted s1 s2 ?nxt d (lower lo ks1) (upper ks2 hi) c k v cks cts"
    and out: "outcome cres cks cts" by blast
  have ins': "inserted s s2 ?nxt d (lower lo ks1) (upper ks2 hi) c k v cks cts" using inserted_lock [OF ins s1(2,4)] .
  have room2: "0 < room s2" using IH(2) s1(3) 3(4) by simp
  have fit: "\<forall>u \<in> set ts. fits d u" using 3(2) by simp
  have "ok s' \<and> room s2 \<le> Suc (room s') \<and>
      (\<exists>cks cts. inserted s s' nxt (Suc d) lo hi (Nd p ks ts) k v cks cts \<and> outcome res cks cts)"
    by (rule insert_above [OF 3(5) ord fit at(1-3,5,6) ins' out IH(1) room2 fin [unfolded at(4)]])
  then show ?case using IH(2) s1(3) by auto
qed simp

end

section \<open>Deletion and scans\<close>

lemma bt_remove_append: "bt_remove k (xs @ ys) = bt_remove k xs @ bt_remove k ys"
  by (simp add: bt_remove_def)

lemma bt_remove_absent: "k \<notin> fst ` set xs \<Longrightarrow> bt_remove k xs = xs"
  by (auto simp: bt_remove_def filter_id_conv)

lemma within_remove: "within lo hi es \<Longrightarrow> within lo hi (bt_remove k es)"
  by (auto simp: within_def bt_remove_def)

context node_store
begin

text \<open>A tree changed in place: the same pages, and nothing outside of them.\<close>

definition changed :: "'s \<Rightarrow> 's \<Rightarrow> page_id option \<Rightarrow> nat \<Rightarrow> 'k option \<Rightarrow> 'k option \<Rightarrow> 'k tree \<Rightarrow> 'k tree \<Rightarrow> bool" where
  "changed s s' nxt d lo hi t t' \<longleftrightarrow>
     stored (rd s') nxt t' \<and> ordered lo hi t' \<and> fits d t' \<and> pages_of t' = pages_of t \<and>
     root_of t' = root_of t \<and> first_leaf t' = first_leaf t \<and>
     (\<forall>q. q \<notin> set (pages_of t) \<longrightarrow> rd s' q = rd s q)"

lemma delete_step:
  assumes "delete_from_page (Suc d) P p k s = (Ok (), s')" "ok s" "rd s p = Ok node"
  obtains s1 where "ok s1" "used s1 = used s" "room s1 = room s" "\<forall>q. rd s1 q = rd s q"
    "(case node of
         LeafN leaf \<Rightarrow>
           (case leaf_search leaf k of
              Found i \<Rightarrow> st_write P p (LeafN (leaf\<lparr>lf_entries := remove_at i (lf_entries leaf)\<rparr>))
            | Missing _ \<Rightarrow> sret ())
       | InternalN internal \<Rightarrow>
           sbind (sget (\<lambda>_. index_at (in_children internal) (child_index internal k))) (\<lambda>child_page_id.
             delete_from_page d P child_page_id k)) s1 = (Ok (), s')"
proof -
  obtain s1 node' where lock: "st_lock P p s = (Ok (), s1)" and node: "rd s1 p = Ok node'"
    and run: "(case node' of
         LeafN leaf \<Rightarrow>
           (case leaf_search leaf k of
              Found i \<Rightarrow> st_write P p (LeafN (leaf\<lparr>lf_entries := remove_at i (lf_entries leaf)\<rparr>))
            | Missing _ \<Rightarrow> sret ())
       | InternalN internal \<Rightarrow>
           sbind (sget (\<lambda>_. index_at (in_children internal) (child_index internal k))) (\<lambda>child_page_id.
             delete_from_page d P child_page_id k)) s1 = (Ok (), s')"
    using assms(1) by (auto simp: sbind_eq_Ok)
  note laws = lock_law [OF assms(2) lock]
  have "node' = node" using laws node assms(3) by simp
  then show ?thesis using that [of s1] laws run by blast
qed

lemma delete_leaf:
  assumes "ok s" "tree_in s nxt (Lf p es)" "ordered lo hi (Lf p es)"
    "delete_from_page (Suc d) P p k s = (Ok (), s')"
  shows "ok s' \<and> used s' = used s \<and> room s' = room s \<and>
    changed s s' nxt (Suc d) lo hi (Lf p es) (Lf p (bt_remove k es))"
proof -
  let ?leaf = "\<lparr>lf_entries = es, lf_next = nxt\<rparr>"
  have node: "rd s p = Ok (LeafN ?leaf)" using assms(2) by (simp add: tree_in_def)
  obtain s1 where s1: "ok s1" "used s1 = used s" "room s1 = room s" "\<forall>q. rd s1 q = rd s q"
    and "(case LeafN ?leaf of
         LeafN leaf \<Rightarrow>
           (case leaf_search leaf k of
              Found i \<Rightarrow> st_write P p (LeafN (leaf\<lparr>lf_entries := remove_at i (lf_entries leaf)\<rparr>))
            | Missing _ \<Rightarrow> sret ())
       | InternalN internal \<Rightarrow>
           sbind (sget (\<lambda>_. index_at (in_children internal) (child_index internal k))) (\<lambda>child_page_id.
             delete_from_page d P child_page_id k)) s1 = (Ok (), s')"
    by (rule delete_step [OF assms(4,1) node])
  then have run: "(case leaf_search ?leaf k of
              Found i \<Rightarrow> st_write P p (LeafN (?leaf\<lparr>lf_entries := remove_at i (lf_entries ?leaf)\<rparr>))
            | Missing _ \<Rightarrow> sret ()) s1 = (Ok (), s')" by simp
  have wf: "bt_wf es" "within lo hi es" using assms(3) unfolding ordered_leaf by simp_all
  then have ord: "ordered lo hi (Lf p (bt_remove k es))" unfolding ordered_leaf by (simp add: within_remove)
  have removed: "(case leaf_search ?leaf k of Found i \<Rightarrow> remove_at i es | Missing _ \<Rightarrow> es) = bt_remove k es"
    using remove_entry_sorted [of ?leaf k] wf(1) by (simp split: search.splits)
  show ?thesis
  proof (cases "leaf_search ?leaf k")
    case (Found i)
    then have "st_write P p (LeafN \<lparr>lf_entries = bt_remove k es, lf_next = nxt\<rparr>) s1 = (Ok (), s')"
      using run removed by simp
    from write_law [OF s1(1) this] s1 ord show ?thesis
      by (simp add: changed_def del: ordered.simps)
  next
    case (Missing i)
    then have "s' = s1" "bt_remove k es = es" using run removed by simp_all
    with s1 node ord show ?thesis by (simp add: changed_def del: ordered.simps)
  qed
qed

lemma delete_internal:
  assumes "delete_from_page (Suc d) P p k s = (Ok (), s')" "ok s" "rd s p = Ok (InternalN n)"
  obtains s1 c where "ok s1" "used s1 = used s" "room s1 = room s" "\<forall>q. rd s1 q = rd s q"
    "index_at (in_children n) (child_index n k) = Ok c" "delete_from_page d P c k s1 = (Ok (), s')"
  by (rule delete_step [OF assms]) (use that in \<open>auto simp: sbind_eq_Ok\<close>)

lemma delete_refines:
  assumes "fits d t" "ok s" "tree_in s nxt t" "ordered lo hi t" "at_least lo k" "short_of hi k"
    "delete_from_page d P (root_of t) k s = (Ok (), s')"
  shows "ok s' \<and> used s' = used s \<and> room s' = room s \<and>
    (\<exists>t'. changed s s' nxt d lo hi t t' \<and> entries_of t' = bt_remove k (entries_of t))"
  using assms
proof (induction d t arbitrary: lo hi nxt s rule: fits.induct)
  case (2 d p es)
  then show ?case using delete_leaf [of s nxt p es lo hi d k s'] by force
next
  case (3 d p ks ts)
  let ?n = "\<lparr>in_separators = ks, in_children = map root_of ts\<rparr>"
  have ord: "ordered_list lo ks ts hi" using 3(5) by simp
  have node: "rd s p = Ok (InternalN ?n)" using 3(4) by (simp add: tree_in_def)
  obtain ks1 ks2 ts1 c ts2 where at: "ks = ks1 @ ks2" "ts = ts1 @ c # ts2" "length ts1 = length ks1"
    "child_index ?n k = length ks1" "\<forall>x \<in> set ks1. x \<le> k" "ks2 = [] \<or> k < hd ks2"
    "at_least (lower lo ks1) k" "short_of (upper ks2 hi) k"
    by (rule child_index_around [OF ord 3(6,7), of ?n]) simp
  have "delete_from_page (Suc d) P p k s = (Ok (), s')" using 3(8) by simp
  then obtain s1 c' where s1: "ok s1" "used s1 = used s" "room s1 = room s" "\<forall>q. rd s1 q = rd s q"
    and child: "index_at (in_children ?n) (child_index ?n k) = Ok c'" "delete_from_page d P c' k s1 = (Ok (), s')"
    by (rule delete_internal [OF _ 3(3) node])
  have c': "c' = root_of c" using child(1) at by (simp add: index_at_def nth_append)
  let ?nxt = "if ts2 = [] then nxt else Some (first_leaf (hd ts2))"
  have t1: "tree_in s1 nxt (Nd p ks (ts1 @ c # ts2))"
    using tree_in_lock [OF 3(4) s1(2,4)] at(2) by simp
  have "c \<in> set ts" "fits d c" using at(2) 3(2) by auto
  from 3(1) [OF this s1(1) tree_in_child [OF t1] ordered_list_child [OF ord [unfolded at(1,2)] at(3)] at(7,8)
        child(2) [unfolded c']]
  obtain c2 where c2: "changed s1 s' ?nxt d (lower lo ks1) (upper ks2 hi) c c2"
    "entries_of c2 = bt_remove k (entries_of c)" and ok': "ok s'" "used s' = used s1" "room s' = room s1"
    by auto
  let ?ts = "ts1 @ c2 # ts2"
  have tree: "stored_list (rd s1) (Some (first_leaf c)) ts1" "stored_list (rd s1) nxt ts2"
    "p \<notin> set (pages_of c)" "set (concat (map pages_of ts1)) \<inter> set (pages_of c) = {}"
    "set (concat (map pages_of ts2)) \<inter> set (pages_of c) = {}"
    using t1 by (auto simp: tree_in_def stored_list_append)
  have c2_facts: "stored (rd s') ?nxt c2" "ordered (lower lo ks1) (upper ks2 hi) c2" "fits d c2"
    "pages_of c2 = pages_of c" "root_of c2 = root_of c" "first_leaf c2 = first_leaf c"
    and same: "\<forall>q. q \<notin> set (pages_of c) \<longrightarrow> rd s' q = rd s q"
    using c2(1) s1(4) by (simp_all add: changed_def)
  have same12: "\<forall>q \<in> set (concat (map pages_of ts1)). rd s' q = rd s1 q"
    "\<forall>q \<in> set (concat (map pages_of ts2)). rd s' q = rd s1 q"
    using same s1(4) tree(4,5) by (metis disjoint_iff)+
  have "stored_list (rd s') (Some (first_leaf c)) ts1" "stored_list (rd s') nxt ts2"
    by (rule stored_cong(2) [OF tree(1) same12(1)], rule stored_cong(2) [OF tree(2) same12(2)])
  then have "stored (rd s') nxt (Nd p ks ?ts)"
    using c2_facts(1,5,6) same tree(3) node at(2) by (simp add: stored_list_append)
  moreover have "ordered lo hi (Nd p ks ?ts)"
    using ordered_list_replace [OF ord [unfolded at(1,2)] at(3), of "[]" "[c2]"] c2_facts(2) at(1) by simp
  moreover have "fits (Suc d) (Nd p ks ?ts)" using 3(2) at(2) c2_facts(3) by auto
  moreover have "pages_of (Nd p ks ?ts) = pages_of (Nd p ks ts)" using at(2) c2_facts(4) by simp
  moreover have "first_leaf (Nd p ks ?ts) = first_leaf (Nd p ks ts)" using at(2) c2_facts(6) by (cases ts1) auto
  moreover have "\<forall>q. q \<notin> set (pages_of (Nd p ks ts)) \<longrightarrow> rd s' q = rd s q" using same at(2) by auto
  ultimately have "changed s s' nxt (Suc d) lo hi (Nd p ks ts) (Nd p ks ?ts)" by (simp only: changed_def root_of.simps)
  moreover have "entries_of (Nd p ks ?ts) = bt_remove k (entries_of (Nd p ks ts))"
  proof -
    note around = entries_around [OF ord [unfolded at(1,2)] at(3,5,6)]
    have "bt_remove k (concat (map entries_of ts1)) = concat (map entries_of ts1)"
      "bt_remove k (concat (map entries_of ts2)) = concat (map entries_of ts2)"
      by (rule bt_remove_absent, use around in force)+
    then show ?thesis by (simp add: at(2) c2(2) bt_remove_append)
  qed
  ultimately show ?case using ok' s1(2,3) by metis
qed simp

text \<open>The leaf chain visits the entries in order.\<close>

lemma leftmost_stored: "fits d t \<Longrightarrow> stored (rd s) nxt t \<Longrightarrow> ordered lo hi t \<Longrightarrow>
    leftmost_leaf_page d P (root_of t) s = Ok (first_leaf t)"
proof (induction d t arbitrary: lo hi nxt rule: fits.induct)
  case (3 d p ks ts)
  then obtain t us where ts: "ts = t # us" using ordered_length by (cases ts) fastforce+
  have "ordered_list lo ks (t # us) hi" using 3(4) ts by simp
  then obtain hi' where "ordered lo hi' t" by (cases ks) (auto simp: ordered_list_iff)
  moreover have "stored (rd s) (if us = [] then nxt else Some (first_leaf (hd us))) t" "fits d t"
    using 3(2,3) ts by simp_all
  ultimately show ?case using 3(1) [of t] 3(3) ts by (simp add: index_at_def)
qed simp_all

lemma scan_stored:
  "stored (rd s) nxt t \<Longrightarrow> ordered lo hi t \<Longrightarrow>
     scan_leaves (leaf_count t + n) what P (Some (first_leaf t)) rows s = scan_leaves n what P nxt (rows @ entries_of t) s"
  "stored_list (rd s) nxt ts \<Longrightarrow> ordered_list lo ks ts hi \<Longrightarrow>
     scan_leaves (sum_list (map leaf_count ts) + n) what P (Some (first_leaf (hd ts))) rows s =
     scan_leaves n what P nxt (rows @ concat (map entries_of ts)) s"
proof (induction lo hi t and lo ks ts hi arbitrary: nxt n rows and nxt n rows rule: ordered_ordered_list.induct)
  case (2 lo hi p ks ts)
  then show ?case using ordered_length by (cases ts) fastforce+
next
  case (4 lo k ks t ts hi)
  have ne: "ts \<noteq> []" using 4(4) ordered_length by fastforce
  have t: "stored (rd s) (Some (first_leaf (hd ts))) t" "stored_list (rd s) nxt ts" using 4(3) ne by simp_all
  have o: "ordered lo (Some k) t" "ordered_list (Some k) ks ts hi" using 4(4) by simp_all
  show ?case
    using 4(1) [OF t(1) o(1), of "sum_list (map leaf_count ts) + n" rows] 4(2) [OF t(2) o(2), of n "rows @ entries_of t"]
    by (simp add: add.assoc)
qed simp_all

section \<open>The laws of the trees\<close>

text \<open>The tree rooted in a page, its pages and its entries in order.\<close>

definition represents :: "nat \<Rightarrow> 's \<Rightarrow> page_id \<Rightarrow> page_id set \<Rightarrow> 'k leaf_entry list \<Rightarrow> bool" where
  "represents d s root pgs es \<longleftrightarrow> (\<exists>t. tree_in s None t \<and> ordered None None t \<and> fits d t \<and>
     root_of t = root \<and> set (pages_of t) = pgs \<and> entries_of t = es)"

lemma represents_sorted: "represents d s root pgs es \<Longrightarrow> bt_wf es"
  using ordered_sorted(1) by (auto simp: represents_def)

lemma represents_used: "represents d s root pgs es \<Longrightarrow> pgs \<subseteq> used s"
  by (auto simp: represents_def tree_in_def)

text \<open>A tree is not affected by changes to other pages.\<close>

lemma represents_frame:
  assumes "represents d s root pgs es" "\<forall>q \<in> pgs. rd s' q = rd s q" "used s \<subseteq> used s'"
  shows "represents d s' root pgs es"
proof -
  obtain t where t: "tree_in s None t" "ordered None None t" "fits d t" "root_of t = root"
    "set (pages_of t) = pgs" "entries_of t = es"
    using assms(1) by (auto simp: represents_def)
  have st: "stored (rd s) None t" "distinct (pages_of t)" "set (pages_of t) \<subseteq> used s" using t(1) by (simp_all add: tree_in_def)
  have "stored (rd s') None t" by (rule stored_cong(1) [OF st(1)]) (use assms(2) t(5) in simp)
  then have "tree_in s' None t" unfolding tree_in_def using st(2) subset_trans [OF st(3) assms(3)] by simp
  then show ?thesis unfolding represents_def using t(2-6) by (intro exI [of _ t]) simp
qed

lemma get_law:
  assumes "represents d s root pgs es"
  shows "tree_get d P root k s = Ok (map_of es k)"
    and "\<exists>leaf. find_leaf d P root k s = Ok leaf \<and> bt_wf (lf_entries leaf) \<and> map_of (lf_entries leaf) k = map_of es k"
proof -
  obtain t where t: "tree_in s None t" "ordered None None t" "fits d t" "root_of t = root" "entries_of t = es"
    using assms by (auto simp: represents_def)
  then obtain leaf where leaf: "find_leaf d P root k s = Ok leaf" "bt_wf (lf_entries leaf)"
    "map_of (lf_entries leaf) k = map_of es k"
    using find_leaf_stored [of d t P s None None None k] by (auto simp: tree_in_def)
  then show "tree_get d P root k s = Ok (map_of es k)"
    by (simp add: tree_get_def leaf_lookup_sorted)
  show "\<exists>leaf. find_leaf d P root k s = Ok leaf \<and> bt_wf (lf_entries leaf) \<and> map_of (lf_entries leaf) k = map_of es k"
    using leaf by blast
qed

lemma leaf_count_pages: "leaf_count t \<le> length (pages_of t)"
proof (induction t rule: leaf_count.induct)
  case (2 p ks ts)
  then have "sum_list (map leaf_count ts) \<le> sum_list (map (\<lambda>t. length (pages_of t)) ts)"
    by (intro sum_list_mono)
  then show ?case by (simp add: length_concat comp_def)
qed simp

lemma scan_law:
  assumes "represents d s root pgs es" "card pgs \<le> n"
  shows "tree_scan_all d n what P root s = Ok es"
proof -
  obtain t where t: "tree_in s None t" "ordered None None t" "fits d t" "root_of t = root"
    "set (pages_of t) = pgs" "entries_of t = es"
    using assms(1) by (auto simp: represents_def)
  then have "leaf_count t \<le> n"
    using leaf_count_pages [of t] assms(2) distinct_card [of "pages_of t"] by (auto simp: tree_in_def)
  then have n: "n = leaf_count t + (n - leaf_count t)" by simp
  have "scan_leaves n what P (Some (first_leaf t)) [] s = Ok es"
    using scan_stored(1) [of s None t None None "n - leaf_count t" what "[]"] t n by (simp add: tree_in_def)
  then show ?thesis
    using leftmost_stored [of d t s None None None] t by (simp add: tree_scan_all_def tree_in_def)
qed

lemma create_law:
  assumes "ok s" "0 < room s" "tree_create P s = (Ok root, s')"
  shows "ok s' \<and> room s = Suc (room s') \<and> root \<notin> used s \<and> used s' = insert root (used s) \<and>
    represents 1 s' root {root} [] \<and> (\<forall>q \<in> used s. rd s' q = rd s q)"
proof -
  obtain s1 where alloc: "st_alloc_leaf P s = (Ok root, s1)"
    and wr: "st_write P root (LeafN leaf_empty) s1 = (Ok (), s')"
    using assms(3) by (auto simp: tree_create_def sbind_eq_Ok)
  note laws = alloc_leaf_law [OF assms(1,2) alloc]
  note laws2 = write_law [OF laws [THEN conjunct1] wr]
  have "tree_in s' None (Lf root [])" using laws laws2 by (simp add: tree_in_def leaf_empty_def)
  then have "represents 1 s' root {root} []"
    unfolding represents_def by (intro exI [of _ "Lf root []"]) simp
  then show ?thesis using laws laws2 by metis
qed

lemma insert_law:
  assumes "represents d s root pgs es" "ok s" "d < room s" "tree_insert d P root k v s = (Ok root', s')"
  shows "ok s' \<and> room s \<le> Suc d + room s' \<and> used s \<subseteq> used s' \<and> (\<forall>q \<in> used s - pgs. rd s' q = rd s q) \<and>
    (\<exists>pgs'. represents (Suc d) s' root' pgs' (bt_insert k v es) \<and> pgs' \<inter> used s \<subseteq> pgs)"
proof -
  obtain t where t: "tree_in s None t" "ordered None None t" "fits d t" "root_of t = root"
    "set (pages_of t) = pgs" "entries_of t = es"
    using assms(1) by (auto simp: represents_def)
  obtain sp s1 where ins: "insert_into_page d P (root_of t) k v s = (Ok sp, s1)"
    and fin: "(case sp of None \<Rightarrow> sret root | Some sp \<Rightarrow>
         sbind (st_alloc_internal P) (\<lambda>new_root.
         sbind (st_write P new_root (InternalN (from_split root (separator_key sp) (right_page_id sp)))) (\<lambda>_.
         sret new_root))) s1 = (Ok root', s')"
    using assms(4) t(4) by (auto simp: tree_insert_def sbind_eq_Ok)
  obtain cks cts where r: "ok s1" "room s \<le> d + room s1" "inserted s s1 None d None None t k v cks cts" "outcome sp cks cts"
    using insert_into_page_refines [OF t(3) assms(2) _ t(1,2) _ _ ins] assms(3) by auto
  have rep: "replaces s s1 None pgs cts" "ordered_list None cks cts None" "\<forall>c \<in> set cts. fits d c"
    "concat (map entries_of cts) = bt_insert k v es" "root_of (hd cts) = root"
    using r(3) t by (simp_all add: inserted_def)
  show ?thesis
  proof (cases sp)
    case None
    then obtain u where u: "cks = []" "cts = [u]" using r(4) by (auto simp: outcome_def)
    have "fits e x \<Longrightarrow> fits (Suc e) x" for e and x :: "'k tree" by (induction e x rule: fits.induct) auto
    then have fit: "fits (Suc d) u" using rep(3) u by simp
    have pages: "set (pages_of u) \<subseteq> used s1" "set (pages_of u) \<inter> used s \<subseteq> pgs" "used s \<subseteq> used s1"
      and frame: "\<forall>q \<in> used s - pgs. rd s1 q = rd s q" and "tree_in s1 None u"
      using rep(1) unfolding u(2) by (simp_all add: replaces_def tree_in_def)
    then have "represents (Suc d) s1 root (set (pages_of u)) (bt_insert k v es)"
      unfolding represents_def using rep(2,4,5) u fit by (intro exI [of _ u]) simp
    moreover have "s' = s1" "root' = root" using fin None by simp_all
    moreover have "room s \<le> Suc d + room s1" using r(2) by simp
    ultimately show ?thesis using pages frame r(1) by blast
  next
    case (Some sp')
    then obtain u w where u: "cks = [separator_key sp']" "cts = [u, w]" "right_page_id sp' = root_of w"
      using r(4) by (auto simp: outcome_def)
    obtain s2 where alloc: "st_alloc_internal P s1 = (Ok root', s2)"
      and wr: "st_write P root' (InternalN (from_split root (separator_key sp') (right_page_id sp'))) s2 = (Ok (), s')"
      using fin Some by (auto simp: sbind_eq_Ok)
    have "0 < room s1" using r(2) assms(3) by simp
    note laws = alloc_internal_law [OF r(1) this alloc]
    note laws2 = write_law [OF laws [THEN conjunct1] wr]
    let ?t = "Nd root' [separator_key sp'] [u, w]"
    have new: "root' \<notin> used s1" "used s' = insert root' (used s1)" "\<forall>q. q \<noteq> root' \<longrightarrow> rd s' q = rd s1 q"
      using laws laws2 by simp_all
    have sub: "set (concat (map pages_of cts)) \<subseteq> used s1" "used s \<subseteq> used s1" using rep(1) by (auto simp: replaces_def)
    have same: "rd s' q = rd s1 q" if "q \<in> set (concat (map pages_of [u, w]))" for q
    proof -
      have "q \<noteq> root'" using that new(1) sub(1) unfolding u(2) by auto
      then show ?thesis using new(3) by simp
    qed
    have "stored_list (rd s1) None [u, w]" using rep(1) unfolding u(2) replaces_def by simp
    then have "stored_list (rd s') None [u, w]" by (rule stored_cong(2)) (use same in simp)
    moreover have "distinct (pages_of ?t)"
      using rep(1) new(1) sub(1) unfolding u(2) replaces_def by auto
    moreover have "set (pages_of ?t) \<subseteq> used s'" using sub(1) new(2) unfolding u(2) by auto
    moreover have "rd s' root' = Ok (InternalN \<lparr>in_separators = [separator_key sp'], in_children = map root_of [u, w]\<rparr>)"
      using laws2 rep(5) u by (simp add: from_split_def)
    ultimately have "tree_in s' None ?t" unfolding tree_in_def stored.simps by (intro conjI)
    moreover have "ordered None None ?t" "fits (Suc d) ?t" "entries_of ?t = bt_insert k v es"
      using rep u by simp_all
    ultimately have "represents (Suc d) s' root' (set (pages_of ?t)) (bt_insert k v es)"
      unfolding represents_def by (intro exI [of _ ?t]) simp
    moreover have "set (pages_of ?t) \<inter> used s \<subseteq> pgs"
    proof -
      have "(set (pages_of u) \<union> set (pages_of w)) \<inter> used s \<subseteq> pgs" using rep(1) unfolding u(2) replaces_def by simp
      then show ?thesis using new(1) sub(2) by auto
    qed
    moreover have "\<forall>q \<in> used s - pgs. rd s' q = rd s q"
    proof
      fix q assume q: "q \<in> used s - pgs"
      then have "q \<noteq> root'" using new(1) sub(2) by auto
      then show "rd s' q = rd s q" using new(3) rep(1) q by (simp add: replaces_def)
    qed
    moreover have "ok s'" "room s \<le> Suc d + room s'" "used s \<subseteq> used s'"
      using r(2) laws laws2 sub(2) new(2) by auto
    ultimately show ?thesis by blast
  qed
qed

lemma delete_law:
  assumes "represents d s root pgs es" "ok s" "tree_delete d P root k s = (Ok (), s')"
  shows "ok s' \<and> room s' = room s \<and> used s' = used s \<and> represents d s' root pgs (bt_remove k es) \<and>
    (\<forall>q. q \<notin> pgs \<longrightarrow> rd s' q = rd s q)"
proof -
  obtain t where t: "tree_in s None t" "ordered None None t" "fits d t" "root_of t = root"
    "set (pages_of t) = pgs" "entries_of t = es"
    using assms(1) by (auto simp: represents_def)
  obtain t' where r: "ok s'" "used s' = used s" "room s' = room s" "changed s s' None d None None t t'"
    "entries_of t' = bt_remove k es"
    using delete_refines [OF t(3) assms(2) t(1,2), of k s'] assms(3) t(4,6) by (auto simp: tree_delete_def)
  have "tree_in s' None t'" using r t(1) by (simp add: changed_def tree_in_def)
  then have "represents d s' root pgs (bt_remove k es)"
    unfolding represents_def using r t by (intro exI [of _ t']) (simp add: changed_def)
  then show ?thesis using r t(5) by (simp add: changed_def)
qed

end

end
