(* ===== verification/V2_Tree_Pager.thy ===== *)
theory V2_Tree_Pager
  imports V2_Tree_Refinement V2_Pager_Properties
begin

text \<open>
  The pager as the store of the trees: under the assumption that \<open>serde_json\<close> reads back what it has
  written, a session that works alone on an active transaction satisfies the laws of \<open>node_store\<close>.
  The two kinds of trees are then the generic operations on the pager, with row ids and with encoded
  keys.
\<close>

section \<open>A granted request leaves the transaction active\<close>

definition harmless :: "'a result \<Rightarrow> bool" where
  "harmless r = (case r of Ok _ \<Rightarrow> True | Err e \<Rightarrow> \<not> is_deadlock_error e | Panic _ \<Rightarrow> False)"

lemma kill_status: "v \<noteq> t \<Longrightarrow> tm_txn_status t (kill v m s) = tm_txn_status t s"
  by (simp add: kill_def tm_txn_status_def tm_get_def update_txn_def)

lemma wait_or_retry_status:
  assumes "wait_or_retry t ctx bs w s = (r, s')" "harmless r" "\<And>b v. is_deadlock_error (Txn (ctx b v))"
  shows "tm_txn_status t s' = tm_txn_status t s"
proof (cases rule: deadlock_loop_cases [of t ctx bs s])
  case waiting
  with assms(1) show ?thesis by (simp add: wait_or_retry_def sbind_def)
next
  case (self m)
  then have "is_deadlock_error (Txn m)" using assms(3) by auto
  with self assms(1,2) show ?thesis by (auto simp: wait_or_retry_def sbind_def harmless_def)
next
  case (other v m)
  with assms(1) have "s' = kill v m s" by (simp add: wait_or_retry_def sbind_def)
  then show ?thesis by (simp add: kill_status [OF other(2)])
next
  case (panic q b path x)
  with assms(1,2) show ?thesis by (auto simp: wait_or_retry_def sbind_def harmless_def)
qed

lemma status_edges [simp]:
  "tm_txn_status u (set_page_wait_edges t bs s) = tm_txn_status u s"
  "tm_txn_status u (enqueue_page_waiter p t s) = tm_txn_status u s"
  "tm_txn_status u (clear_page_wait_edges t s) = tm_txn_status u s"
  "tm_txn_status u (dequeue_front_waiter p t s) = tm_txn_status u s"
  by (simp_all add: tm_txn_status_def tm_get_def set_page_wait_edges_def enqueue_page_waiter_def
      clear_page_wait_edges_def dequeue_front_waiter_def Let_def split: option.split list.split)


lemma page_attempt_status:
  assumes "page_write_attempt t p s = (r, s')" "harmless r"
  shows "tm_txn_status t s' = tm_txn_status t s"
proof -
  have parked: "tm_txn_status t s' = tm_txn_status t s"
    if "wait_or_retry t (page_context t p) [b] w (set_page_wait_edges t [b] (enqueue_page_waiter p t s)) = (r, s')"
    for b w
    using wait_or_retry_status [OF that assms(2) page_context_deadlock] by simp
  show ?thesis
  proof (cases rule: ensure_active_cases [of t s])
    case (inactive e)
    then show ?thesis
      using assms(1) by (auto simp: page_write_attempt_def Let_def sbind_def split: option.splits if_splits)
  next
    case active
    have own: "tm_txn_status t (s\<lparr>page_write_wait_queues := a, page_write_owners := b\<rparr>) = tm_txn_status t s" for a b
      by (simp add: tm_txn_status_def tm_get_def)
    show ?thesis
    proof (cases "map_of (page_write_owners s) p")
      case None
      with active assms(1) show ?thesis
        by (cases "queue_front p (page_write_wait_queues s)")
          (auto simp: page_write_attempt_def Let_def sbind_def dequeue_front_waiter_def own split: if_splits
            dest: parked)
    next
      case (Some owner)
      with active assms(1) show ?thesis
        by (cases "tm_get owner s"; cases "owner = t")
          (auto simp: page_write_attempt_def Let_def sbind_def dest: parked)
    qed
  qed
qed

lemma acquire_page_write_status:
  assumes "acquire_page_write t p s = (r, s')" "harmless r"
  shows "tm_txn_status t s' = tm_txn_status t s"
  using assms
proof (induction t p s rule: acquire_page_write.induct)
  case (1 t p s)
  obtain ra s1 where att: "page_write_attempt t p s = (ra, s1)" by (cases "page_write_attempt t p s")
  show ?case
  proof (cases "ra = Ok Retry")
    case True
    with att 1(2) have "acquire_page_write t p s1 = (r, s')"
      by (simp add: acquire_page_write.simps [of t p s])
    with 1(1) [OF att [symmetric]] True 1(3) have "tm_txn_status t s' = tm_txn_status t s1" by auto
    with page_attempt_status [OF att] True show ?thesis by (simp add: harmless_def)
  next
    case False
    with att 1(2,3) have "s1 = s'" "harmless ra"
      by (auto simp: acquire_page_write.simps [of t p s] harmless_def split: result.splits attempt.splits)
    with page_attempt_status [OF att] show ?thesis by simp
  qed
qed

section \<open>Sessions\<close>

text \<open>A session that works alone, on an active transaction that it has begun.\<close>

definition session_ok :: "u64 \<Rightarrow> pager \<Rightarrow> bool" where
  "session_ok t s \<longleftrightarrow> in_bounds s \<and> map_of (txn_page_states s) t \<noteq> None \<and>
     tm_txn_status t (manager_of s) = Ok Active"

definition pages_in_use :: "pager \<Rightarrow> page_id set" where
  "pages_in_use s = {p. p < mp_page_count (pg_meta s)}"

definition page_room :: "pager \<Rightarrow> nat" where
  "page_room s = 2 ^ 32 - 1 - unat (mp_page_count (pg_meta s))"

lemma wait_session:
  "wait_for_page_write_lock t p s = (Ok (), s') \<Longrightarrow> pg_others s = [] \<Longrightarrow>
     tm_txn_status t (manager_of s) = Ok Active \<Longrightarrow>
     same_but_manager s s' \<and> tm_txn_status t (manager_of s') = Ok Active"
proof (induction t p s rule: wait_for_page_write_lock.induct)
  case (1 t p s)
  obtain r s1 where om: "on_manager (acquire_page_write t p) s = (r, s1)" by fastforce
  note same = same_but_manager_on_manager [OF om]
  have acq: "acquire_page_write t p (manager_of s) = (r, manager_of s1)" using on_manager_state [OF om] by blast
  show ?case
  proof (cases r)
    case (Ok u)
    then have "s' = s1" using om 1(3) by (simp add: wait_for_page_write_lock.simps [of t p s])
    with same acquire_page_write_status [OF acq] Ok 1(5) show ?thesis by (simp add: harmless_def)
  next
    case (Err e)
    let ?s2 = "cleanup_aborted_transaction_state t s1"
    have again: "wait_for_page_write_lock t p ?s2 = (Ok (), s')"
      and moved: "\<not> is_deadlock_error e" "is_waitable_lock_error e"
        "lock_wait_epoch (manager_of ?s2) \<noteq> lock_wait_epoch (manager_of s)"
      using 1(3,4) om Err same_but_managerD(6) [OF same]
      by (simp_all add: wait_for_page_write_lock.simps [of t p s] Let_def blocked_def split: if_splits)
    have active: "tm_txn_status t (manager_of s1) = Ok Active"
      using acquire_page_write_status [OF acq] Err moved(1) 1(5) by (simp add: harmless_def)
    then have s2: "?s2 = s1" by (simp add: cleanup_aborted_transaction_state_def manager_of_def)
    have "same_but_manager ?s2 s' \<and> tm_txn_status t (manager_of s') = Ok Active"
      using 1(1) [OF refl om [symmetric] Err refl moved again] 1(4) same_but_managerD(6) [OF same] active s2
      by simp
    then show ?thesis using same_but_manager_trans same s2 by metis
  qed (use om 1(3) in \<open>simp add: wait_for_page_write_lock.simps [of t p s]\<close>)
qed

lemma session_same:
  assumes "session_ok t s" "same_but_manager s s'" "tm_txn_status t (manager_of s') = Ok Active"
  shows "session_ok t s' \<and> pages_in_use s' = pages_in_use s \<and> page_room s' = page_room s \<and>
    (\<forall>q. read_page q s' = read_page q s)"
  using assms(1,3) unfolding session_ok_def in_bounds_def pages_in_use_def page_room_def read_page_def
    same_but_managerD [OF assms(2)] by simp

lemma session_wait:
  assumes "session_ok t s" "wait_for_page_write_lock t p s = (Ok (), s')"
  shows "same_but_manager s s'" "tm_txn_status t (manager_of s') = Ok Active"
  using wait_session [OF assms(2)] assms(1) by (simp_all add: session_ok_def in_bounds_def)

lemma session_record:
  assumes "session_ok t s" "p < mp_page_count (pg_meta s)" and s'_def: "s' = record_page_write t p before page s"
  shows "session_ok t s' \<and> pages_in_use s' = pages_in_use s \<and> page_room s' = page_room s \<and>
    read_page p s' = Ok page \<and> (\<forall>q. q \<noteq> p \<longrightarrow> read_page q s' = read_page q s)"
proof -
  have fields: "txn_page_states s' = hm_modify t
      (bt_insert p \<lparr>pgw_before_image = before, pgw_after_image = page\<rparr>) (txn_page_states s)"
    "cache_of s' = hm_insert p page (cache_of s)" "pg_meta s' = pg_meta s" "pg_others s' = pg_others s"
    "committed_page_count s' = committed_page_count s" "sh_db (pg_shared s') = sh_db (pg_shared s)"
    "manager_of s' = manager_of s"
    by (simp_all add: s'_def record_page_write_def update_cache_def update_shared_def cache_of_def manager_of_def)
  have "in_bounds s'" using assms(1,2) by (auto simp: session_ok_def in_bounds_def fields)
  then show ?thesis
    using assms(1) by (simp add: session_ok_def pages_in_use_def page_room_def read_page_def fields split: option.split)
qed

lemma session_lock:
  assumes "session_ok t s" "acquire_page_write_lock t p s = (Ok (), s')"
  shows "session_ok t s' \<and> pages_in_use s' = pages_in_use s \<and> page_room s' = page_room s \<and>
    (\<forall>q. read_page q s' = read_page q s)"
proof -
  have "wait_for_page_write_lock t p s = (Ok (), s')"
    using assms(2) by (auto simp: acquire_page_write_lock_def sbind_eq_Ok)
  from session_same [OF assms(1) session_wait [OF assms(1) this]] show ?thesis .
qed

lemma session_write:
  assumes "session_ok t s" "write_page t p page s = (Ok (), s')"
  shows "session_ok t s' \<and> pages_in_use s' = pages_in_use s \<and> page_room s' = page_room s \<and>
    read_page p s' = Ok page \<and> (\<forall>q. q \<noteq> p \<longrightarrow> read_page q s' = read_page q s)"
proof -
  obtain before s1 where wait: "wait_for_page_write_lock t p s = (Ok (), s1)"
    and p: "p < mp_page_count (pg_meta s)" and s': "s' = record_page_write t p before page s1"
    using assms(2) unfolding write_page_def
    by (auto elim!: sbind_eq_OkE split: if_splits option.splits result.splits simp: no_page_state_def not_le)
  note w = session_wait [OF assms(1) wait]
  note same = session_same [OF assms(1) w]
  have "p < mp_page_count (pg_meta s1)" using p same_but_managerD(3) [OF w(1)] by simp
  from session_record [OF _ this s'] same show ?thesis by simp
qed

lemma session_allocate:
  assumes "session_ok t s" "0 < page_room s" "allocate_page_with_kind t kind s = (Ok p, s')"
  shows "session_ok t s' \<and> p \<notin> pages_in_use s \<and> pages_in_use s' = insert p (pages_in_use s) \<and>
    page_room s = Suc (page_room s') \<and> (\<forall>q. q \<noteq> p \<longrightarrow> read_page q s' = read_page q s)"
proof -
  let ?n = "mp_page_count (pg_meta s)"
  let ?s = "set_page_count (?n + 1) s"
  obtain s1 where p: "p = ?n" and wait: "wait_for_page_write_lock t ?n ?s = (Ok (), s1)"
    and s': "s' = record_page_write t ?n None (empty_page kind) s1"
    using assms(3) by (auto simp: allocate_page_with_kind_def Let_def no_page_state_def
        split: result.splits prod.splits option.splits)
  have room: "unat ?n + 1 < 2 ^ 32" using assms(2) by (simp add: page_room_def)
  have up: "unat (?n + 1) = unat ?n + 1" using count_up [of ?n 1] room by simp
  then have less: "?n < ?n + 1" by (simp add: word_less_nat_alt)
  have fields: "cache_of ?s = cache_of s" "pg_others ?s = pg_others s" "txn_page_states ?s = txn_page_states s"
    "committed_page_count ?s = committed_page_count s" "sh_db (pg_shared ?s) = sh_db (pg_shared s)"
    "mp_page_count (pg_meta ?s) = ?n + 1" "manager_of ?s = manager_of s"
    by (simp_all add: set_page_count_def cache_of_def manager_of_def)
  have "session_ok t ?s"
    using assms(1) less unfolding session_ok_def in_bounds_def fields by (meson less_imp_le order_trans)
  note w = session_wait [OF this wait]
  note same = session_same [OF \<open>session_ok t ?s\<close> w]
  have "?n < mp_page_count (pg_meta s1)" using less same_but_managerD(3) [OF w(1)] fields(6) by simp
  from session_record [OF _ this s'] same
  have rec: "session_ok t s'" "pages_in_use s' = pages_in_use ?s" "page_room s' = page_room ?s"
    "\<forall>q. q \<noteq> p \<longrightarrow> read_page q s' = read_page q ?s"
    by (simp_all add: p)
  have "read_page q ?s = read_page q s" for q by (simp add: read_page_def fields split: option.split)
  moreover have "pages_in_use ?s = insert p (pages_in_use s)"
  proof -
    have "(q < ?n + 1) = (q = ?n \<or> q < ?n)" for q
      by (simp only: word_less_nat_alt word_unat_eq_iff up) auto
    then show ?thesis unfolding pages_in_use_def fields(6) p by auto
  qed
  moreover have "page_room s = Suc (page_room ?s)" using room unfolding page_room_def fields(6) up by simp
  moreover have "p \<notin> pages_in_use s" by (simp add: pages_in_use_def p)
  ultimately show ?thesis using rec by simp
qed

section \<open>Nodes on pages\<close>

text \<open>What the code relies on in \<open>serde_json\<close>: reading back what has been written gives the node.\<close>

definition nodes_faithful :: "('k node \<Rightarrow> byte list result) \<Rightarrow> (byte list \<Rightarrow> 'k node result) \<Rightarrow> bool" where
  "nodes_faithful to_vec from_slice \<longleftrightarrow> (\<forall>n b. to_vec n = Ok b \<longrightarrow> from_slice b = Ok n)"

lemma read_node_cong: "read_page q s' = read_page q s \<Longrightarrow> read_node from_slice q s' = read_node from_slice q s"
  by (simp add: read_node_def)

lemma read_written_node:
  assumes "nodes_faithful to_vec from_slice" "to_vec n = Ok b"
    "encode_payload_page (case n of LeafN _ \<Rightarrow> Leaf | InternalN _ \<Rightarrow> Internal) b = Ok page" "read_page p s = Ok page"
  shows "read_node from_slice p s = Ok n"
proof -
  have "from_slice b = Ok n" using assms(1,2) by (simp add: nodes_faithful_def)
  moreover note page_header_kind [OF encode_payload_page_header [OF assms(3)]] decode_encode_payload [OF assms(3)]
  ultimately show ?thesis using assms(3,4) by (cases n) (simp_all add: read_node_def)
qed

lemma pager_store_simps [simp]:
  "st_lock (pager_store to_vec from_slice t) = acquire_page_write_lock t"
  "st_read (pager_store to_vec from_slice t) = read_node from_slice"
  "st_write (pager_store to_vec from_slice t) = write_node to_vec t"
  "st_alloc_leaf (pager_store to_vec from_slice t) = allocate_page_with_kind t Leaf"
  "st_alloc_internal (pager_store to_vec from_slice t) = allocate_page_with_kind t Internal"
  by (simp_all add: pager_store_def allocate_leaf_page_def allocate_internal_page_def)

lemma write_node_Ok:
  assumes "write_node to_vec t p n s = (Ok (), s')"
  obtains b page where "to_vec n = Ok b"
    "encode_payload_page (case n of LeafN _ \<Rightarrow> Leaf | InternalN _ \<Rightarrow> Internal) b = Ok page"
    "write_page t p page s = (Ok (), s')"
proof -
  from assms obtain page where page: "rbind (to_vec n) (\<lambda>payload.
      encode_payload_page (case n of LeafN _ \<Rightarrow> Leaf | InternalN _ \<Rightarrow> Internal) payload) = Ok page"
    "write_page t p page s = (Ok (), s')"
    unfolding write_node_def sbind_eq_Ok sget_apply prod.inject by blast
  then show ?thesis using that unfolding rbind_eq_Ok by blast
qed

lemma session_write_node:
  assumes "nodes_faithful to_vec from_slice" "session_ok t s" "write_node to_vec t p n s = (Ok (), s')"
  shows "session_ok t s' \<and> pages_in_use s' = pages_in_use s \<and> page_room s' = page_room s \<and>
    read_node from_slice p s' = Ok n \<and> (\<forall>q. q \<noteq> p \<longrightarrow> read_node from_slice q s' = read_node from_slice q s)"
proof -
  obtain b page where node: "to_vec n = Ok b"
    "encode_payload_page (case n of LeafN _ \<Rightarrow> Leaf | InternalN _ \<Rightarrow> Internal) b = Ok page"
    and wr: "write_page t p page s = (Ok (), s')"
    by (rule write_node_Ok [OF assms(3)])
  note written = session_write [OF assms(2) wr]
  have "read_node from_slice p s' = Ok n"
    by (rule read_written_node [OF assms(1) node]) (use written in simp)
  moreover have "read_node from_slice q s' = read_node from_slice q s" if "q \<noteq> p" for q
    by (rule read_node_cong) (use written that in simp)
  ultimately show ?thesis using written by blast
qed

lemma pager_node_store:
  assumes "nodes_faithful to_vec from_slice"
  shows "node_store (pager_store to_vec from_slice t) (session_ok t) pages_in_use page_room"
proof (unfold_locales, unfold pager_store_simps)
  fix s p s'
  assume *: "session_ok t s" "acquire_page_write_lock t p s = (Ok (), s')"
  have "read_node from_slice q s' = read_node from_slice q s" for q
    by (rule read_node_cong) (use session_lock [OF *] in simp)
  then show "session_ok t s' \<and> pages_in_use s' = pages_in_use s \<and> page_room s' = page_room s \<and>
    (\<forall>q. read_node from_slice q s' = read_node from_slice q s)"
    using session_lock [OF *] by blast
next
  fix s p n s'
  assume "session_ok t s" "write_node to_vec t p n s = (Ok (), s')"
  from session_write_node [OF assms this]
  show "session_ok t s' \<and> pages_in_use s' = pages_in_use s \<and> page_room s' = page_room s \<and>
    read_node from_slice p s' = Ok n \<and> (\<forall>q. q \<noteq> p \<longrightarrow> read_node from_slice q s' = read_node from_slice q s)" .
next
  have allocate: "session_ok t s' \<and> p \<notin> pages_in_use s \<and> pages_in_use s' = insert p (pages_in_use s) \<and>
    page_room s = Suc (page_room s') \<and> (\<forall>q. q \<noteq> p \<longrightarrow> read_node from_slice q s' = read_node from_slice q s)"
    if *: "session_ok t s" "0 < page_room s" "allocate_page_with_kind t kind s = (Ok p, s')" for kind s p s'
  proof -
    have "read_node from_slice q s' = read_node from_slice q s" if "q \<noteq> p" for q
      by (rule read_node_cong) (use session_allocate [OF *] that in simp)
    then show ?thesis using session_allocate [OF *] by blast
  qed
  fix s p s'
  assume *: "session_ok t s" "0 < page_room s"
  show "allocate_page_with_kind t Leaf s = (Ok p, s') \<Longrightarrow>
    session_ok t s' \<and> p \<notin> pages_in_use s \<and> pages_in_use s' = insert p (pages_in_use s) \<and>
    page_room s = Suc (page_room s') \<and> (\<forall>q. q \<noteq> p \<longrightarrow> read_node from_slice q s' = read_node from_slice q s)"
    by (rule allocate [OF *])
  show "allocate_page_with_kind t Internal s = (Ok p, s') \<Longrightarrow>
    session_ok t s' \<and> p \<notin> pages_in_use s \<and> pages_in_use s' = insert p (pages_in_use s) \<and>
    page_room s = Suc (page_room s') \<and> (\<forall>q. q \<noteq> p \<longrightarrow> read_node from_slice q s' = read_node from_slice q s)"
    by (rule allocate [OF *])
qed

end
