(* ===== verification/V2_Trees.thy ===== *)
theory V2_Trees
  imports V2_Tree_Pager
begin

text \<open>
  The two trees of the engine: \<open>BTree\<close> (\<open>src/storage/v2/btree.rs\<close>), keyed by row id, and \<open>IndexTree\<close>
  (\<open>src/storage/v2/index_tree.rs\<close>), keyed by encoded index keys in byte order. Both are shown to be
  sorted maps: looking up, inserting, deleting and scanning agree with a sorted association list,
  for any sequence of operations, and trees on disjoint pages do not disturb each other.
\<close>

section \<open>The tree of rows\<close>

type_synonym 'k to_vec_node = "'k node \<Rightarrow> byte list result"
type_synonym 'k from_slice_node = "byte list \<Rightarrow> 'k node result"

definition btree_create :: "u64 to_vec_node \<Rightarrow> u64 from_slice_node \<Rightarrow> u64 \<Rightarrow> page_id pg_oper" where
  "btree_create to_vec from_slice t = tree_create (pager_store to_vec from_slice t)"

definition btree_get ::
    "u64 to_vec_node \<Rightarrow> u64 from_slice_node \<Rightarrow> nat \<Rightarrow> u64 \<Rightarrow> page_id \<Rightarrow> u64 \<Rightarrow> pager \<Rightarrow> byte list option result" where
  "btree_get to_vec from_slice d t root k = tree_get d (pager_store to_vec from_slice t) root k"

definition btree_insert ::
    "u64 to_vec_node \<Rightarrow> u64 from_slice_node \<Rightarrow> nat \<Rightarrow> u64 \<Rightarrow> page_id \<Rightarrow> u64 \<Rightarrow> byte list \<Rightarrow> page_id pg_oper" where
  "btree_insert to_vec from_slice d t root k v = tree_insert d (pager_store to_vec from_slice t) root k v"

definition btree_delete ::
    "u64 to_vec_node \<Rightarrow> u64 from_slice_node \<Rightarrow> nat \<Rightarrow> u64 \<Rightarrow> page_id \<Rightarrow> u64 \<Rightarrow> unit pg_oper" where
  "btree_delete to_vec from_slice d t root k = tree_delete d (pager_store to_vec from_slice t) root k"

definition btree_scan_all ::
    "u64 to_vec_node \<Rightarrow> u64 from_slice_node \<Rightarrow> nat \<Rightarrow> nat \<Rightarrow> u64 \<Rightarrow> page_id \<Rightarrow> pager \<Rightarrow> u64 leaf_entry list result" where
  "btree_scan_all to_vec from_slice d n t root =
     tree_scan_all d n ''B+Tree'' (pager_store to_vec from_slice t) root"

section \<open>The tree of an index\<close>

text \<open>Keys are compared as byte strings; a lookup in a leaf is a binary search.\<close>

type_synonym index_key = "byte list"

definition index_find_leaf ::
    "nat \<Rightarrow> (pager, index_key) store \<Rightarrow> page_id \<Rightarrow> index_key \<Rightarrow> pager \<Rightarrow> index_key leaf_node result" where
  "index_find_leaf d P p k s = find_leaf d P p k s"

definition index_leftmost_leaf_page :: "nat \<Rightarrow> (pager, index_key) store \<Rightarrow> page_id \<Rightarrow> pager \<Rightarrow> page_id result" where
  "index_leftmost_leaf_page d P p s = leftmost_leaf_page d P p s"

definition index_insert_into_page ::
    "nat \<Rightarrow> (pager, index_key) store \<Rightarrow> page_id \<Rightarrow> index_key \<Rightarrow> byte list \<Rightarrow> index_key split_result option pg_oper" where
  "index_insert_into_page d P p k v = insert_into_page d P p k v"

definition index_delete_from_page ::
    "nat \<Rightarrow> (pager, index_key) store \<Rightarrow> page_id \<Rightarrow> index_key \<Rightarrow> unit pg_oper" where
  "index_delete_from_page d P p k = delete_from_page d P p k"

definition index_create :: "index_key to_vec_node \<Rightarrow> index_key from_slice_node \<Rightarrow> u64 \<Rightarrow> page_id pg_oper" where
  "index_create to_vec from_slice t = tree_create (pager_store to_vec from_slice t)"

definition index_get ::
    "index_key to_vec_node \<Rightarrow> index_key from_slice_node \<Rightarrow> nat \<Rightarrow> u64 \<Rightarrow> page_id \<Rightarrow> index_key \<Rightarrow> pager \<Rightarrow> byte list option result" where
  "index_get to_vec from_slice d t root k s =
     rbind (index_find_leaf d (pager_store to_vec from_slice t) root k s) (\<lambda>leaf. Ok (index_leaf_lookup leaf k))"

definition index_insert ::
    "index_key to_vec_node \<Rightarrow> index_key from_slice_node \<Rightarrow> nat \<Rightarrow> u64 \<Rightarrow> page_id \<Rightarrow> index_key \<Rightarrow> byte list \<Rightarrow> page_id pg_oper" where
  "index_insert to_vec from_slice d t root k v =
     sbind (index_insert_into_page d (pager_store to_vec from_slice t) root k v) (\<lambda>split.
     case split of
       None \<Rightarrow> sret root
     | Some sp \<Rightarrow>
         sbind (allocate_internal_page t) (\<lambda>new_root.
         sbind (write_node to_vec t new_root (InternalN (from_split root (separator_key sp) (right_page_id sp)))) (\<lambda>_.
         sret new_root)))"

definition index_scan_all ::
    "index_key to_vec_node \<Rightarrow> index_key from_slice_node \<Rightarrow> nat \<Rightarrow> nat \<Rightarrow> u64 \<Rightarrow> page_id \<Rightarrow> pager \<Rightarrow>
      index_key leaf_entry list result" where
  "index_scan_all to_vec from_slice d n t root s =
     rbind (index_leftmost_leaf_page d (pager_store to_vec from_slice t) root s) (\<lambda>p.
       scan_leaves n ''index'' (pager_store to_vec from_slice t) (Some p) [] s)"

definition index_delete ::
    "index_key to_vec_node \<Rightarrow> index_key from_slice_node \<Rightarrow> nat \<Rightarrow> u64 \<Rightarrow> page_id \<Rightarrow> index_key \<Rightarrow> unit pg_oper" where
  "index_delete to_vec from_slice d t root k = index_delete_from_page d (pager_store to_vec from_slice t) root k"

section \<open>Trees in the pager\<close>

text \<open>The pages of a pager hold a tree: its root, the set of its pages, its entries in order.\<close>

definition pager_tree ::
    "'k::linorder from_slice_node \<Rightarrow> nat \<Rightarrow> pager \<Rightarrow> page_id \<Rightarrow> page_id set \<Rightarrow> 'k leaf_entry list \<Rightarrow> bool" where
  "pager_tree from_slice d s root pgs es \<longleftrightarrow> (\<exists>t.
     stored (\<lambda>q. read_node from_slice q s) None t \<and> distinct (pages_of t) \<and>
     set (pages_of t) \<subseteq> pages_in_use s \<and> ordered None None t \<and> fits d t \<and>
     root_of t = root \<and> set (pages_of t) = pgs \<and> entries_of t = es)"

lemma pager_tree_represents:
  assumes "nodes_faithful to_vec from_slice"
  shows "node_store.represents (pager_store to_vec from_slice t) pages_in_use = pager_tree from_slice"
proof -
  have "node_store (pager_store to_vec from_slice t) (session_ok t) pages_in_use page_room"
    by (rule pager_node_store [OF assms])
  then show ?thesis
    by (intro ext) (simp add: node_store.represents_def node_store.tree_in_def pager_tree_def)
qed

section \<open>Sequences of operations\<close>

text \<open>What a client does to a tree, and what this means for a sorted association list.\<close>

datatype 'k map_op = Put 'k "byte list" | Del 'k

fun apply_op :: "'k::linorder map_op \<Rightarrow> 'k leaf_entry list \<Rightarrow> 'k leaf_entry list" where
  "apply_op (Put k v) es = bt_insert k v es"
| "apply_op (Del k) es = bt_remove k es"

text \<open>Every insertion may add a level, which needs one more stack frame.\<close>

fun run_map_ops :: "nat \<Rightarrow> ('s, 'k::linorder) store \<Rightarrow> page_id \<Rightarrow> 'k map_op list \<Rightarrow> ('s, page_id) oper" where
  "run_map_ops d P root [] = sret root"
| "run_map_ops d P root (Put k v # ops) =
     sbind (tree_insert d P root k v) (\<lambda>root'. run_map_ops (Suc d) P root' ops)"
| "run_map_ops d P root (Del k # ops) =
     sbind (tree_delete d P root k) (\<lambda>_. run_map_ops (Suc d) P root ops)"

lemma fits_mono: "fits d t \<Longrightarrow> fits (Suc d) t"
  by (induction d t rule: fits.induct) auto

context node_store
begin

lemma represents_more: "represents d s root pgs es \<Longrightarrow> represents (Suc d) s root pgs es"
  unfolding represents_def using fits_mono by blast

lemma run_map_ops_law:
  assumes "represents d s root pgs es" "ok s" "(d + length ops + 1) * length ops \<le> room s"
    "run_map_ops d P root ops s = (Ok root', s')"
  shows "ok s' \<and> (\<exists>pgs'. represents (d + length ops) s' root' pgs' (fold apply_op ops es))"
  using assms
proof (induction ops arbitrary: d root pgs es s)
  case (Cons op ops)
  have room: "d < room s" using Cons.prems(3) by simp
  have next_room: "(Suc d + length ops + 1) * length ops \<le> n" if "room s \<le> Suc d + n" for n
    using Cons.prems(3) that by (simp add: algebra_simps)
  obtain root1 pgs1 s1 where s1: "ok s1" "room s \<le> Suc d + room s1"
    "represents (Suc d) s1 root1 pgs1 (apply_op op es)" "run_map_ops (Suc d) P root1 ops s1 = (Ok root', s')"
  proof (cases op)
    case (Put k v)
    then obtain root1 s1 where "tree_insert d P root k v s = (Ok root1, s1)"
      "run_map_ops (Suc d) P root1 ops s1 = (Ok root', s')"
      using Cons.prems(4) by (auto simp: sbind_eq_Ok)
    with that insert_law [OF Cons.prems(1,2) room] Put show ?thesis by fastforce
  next
    case (Del k)
    then obtain s1 where "tree_delete d P root k s = (Ok (), s1)"
      "run_map_ops (Suc d) P root ops s1 = (Ok root', s')"
      using Cons.prems(4) by (auto simp: sbind_eq_Ok)
    with that delete_law [OF Cons.prems(1,2)] represents_more Del show ?thesis by fastforce
  qed
  from Cons.IH [OF s1(3,1) next_room [OF s1(2)] s1(4)] show ?case by simp
qed auto

end

section \<open>The interpretation on the pager\<close>

lemma btree_laws:
  assumes f: "nodes_faithful to_vec from_slice" and rep: "pager_tree from_slice d s root pgs es"
  shows "tree_get d (pager_store to_vec from_slice t) root k s = Ok (map_of es k)"
    and "card pgs \<le> n \<Longrightarrow> tree_scan_all d n what (pager_store to_vec from_slice t) root s = Ok es"
    and "\<exists>leaf. find_leaf d (pager_store to_vec from_slice t) root k s = Ok leaf \<and>
      bt_wf (lf_entries leaf) \<and> map_of (lf_entries leaf) k = map_of es k"
proof -
  note store = pager_node_store [OF f]
  note get = node_store.get_law [OF store, unfolded pager_tree_represents [OF f], OF rep]
  show "tree_get d (pager_store to_vec from_slice t) root k s = Ok (map_of es k)" by (rule get(1))
  show "\<exists>leaf. find_leaf d (pager_store to_vec from_slice t) root k s = Ok leaf \<and>
      bt_wf (lf_entries leaf) \<and> map_of (lf_entries leaf) k = map_of es k" by (rule get(2))
  show "card pgs \<le> n \<Longrightarrow> tree_scan_all d n what (pager_store to_vec from_slice t) root s = Ok es"
    by (rule node_store.scan_law [OF store, unfolded pager_tree_represents [OF f], OF rep])
qed

lemma pager_run_map_ops:
  assumes f: "nodes_faithful to_vec from_slice" and "session_ok t s"
    "pager_tree from_slice d s root pgs es" "(d + length ops + 1) * length ops \<le> page_room s"
    "run_map_ops d (pager_store to_vec from_slice t) root ops s = (Ok root', s')"
  shows "session_ok t s' \<and> (\<exists>pgs'. pager_tree from_slice (d + length ops) s' root' pgs' (fold apply_op ops es))"
  using node_store.run_map_ops_law [OF pager_node_store [OF f], unfolded pager_tree_represents [OF f]] assms(2-) by blast

lemma pager_create:
  assumes f: "nodes_faithful to_vec from_slice" and "session_ok t s" "0 < page_room s"
    "tree_create (pager_store to_vec from_slice t) s = (Ok root, s')"
  shows "session_ok t s' \<and> page_room s = Suc (page_room s') \<and> pager_tree from_slice 1 s' root {root} []"
  using node_store.create_law [OF pager_node_store [OF f], unfolded pager_tree_represents [OF f]] assms(2-) by blast

lemma index_ops_generic:
  "index_insert to_vec from_slice d t root k v = tree_insert d (pager_store to_vec from_slice t) root k v"
  "index_delete to_vec from_slice d t root k = tree_delete d (pager_store to_vec from_slice t) root k"
  "index_scan_all to_vec from_slice d n t root s = tree_scan_all d n ''index'' (pager_store to_vec from_slice t) root s"
  unfolding index_insert_def tree_insert_def index_delete_def tree_delete_def index_delete_from_page_def
    index_insert_into_page_def index_scan_all_def tree_scan_all_def index_leftmost_leaf_page_def
    allocate_internal_page_def pager_store_simps by (rule refl)+

lemma index_get_law:
  assumes "nodes_faithful to_vec from_slice" "pager_tree from_slice d s root pgs es"
  shows "index_get to_vec from_slice d t root k s = Ok (map_of es k)"
proof -
  obtain leaf where leaf: "find_leaf d (pager_store to_vec from_slice t) root k s = Ok leaf"
    "bt_wf (lf_entries leaf)" "map_of (lf_entries leaf) k = map_of es k"
    using btree_laws(3) [OF assms, of t k] by blast
  then show ?thesis
    using index_leaf_lookup_sorted [OF leaf(2)] by (simp add: index_get_def index_find_leaf_def)
qed

lemma pager_tree_sorted: "pager_tree from_slice d s root pgs es \<Longrightarrow> bt_wf es"
  unfolding pager_tree_def by (elim exE conjE) (drule ordered_sorted(1), simp)

section \<open>Properties\<close>

text \<open>
  Property C5: a \<open>BTree\<close> is a sorted map. After it has been created and any sequence of insertions and
  deletions has succeeded, a lookup of any key gives what the same sequence gives on a sorted
  association list, and a scan returns that list, in ascending key order, however often pages were
  split. The lookups and the scan themselves always return when they have as many stack frames as
  operations were made and as many steps as the tree has pages.
\<close>

theorem btree_refines_sorted_map:
  assumes "nodes_faithful to_vec from_slice" "session_ok t s" "(length ops + 2) * length ops < page_room s"
    "btree_create to_vec from_slice t s = (Ok root, s0)"
    "run_map_ops 1 (pager_store to_vec from_slice t) root ops s0 = (Ok root', s')"
  defines "d \<equiv> 1 + length ops"
  shows "btree_get to_vec from_slice d t root' k s' = Ok (map_of (fold apply_op ops []) k) \<and>
    (\<exists>n. btree_scan_all to_vec from_slice d n t root' s' = Ok (fold apply_op ops [])) \<and>
    sorted_wrt (<) (map fst (fold apply_op ops []))"
proof -
  have create: "tree_create (pager_store to_vec from_slice t) s = (Ok root, s0)"
    using assms(4) by (simp add: btree_create_def)
  have "0 < page_room s" using assms(3) by simp
  note new = pager_create [OF assms(1,2) this create]
  have "(1 + length ops + 1) * length ops \<le> page_room s0" using assms(3) new by simp
  from pager_run_map_ops [OF assms(1) _ _ this assms(5)] new
  obtain pgs where rep: "pager_tree from_slice d s' root' pgs (fold apply_op ops [])"
    unfolding d_def by blast
  have "bt_wf (fold apply_op ops [])"
    by (rule pager_tree_sorted [OF rep])
  then show ?thesis
    using btree_laws(1) [OF assms(1) rep, of t k] btree_laws(2) [OF assms(1) rep order_refl, of "''B+Tree''" t]
    unfolding btree_get_def btree_scan_all_def bt_wf_def by blast
qed

text \<open>
  Property C24: an \<open>IndexTree\<close> is a sorted map of byte strings. After a successful insertion a lookup
  of the inserted key gives the inserted value and every other key is looked up as before, whether or
  not pages or the root were split; the scan returns the entries in byte order. After a successful
  deletion the key is absent and every other key is looked up as before.
\<close>

theorem index_tree_is_sorted_map:
  assumes "nodes_faithful to_vec from_slice" "session_ok t s" "pager_tree from_slice d s root pgs es"
    "d < page_room s" "index_insert to_vec from_slice d t root k v s = (Ok root', s1)"
    "index_delete to_vec from_slice d t root k s = (Ok (), s2)"
  shows "index_get to_vec from_slice (Suc d) t root' k' s1 = Ok (if k' = k then Some v else map_of es k') \<and>
    (\<exists>n. index_scan_all to_vec from_slice (Suc d) n t root' s1 = Ok (bt_insert k v es)) \<and>
    index_get to_vec from_slice d t root k' s2 = Ok (if k' = k then None else map_of es k') \<and>
    (\<exists>n. index_scan_all to_vec from_slice d n t root s2 = Ok (bt_remove k es))"
proof -
  note store = pager_node_store [OF assms(1)]
  obtain pgs1 where ins: "pager_tree from_slice (Suc d) s1 root' pgs1 (bt_insert k v es)"
    using node_store.insert_law [OF store, unfolded pager_tree_represents [OF assms(1)], OF assms(3,2,4)]
      assms(5) unfolding index_ops_generic by blast
  have del: "pager_tree from_slice d s2 root pgs (bt_remove k es)"
    using node_store.delete_law [OF store, unfolded pager_tree_represents [OF assms(1)], OF assms(3,2)]
      assms(6) unfolding index_ops_generic by blast
  show ?thesis
    using index_get_law [OF assms(1) ins, of t k'] index_get_law [OF assms(1) del, of t k']
      btree_laws(2) [OF assms(1) ins order_refl, of "''index''" t]
      btree_laws(2) [OF assms(1) del order_refl, of "''index''" t]
    unfolding index_ops_generic by auto
qed

text \<open>
  Property C25: trees do not disturb each other. When two tables have their trees on disjoint pages, an
  insertion into the first leaves every lookup and the scan of the second unchanged, and the pages the
  first has grown by are not pages of the second.
\<close>

theorem trees_are_independent:
  assumes "nodes_faithful to_vec from_slice" "session_ok t s" "d < page_room s"
    "pager_tree from_slice d s root pgs es" "pager_tree from_slice e s other opgs oes" "pgs \<inter> opgs = {}"
    "btree_insert to_vec from_slice d t root k v s = (Ok root', s')"
  shows "btree_get to_vec from_slice e t other k' s' = btree_get to_vec from_slice e t other k' s \<and>
    btree_scan_all to_vec from_slice e (card opgs) t other s' = Ok oes \<and>
    (\<exists>pgs'. pager_tree from_slice (Suc d) s' root' pgs' (bt_insert k v es) \<and> pgs' \<inter> opgs = {})"
proof -
  note store = pager_node_store [OF assms(1)]
  note law = node_store.insert_law [OF store, unfolded pager_tree_represents [OF assms(1)] pager_store_simps,
      OF assms(4,2,3) assms(7) [unfolded btree_insert_def]]
  have used: "opgs \<subseteq> pages_in_use s"
    using node_store.represents_used [OF store, unfolded pager_tree_represents [OF assms(1)]] assms(5) .
  then have "\<forall>q \<in> opgs. read_node from_slice q s' = read_node from_slice q s" using law assms(6) by blast
  then have kept: "pager_tree from_slice e s' other opgs oes"
    using node_store.represents_frame [OF store, unfolded pager_tree_represents [OF assms(1)] pager_store_simps,
        OF assms(5)] law by blast
  have "\<exists>pgs'. pager_tree from_slice (Suc d) s' root' pgs' (bt_insert k v es) \<and> pgs' \<inter> opgs = {}"
    using law used assms(6) by blast
  then show ?thesis
    using btree_laws(1) [OF assms(1) kept, of t k'] btree_laws(1) [OF assms(1,5), of t k']
      btree_laws(2) [OF assms(1) kept order_refl, of "''B+Tree''" t]
    unfolding btree_get_def btree_scan_all_def by simp
qed

section \<open>Witnesses\<close>

text \<open>A format for two nodes: the empty leaf and the leaf with the entry of one key.\<close>

definition demo_node_to_vec :: "'k \<Rightarrow> 'k to_vec_node" where
  "demo_node_to_vec k n =
     (if n = LeafN leaf_empty then Ok [0]
      else if n = LeafN \<lparr>lf_entries = [(k, [1])], lf_next = None\<rparr> then Ok [1] else Err (Serde ''unknown''))"

definition demo_node_from_slice :: "'k \<Rightarrow> 'k from_slice_node" where
  "demo_node_from_slice k b =
     (if b = [0] then Ok (LeafN leaf_empty)
      else if b = [1] then Ok (LeafN \<lparr>lf_entries = [(k, [1])], lf_next = None\<rparr>) else Err (Serde ''unknown''))"

lemma demo_nodes_faithful: "nodes_faithful (demo_node_to_vec k) (demo_node_from_slice k)"
  by (auto simp: nodes_faithful_def demo_node_to_vec_def demo_node_from_slice_def split: if_splits)

interpretation demo_trees: node_store "pager_store (demo_node_to_vec k) (demo_node_from_slice k) t"
    "session_ok t" pages_in_use page_room for k t
  by (rule pager_node_store [OF demo_nodes_faithful])

definition demo_page :: "byte \<Rightarrow> byte list" where
  "demo_page b = (case encode_payload_page Leaf [b] of Ok page \<Rightarrow> page | _ \<Rightarrow> [])"

lemma demo_page_encoded: "encode_payload_page Leaf [b] = Ok (demo_page b)" "length (demo_page b) = PAGE_SIZE"
proof -
  have "\<exists>page. encode_payload_page Leaf [b] = Ok page"
    by (simp add: encode_payload_page_Ok_iff page_layout)
  then show enc: "encode_payload_page Leaf [b] = Ok (demo_page b)" by (auto simp: demo_page_def)
  show "length (demo_page b) = PAGE_SIZE" by (rule length_encode_payload_page [OF enc])
qed

lemma demo_write_nodes:
  "write_node (demo_node_to_vec k) t p (LeafN leaf_empty) = write_page t p (demo_page 0)"
  "write_node (demo_node_to_vec k) t p (LeafN \<lparr>lf_entries = [(k, [1])], lf_next = None\<rparr>) = write_page t p (demo_page 1)"
  by (intro ext, simp add: write_node_def demo_node_to_vec_def demo_page_encoded leaf_empty_def sbind_def)+

text \<open>Transaction 1 owns pages 2 and 3, which hold empty leaves.\<close>

definition demo_owner :: txn_manager where
  "demo_owner = snd (acquire_page_write 1 3 (snd (acquire_page_write 1 2 demo_manager)))"

lemma demo_owner_granted:
  "acquire_page_write 1 2 demo_owner = (Ok (), demo_owner)"
  "acquire_page_write 1 3 demo_owner = (Ok (), demo_owner)"
  "tm_txn_status 1 demo_owner = Ok Active"
  by (code_simp, code_simp, code_simp)

definition demo_trees_pager :: pager where
  "demo_trees_pager = \<lparr>pg_shared = \<lparr>sh_manager = demo_owner,
      sh_cache = [(2, demo_page 0), (3, demo_page 0)], sh_db = [], sh_wal = []\<rparr>,
    pg_meta = bootstrap_meta\<lparr>mp_page_count := 4\<rparr>, committed_page_count = 2,
    txn_page_states = [(1, [(2, \<lparr>pgw_before_image = None, pgw_after_image = demo_page 0\<rparr>),
      (3, \<lparr>pgw_before_image = None, pgw_after_image = demo_page 0\<rparr>)])], pg_others = []\<rparr>"

lemma demo_trees_session: "session_ok 1 demo_trees_pager" "page_room demo_trees_pager = 2 ^ 32 - 5"
  "pages_in_use demo_trees_pager = {p. p < 4}"
proof -
  have bounds: "(2 :: page_id) \<le> 4" "\<not> (4 :: page_id) \<le> 2" "\<not> (4 :: page_id) \<le> 3"
    by (simp_all add: word_le_nat_alt)
  show "session_ok 1 demo_trees_pager"
    using bounds demo_owner_granted(3)
    by (auto simp: session_ok_def in_bounds_def demo_trees_pager_def cache_of_def manager_of_def bootstrap_meta_def)
  show "page_room demo_trees_pager = 2 ^ 32 - 5" "pages_in_use demo_trees_pager = {p. p < 4}"
    by (simp_all add: page_room_def pages_in_use_def demo_trees_pager_def)
qed

lemma demo_trees_stored:
  assumes "p \<in> {2, 3}"
  shows "pager_tree (demo_node_from_slice k) 1 demo_trees_pager p {p} []"
proof -
  have "read_page p demo_trees_pager = Ok (demo_page 0)"
    using assms by (auto simp: read_page_def demo_trees_pager_def cache_of_def)
  then have "read_node (demo_node_from_slice k) p demo_trees_pager = Ok (LeafN leaf_empty)"
    using read_written_node [OF demo_nodes_faithful, of k "LeafN leaf_empty" "[0]" "demo_page 0" p demo_trees_pager]
      demo_page_encoded(1) by (simp add: demo_node_to_vec_def)
  moreover have "p < 4" using assms by (auto simp: word_less_nat_alt)
  ultimately show ?thesis
    unfolding pager_tree_def demo_trees_session(3)
    by (intro exI [of _ "Lf p []"]) (simp add: leaf_empty_def)
qed

lemma demo_wait:
  "wait_for_page_write_lock 1 2 demo_trees_pager = (Ok (), demo_trees_pager)"
  using wait_granted_at_once [of 1 2 demo_trees_pager demo_owner] demo_owner_granted(1)
  by (simp add: manager_of_def demo_trees_pager_def update_shared_def)

lemma demo_validate: "pager_validate_transaction 1 demo_trees_pager = Ok ()"
  by (simp add: pager_validate_transaction_def demo_trees_pager_def)

lemma demo_lock: "acquire_page_write_lock 1 2 demo_trees_pager = (Ok (), demo_trees_pager)"
  by (simp add: acquire_page_write_lock_def demo_validate demo_wait)

lemma demo_write_page:
  "write_page 1 2 (demo_page 1) demo_trees_pager =
     (Ok (), record_page_write 1 2 None (demo_page 1) demo_trees_pager)"
proof -
  have "\<not> mp_page_count (pg_meta demo_trees_pager) \<le> 2"
    by (simp add: demo_trees_pager_def word_le_nat_alt)
  moreover have "map_of (txn_page_states demo_trees_pager) 1 =
      Some [(2, \<lparr>pgw_before_image = None, pgw_after_image = demo_page 0\<rparr>),
        (3, \<lparr>pgw_before_image = None, pgw_after_image = demo_page 0\<rparr>)]"
    by (simp add: demo_trees_pager_def)
  ultimately show ?thesis
    by (simp add: write_page_def sbind_def demo_validate demo_wait demo_page_encoded(2))
qed

lemma demo_read: "read_node (demo_node_from_slice k) 2 demo_trees_pager = Ok (LeafN leaf_empty)"
  for k :: "'k::linorder"
proof -
  obtain t where "stored (\<lambda>q. read_node (demo_node_from_slice k) q demo_trees_pager) None t"
    "root_of t = 2" "entries_of t = []" "fits 1 t" "ordered None None t"
    using demo_trees_stored [of 2 k] unfolding pager_tree_def by auto
  then show ?thesis by (cases t) (auto simp: leaf_empty_def dest: ordered_length)
qed

lemma demo_tree_insert:
  "tree_insert 1 (pager_store (demo_node_to_vec k) (demo_node_from_slice k) 1) 2 k [1] demo_trees_pager =
     (Ok 2, record_page_write 1 2 None (demo_page 1) demo_trees_pager)"
proof -
  have "put_entry leaf_empty k [1] = [(k, [1])]"
    using put_entry_sorted [of leaf_empty k "[1]"] by (simp add: leaf_empty_def)
  then show ?thesis
    by (simp add: tree_insert_def sbind_def demo_lock demo_read insert_into_leaf_def LEAF_MAX_ENTRIES_def
        demo_write_nodes demo_write_page leaf_empty_def)
qed

lemma demo_tree_delete:
  "tree_delete 1 (pager_store (demo_node_to_vec k) (demo_node_from_slice k) 1) 2 k demo_trees_pager =
     (Ok (), demo_trees_pager)"
  by (simp add: tree_delete_def sbind_def demo_lock demo_read leaf_search_def leaf_empty_def binary_search_by_def)

theorem index_tree_is_sorted_map_witness:
  "index_get (demo_node_to_vec [5]) (demo_node_from_slice [5]) 2 1 2 [5]
     (snd (index_insert (demo_node_to_vec [5]) (demo_node_from_slice [5]) 1 1 2 [5] [1] demo_trees_pager)) = Ok (Some [1])"
proof -
  have "1 < page_room demo_trees_pager" by (simp add: demo_trees_session)
  from index_tree_is_sorted_map [OF demo_nodes_faithful demo_trees_session(1) demo_trees_stored [of 2] this]
    demo_tree_insert [of "[5] :: byte list"] demo_tree_delete [of "[5] :: byte list"]
  show ?thesis unfolding index_ops_generic numeral_2_eq_2 by auto
qed

theorem trees_are_independent_witness:
  "btree_get (demo_node_to_vec 7) (demo_node_from_slice 7) 1 1 3 7
     (snd (btree_insert (demo_node_to_vec 7) (demo_node_from_slice 7) 1 1 2 7 [1] demo_trees_pager)) =
   btree_get (demo_node_to_vec 7) (demo_node_from_slice 7) 1 1 3 7 demo_trees_pager"
proof -
  have "1 < page_room demo_trees_pager" by (simp add: demo_trees_session)
  from trees_are_independent [OF demo_nodes_faithful demo_trees_session(1) this demo_trees_stored [of 2] demo_trees_stored [of 3]]
    demo_tree_insert [of "7 :: u64"]
  show ?thesis unfolding btree_insert_def by simp
qed

text \<open>From an empty session: page 2 is allocated and written again and again by transaction 1.\<close>

definition owns_page :: "pager \<Rightarrow> bool" where
  "owns_page s \<longleftrightarrow> manager_of s = demo_granted 2 1 \<and> mp_page_count (pg_meta s) = 3 \<and>
     (\<exists>st w. map_of (txn_page_states s) 1 = Some st \<and> map_of st 2 = Some w)"

lemma demo_granted_again: "acquire_page_write 1 2 (demo_granted 2 1) = (Ok (), demo_granted 2 1)"
  by code_simp

lemma owns_wait: "owns_page s \<Longrightarrow> wait_for_page_write_lock 1 2 s = (Ok (), s)"
  using wait_granted_at_once [of 1 2 s "demo_granted 2 1"] demo_granted_again
  by (simp add: owns_page_def manager_of_def update_shared_def)

lemma owns_lock: "owns_page s \<Longrightarrow> acquire_page_write_lock 1 2 s = (Ok (), s)"
  using owns_wait by (auto simp: acquire_page_write_lock_def pager_validate_transaction_def owns_page_def)

lemma owns_write:
  assumes "owns_page s" "length page = PAGE_SIZE"
  shows "\<exists>s'. write_page 1 2 page s = (Ok (), s') \<and> owns_page s' \<and> read_page 2 s' = Ok page"
proof -
  obtain st w where st: "map_of (txn_page_states s) 1 = Some st" "map_of st 2 = Some w"
    and count: "mp_page_count (pg_meta s) = 3" "manager_of s = demo_granted 2 1"
    using assms(1) by (auto simp: owns_page_def)
  have "\<not> (3 :: page_id) \<le> 2" by (simp add: word_le_nat_alt)
  then have "write_page 1 2 page s = (Ok (), record_page_write 1 2 (pgw_before_image w) page s)"
    by (simp add: write_page_def sbind_def pager_validate_transaction_def st count assms(2) owns_wait [OF assms(1)])
  moreover have "owns_page (record_page_write 1 2 (pgw_before_image w) page s)"
    using st count by (simp add: owns_page_def record_page_write_def update_cache_def update_shared_def manager_of_def)
  moreover have "read_page 2 (record_page_write 1 2 (pgw_before_image w) page s) = Ok page"
    by (simp add: read_page_def record_page_write_def update_cache_def update_shared_def cache_of_def)
  ultimately show ?thesis by blast
qed

lemma demo_allocated: "\<exists>s1. allocate_page_with_kind 1 Leaf demo_session = (Ok 2, s1) \<and> owns_page s1"
proof -
  let ?s0 = "set_page_count 3 demo_session"
  let ?s1 = "record_page_write 1 2 None (empty_page Leaf)
    (update_shared (\<lambda>sh. sh\<lparr>sh_manager := demo_granted 2 1\<rparr>) ?s0)"
  have "wait_for_page_write_lock 1 2 ?s0 =
      (Ok (), update_shared (\<lambda>sh. sh\<lparr>sh_manager := demo_granted 2 1\<rparr>) ?s0)"
    using demo_grants(1)
    by (intro wait_granted_at_once) (simp add: demo_granted_def manager_of_def set_page_count_def demo_session_def)
  then have "allocate_page_with_kind 1 Leaf demo_session = (Ok 2, ?s1)"
    by (simp add: allocate_page_with_kind_def pager_validate_transaction_def demo_session_def
        bootstrap_meta_def update_shared_def set_page_count_def)
  moreover have "owns_page ?s1"
    by (simp add: owns_page_def record_page_write_def update_cache_def update_shared_def manager_of_def
        demo_session_def set_page_count_def hm_modify_def hm_insert_def)
  ultimately show ?thesis by blast
qed

lemma demo_session_ok: "session_ok 1 demo_session" "page_room demo_session = 2 ^ 32 - 3"
proof -
  have "tm_txn_status 1 demo_manager = Ok Active" by code_simp
  then show "session_ok 1 demo_session"
    by (simp add: session_ok_def in_bounds_def demo_session_def cache_of_def manager_of_def bootstrap_meta_def)
  show "page_room demo_session = 2 ^ 32 - 3" by (simp add: page_room_def demo_session_def bootstrap_meta_def)
qed

theorem btree_refines_sorted_map_witness:
  "\<exists>root s0 root' s'. btree_create (demo_node_to_vec 7) (demo_node_from_slice 7) 1 demo_session = (Ok root, s0) \<and>
    run_map_ops 1 (pager_store (demo_node_to_vec (7 :: u64)) (demo_node_from_slice 7) 1) root [Put 7 [1]] s0 = (Ok root', s') \<and>
    btree_get (demo_node_to_vec 7) (demo_node_from_slice 7) 2 1 root' 7 s' = Ok (Some [1])"
proof -
  let ?P = "pager_store (demo_node_to_vec (7 :: u64)) (demo_node_from_slice 7) 1"
  obtain s1 where s1: "allocate_page_with_kind 1 Leaf demo_session = (Ok 2, s1)" "owns_page s1"
    using demo_allocated by blast
  obtain s2 where s2: "write_page 1 2 (demo_page 0) s1 = (Ok (), s2)" "owns_page s2" "read_page 2 s2 = Ok (demo_page 0)"
    using owns_write [OF s1(2) demo_page_encoded(2)] by blast
  obtain s3 where s3: "write_page 1 2 (demo_page 1) s2 = (Ok (), s3)"
    using owns_write [OF s2(2) demo_page_encoded(2)] by blast
  have create: "btree_create (demo_node_to_vec 7) (demo_node_from_slice 7) 1 demo_session = (Ok 2, s2)"
    by (simp add: btree_create_def tree_create_def sbind_def s1 s2 demo_write_nodes)
  have node: "read_node (demo_node_from_slice (7 :: u64)) 2 s2 = Ok (LeafN leaf_empty)"
    using read_written_node [OF demo_nodes_faithful, of 7 "LeafN leaf_empty" "[0]" "demo_page 0" 2 s2]
      demo_page_encoded(1) s2(3) by (simp add: demo_node_to_vec_def)
  have "put_entry leaf_empty 7 [1] = [(7 :: u64, [1])]"
    using put_entry_sorted [of leaf_empty "7 :: u64" "[1]"] by (simp add: leaf_empty_def)
  then have run: "run_map_ops 1 ?P 2 [Put 7 [1]] s2 = (Ok 2, s3)"
    by (simp add: tree_insert_def sbind_def owns_lock [OF s2(2)] node insert_into_leaf_def LEAF_MAX_ENTRIES_def
        demo_write_nodes s3 leaf_empty_def)
  have "(length [Put (7 :: u64) [1]] + 2) * length [Put (7 :: u64) [1]] < page_room demo_session"
    by (simp add: demo_session_ok)
  from btree_refines_sorted_map [OF demo_nodes_faithful demo_session_ok(1) this create run, of 7] create run
  show ?thesis by (auto simp: numeral_2_eq_2)
qed

end
