(* ===== verification/V2_Catalog.thy ===== *)
theory V2_Catalog
  imports Schemas V2_Trees
begin

text \<open>
  The catalog the paged engine keeps on page 1 (\<open>src/storage/v2/catalog.rs\<close>): schemas, roots of tables and
  indexes, and the next row ids. \<open>serde_json\<close> for the catalog is a parameter. What the page holds after a
  commit is shown in \<open>V2_Storage_Txn\<close>.
\<close>

section \<open>The catalog\<close>

record 'x catalog_state =
  ct_schemas :: "(string, 'x table_schema) btmap"
  ct_table_roots :: "(string, page_id) btmap"
  ct_next_row_ids :: "(string, u64) btmap"
  ct_indexes :: "(string, (string, index_meta) btmap) btmap"
  ct_index_roots :: "(string, (string, page_id) btmap) btmap"

definition catalog_default :: "'x catalog_state" where
  "catalog_default = \<lparr>ct_schemas = [], ct_table_roots = [], ct_next_row_ids = [], ct_indexes = [], ct_index_roots = []\<rparr>"

text \<open>\<open>CatalogState::allocate_row_id\<close>.\<close>

definition catalog_allocate_row_id :: "string \<Rightarrow> 'x catalog_state \<Rightarrow> row_id \<times> 'x catalog_state" where
  "catalog_allocate_row_id table c =
     (let n = (case map_of (ct_next_row_ids c) table of Some n \<Rightarrow> n | None \<Rightarrow> 1)
      in (n, c\<lparr>ct_next_row_ids := bt_insert table (n + 1) (ct_next_row_ids c)\<rparr>))"

type_synonym 'x catalog_to_vec = "'x catalog_state \<Rightarrow> byte list result"
type_synonym 'x catalog_from_slice = "byte list \<Rightarrow> 'x catalog_state result"

definition load_catalog :: "'x catalog_from_slice \<Rightarrow> pager \<Rightarrow> 'x catalog_state result" where
  "load_catalog from_slice s =
     rbind (read_page 1 s) (\<lambda>page. rbind (decode_payload page Catalog) (\<lambda>payload.
       if payload = [] then Ok catalog_default else from_slice payload))"

definition store_catalog :: "'x catalog_to_vec \<Rightarrow> u64 \<Rightarrow> 'x catalog_state \<Rightarrow> unit pg_oper" where
  "store_catalog to_vec t c =
     sbind (sget (\<lambda>_. to_vec c)) (\<lambda>payload.
     sbind (sget (\<lambda>_. encode_payload_page Catalog payload)) (\<lambda>page. write_page t 1 page))"

end
