(* ===== verification/V2_Waits.thy ===== *)
theory V2_Waits
  imports V2_Tree_Pager
begin

text \<open>
  How the engine waits for table locks and for writes to be free of predicate conflicts: the loops
  \<open>wait_for_table_read_lock\<close>, \<open>wait_for_table_scan_lock\<close>, \<open>wait_for_table_write_lock\<close>,
  \<open>wait_for_table_exclusive_lock\<close> and \<open>wait_for_write_conflicts\<close> of \<open>src/storage/v2/mod.rs\<close>. They end
  whenever the other sessions stop, and a session that gets its lock finds its transaction and its
  pages as they were.
\<close>

section \<open>Waiting for locks\<close>

text \<open>
  The five loops of the source wait for five requests; they are one loop over the request.
\<close>

datatype fs_request =
    Read_Request string
  | Scan_Request string
  | Write_Request string
  | Exclusive_Request string
  | Conflict_Request string "(string \<times> Value list) list"

fun request_lock :: "txn_id \<Rightarrow> fs_request \<Rightarrow> unit tm_oper" where
  "request_lock t (Read_Request table) = acquire_table_intention_read t table"
| "request_lock t (Scan_Request table) = acquire_table_read_lock t table"
| "request_lock t (Write_Request table) = acquire_table_intention_write t table"
| "request_lock t (Exclusive_Request table) = acquire_table_exclusive t table"
| "request_lock t (Conflict_Request table keys) = check_write_conflicts t table keys"

text \<open>
  What a request changes that does not end in a deadlock: other transactions wait less, and strictly
  so when the lock epoch has moved; the transaction itself stays as it is.
\<close>

definition undisturbed :: "txn_id \<Rightarrow> txn_manager \<Rightarrow> txn_manager \<Rightarrow> bool" where
  "undisturbed t s s' \<longleftrightarrow>
     map_of (txns s') t = map_of (txns s) t \<and> next_commit_ts s' = next_commit_ts s \<and>
     next_row_ids s' = next_row_ids s \<and> other_waiters t s' \<subseteq> other_waiters t s \<and>
     (lock_wait_epoch s' \<noteq> lock_wait_epoch s \<longrightarrow> other_waiters t s' \<subset> other_waiters t s)"

lemma undisturbed_refl [simp]: "undisturbed t s s"
  by (simp add: undisturbed_def)

lemma undisturbed_trans: "undisturbed t s s1 \<Longrightarrow> undisturbed t s1 s2 \<Longrightarrow> undisturbed t s s2"
  unfolding undisturbed_def by (cases "lock_wait_epoch s1 = lock_wait_epoch s") auto

definition considerate :: "txn_id \<Rightarrow> 'a tm_oper \<Rightarrow> bool" where
  "considerate t m \<longleftrightarrow> (\<forall>s r s'. m s = (r, s') \<longrightarrow> harmless r \<longrightarrow> undisturbed t s s')"

lemma considerateI: "(\<And>s r s'. m s = (r, s') \<Longrightarrow> harmless r \<Longrightarrow> undisturbed t s s') \<Longrightarrow> considerate t m"
  by (simp add: considerate_def)

lemma considerateD: "considerate t m \<Longrightarrow> m s = (r, s') \<Longrightarrow> harmless r \<Longrightarrow> undisturbed t s s'"
  by (simp add: considerate_def)

lemma undisturbed_same:
  "txns s' = txns s \<Longrightarrow> next_commit_ts s' = next_commit_ts s \<Longrightarrow> next_row_ids s' = next_row_ids s \<Longrightarrow>
   lock_wait_epoch s' = lock_wait_epoch s \<Longrightarrow> other_waiters t s' = other_waiters t s \<Longrightarrow> undisturbed t s s'"
  by (simp add: undisturbed_def)

lemma clear_wait_edges:
  "clear_table_wait_edges t s = set_table_wait_edges t [] s"
  "clear_page_wait_edges t s = set_page_wait_edges t [] s"
  "clear_predicate_wait_edges t s = set_predicate_wait_edges t [] s"
  by (simp_all add: clear_table_wait_edges_def set_table_wait_edges_def clear_page_wait_edges_def
      set_page_wait_edges_def clear_predicate_wait_edges_def set_predicate_wait_edges_def)

lemma undisturbed_edges [simp]:
  "undisturbed t s (set_table_wait_edges t bs s)"
  "undisturbed t s (set_page_wait_edges t bs s)"
  "undisturbed t s (set_predicate_wait_edges t bs s)"
  by (auto intro!: undisturbed_same)
     (auto simp: set_table_wait_edges_def set_page_wait_edges_def set_predicate_wait_edges_def refresh_waits_for_def)

lemma undisturbed_queues [simp]:
  "undisturbed t s (enqueue_table_waiter table t s)" "undisturbed t s (dequeue_table_waiter table t s)"
  "undisturbed t s (enqueue_page_waiter p t s)" "undisturbed t s (dequeue_front_waiter p t s)"
  "undisturbed t s (enqueue_predicate_waiter k t s)" "undisturbed t s (dequeue_predicate_waiter k t s)"
  "undisturbed t s (upsert_table_lock t table mode s)" "undisturbed t s (s\<lparr>page_write_owners := w\<rparr>)"
  "undisturbed t s (s\<lparr>predicate_locks := ls\<rparr>)"
  by (auto intro!: undisturbed_same simp: enqueue_table_waiter_def dequeue_table_waiter_def enqueue_page_waiter_def
      dequeue_front_waiter_def enqueue_predicate_waiter_def dequeue_predicate_waiter_def upsert_table_lock_def
      other_waiters_def waits_on_def)

lemma undisturbed_kill:
  assumes "v \<noteq> t" "v \<in> other_waiters t s"
  shows "undisturbed t s (kill v m s)"
proof -
  have "map_of (txns (kill v m s)) t = map_of (txns s) t" "next_commit_ts (kill v m s) = next_commit_ts s"
    "next_row_ids (kill v m s) = next_row_ids s"
    using assms(1) by (simp_all add: kill_def update_txn_def)
  with kill_other_waiters [OF assms] show ?thesis by (auto simp: undisturbed_def)
qed

lemma considerate_sbind:
  assumes "considerate t m" "\<And>a. considerate t (k a)"
  shows "considerate t (sbind m k)"
proof (rule considerateI)
  fix s r s'
  assume *: "sbind m k s = (r, s')" "harmless r"
  show "undisturbed t s s'"
  proof (cases m s k rule: sbind_cases)
    case (1 a s1)
    have "undisturbed t s s1" by (rule considerateD [OF assms(1) 1(1)]) (simp add: harmless_def)
    moreover have "undisturbed t s1 s'" using considerateD [OF assms(2)] * 1(2) by simp
    ultimately show ?thesis by (rule undisturbed_trans)
  next
    case (2 e s1)
    then show ?thesis using considerateD [OF assms(1) 2(1)] * by (simp add: harmless_def)
  next
    case (3 p s1)
    then show ?thesis using * by (auto simp: harmless_def)
  qed
qed

lemma considerate_simps [simp]:
  "considerate t (sget f)" "considerate t (sret a)" "considerate t (sfail e)"
  "(\<And>s. undisturbed t s (h s)) \<Longrightarrow> considerate t (smodify h)"
  by (auto simp: considerate_def sret_def sfail_def)

lemma considerate_wait_or_retry:
  assumes "\<And>b v. is_deadlock_error (Txn (ctx b v))"
  shows "considerate t (wait_or_retry t ctx bs w)"
proof (rule considerateI)
  fix s r s'
  assume *: "wait_or_retry t ctx bs w s = (r, s')" "harmless r"
  show "undisturbed t s s'"
  proof (cases rule: deadlock_loop_cases [of t ctx bs s])
    case waiting
    with * show ?thesis by (simp add: wait_or_retry_def sbind_def sfail_def)
  next
    case (self m)
    then have "is_deadlock_error (Txn m)" using assms by auto
    with self * show ?thesis by (auto simp: wait_or_retry_def sbind_def harmless_def)
  next
    case (other v m)
    with * have "s' = kill v m s" by (simp add: wait_or_retry_def sbind_def sret_def)
    then show ?thesis using undisturbed_kill [OF other(2,3)] by simp
  next
    case (panic q b path x)
    with * show ?thesis by (auto simp: wait_or_retry_def sbind_def harmless_def)
  qed
qed

text \<open>A request parks the transaction first: it enters a queue and the wait-for graph.\<close>

lemma considerate_parked:
  assumes "considerate t m" "\<And>s. undisturbed t s (f s)"
  shows "considerate t (\<lambda>s. m (f s))"
  using assms considerateD undisturbed_trans by (blast intro: considerateI)

lemma considerate_attempt:
  assumes "\<And>front. considerate t (ahead front)" "considerate t grant" "considerate t conflict"
  shows "considerate t (\<lambda>s. if free then (case first_waiter s of
      Some front \<Rightarrow> if front \<noteq> t then ahead front s else grant s | None \<Rightarrow> grant s) else conflict s)"
  using assms by (auto simp: considerate_def split: option.splits)

lemma undisturbed_table_park: "undisturbed t s (set_table_wait_edges t bs (enqueue_table_waiter table t s))"
  by (rule undisturbed_trans [of _ _ "enqueue_table_waiter table t s"]) simp_all

lemma undisturbed_predicate_park: "undisturbed t s (set_predicate_wait_edges t bs (enqueue_predicate_waiter k t s))"
  by (rule undisturbed_trans [of _ _ "enqueue_predicate_waiter k t s"]) simp_all

lemma undisturbed_table_grant:
  "undisturbed t s (upsert_table_lock t table mode (clear_table_wait_edges t (dequeue_table_waiter table t s)))"
  unfolding clear_wait_edges
  by (rule undisturbed_trans [of _ _ "dequeue_table_waiter table t s"], simp,
      rule undisturbed_trans [of _ _ "set_table_wait_edges t [] (dequeue_table_waiter table t s)"]) simp_all

lemma undisturbed_predicate_grant:
  "undisturbed t s (clear_predicate_wait_edges t (dequeue_predicate_waiter k t s))"
  unfolding clear_wait_edges
  by (rule undisturbed_trans [of _ _ "dequeue_predicate_waiter k t s"]) simp_all

lemma considerate_table_attempt: "considerate t (table_lock_attempt t table mode)"
proof -
  have messages: "is_deadlock_error (Txn (victim_message (''deadlock detected while waiting for table lock on '' @ table) v))"
    "is_deadlock_error (Txn (victim_message (''deadlock detected while acquiring table lock on '' @ table) v))" for v
    using deadlock_messages [of "'' while waiting for table lock on '' @ table" v]
      deadlock_messages [of "'' while acquiring table lock on '' @ table" v] by simp_all
  have grant: "considerate t (sbind (smodify (\<lambda>s. upsert_table_lock t table mode
      (clear_table_wait_edges t (dequeue_table_waiter table t s)))) (\<lambda>_. sret Granted))"
    by (rule considerate_sbind) (simp_all add: undisturbed_table_grant)
  show ?thesis
    unfolding table_lock_attempt_def Let_def
    by (intro considerate_sbind considerate_simps(1) considerate_attempt grant
        considerate_parked [OF considerate_wait_or_retry undisturbed_table_park] messages)
qed

lemma considerate_predicate_attempt: "considerate t (predicate_write_attempt t table keys)"
proof -
  have messages: "is_deadlock_error (Txn (victim_message (''deadlock detected while waiting for predicate write on table '' @ table) v))"
    "is_deadlock_error (Txn (victim_message (''deadlock detected while writing table '' @ table) v))" for v
    using deadlock_messages [of "'' while waiting for predicate write on table '' @ table" v]
      deadlock_messages [of "'' while writing table '' @ table" v] by simp_all
  have grant: "considerate t (sbind (smodify (\<lambda>s. clear_predicate_wait_edges t
      (dequeue_predicate_waiter k t s))) (\<lambda>_. sret Granted))" for k
    by (rule considerate_sbind) (simp_all add: undisturbed_predicate_grant)
  show ?thesis
    unfolding predicate_write_attempt_def Let_def
    by (intro considerate_sbind considerate_simps(1) considerate_attempt grant
        considerate_parked [OF considerate_wait_or_retry undisturbed_predicate_park] messages)
qed

text \<open>Trying again until the attempt is granted or fails.\<close>

lemma considerate_acquire:
  assumes "considerate t attempt_once" "wf (measure (\<lambda>s. card (other_waiters t s)))"
    and "\<And>s. acquire s = (case attempt_once s of
        (Ok Granted, s') \<Rightarrow> (Ok (), s')
      | (Ok Retry, s') \<Rightarrow> acquire s'
      | (Err e, s') \<Rightarrow> (Err e, s')
      | (Panic q, s') \<Rightarrow> (Panic q, s'))"
    and "\<And>s s'. attempt_once s = (Ok Retry, s') \<Longrightarrow> other_waiters t s' \<subset> other_waiters t s"
  shows "considerate t (acquire :: unit tm_oper)"
proof (rule considerateI)
  fix s r s'
  assume "acquire s = (r, s')" "harmless r"
  then show "undisturbed t s s'"
  proof (induction "card (other_waiters t s)" arbitrary: s rule: less_induct)
    case less
    obtain ra s1 where att: "attempt_once s = (ra, s1)" by fastforce
    show ?case
    proof (cases "ra = Ok Retry")
      case True
      then have "card (other_waiters t s1) < card (other_waiters t s)"
        using assms(4) att by (intro other_waiters_decreases) simp
      moreover have "acquire s1 = (r, s')" using less.prems(1) att True by (subst (asm) assms(3)) simp
      ultimately have "undisturbed t s1 s'" using less.hyps less.prems(2) by blast
      moreover have "undisturbed t s s1" by (rule considerateD [OF assms(1) att]) (simp add: True harmless_def)
      ultimately show ?thesis using undisturbed_trans by blast
    next
      case False
      have "s1 = s'" "harmless ra"
        using less.prems att False
        by (auto simp: assms(3) [of s] harmless_def split: result.splits attempt.splits)
      then show ?thesis using considerateD [OF assms(1) att] by simp
    qed
  qed
qed

lemma considerate_acquire_table_lock: "considerate t (acquire_table_lock t table mode)"
  by (rule considerate_acquire [OF considerate_table_attempt _ acquire_table_lock.simps table_lock_attempt_Retry]) simp

lemma considerate_check_write_conflicts: "considerate t (check_write_conflicts t table keys)"
  by (rule considerate_acquire [OF considerate_predicate_attempt _ check_write_conflicts.simps predicate_write_attempt_Retry]) simp

lemma considerate_acquire_predicate_lock: "considerate t (acquire_predicate_lock u lock)"
  unfolding acquire_predicate_lock_def
  by (intro considerate_sbind considerate_simps(1)) simp

lemma considerate_request: "considerate t (request_lock t q)"
  by (cases q) (simp_all add: acquire_table_intention_read_def acquire_table_read_lock_def
      acquire_table_intention_write_def acquire_table_exclusive_def considerate_acquire_table_lock
      considerate_check_write_conflicts considerate_acquire_predicate_lock considerate_sbind)

section \<open>The loops\<close>

function wait_for_lock :: "txn_id \<Rightarrow> fs_request \<Rightarrow> unit pg_oper" where
  "wait_for_lock t q s =
     (let observed_epoch = lock_wait_epoch (manager_of s) in
      case on_manager (request_lock t q) s of
        (Ok _, s1) \<Rightarrow> (Ok (), s1)
      | (Panic p, s1) \<Rightarrow> (Panic p, s1)
      | (Err e, s1) \<Rightarrow>
          if is_deadlock_error e then (Err e, s1)
          else if is_waitable_lock_error e then
            (if lock_wait_epoch (manager_of s1) \<noteq> observed_epoch then wait_for_lock t q s1
             else case pg_others s1 of
                 [] \<Rightarrow> (blocked, s1)
               | change # rest \<Rightarrow> wait_for_lock t q (update_shared change (s1\<lparr>pg_others := rest\<rparr>)))
          else (Err e, s1))"
  by pat_completeness auto

lemma request_err:
  assumes "on_manager (request_lock t q) s = (Err e, s1)" "\<not> is_deadlock_error e"
  shows "undisturbed t (manager_of s) (manager_of s1)"
proof -
  have "request_lock t q (manager_of s) = (Err e, manager_of s1)" using on_manager_state [OF assms(1)] by simp
  then show ?thesis by (rule considerateD [OF considerate_request]) (simp add: harmless_def assms(2))
qed

termination wait_for_lock
proof (relation "measures [\<lambda>(t, q, s). length (pg_others s), \<lambda>(t, q, s). card (other_waiters t (manager_of s))]",
    goal_cases)
  case (2 t q s epoch r s1 e)
  then have om: "on_manager (request_lock t q) s = (Err e, s1)" by (simp only:)
  then have "other_waiters t (manager_of s1) \<subset> other_waiters t (manager_of s)"
    using request_err [OF om] 2 by (simp add: undisturbed_def)
  then have "card (other_waiters t (manager_of s1)) < card (other_waiters t (manager_of s))"
    by (rule other_waiters_decreases)
  with on_manager_others [OF om] show ?case by simp
next
  case (3 t q s epoch r s1 e change rest)
  then have om: "on_manager (request_lock t q) s = (Err e, s1)" by (simp only:)
  with 3 on_manager_others [OF om] show ?case by (simp add: update_shared_def)
qed simp

declare wait_for_lock.simps [simp del]

definition wait_for_table_read_lock :: "txn_id \<Rightarrow> string \<Rightarrow> unit pg_oper" where
  "wait_for_table_read_lock t table = wait_for_lock t (Read_Request table)"

definition wait_for_table_scan_lock :: "txn_id \<Rightarrow> string \<Rightarrow> unit pg_oper" where
  "wait_for_table_scan_lock t table = wait_for_lock t (Scan_Request table)"

definition wait_for_table_write_lock :: "txn_id \<Rightarrow> string \<Rightarrow> unit pg_oper" where
  "wait_for_table_write_lock t table = wait_for_lock t (Write_Request table)"

definition wait_for_table_exclusive_lock :: "txn_id \<Rightarrow> string \<Rightarrow> unit pg_oper" where
  "wait_for_table_exclusive_lock t table = wait_for_lock t (Exclusive_Request table)"

definition wait_for_write_conflicts :: "txn_id \<Rightarrow> string \<Rightarrow> (string \<times> Value list) list \<Rightarrow> unit pg_oper" where
  "wait_for_write_conflicts t table index_keys = wait_for_lock t (Conflict_Request table index_keys)"

text \<open>A session that works alone: only the manager changes, and it leaves the transaction as it is.\<close>

lemma wait_for_lock_alone:
  "wait_for_lock t q s = (Ok (), s') \<Longrightarrow> pg_others s = [] \<Longrightarrow>
     same_but_manager s s' \<and> undisturbed t (manager_of s) (manager_of s')"
proof (induction t q s rule: wait_for_lock.induct)
  case (1 t q s)
  obtain r s1 where om: "on_manager (request_lock t q) s = (r, s1)" by fastforce
  note same = same_but_manager_on_manager [OF om]
  show ?case
  proof (cases r)
    case (Ok u)
    then have "s' = s1" using om 1(3) by (simp add: wait_for_lock.simps [of t q s])
    moreover have "undisturbed t (manager_of s) (manager_of s1)"
      by (rule considerateD [OF considerate_request [of t q], where r = r])
         (use on_manager_state [OF om] Ok in \<open>simp_all add: harmless_def\<close>)
    ultimately show ?thesis using same by simp
  next
    case (Err e)
    have again: "wait_for_lock t q s1 = (Ok (), s')"
      and moved: "\<not> is_deadlock_error e" "is_waitable_lock_error e"
        "lock_wait_epoch (manager_of s1) \<noteq> lock_wait_epoch (manager_of s)"
      using 1(3,4) om Err same_but_managerD(6) [OF same]
      by (simp_all add: wait_for_lock.simps [of t q s] Let_def blocked_def split: if_splits)
    have "pg_others s1 = []" using 1(4) on_manager_others [OF om] by simp
    then have "same_but_manager s1 s' \<and> undisturbed t (manager_of s1) (manager_of s')"
      using 1(1) [OF refl om [symmetric] Err moved again] by simp
    then show ?thesis
      using same_but_manager_trans [OF same] request_err [OF om [unfolded Err] moved(1)] undisturbed_trans by blast
  qed (use om 1(3) in \<open>simp add: wait_for_lock.simps [of t q s]\<close>)
qed

end
