(* ===== verification/V2_Tree_Frames.thy ===== *)
theory V2_Tree_Frames
  imports V2_Trees
begin

text \<open>
  What the engine needs of its trees beyond their own laws: a tree operation runs the same with more
  stack frames than the tree has levels, and it leaves every page alone that is neither in the tree nor
  new, so that trees with other kinds of nodes on other pages are not affected.
\<close>

section \<open>Trees with frames to spare\<close>

context node_store
begin

lemma stored_child:
  assumes "stored (rd s) nxt (Nd p ks ts)" "c \<in> set ts"
  shows "\<exists>nxt'. stored (rd s) nxt' c"
  using assms by (auto simp: stored_list_append dest!: split_list)

text \<open>A descent through a tree uses no more frames than the tree has levels.\<close>

lemma insert_frames:
  assumes "fits d t" "d \<le> e" "ok s" "stored (rd s) nxt t"
  shows "insert_into_page e P (root_of t) k v s = insert_into_page d P (root_of t) k v s"
  using assms
proof (induction d t arbitrary: e s nxt rule: fits.induct)
  case (2 d p es)
  then obtain e' where e: "e = Suc e'" by (cases e) auto
  obtain r s' where 1: "st_lock P p s = (r, s')" by fastforce
  show ?case
  proof (cases r)
    case (Ok u)
    with 1 have "st_read P p s' = st_read P p s" using lock_law [OF 2(3), of p s'] by (cases u) simp
    with 1 Ok 2(4) show ?thesis by (simp add: e)
  qed (use 1 in \<open>simp_all add: e\<close>)
next
  case (3 d p ks ts)
  then obtain e' where e: "e = Suc e'" "d \<le> e'" by (cases e) auto
  let ?n = "\<lparr>in_separators = ks, in_children = map root_of ts\<rparr>"
  obtain r s' where 1: "st_lock P p s = (r, s')" by fastforce
  show ?case
  proof (cases r)
    case (Ok u)
    with 1 have law: "ok s'" "\<forall>q. st_read P q s' = st_read P q s" using lock_law [OF 3(4), of p s'] by (cases u, simp)+
    have read: "st_read P p s' = Ok (InternalN ?n)" using law(2) 3(5) by simp
    show ?thesis
    proof (cases "child_index ?n k < length ts")
      case True
      let ?c = "ts ! child_index ?n k"
      have c: "?c \<in> set ts" using True by simp
      obtain nxt' where "stored (rd s) nxt' ?c" using stored_child [OF 3(5) c] by blast
      then have "stored (rd s') nxt' ?c" by (rule stored_cong(1)) (use law(2) in simp)
      with 3(1) [OF c _ e(2) law(1)] 3(2) c
      have "insert_into_page e' P (root_of ?c) k v s' = insert_into_page d P (root_of ?c) k v s'" by simp
      with 1 Ok read True show ?thesis by (simp add: e(1) index_at_def sbind_def)
    next
      case False
      with 1 Ok read show ?thesis by (simp add: e(1) index_at_def sbind_def)
    qed
  qed (use 1 in \<open>simp_all add: e\<close>)
qed simp

lemma insert_law_frames:
  assumes "represents d s root pgs es" "ok s" "d < room s" "d \<le> e" "tree_insert e P root k v s = (Ok root', s')"
  shows "ok s' \<and> room s \<le> Suc d + room s' \<and> used s \<subseteq> used s' \<and> (\<forall>q \<in> used s - pgs. rd s' q = rd s q) \<and>
    (\<exists>pgs'. represents (Suc d) s' root' pgs' (bt_insert k v es) \<and> pgs' \<inter> used s \<subseteq> pgs)"
proof (rule insert_law [OF assms(1-3)])
  obtain t where "stored (rd s) None t" "fits d t" "root_of t = root"
    using assms(1) by (auto simp: represents_def tree_in_def)
  then have "insert_into_page e P root k v s = insert_into_page d P root k v s"
    using insert_frames [OF _ assms(4,2), of t None k v] by simp
  with assms(5) show "tree_insert d P root k v s = (Ok root', s')"
    by (simp add: tree_insert_def sbind_def)
qed

end


section \<open>Other pages\<close>

text \<open>
  A store of pages that have contents of any kind: an operation leaves all pages as they are that it
  does not write. The trees of a second kind of nodes are on such pages.
\<close>

locale framed_store = node_store +
  fixes raw :: "'a \<Rightarrow> page_id \<Rightarrow> 'r"
  assumes lock_raw: "ok s \<Longrightarrow> st_lock P p s = (Ok (), s') \<Longrightarrow> raw s' q = raw s q"
    and write_raw: "ok s \<Longrightarrow> st_write P p n s = (Ok (), s') \<Longrightarrow> q \<noteq> p \<Longrightarrow> raw s' q = raw s q"
    and alloc_leaf_raw: "ok s \<Longrightarrow> 0 < room s \<Longrightarrow> st_alloc_leaf P s = (Ok p, s') \<Longrightarrow> q \<noteq> p \<Longrightarrow> raw s' q = raw s q"
    and alloc_internal_raw:
      "ok s \<Longrightarrow> 0 < room s \<Longrightarrow> st_alloc_internal P s = (Ok p, s') \<Longrightarrow> q \<noteq> p \<Longrightarrow> raw s' q = raw s q"
begin

lemma two_writes_raw:
  assumes "ok s" "st_write P p n s = (Ok (), s1)" "st_write P p' n' s1 = (Ok (), s')" "q \<noteq> p" "q \<noteq> p'"
  shows "raw s' q = raw s q"
  using write_raw [OF assms(1,2,4)] write_raw [OF _ assms(3,5)] write_law [OF assms(1,2)] by simp

lemma leaf_raw:
  assumes "ok s" "0 < room s" "insert_into_leaf P p leaf k v s = (Ok res, s')" "q \<in> used s" "q \<noteq> p"
  shows "raw s' q = raw s q"
proof (cases "length (put_entry leaf k v) \<le> LEAF_MAX_ENTRIES")
  case True
  then obtain n where "st_write P p n s = (Ok (), s')"
    using assms(3) by (auto simp: insert_into_leaf_def Let_def sbind_eq_Ok)
  then show ?thesis using write_raw assms by blast
next
  case False
  then obtain new s1 n s2 n' where run: "st_alloc_leaf P s = (Ok new, s1)" "st_write P p n s1 = (Ok (), s2)"
    "st_write P new n' s2 = (Ok (), s')"
    using assms(3) by (auto simp: insert_into_leaf_def Let_def sbind_eq_Ok)
  note law = alloc_leaf_law [OF assms(1,2) run(1)]
  then have "q \<noteq> new" "ok s1" using assms(4) by auto
  then show ?thesis
    using two_writes_raw [OF _ run(2,3) assms(5)] alloc_leaf_raw [OF assms(1,2) run(1)] by simp
qed

lemma child_raw:
  assumes "ok s" "0 < room s" "insert_child P p n i sp s = (Ok res, s')" "q \<in> used s" "q \<noteq> p"
  shows "raw s' q = raw s q"
proof (cases "length (insert_at i (separator_key sp) (in_separators n)) \<le> INTERNAL_MAX_KEYS")
  case True
  then obtain m where "st_write P p m s = (Ok (), s')"
    using assms(3) by (auto simp: insert_child_def Let_def sbind_eq_Ok)
  then show ?thesis using write_raw assms by blast
next
  case False
  then obtain new s1 m s2 m' where run: "st_alloc_internal P s = (Ok new, s1)" "st_write P p m s1 = (Ok (), s2)"
    "st_write P new m' s2 = (Ok (), s')"
    using assms(3) by (auto simp: insert_child_def Let_def sbind_eq_Ok)
  note law = alloc_internal_law [OF assms(1,2) run(1)]
  then have "q \<noteq> new" "ok s1" using assms(4) by auto
  then show ?thesis
    using two_writes_raw [OF _ run(2,3) assms(5)] alloc_internal_raw [OF assms(1,2) run(1)] by simp
qed

lemma insert_into_page_raw:
  assumes "fits d t" "ok s" "d \<le> room s" "tree_in s nxt t" "ordered lo hi t" "at_least lo k" "short_of hi k"
    "insert_into_page d P (root_of t) k v s = (Ok res, s')" "q \<in> used s" "q \<notin> set (pages_of t)"
  shows "raw s' q = raw s q"
  using assms
proof (induction d t arbitrary: lo hi nxt s s' res rule: fits.induct)
  case (2 d p es)
  have "insert_into_page (Suc d) P p k v s = (Ok res, s')" using 2 by simp
  then obtain s1 leaf where run: "st_lock P p s = (Ok (), s1)" "insert_into_leaf P p leaf k v s1 = (Ok res, s')"
  proof (cases rule: insert_into_page_Suc)
    case (whole s1 n c)
    then show ?thesis using lock_law [OF 2(2) whole(1)] 2(4) by (simp add: tree_in_def)
  next
    case (split s1 n c s2 sp)
    then show ?thesis using lock_law [OF 2(2) split(1)] 2(4) by (simp add: tree_in_def)
  qed (use that in blast)
  note law = lock_law [OF 2(2) run(1)]
  have "ok s1" "0 < room s1" "q \<in> used s1" "q \<noteq> p" using law 2(3,9,10) by simp_all
  then have "raw s' q = raw s1 q" using leaf_raw run(2) by blast
  then show ?case using lock_raw [OF 2(2) run(1)] by simp
next
  case (3 d p ks ts)
  let ?n = "\<lparr>in_separators = ks, in_children = map root_of ts\<rparr>"
  have ord: "ordered_list lo ks ts hi" using 3(6) by simp
  obtain ks1 ks2 ts1 c ts2 where at: "ks = ks1 @ ks2" "ts = ts1 @ c # ts2" "length ts1 = length ks1"
    "child_index ?n k = length ks1" "\<forall>x \<in> set ks1. x \<le> k" "ks2 = [] \<or> k < hd ks2"
    "at_least (lower lo ks1) k" "short_of (upper ks2 hi) k"
    by (rule child_index_around [OF ord 3(7,8), of ?n]) simp
  have node: "rd s p = Ok (InternalN ?n)" using 3(5) by (simp add: tree_in_def)
  have run: "insert_into_page (Suc d) P p k v s = (Ok res, s')" using 3(9) by simp
  obtain s1 cres s2 where lock: "st_lock P p s = (Ok (), s1)"
    and child: "insert_into_page d P (root_of c) k v s1 = (Ok cres, s2)"
    and fin: "s' = s2 \<or> (\<exists>i sp. insert_child P p ?n i sp s2 = (Ok res, s'))"
    using run
  proof (cases rule: insert_into_page_Suc)
    case (leaf s1 leaf)
    then show ?thesis using lock_law [OF 3(3) leaf(1)] node by simp
  next
    case (whole s1 n' c')
    then have "n' = ?n" using lock_law [OF 3(3) whole(1)] node by simp
    then have "c' = root_of c" using whole(3) at by (simp add: index_at_def nth_append)
    then show ?thesis using whole that by blast
  next
    case (split s1 n' c' s2 sp)
    then have n': "n' = ?n" using lock_law [OF 3(3) split(1)] node by simp
    then have "c' = root_of c" using split(3) at by (simp add: index_at_def nth_append)
    then show ?thesis using split that n' by blast
  qed
  note law = lock_law [OF 3(3) lock]
  have s1: "ok s1" "d \<le> room s1" "q \<in> used s1" using law 3(4,10) by simp_all
  have t1: "tree_in s1 nxt (Nd p ks (ts1 @ c # ts2))" using tree_in_lock [OF 3(5)] law at(2) by simp
  have c: "fits d c" "q \<notin> set (pages_of c)" "q \<noteq> p" "c \<in> set ts" using 3(2,11) at(2) by auto
  note sub = tree_in_child [OF t1] ordered_list_child [OF ord [unfolded at(1,2)] at(3)] at(7,8) child
  have "raw s2 q = raw s1 q" using 3(1) [OF c(4,1) s1(1,2) sub s1(3) c(2)] .
  moreover note refines = insert_into_page_refines [OF c(1) s1(1,2) sub]
  have "used s1 \<subseteq> used s2" using refines by (auto simp: inserted_def replaces_def)
  then have "ok s2" "0 < room s2" "q \<in> used s2" using refines s1(3) law 3(4) by auto
  then have "raw s' q = raw s2 q" using fin child_raw c(3) by blast
  ultimately show ?case using lock_raw [OF 3(3) lock] by simp
qed simp

lemma insert_raw:
  assumes "represents d s root pgs es" "ok s" "d < room s" "d \<le> e" "tree_insert e P root k v s = (Ok root', s')"
    "q \<in> used s" "q \<notin> pgs"
  shows "raw s' q = raw s q"
proof -
  obtain t where t: "tree_in s None t" "ordered None None t" "fits d t" "root_of t = root" "set (pages_of t) = pgs"
    using assms(1) by (auto simp: represents_def)
  have "insert_into_page e P root k v s = insert_into_page d P root k v s"
    using insert_frames [OF t(3) assms(4,2), of None k v] t(1,4) by (simp add: tree_in_def)
  then obtain sp s1 where ins: "insert_into_page d P (root_of t) k v s = (Ok sp, s1)"
    and fin: "s' = s1 \<or> (\<exists>new n s2. st_alloc_internal P s1 = (Ok new, s2) \<and> st_write P new n s2 = (Ok (), s'))"
    using assms(5) t(4) by (fastforce simp: tree_insert_def sbind_eq_Ok split: option.splits)
  have room: "d \<le> room s" using assms(3) by simp
  note sub = t(3) assms(2) room t(1,2) bound_simps(1) bound_simps(2) ins
  note refines = insert_into_page_refines [OF sub]
  have s1: "ok s1" "0 < room s1" "q \<in> used s1"
    using refines assms(3,6) by (auto simp: inserted_def replaces_def)
  have "raw s' q = raw s1 q"
    using fin
  proof
    assume "\<exists>new n s2. st_alloc_internal P s1 = (Ok new, s2) \<and> st_write P new n s2 = (Ok (), s')"
    then obtain new n s2 where run: "st_alloc_internal P s1 = (Ok new, s2)" "st_write P new n s2 = (Ok (), s')"
      by blast
    have "q \<noteq> new" "ok s2" using alloc_internal_law [OF s1(1,2) run(1)] s1(3) by auto
    then show ?thesis using alloc_internal_raw [OF s1(1,2) run(1)] write_raw [OF _ run(2)] by simp
  qed simp
  then show ?thesis using insert_into_page_raw [OF sub assms(6)] assms(7) t(5) by simp
qed

end

section \<open>Trees in the pager\<close>

lemma pager_framed_store:
  assumes "nodes_faithful to_vec from_slice"
  shows "framed_store (pager_store to_vec from_slice t) (session_ok t) pages_in_use page_room (\<lambda>s q. read_page q s)"
proof -
  note store = pager_node_store [OF assms]
  have "framed_store_axioms (pager_store to_vec from_slice t) (session_ok t) page_room (\<lambda>s q. read_page q s)"
  proof (unfold_locales, unfold pager_store_simps)
    show "session_ok t s \<Longrightarrow> acquire_page_write_lock t p s = (Ok (), s') \<Longrightarrow> read_page q s' = read_page q s" for s p s' q
      using session_lock by blast
    show "session_ok t s \<Longrightarrow> write_node to_vec t p n s = (Ok (), s') \<Longrightarrow> q \<noteq> p \<Longrightarrow> read_page q s' = read_page q s"
      for s p n s' q
      using session_write by (metis write_node_Ok)
    show "session_ok t s \<Longrightarrow> 0 < page_room s \<Longrightarrow> allocate_page_with_kind t kind s = (Ok p, s') \<Longrightarrow> q \<noteq> p \<Longrightarrow>
        read_page q s' = read_page q s" for kind s p s' q
      using session_allocate by blast
    then show "session_ok t s \<Longrightarrow> 0 < page_room s \<Longrightarrow> allocate_page_with_kind t kind s = (Ok p, s') \<Longrightarrow> q \<noteq> p \<Longrightarrow>
        read_page q s' = read_page q s" for kind s p s' q .
  qed
  with store show ?thesis by (rule framed_store.intro)
qed

interpretation demo_frames: framed_store "pager_store (demo_node_to_vec k) (demo_node_from_slice k) t"
    "session_ok t" pages_in_use page_room "\<lambda>s q. read_page q s"
  by (rule pager_framed_store [OF demo_nodes_faithful])

lemma pager_tree_used: "pager_tree from_slice d s root pgs es \<Longrightarrow> pgs \<subseteq> pages_in_use s"
  by (auto simp: pager_tree_def)

lemma pager_tree_mono: "pager_tree from_slice d s root pgs es \<Longrightarrow> d \<le> e \<Longrightarrow> pager_tree from_slice e s root pgs es"
proof -
  have "fits d t \<Longrightarrow> d \<le> e \<Longrightarrow> fits e t" for t by (induction e) (auto simp: le_Suc_eq dest: fits_mono)
  then show "pager_tree from_slice d s root pgs es \<Longrightarrow> d \<le> e \<Longrightarrow> pager_tree from_slice e s root pgs es"
    unfolding pager_tree_def by blast
qed

lemma pager_tree_frame:
  assumes "pager_tree from_slice d s root pgs es" "\<forall>q \<in> pgs. read_page q s' = read_page q s"
    "pages_in_use s \<subseteq> pages_in_use s'"
  shows "pager_tree from_slice d s' root pgs es"
proof -
  obtain t where t: "stored (\<lambda>q. read_node from_slice q s) None t" "set (pages_of t) = pgs"
    and rest: "distinct (pages_of t)" "set (pages_of t) \<subseteq> pages_in_use s" "ordered None None t" "fits d t"
      "root_of t = root" "entries_of t = es"
    using assms(1) unfolding pager_tree_def by blast
  have "stored (\<lambda>q. read_node from_slice q s') None t"
    by (rule stored_cong(1) [OF t(1)]) (use assms(2) t(2) read_node_cong in blast)
  then show ?thesis unfolding pager_tree_def using t(2) rest assms(3) by blast
qed

lemma pager_tree_same:
  assumes "pager_tree from_slice d s root pgs es" "same_but_manager s s'"
  shows "pager_tree from_slice d s' root pgs es"
proof (rule pager_tree_frame [OF assms(1)])
  show "\<forall>q \<in> pgs. read_page q s' = read_page q s" "pages_in_use s \<subseteq> pages_in_use s'"
    unfolding read_page_def pages_in_use_def same_but_managerD [OF assms(2)] by simp_all
qed

lemma pager_tree_insert:
  assumes "nodes_faithful to_vec from_slice" "session_ok t s" "pager_tree from_slice d s root pgs es"
    "d < page_room s" "d \<le> e" "tree_insert e (pager_store to_vec from_slice t) root k v s = (Ok root', s')"
  obtains pgs' where "session_ok t s'" "page_room s \<le> Suc d + page_room s'" "pages_in_use s \<subseteq> pages_in_use s'"
    "\<forall>q \<in> pages_in_use s - pgs. read_page q s' = read_page q s"
    "pager_tree from_slice (Suc d) s' root' pgs' (bt_insert k v es)" "pgs' \<inter> pages_in_use s \<subseteq> pgs"
proof -
  note store = pager_node_store [OF assms(1)] pager_framed_store [OF assms(1)]
  note law = node_store.insert_law_frames [OF store(1), unfolded pager_tree_represents [OF assms(1)], OF assms(3,2,4-6)]
  have "\<forall>q \<in> pages_in_use s - pgs. read_page q s' = read_page q s"
    using framed_store.insert_raw [OF store(2), unfolded pager_tree_represents [OF assms(1)], OF assms(3,2,4-6)] by blast
  with law that show ?thesis by blast
qed

end
