(* ===== verification/V2_Storage.thy ===== *)
theory V2_Storage
  imports V2_Catalog V2_Waits V2_Tree_Frames
begin

text \<open>
  The paged engine itself, \<open>FileStorage\<close> of \<open>src/storage/v2/mod.rs\<close>: transactions, tables, rows and
  indexes on top of the pager, the trees, the row versions and the lock manager. The state of a session
  is its pager (with the parts all sessions share), its copy of the catalog and the catalogs it had when
  its transactions began. What a session finds after it has slept for a lock comes from \<open>pg_others\<close>, as in
  the pager. \<open>RefCell\<close> borrows never overlap in these operations and have no counterpart.
\<close>

section \<open>State\<close>

record 'x file_storage =
  fs_pager :: pager
  fs_catalog :: "'x catalog_state"
  session_catalog_snapshots :: "(txn_id, 'x catalog_state) hmap"

type_synonym ('x, 'a) fs_oper = "('x file_storage, 'a) oper"

text \<open>
  What the engine takes from outside: the \<open>serde_json\<close> images of rows, nodes, catalogs, index keys and
  row id lists, the rules of schemas, the stack frames of a tree operation and the steps of a scan.
\<close>

record 'x formats =
  fm_row :: to_vec
  fm_row_back :: from_slice
  fm_node :: "u64 to_vec_node"
  fm_node_back :: "u64 from_slice_node"
  fm_index_node :: "index_key to_vec_node"
  fm_index_node_back :: "index_key from_slice_node"
  fm_catalog :: "'x catalog_to_vec"
  fm_catalog_back :: "'x catalog_from_slice"
  encode_index_key :: "Value list \<Rightarrow> byte list result"
  decode_index_key :: "byte list \<Rightarrow> Value list result"
  encode_row_ids :: "row_id list \<Rightarrow> byte list result"
  decode_row_ids :: "byte list \<Rightarrow> row_id list result"
  fm_rules :: "'x schema_rules"
  fm_frames :: nat
  fm_steps :: nat

definition fs_manager :: "'x file_storage \<Rightarrow> txn_manager" where
  "fs_manager s = manager_of (fs_pager s)"

definition on_pager :: "'a pg_oper \<Rightarrow> ('x, 'a) fs_oper" where
  "on_pager m s = (case m (fs_pager s) of (r, p) \<Rightarrow> (r, s\<lparr>fs_pager := p\<rparr>))"

definition on_tm :: "'a tm_oper \<Rightarrow> ('x, 'a) fs_oper" where
  "on_tm m = on_pager (on_manager m)"

definition update_catalog :: "('x catalog_state \<Rightarrow> 'x catalog_state) \<Rightarrow> 'x file_storage \<Rightarrow> 'x file_storage" where
  "update_catalog f s = s\<lparr>fs_catalog := f (fs_catalog s)\<rparr>"

text \<open>\<open>match m { Ok(a) => ok(a), Err(e) => err(e) }\<close> and \<open>let _ = m\<close>.\<close>

definition smatch :: "('s, 'a) oper \<Rightarrow> ('a \<Rightarrow> ('s, 'b) oper) \<Rightarrow> (db_error \<Rightarrow> ('s, 'b) oper) \<Rightarrow> ('s, 'b) oper" where
  "smatch m ok err s = (case m s of
     (Ok a, s') \<Rightarrow> ok a s'
   | (Err e, s') \<Rightarrow> err e s'
   | (Panic p, s') \<Rightarrow> (Panic p, s'))"

definition discard :: "('s, 'a) oper \<Rightarrow> ('s, unit) oper" where
  "discard m = smatch m (\<lambda>_. sret ()) (\<lambda>_. sret ())"

text \<open>The tree operations with the formats of the engine.\<close>

definition row_get :: "'x formats \<Rightarrow> txn_id \<Rightarrow> page_id \<Rightarrow> row_id \<Rightarrow> pager \<Rightarrow> byte list option result" where
  "row_get F = btree_get (fm_node F) (fm_node_back F) (fm_frames F)"

definition row_scan :: "'x formats \<Rightarrow> txn_id \<Rightarrow> page_id \<Rightarrow> pager \<Rightarrow> u64 leaf_entry list result" where
  "row_scan F = btree_scan_all (fm_node F) (fm_node_back F) (fm_frames F) (fm_steps F)"

definition row_insert :: "'x formats \<Rightarrow> txn_id \<Rightarrow> page_id \<Rightarrow> row_id \<Rightarrow> byte list \<Rightarrow> page_id pg_oper" where
  "row_insert F = btree_insert (fm_node F) (fm_node_back F) (fm_frames F)"

definition row_delete :: "'x formats \<Rightarrow> txn_id \<Rightarrow> page_id \<Rightarrow> row_id \<Rightarrow> unit pg_oper" where
  "row_delete F = btree_delete (fm_node F) (fm_node_back F) (fm_frames F)"

definition entry_get :: "'x formats \<Rightarrow> txn_id \<Rightarrow> page_id \<Rightarrow> index_key \<Rightarrow> pager \<Rightarrow> byte list option result" where
  "entry_get F = index_get (fm_index_node F) (fm_index_node_back F) (fm_frames F)"

definition entry_scan :: "'x formats \<Rightarrow> txn_id \<Rightarrow> page_id \<Rightarrow> pager \<Rightarrow> index_key leaf_entry list result" where
  "entry_scan F = index_scan_all (fm_index_node F) (fm_index_node_back F) (fm_frames F) (fm_steps F)"

definition entry_insert :: "'x formats \<Rightarrow> txn_id \<Rightarrow> page_id \<Rightarrow> index_key \<Rightarrow> byte list \<Rightarrow> page_id pg_oper" where
  "entry_insert F = index_insert (fm_index_node F) (fm_index_node_back F) (fm_frames F)"

definition entry_delete :: "'x formats \<Rightarrow> txn_id \<Rightarrow> page_id \<Rightarrow> index_key \<Rightarrow> unit pg_oper" where
  "entry_delete F = index_delete (fm_index_node F) (fm_index_node_back F) (fm_frames F)"

section \<open>Opening\<close>

text \<open>
  \<open>FileStorage::open\<close>; \<open>shared\<close> is what earlier sessions of the process have registered for the path, the
  page cache and the transaction manager. A manager that exists is kept, and attached to the pager.
\<close>

definition storage_open ::
    "'x formats \<Rightarrow> byte list option \<Rightarrow> byte list option \<Rightarrow> (page_id, byte list) hmap option \<Rightarrow> txn_manager option \<Rightarrow>
      (shared \<Rightarrow> shared) list \<Rightarrow> 'x file_storage result" where
  "storage_open F db wal cache manager others =
     rbind (pager_open db wal cache others) (\<lambda>pager.
     rbind (load_catalog (fm_catalog_back F) pager) (\<lambda>catalog.
       let tm = (case manager of Some tm \<Rightarrow> tm | None \<Rightarrow> with_next_txn_id (mp_next_txn_id (pg_meta pager)))
       in Ok \<lparr>fs_pager = update_shared (\<lambda>sh. sh\<lparr>sh_manager := sync_next_row_ids (ct_next_row_ids catalog) tm\<rparr>) pager,
              fs_catalog = catalog, session_catalog_snapshots = []\<rparr>))"

section \<open>Transactions\<close>

definition validate_transaction :: "txn_id \<Rightarrow> 'x file_storage \<Rightarrow> unit result" where
  "validate_transaction t s =
     rbind (tm_get t (fs_manager s)) (\<lambda>txn. if tx_status txn = Active then Ok () else Err (not_active t))"

definition validate_snapshot_transaction :: "txn_id option \<Rightarrow> 'x file_storage \<Rightarrow> unit result" where
  "validate_snapshot_transaction transaction_id s =
     (case transaction_id of
        Some t \<Rightarrow> validate_transaction t s
      | None \<Rightarrow>
          if session_catalog_snapshots s \<noteq> []
          then Err (Txn ''metadata snapshot requires the active transaction id while a transaction is open'')
          else Ok ())"

definition planning_catalog_snapshot :: "'x formats \<Rightarrow> txn_id option \<Rightarrow> ('x, 'x catalog_state) fs_oper" where
  "planning_catalog_snapshot F transaction_id =
     (case transaction_id of
        None \<Rightarrow> sget (\<lambda>s. Ok (fs_catalog s))
      | Some t \<Rightarrow>
          sbind (sget (\<lambda>s. tm_isolation_level t (fs_manager s))) (\<lambda>level.
          if level = ReadCommitted then
            sbind (on_tm (refresh_snapshot t)) (\<lambda>_ s.
              if map_of (session_catalog_snapshots s) t = Some (fs_catalog s) then
                sbind (sget (\<lambda>s. load_catalog (fm_catalog_back F) (fs_pager s))) (\<lambda>catalog.
                sbind (smodify (update_catalog (\<lambda>_. catalog))) (\<lambda>_. sret catalog)) s
              else (Ok (fs_catalog s), s))
          else sget (\<lambda>s. Ok (fs_catalog s))))"

definition snapshot_for_transaction :: "txn_id \<Rightarrow> ('x, txn_snapshot) fs_oper" where
  "snapshot_for_transaction t =
     sbind (sget (\<lambda>s. tm_isolation_level t (fs_manager s))) (\<lambda>level.
       if level = ReadCommitted then on_tm (refresh_snapshot t)
       else sget (\<lambda>s. tm_snapshot t (fs_manager s)))"

text \<open>The rows of one table; the root is a local variable of the loop, as in the source.\<close>

fun finalize_rows :: "'x formats \<Rightarrow> txn_id \<Rightarrow> u64 \<Rightarrow> page_id \<Rightarrow> u64 leaf_entry list \<Rightarrow> ('x, unit) fs_oper" where
  "finalize_rows F t commit_ts root [] = sret ()"
| "finalize_rows F t commit_ts root ((row_id, bytes) # rest) =
     sbind (sget (\<lambda>_. finalize_row_versions (fm_row F) (fm_row_back F) bytes t commit_ts)) (\<lambda>finalized.
       if finalized \<noteq> bytes
       then sbind (on_pager (row_insert F t root row_id finalized)) (\<lambda>root'. finalize_rows F t commit_ts root' rest)
       else finalize_rows F t commit_ts root rest)"

fun finalize_tables :: "'x formats \<Rightarrow> txn_id \<Rightarrow> u64 \<Rightarrow> page_id list \<Rightarrow> ('x, unit) fs_oper" where
  "finalize_tables F t commit_ts [] = sret ()"
| "finalize_tables F t commit_ts (root # roots) =
     sbind (sget (\<lambda>s. row_scan F t root (fs_pager s))) (\<lambda>rows.
     sbind (finalize_rows F t commit_ts root rows) (\<lambda>_. finalize_tables F t commit_ts roots))"

definition finalize_transaction_row_versions :: "'x formats \<Rightarrow> txn_id \<Rightarrow> u64 \<Rightarrow> ('x, unit) fs_oper" where
  "finalize_transaction_row_versions F t commit_ts s =
     finalize_tables F t commit_ts (map snd (ct_table_roots (fs_catalog s))) s"

definition sync_transaction_page_writes :: "txn_id \<Rightarrow> ('x, unit) fs_oper" where
  "sync_transaction_page_writes t =
     sbind (sget (\<lambda>s. pending_page_writes t (fs_pager s))) (\<lambda>writes.
       on_tm (replace_page_write_set t (map (\<lambda>w. \<lparr>pw_page_id = pws_page_id w,
         pw_before_image = pws_before_image w, pw_after_image = pws_after_image w\<rparr>) writes)))"


section \<open>Tables and indexes in the catalog\<close>

definition table_schema_and_root :: "string \<Rightarrow> 'x file_storage \<Rightarrow> ('x table_schema \<times> page_id) result" where
  "table_schema_and_root table s =
     rbind (ok_or (unknown_table table) (map_of (ct_schemas (fs_catalog s)) table)) (\<lambda>schema.
     rbind (ok_or (Storage (''missing table root for '' @ table)) (map_of (ct_table_roots (fs_catalog s)) table))
       (\<lambda>root. Ok (schema, root)))"

text \<open>\<open>catalog.index_roots.get(table).and_then(|entry| entry.get(name))\<close>, and the same for \<open>indexes\<close>.\<close>

definition nested_get :: "(string, (string, 'v) btmap) btmap \<Rightarrow> string \<Rightarrow> string \<Rightarrow> 'v option" where
  "nested_get m table name = Option.bind (map_of m table) (\<lambda>entry. map_of entry name)"

definition nested_put :: "string \<Rightarrow> string \<Rightarrow> 'v \<Rightarrow> (string, (string, 'v) btmap) btmap \<Rightarrow> (string, (string, 'v) btmap) btmap" where
  "nested_put table name v m =
     bt_insert table (bt_insert name v (case map_of m table of Some entry \<Rightarrow> entry | None \<Rightarrow> [])) m"

definition missing_index_root :: "string \<Rightarrow> string \<Rightarrow> db_error" where
  "missing_index_root name table = Storage (''missing index root for '' @ name @ '' on table '' @ table)"

definition unknown_index :: "string \<Rightarrow> string \<Rightarrow> db_error" where
  "unknown_index name table = Storage (''unknown index '' @ name @ '' on table '' @ table)"

definition index_meta_and_root :: "string \<Rightarrow> string \<Rightarrow> 'x file_storage \<Rightarrow> (index_meta \<times> page_id) result" where
  "index_meta_and_root table name s =
     rbind (ok_or (unknown_index name table)
       (nested_get (ct_indexes (fs_catalog s)) table name)) (\<lambda>index.
     rbind (ok_or (missing_index_root name table) (nested_get (ct_index_roots (fs_catalog s)) table name))
       (\<lambda>root. Ok (index, root)))"

type_synonym index_entry = "string \<times> index_meta \<times> page_id"

definition indexes_for_table :: "string \<Rightarrow> 'x file_storage \<Rightarrow> index_entry list result" where
  "indexes_for_table table s =
     (case map_of (ct_indexes (fs_catalog s)) table of
        None \<Rightarrow> Ok []
      | Some indexes \<Rightarrow> collect_results (\<lambda>(name, meta).
          rbind (ok_or (missing_index_root name table) (nested_get (ct_index_roots (fs_catalog s)) table name))
            (\<lambda>root. Ok (name, meta, root))) indexes)"

fun validate_index_columns :: "'x table_schema \<Rightarrow> string list \<Rightarrow> string list \<Rightarrow> unit result" where
  "validate_index_columns schema seen [] = Ok ()"
| "validate_index_columns schema seen (column # rest) =
     (if \<not> list_ex (\<lambda>entry. cd_name entry = column) (sc_columns schema) then
        Err (Storage (''unknown column '' @ column @ '' on table '' @ sc_name schema))
      else if column \<in> set seen then Err (Storage (''duplicate index column '' @ column))
      else validate_index_columns schema (bs_insert column seen) rest)"

definition validate_new_index ::
    "'x table_schema \<Rightarrow> (string, index_meta) btmap option \<Rightarrow> index_meta \<Rightarrow> unit result" where
  "validate_new_index schema indexes index =
     (if im_columns index = [] then Err (Storage ''index must define at least one column'')
      else rbind (validate_index_columns schema [] (im_columns index)) (\<lambda>_.
        case indexes of
          Some by_name \<Rightarrow> if map_of by_name (im_name index) \<noteq> None
            then Err (Storage (''index '' @ im_name index @ '' already exists'')) else Ok ()
        | None \<Rightarrow> Ok ()))"

text \<open>The entry of a key in an index tree is the list of the row ids with that key; both return the root.\<close>

definition upsert_index_entry ::
    "'x formats \<Rightarrow> page_id \<Rightarrow> txn_id \<Rightarrow> index_key \<Rightarrow> row_id \<Rightarrow> page_id pg_oper" where
  "upsert_index_entry F root t encoded_key row_id =
     sbind (sget (entry_get F t root encoded_key)) (\<lambda>found.
     sbind (sget (\<lambda>_. case found of None \<Rightarrow> Ok [] | Some bytes \<Rightarrow> decode_row_ids F bytes)) (\<lambda>row_ids.
     sbind (sget (\<lambda>_. encode_row_ids F (if row_id \<in> set row_ids then row_ids else sort (row_ids @ [row_id])))) (\<lambda>bytes.
       entry_insert F t root encoded_key bytes)))"

definition remove_row_id_from_index_entry ::
    "'x formats \<Rightarrow> page_id \<Rightarrow> txn_id \<Rightarrow> index_key \<Rightarrow> row_id \<Rightarrow> page_id pg_oper" where
  "remove_row_id_from_index_entry F root t encoded_key row_id =
     sbind (sget (entry_get F t root encoded_key)) (\<lambda>found.
       case found of
         None \<Rightarrow> sret root
       | Some bytes \<Rightarrow>
           sbind (sget (\<lambda>_. decode_row_ids F bytes)) (\<lambda>row_ids.
             let kept = filter (\<lambda>candidate. candidate \<noteq> row_id) row_ids in
             if kept = [] then sbind (entry_delete F t root encoded_key) (\<lambda>_. sret root)
             else sbind (sget (\<lambda>_. encode_row_ids F kept)) (\<lambda>bytes'. entry_insert F t root encoded_key bytes')))"

section \<open>Purge\<close>

fun ilog2 :: "nat \<Rightarrow> nat" where
  "ilog2 n = (if n < 2 then 0 else Suc (ilog2 (n div 2)))"

declare ilog2.simps [simp del]

definition purge_deleted_row :: "'x formats \<Rightarrow> txn_id \<Rightarrow> string \<Rightarrow> row_id \<Rightarrow> u64 \<Rightarrow> ('x, unit) fs_oper" where
  "purge_deleted_row F t table row_id horizon s =
     (case table_schema_and_root table s of
        Ok (_, root) \<Rightarrow>
          sbind (sget (\<lambda>s. row_get F t root row_id (fs_pager s))) (\<lambda>found.
            case found of
              None \<Rightarrow> sret ()
            | Some bytes \<Rightarrow>
                sbind (sget (\<lambda>_. decode_versioned_row (fm_row_back F) bytes)) (\<lambda>versioned.
                let kept = filter (\<lambda>v. \<not> (case deleted_commit_ts v of Some ts \<Rightarrow> ts \<le> horizon | None \<Rightarrow> False))
                      (versions versioned) in
                if kept = [] then on_pager (row_delete F t root row_id)
                else
                  sbind (sget (\<lambda>_. fm_row F (Versioned \<lparr>versions = kept\<rparr>))) (\<lambda>kept_bytes.
                    if kept_bytes \<noteq> bytes
                    then sbind (on_pager (row_insert F t root row_id kept_bytes)) (\<lambda>_. sret ()) else sret ()))) s
      | Err _ \<Rightarrow> (Ok (), s)
      | Panic p \<Rightarrow> (Panic p, s))"

fun purge_record :: "'x formats \<Rightarrow> txn_id \<Rightarrow> u64 \<Rightarrow> undo_record \<Rightarrow> ('x, unit) fs_oper" where
  "purge_record F t horizon (DeleteRow table row_id _) = purge_deleted_row F t table row_id horizon"
| "purge_record F t horizon _ = sret ()"

fun purge_row_versions :: "'x formats \<Rightarrow> txn_id \<Rightarrow> u64 \<Rightarrow> (txn_id \<times> undo_record) list \<Rightarrow> ('x, unit) fs_oper" where
  "purge_row_versions F t horizon [] = sret ()"
| "purge_row_versions F t horizon ((_, record) # rest) =
     sbind (purge_record F t horizon record) (\<lambda>_. purge_row_versions F t horizon rest)"

text \<open>The transaction that rewrites the rows of a planned batch.\<close>

definition run_purge :: "'x formats \<Rightarrow> u64 \<Rightarrow> (txn_id \<times> undo_record) list \<Rightarrow> ('x, unit) fs_oper" where
  "run_purge F horizon batch s0 =
     (case tm_begin ReadCommitted (fs_manager s0) of
        (t, tm) \<Rightarrow>
          let forget = on_tm (smodify (purge_finished_transactions_up_to horizon)) in
          sbind (on_tm (smodify (\<lambda>_. tm))) (\<lambda>_.
          smatch (on_pager (begin_with_txn_id t))
            (\<lambda>_. smatch (purge_row_versions F t horizon batch)
              (\<lambda>_. sbind (on_tm (tm_commit t)) (\<lambda>_.
                   sbind (on_pager (pager_commit t)) (\<lambda>_.
                   sbind (on_tm (complete_purge_batch batch)) (\<lambda>_. forget))))
              (\<lambda>e. sbind (discard (on_pager (pager_rollback t))) (\<lambda>_.
                   sbind (discard (on_tm (tm_abort t))) (\<lambda>_.
                   sbind forget (\<lambda>_. sfail e)))))
            (\<lambda>e. sbind (discard (on_tm (tm_abort t))) (\<lambda>_. sbind forget (\<lambda>_. sfail e)))) s0)"

definition maybe_purge_garbage :: "'x formats \<Rightarrow> ('x, unit) fs_oper" where
  "maybe_purge_garbage F s0 =
     (let horizon = purge_horizon (fs_manager s0) in
      sbind (on_tm (smodify (purge_finished_transactions_up_to horizon))) (\<lambda>_ s.
        let history = history_list_length (fs_manager s) in
        if history = 0 then (Ok (), s)
        else
          let batch_size = max 1 (min 8 (ilog2 history + 1));
              batch = planned_purge_batch horizon batch_size (fs_manager s)
          in if batch = [] then on_tm (smodify (purge_finished_transactions_up_to horizon)) s
             else run_purge F horizon batch s) s0)"

section \<open>Begin, commit and rollback\<close>

text \<open>Undoing one record; a table or an index that is no longer in the catalog is skipped.\<close>

fun undo_record_step :: "'x formats \<Rightarrow> txn_id \<Rightarrow> undo_record \<Rightarrow> ('x, unit) fs_oper" where
  "undo_record_step F t (PageWrite _) s = (Ok (), s)"
| "undo_record_step F t (InsertRow table row_id) s =
     (case table_schema_and_root table s of
        Ok (_, root) \<Rightarrow> on_pager (row_delete F t root row_id) s
      | _ \<Rightarrow> (Ok (), s))"
| "undo_record_step F t (DeleteRow table row_id previous_bytes) s =
     (case table_schema_and_root table s of
        Ok (_, root) \<Rightarrow> sbind (on_pager (row_insert F t root row_id previous_bytes)) (\<lambda>_. sret ()) s
      | _ \<Rightarrow> (Ok (), s))"
| "undo_record_step F t (IndexInsert table index row_id key) s =
     (case index_meta_and_root table index s of
        Ok (_, root) \<Rightarrow>
          sbind (sget (\<lambda>_. encode_index_key F key)) (\<lambda>encoded_key.
          sbind (on_pager (remove_row_id_from_index_entry F root t encoded_key row_id)) (\<lambda>_. sret ())) s
      | _ \<Rightarrow> (Ok (), s))"
| "undo_record_step F t (IndexDelete table index row_id key) s =
     (case index_meta_and_root table index s of
        Ok (_, root) \<Rightarrow>
          sbind (sget (\<lambda>_. encode_index_key F key)) (\<lambda>encoded_key.
          sbind (on_pager (upsert_index_entry F root t encoded_key row_id)) (\<lambda>_. sret ())) s
      | _ \<Rightarrow> (Ok (), s))"

fun undo_loop :: "'x formats \<Rightarrow> txn_id \<Rightarrow> undo_record list \<Rightarrow> ('x, unit) fs_oper" where
  "undo_loop F t [] = sret ()"
| "undo_loop F t (record # rest) = sbind (undo_record_step F t record) (\<lambda>_. undo_loop F t rest)"

definition replay_undo_records :: "'x formats \<Rightarrow> txn_id \<Rightarrow> ('x, unit) fs_oper" where
  "replay_undo_records F t = sbind (on_tm (take_undo_records t)) (undo_loop F t)"

definition begin_with_isolation :: "isolation_level \<Rightarrow> ('x, txn_id) fs_oper" where
  "begin_with_isolation level s =
     (case tm_begin level (fs_manager s) of
        (t, tm) \<Rightarrow>
          sbind (on_tm (smodify (\<lambda>_. tm))) (\<lambda>_.
          smatch (on_pager (begin_with_txn_id t))
            (\<lambda>_. sbind (smodify (\<lambda>s. s\<lparr>session_catalog_snapshots :=
                hm_insert t (fs_catalog s) (session_catalog_snapshots s)\<rparr>)) (\<lambda>_. sret t))
            (\<lambda>e. sbind (discard (on_tm (tm_abort t))) (\<lambda>_. sfail e))) s)"

definition fs_begin :: "('x, txn_id) fs_oper" where
  "fs_begin = begin_with_isolation ReadCommitted"

definition fs_commit :: "'x formats \<Rightarrow> txn_id \<Rightarrow> ('x, unit) fs_oper" where
  "fs_commit F t =
     sbind (sget (validate_transaction t)) (\<lambda>_.
     sbind (sync_transaction_page_writes t) (\<lambda>_.
     sbind (on_tm (reserve_commit_ts t)) (\<lambda>commit_ts.
     sbind (finalize_transaction_row_versions F t commit_ts) (\<lambda>_.
     sbind (\<lambda>s. on_pager (store_catalog (fm_catalog F) t (fs_catalog s)) s) (\<lambda>_.
     sbind (on_pager (pager_commit t)) (\<lambda>_.
     sbind (on_tm (finalize_commit t commit_ts)) (\<lambda>_.
     sbind (smodify (\<lambda>s. s\<lparr>session_catalog_snapshots := hm_remove t (session_catalog_snapshots s)\<rparr>)) (\<lambda>_.
       maybe_purge_garbage F))))))))"

text \<open>Putting back the catalog the session had when the transaction began.\<close>

definition restore_catalog :: "txn_id \<Rightarrow> 'x file_storage \<Rightarrow> 'x file_storage" where
  "restore_catalog t s =
     (case map_of (session_catalog_snapshots s) t of
        Some catalog \<Rightarrow> s\<lparr>session_catalog_snapshots := hm_remove t (session_catalog_snapshots s), fs_catalog := catalog\<rparr>
      | None \<Rightarrow> s)"

definition fs_rollback :: "'x formats \<Rightarrow> txn_id \<Rightarrow> ('x, unit) fs_oper" where
  "fs_rollback F t =
     sbind (sget (\<lambda>s. tm_txn_status t (fs_manager s))) (\<lambda>status.
     sbind (case status of
         Active \<Rightarrow>
           sbind (sync_transaction_page_writes t) (\<lambda>_.
           sbind (replay_undo_records F t) (\<lambda>_.
           sbind (on_pager (pager_rollback t)) (\<lambda>_. on_tm (tm_abort t))))
       | Aborted \<Rightarrow>
           sbind (on_tm (take_undo_records t)) (\<lambda>_. on_tm (clear_terminal_error t))
       | Committed \<Rightarrow> sfail (not_active t)) (\<lambda>_.
     sbind (smodify (restore_catalog t)) (\<lambda>_. maybe_purge_garbage F)))"

section \<open>Visible rows\<close>

definition visible_row_at_root :: "'x formats \<Rightarrow> txn_id \<Rightarrow> page_id \<Rightarrow> row_id \<Rightarrow> ('x, row option) fs_oper" where
  "visible_row_at_root F t root row_id =
     sbind (snapshot_for_transaction t) (\<lambda>snapshot.
     sbind (sget (\<lambda>s. row_get F t root row_id (fs_pager s))) (\<lambda>found.
       sget (\<lambda>_. case found of None \<Rightarrow> Ok None | Some bytes \<Rightarrow> visible_row (fm_row_back F) bytes t snapshot)))"

text \<open>The rows of a table that a snapshot shows, with their ids.\<close>

definition visible_rows :: "'x formats \<Rightarrow> txn_id \<Rightarrow> txn_snapshot \<Rightarrow> u64 leaf_entry list \<Rightarrow> (row_id \<times> row) list result" where
  "visible_rows F t snapshot rows =
     rbind (collect_results (\<lambda>(row_id, bytes).
       rbind (visible_row (fm_row_back F) bytes t snapshot) (\<lambda>r. Ok (map_option (Pair row_id) r))) rows)
     (\<lambda>found. Ok (List.map_filter id found))"

fun filter_index_row_ids_for_key ::
    "'x formats \<Rightarrow> txn_id \<Rightarrow> 'x table_schema \<Rightarrow> page_id \<Rightarrow> index_meta \<Rightarrow> Value list \<Rightarrow> row_id list \<Rightarrow>
      ('x, row_id list) fs_oper" where
  "filter_index_row_ids_for_key F t schema root index key_values [] = sret []"
| "filter_index_row_ids_for_key F t schema root index key_values (row_id # rest) =
     sbind (visible_row_at_root F t root row_id) (\<lambda>found.
     sbind (sget (\<lambda>_. case found of
         None \<Rightarrow> Ok False
       | Some row \<Rightarrow> rbind (project_index_key schema index row) (\<lambda>key. Ok (key = key_values)))) (\<lambda>hit.
     sbind (filter_index_row_ids_for_key F t schema root index key_values rest) (\<lambda>visible.
       sret (if hit then row_id # visible else visible))))"

text \<open>The visible rows with a key, through the index.\<close>

definition rows_with_key ::
    "'x formats \<Rightarrow> txn_id \<Rightarrow> 'x table_schema \<Rightarrow> page_id \<Rightarrow> index_meta \<Rightarrow> page_id \<Rightarrow> Value list \<Rightarrow>
      ('x, row_id list) fs_oper" where
  "rows_with_key F t schema root index index_root key_values =
     sbind (sget (\<lambda>_. encode_index_key F key_values)) (\<lambda>encoded_key.
     sbind (sget (\<lambda>s. entry_get F t index_root encoded_key (fs_pager s))) (\<lambda>found.
       case found of
         None \<Rightarrow> sret []
       | Some bytes \<Rightarrow>
           sbind (sget (\<lambda>_. decode_row_ids F bytes)) (\<lambda>row_ids.
             filter_index_row_ids_for_key F t schema root index key_values row_ids)))"

section \<open>Schemas\<close>

definition create_schema :: "'x formats \<Rightarrow> txn_id \<Rightarrow> 'x table_schema \<Rightarrow> ('x, unit) fs_oper" where
  "create_schema F t schema =
     sbind (sget (validate_transaction t)) (\<lambda>_.
     sbind (on_pager (wait_for_table_exclusive_lock t (sc_name schema))) (\<lambda>_.
     sbind (sget (\<lambda>s. if map_of (ct_schemas (fs_catalog s)) (sc_name schema) \<noteq> None
         then Err (Storage (''table '' @ sc_name schema @ '' already exists'')) else Ok ())) (\<lambda>_.
     sbind (on_pager (btree_create (fm_node F) (fm_node_back F) t)) (\<lambda>root.
       smodify (update_catalog (\<lambda>c. c\<lparr>
         ct_schemas := bt_insert (sc_name schema) schema (ct_schemas c),
         ct_table_roots := bt_insert (sc_name schema) root (ct_table_roots c),
         ct_next_row_ids := (if map_of (ct_next_row_ids c) (sc_name schema) = None
           then bt_insert (sc_name schema) 1 (ct_next_row_ids c) else ct_next_row_ids c)\<rparr>))))))"

definition drop_schema :: "txn_id \<Rightarrow> string \<Rightarrow> ('x, unit) fs_oper" where
  "drop_schema t name =
     sbind (sget (validate_transaction t)) (\<lambda>_.
     sbind (on_pager (wait_for_table_exclusive_lock t name)) (\<lambda>_.
     sbind (sget (\<lambda>s. if map_of (ct_schemas (fs_catalog s)) name = None then Err (unknown_table name) else Ok ())) (\<lambda>_.
       smodify (update_catalog (\<lambda>c. \<lparr>
         ct_schemas = bt_remove name (ct_schemas c), ct_table_roots = bt_remove name (ct_table_roots c),
         ct_next_row_ids = bt_remove name (ct_next_row_ids c), ct_indexes = bt_remove name (ct_indexes c),
         ct_index_roots = bt_remove name (ct_index_roots c)\<rparr>)))))"

definition replace_schema :: "txn_id \<Rightarrow> 'x table_schema \<Rightarrow> ('x, unit) fs_oper" where
  "replace_schema t schema =
     sbind (sget (validate_transaction t)) (\<lambda>_.
     sbind (on_pager (wait_for_table_exclusive_lock t (sc_name schema))) (\<lambda>_.
     sbind (sget (\<lambda>s. if map_of (ct_schemas (fs_catalog s)) (sc_name schema) = None
         then Err (unknown_table (sc_name schema)) else Ok ())) (\<lambda>_.
       smodify (update_catalog (\<lambda>c. c\<lparr>ct_schemas := bt_insert (sc_name schema) schema (ct_schemas c)\<rparr>)))))"

definition get_schema :: "txn_id \<Rightarrow> string \<Rightarrow> 'x file_storage \<Rightarrow> 'x table_schema option result" where
  "get_schema t name s =
     rbind (validate_transaction t s) (\<lambda>_. Ok (map_of (ct_schemas (fs_catalog s)) name))"

definition list_schemas :: "txn_id \<Rightarrow> 'x file_storage \<Rightarrow> 'x table_schema list result" where
  "list_schemas t s = rbind (validate_transaction t s) (\<lambda>_. Ok (map snd (ct_schemas (fs_catalog s))))"

section \<open>Rows\<close>

definition check_row_length :: "string \<Rightarrow> string \<Rightarrow> 'x table_schema \<Rightarrow> row \<Rightarrow> unit result" where
  "check_row_length what table schema row =
     (if length row \<noteq> length (sc_columns schema)
      then Err (Storage (what @ table @ '' expected '' @ show_nat (length (sc_columns schema)) @
        '' values but got '' @ show_nat (length row)))
      else Ok ())"

text \<open>The keys of a row in the indexes of its table.\<close>

definition row_index_keys ::
    "'x table_schema \<Rightarrow> row \<Rightarrow> index_entry list \<Rightarrow> (string \<times> Value list) list result" where
  "row_index_keys schema row indexes =
     collect_results (\<lambda>(_, meta, _). rbind (project_index_key schema meta row) (\<lambda>key. Ok (im_name meta, key))) indexes"

definition unique_violation :: "index_meta \<Rightarrow> db_error" where
  "unique_violation meta = Storage (''unique index '' @ im_name meta @ '' constraint failed'')"

fun check_unique_indexes ::
    "'x formats \<Rightarrow> txn_id \<Rightarrow> 'x table_schema \<Rightarrow> page_id \<Rightarrow> row \<Rightarrow> index_entry list \<Rightarrow> ('x, unit) fs_oper" where
  "check_unique_indexes F t schema root row [] = sret ()"
| "check_unique_indexes F t schema root row ((_, meta, index_root) # rest) =
     sbind (sget (\<lambda>_. project_index_key schema meta row)) (\<lambda>key_values.
       if \<not> enforces_unique_key meta key_values then check_unique_indexes F t schema root row rest
       else sbind (rows_with_key F t schema root meta index_root key_values) (\<lambda>conflicting_rows.
         if conflicting_rows \<noteq> [] then sfail (unique_violation meta)
         else check_unique_indexes F t schema root row rest))"

text \<open>A tree operation may have given the table, or an index, a new root.\<close>

definition set_table_root :: "string \<Rightarrow> page_id \<Rightarrow> page_id \<Rightarrow> ('x, unit) fs_oper" where
  "set_table_root table old new =
     (if new \<noteq> old
      then smodify (update_catalog (\<lambda>c. c\<lparr>ct_table_roots := bt_insert table new (ct_table_roots c)\<rparr>)) else sret ())"

definition set_index_root :: "string \<Rightarrow> string \<Rightarrow> page_id \<Rightarrow> page_id \<Rightarrow> ('x, unit) fs_oper" where
  "set_index_root table name old new =
     (if new \<noteq> old
      then smodify (update_catalog (\<lambda>c. c\<lparr>ct_index_roots := nested_put table name new (ct_index_roots c)\<rparr>)) else sret ())"

fun insert_index_entries ::
    "'x formats \<Rightarrow> txn_id \<Rightarrow> string \<Rightarrow> 'x table_schema \<Rightarrow> row \<Rightarrow> row_id \<Rightarrow> index_entry list \<Rightarrow> ('x, unit) fs_oper" where
  "insert_index_entries F t table schema row row_id [] = sret ()"
| "insert_index_entries F t table schema row row_id ((name, meta, root) # rest) =
     sbind (sget (\<lambda>_. project_index_key schema meta row)) (\<lambda>key_values.
     sbind (on_tm (record_undo t (IndexInsert table name row_id key_values))) (\<lambda>_.
     sbind (sget (\<lambda>_. encode_index_key F key_values)) (\<lambda>encoded_key.
     sbind (on_pager (upsert_index_entry F root t encoded_key row_id)) (\<lambda>root'.
     sbind (set_index_root table name root root') (\<lambda>_.
       insert_index_entries F t table schema row row_id rest)))))"

definition insert_row :: "'x formats \<Rightarrow> txn_id \<Rightarrow> string \<Rightarrow> row \<Rightarrow> ('x, row_id) fs_oper" where
  "insert_row F t table row =
     sbind (sget (validate_transaction t)) (\<lambda>_.
     sbind (on_pager (wait_for_table_write_lock t table)) (\<lambda>_.
     sbind (sget (table_schema_and_root table)) (\<lambda>(schema, root).
     sbind (sget (\<lambda>_. check_row_length ''insert into '' table schema row)) (\<lambda>_.
     sbind (sget (\<lambda>_. validate_row_values schema row)) (\<lambda>_.
     sbind (sget (\<lambda>_. validate_check_constraints (fm_rules F) schema row)) (\<lambda>_.
     sbind (sget (\<lambda>s. rbind (indexes_for_table table s) (row_index_keys schema row))) (\<lambda>write_index_keys.
     sbind (on_pager (wait_for_write_conflicts t table write_index_keys)) (\<lambda>_.
     sbind (snapshot_for_transaction t) (\<lambda>snapshot.
     sbind (sget (\<lambda>s. rbind (row_scan F t root (fs_pager s)) (visible_rows F t snapshot))) (\<lambda>existing_rows.
     sbind (sget (\<lambda>_. validate_primary_key_uniqueness (fm_rules F) schema row (map snd existing_rows))) (\<lambda>_.
     sbind (\<lambda>s. sbind (sget (indexes_for_table table)) (check_unique_indexes F t schema root row) s) (\<lambda>_.
     sbind (\<lambda>s. on_tm (allocate_row_id t table
         (case map_of (ct_next_row_ids (fs_catalog s)) table of Some n \<Rightarrow> n | None \<Rightarrow> 1)) s) (\<lambda>row_id.
     sbind (smodify (update_catalog (\<lambda>c. c\<lparr>ct_next_row_ids :=
         bt_insert table (sat_add row_id 1) (ct_next_row_ids c)\<rparr>))) (\<lambda>_.
     sbind (on_tm (record_undo t (InsertRow table row_id))) (\<lambda>_.
     sbind (sget (\<lambda>_. encode_uncommitted_row_version (fm_row F) row t)) (\<lambda>bytes.
     sbind (on_pager (row_insert F t root row_id bytes)) (\<lambda>root'.
     sbind (set_table_root table root root') (\<lambda>_.
     sbind (sget (indexes_for_table table)) (\<lambda>indexes.
     sbind (insert_index_entries F t table schema row row_id indexes) (\<lambda>_.
       sret row_id))))))))))))))))))))"

definition get_row :: "'x formats \<Rightarrow> txn_id \<Rightarrow> string \<Rightarrow> row_id \<Rightarrow> ('x, row option) fs_oper" where
  "get_row F t table row_id =
     sbind (sget (validate_transaction t)) (\<lambda>_.
     sbind (on_pager (wait_for_table_read_lock t table)) (\<lambda>_ s.
       case table_schema_and_root table s of
         Ok (_, root) \<Rightarrow> visible_row_at_root F t root row_id s
       | Err _ \<Rightarrow> (Ok None, s)
       | Panic p \<Rightarrow> (Panic p, s)))"

definition scan_rows :: "'x formats \<Rightarrow> txn_id \<Rightarrow> string \<Rightarrow> ('x, (row_id \<times> row) list) fs_oper" where
  "scan_rows F t table =
     sbind (sget (validate_transaction t)) (\<lambda>_.
     sbind (on_pager (wait_for_table_scan_lock t table)) (\<lambda>_ s.
       case table_schema_and_root table s of
         Ok (_, root) \<Rightarrow>
           sbind (snapshot_for_transaction t) (\<lambda>snapshot.
             sget (\<lambda>s. rbind (row_scan F t root (fs_pager s)) (visible_rows F t snapshot))) s
       | Err _ \<Rightarrow> (Ok [], s)
       | Panic p \<Rightarrow> (Panic p, s)))"

definition missing_row :: "row_id \<Rightarrow> string \<Rightarrow> db_error" where
  "missing_row row_id table = Storage (''missing row '' @ show_word row_id @ '' on table '' @ table)"

fun record_undos :: "txn_id \<Rightarrow> undo_record list \<Rightarrow> ('x, unit) fs_oper" where
  "record_undos t [] = sret ()"
| "record_undos t (r # rest) = sbind (on_tm (record_undo t r)) (\<lambda>_. record_undos t rest)"

text \<open>Writing the row back, when the transaction saw a version of it.\<close>

definition rewrite_row :: "'x formats \<Rightarrow> txn_id \<Rightarrow> string \<Rightarrow> page_id \<Rightarrow> row_id \<Rightarrow> byte list option \<Rightarrow> ('x, unit) fs_oper" where
  "rewrite_row F t table root row_id updated =
     (case updated of
        None \<Rightarrow> sret ()
      | Some bytes \<Rightarrow> sbind (on_pager (row_insert F t root row_id bytes)) (\<lambda>root'. set_table_root table root root'))"

definition delete_row :: "'x formats \<Rightarrow> txn_id \<Rightarrow> string \<Rightarrow> row_id \<Rightarrow> ('x, unit) fs_oper" where
  "delete_row F t table row_id =
     sbind (sget (validate_transaction t)) (\<lambda>_.
     sbind (on_pager (wait_for_table_write_lock t table)) (\<lambda>_ s0.
       case table_schema_and_root table s0 of
         Err _ \<Rightarrow> (Ok (), s0)
       | Panic p \<Rightarrow> (Panic p, s0)
       | Ok (_, root) \<Rightarrow>
           sbind (snapshot_for_transaction t) (\<lambda>snapshot.
           sbind (sget (\<lambda>s. rbind (row_get F t root row_id (fs_pager s)) (\<lambda>found. case found of
               None \<Rightarrow> Ok None | Some bytes \<Rightarrow> visible_row (fm_row_back F) bytes t snapshot))) (\<lambda>existing.
             case existing of
               None \<Rightarrow> sret ()
             | Some existing_row \<Rightarrow>
                 sbind (sget (table_schema_and_root table)) (\<lambda>(schema, _).
                 sbind (sget (\<lambda>s. rbind (indexes_for_table table s) (row_index_keys schema existing_row))) (\<lambda>keys.
                 sbind (on_pager (wait_for_write_conflicts t table keys)) (\<lambda>_.
                 sbind (sget (\<lambda>s. rbind (row_get F t root row_id (fs_pager s)) (ok_or (missing_row row_id table)))) (\<lambda>bytes.
                 sbind (on_tm (record_undo t (DeleteRow table row_id bytes))) (\<lambda>_.
                 sbind (record_undos t (map (\<lambda>(name, key). IndexDelete table name row_id key) keys)) (\<lambda>_.
                 sbind (sget (\<lambda>_. mark_row_deleted (fm_row F) (fm_row_back F) bytes t snapshot)) (\<lambda>updated.
                   rewrite_row F t table root row_id updated)))))))
           )) s0))"


text \<open>The keys an update touches, each index entry once, and the indexes with their old and new keys.\<close>

type_synonym index_change = "string \<times> index_meta \<times> page_id \<times> Value list \<times> Value list"

definition push_unless_present :: "string \<times> Value list \<Rightarrow> (string \<times> Value list) list \<Rightarrow> (string \<times> Value list) list" where
  "push_unless_present k ks = (if k \<in> set ks then ks else ks @ [k])"

definition index_changes :: "'x table_schema \<Rightarrow> row \<Rightarrow> row \<Rightarrow> index_entry list \<Rightarrow> index_change list result" where
  "index_changes schema existing_row row indexes =
     collect_results (\<lambda>(name, meta, root).
       rbind (project_index_key schema meta existing_row) (\<lambda>old_key.
       rbind (project_index_key schema meta row) (\<lambda>new_key. Ok (name, meta, root, old_key, new_key)))) indexes"

definition indexed_keys :: "index_change list \<Rightarrow> (string \<times> Value list) list" where
  "indexed_keys changes =
     fold (\<lambda>(name, _, _, old_key, new_key) ks.
       push_unless_present (name, new_key) (push_unless_present (name, old_key) ks)) changes []"

fun check_unique_changes ::
    "'x formats \<Rightarrow> txn_id \<Rightarrow> 'x table_schema \<Rightarrow> page_id \<Rightarrow> row_id \<Rightarrow> index_change list \<Rightarrow> ('x, unit) fs_oper" where
  "check_unique_changes F t schema root row_id [] = sret ()"
| "check_unique_changes F t schema root row_id ((_, meta, index_root, _, new_key) # rest) =
     (if \<not> enforces_unique_key meta new_key then check_unique_changes F t schema root row_id rest
      else sbind (rows_with_key F t schema root meta index_root new_key) (\<lambda>found.
        if filter (\<lambda>candidate. candidate \<noteq> row_id) found \<noteq> [] then sfail (unique_violation meta)
        else check_unique_changes F t schema root row_id rest))"

definition change_undos :: "string \<Rightarrow> row_id \<Rightarrow> index_change list \<Rightarrow> undo_record list" where
  "change_undos table row_id changes =
     concat (map (\<lambda>(name, _, _, old_key, new_key).
       if old_key \<noteq> new_key then [IndexDelete table name row_id old_key, IndexInsert table name row_id new_key]
       else []) changes)"

fun apply_index_changes ::
    "'x formats \<Rightarrow> txn_id \<Rightarrow> string \<Rightarrow> row_id \<Rightarrow> index_change list \<Rightarrow> ('x, unit) fs_oper" where
  "apply_index_changes F t table row_id [] = sret ()"
| "apply_index_changes F t table row_id ((name, _, root, old_key, new_key) # rest) =
     (if old_key = new_key then apply_index_changes F t table row_id rest
      else
        sbind (sget (\<lambda>_. encode_index_key F old_key)) (\<lambda>old_encoded_key.
        sbind (sget (\<lambda>_. encode_index_key F new_key)) (\<lambda>new_encoded_key.
        sbind (on_pager (remove_row_id_from_index_entry F root t old_encoded_key row_id)) (\<lambda>root1.
        sbind (on_pager (upsert_index_entry F root1 t new_encoded_key row_id)) (\<lambda>root2.
        sbind (set_index_root table name root root2) (\<lambda>_.
          apply_index_changes F t table row_id rest))))))"

text \<open>The part of \<open>update_row\<close> after the row has been found and differs from the new one.\<close>

definition update_existing_row ::
    "'x formats \<Rightarrow> txn_id \<Rightarrow> string \<Rightarrow> 'x table_schema \<Rightarrow> page_id \<Rightarrow> row_id \<Rightarrow> row \<Rightarrow> row \<Rightarrow> txn_snapshot \<Rightarrow>
      ('x, unit) fs_oper" where
  "update_existing_row F t table schema root row_id existing_row row snapshot =
     sbind (sget (\<lambda>s. rbind (indexes_for_table table s) (index_changes schema existing_row row))) (\<lambda>changes.
     sbind (on_pager (wait_for_write_conflicts t table (indexed_keys changes))) (\<lambda>_.
     sbind (sget (\<lambda>s. rbind (row_scan F t root (fs_pager s)) (\<lambda>rows.
         visible_rows F t snapshot (filter (\<lambda>(candidate, _). candidate \<noteq> row_id) rows)))) (\<lambda>existing_rows.
     sbind (sget (\<lambda>_. validate_primary_key_uniqueness (fm_rules F) schema row (map snd existing_rows))) (\<lambda>_.
     sbind (check_unique_changes F t schema root row_id changes) (\<lambda>_.
     sbind (sget (\<lambda>s. rbind (row_get F t root row_id (fs_pager s)) (ok_or (missing_row row_id table)))) (\<lambda>bytes.
     sbind (on_tm (record_undo t (DeleteRow table row_id bytes))) (\<lambda>_.
     sbind (record_undos t (change_undos table row_id changes)) (\<lambda>_.
     sbind (sget (\<lambda>_. append_row_version (fm_row F) (fm_row_back F) bytes row t snapshot)) (\<lambda>updated.
     sbind (rewrite_row F t table root row_id updated) (\<lambda>_.
       apply_index_changes F t table row_id changes))))))))))"

definition update_row :: "'x formats \<Rightarrow> txn_id \<Rightarrow> string \<Rightarrow> row_id \<Rightarrow> row \<Rightarrow> ('x, unit) fs_oper" where
  "update_row F t table row_id row =
     sbind (sget (validate_transaction t)) (\<lambda>_.
     sbind (on_pager (wait_for_table_write_lock t table)) (\<lambda>_.
     sbind (sget (table_schema_and_root table)) (\<lambda>(schema, root).
     sbind (sget (\<lambda>_. check_row_length ''update '' table schema row)) (\<lambda>_.
     sbind (sget (\<lambda>_. validate_row_values schema row)) (\<lambda>_.
     sbind (sget (\<lambda>_. validate_check_constraints (fm_rules F) schema row)) (\<lambda>_.
     sbind (snapshot_for_transaction t) (\<lambda>snapshot.
     sbind (sget (\<lambda>s. rbind (row_get F t root row_id (fs_pager s)) (\<lambda>found. case found of
         None \<Rightarrow> Ok None | Some bytes \<Rightarrow> visible_row (fm_row_back F) bytes t snapshot))) (\<lambda>existing.
       case existing of
         None \<Rightarrow> sret ()
       | Some existing_row \<Rightarrow>
           if existing_row = row then sret ()
           else update_existing_row F t table schema root row_id existing_row row snapshot))))))))"

section \<open>Indexes\<close>

fun index_existing_rows ::
    "'x formats \<Rightarrow> txn_id \<Rightarrow> 'x table_schema \<Rightarrow> index_meta \<Rightarrow> page_id \<Rightarrow> u64 leaf_entry list \<Rightarrow> ('x, page_id) fs_oper" where
  "index_existing_rows F t schema index root [] = sret root"
| "index_existing_rows F t schema index root ((row_id, bytes) # rest) =
     sbind (sget (\<lambda>_. decode_row (fm_row_back F) bytes)) (\<lambda>row.
     sbind (sget (\<lambda>_. project_index_key schema index row)) (\<lambda>key_values.
     sbind (sget (\<lambda>_. encode_index_key F key_values)) (\<lambda>encoded_key.
     sbind (sget (\<lambda>s.
         if enforces_unique_key index key_values
         then rbind (entry_get F t root encoded_key (fs_pager s)) (\<lambda>found. case found of
             None \<Rightarrow> Ok False
           | Some entry \<Rightarrow> rbind (decode_row_ids F entry) (\<lambda>row_ids. Ok (row_ids \<noteq> [])))
         else Ok False)) (\<lambda>taken.
       if taken then sfail (unique_violation index)
       else sbind (on_pager (upsert_index_entry F root t encoded_key row_id)) (\<lambda>root'.
         index_existing_rows F t schema index root' rest)))))"

definition create_index :: "'x formats \<Rightarrow> txn_id \<Rightarrow> string \<Rightarrow> index_meta \<Rightarrow> ('x, unit) fs_oper" where
  "create_index F t table index =
     sbind (sget (validate_transaction t)) (\<lambda>_.
     sbind (on_pager (wait_for_table_exclusive_lock t table)) (\<lambda>_.
     sbind (sget (table_schema_and_root table)) (\<lambda>(schema, table_root).
     sbind (sget (\<lambda>s. validate_new_index schema (map_of (ct_indexes (fs_catalog s)) table) index)) (\<lambda>_.
     sbind (sget (\<lambda>s. row_scan F t table_root (fs_pager s))) (\<lambda>existing_rows.
     sbind (on_pager (index_create (fm_index_node F) (fm_index_node_back F) t)) (\<lambda>root.
     sbind (index_existing_rows F t schema index root existing_rows) (\<lambda>root'.
       smodify (update_catalog (\<lambda>c. c\<lparr>
         ct_indexes := nested_put table (im_name index) index (ct_indexes c),
         ct_index_roots := nested_put table (im_name index) root' (ct_index_roots c)\<rparr>)))))))))"

definition nested_remove :: "string \<Rightarrow> string \<Rightarrow> (string, (string, 'v) btmap) btmap \<Rightarrow> (string, (string, 'v) btmap) btmap" where
  "nested_remove table name m =
     (case map_of m table of Some entry \<Rightarrow> bt_insert table (bt_remove name entry) m | None \<Rightarrow> m)"

definition drop_index :: "txn_id \<Rightarrow> string \<Rightarrow> string \<Rightarrow> ('x, unit) fs_oper" where
  "drop_index t table name =
     sbind (sget (validate_transaction t)) (\<lambda>_.
     sbind (on_pager (wait_for_table_exclusive_lock t table)) (\<lambda>_.
     sbind (sget (\<lambda>s. if nested_get (ct_indexes (fs_catalog s)) table name = None
         then Err (unknown_index name table) else Ok ())) (\<lambda>_.
       smodify (update_catalog (\<lambda>c. c\<lparr>
         ct_indexes := nested_remove table name (ct_indexes c),
         ct_index_roots := nested_remove table name (ct_index_roots c)\<rparr>)))))"

definition get_index :: "txn_id \<Rightarrow> string \<Rightarrow> string \<Rightarrow> 'x file_storage \<Rightarrow> index_meta option result" where
  "get_index t table name s =
     rbind (validate_transaction t s) (\<lambda>_. Ok (nested_get (ct_indexes (fs_catalog s)) table name))"

definition list_indexes :: "txn_id \<Rightarrow> string \<Rightarrow> 'x file_storage \<Rightarrow> index_meta list result" where
  "list_indexes t table s =
     rbind (validate_transaction t s) (\<lambda>_.
       Ok (case map_of (ct_indexes (fs_catalog s)) table of Some entry \<Rightarrow> map snd entry | None \<Rightarrow> []))"

definition index_arity_error :: "index_meta \<Rightarrow> string \<Rightarrow> nat \<Rightarrow> db_error" where
  "index_arity_error index what given =
     Storage (''index '' @ im_name index @ what @ show_nat (length (im_columns index)) @
       '' key values but got '' @ show_nat given)"

definition lookup_index :: "'x formats \<Rightarrow> txn_id \<Rightarrow> string \<Rightarrow> string \<Rightarrow> Value list \<Rightarrow> ('x, row_id list) fs_oper" where
  "lookup_index F t table name key =
     sbind (sget (validate_transaction t)) (\<lambda>_.
     sbind (on_pager (wait_for_table_read_lock t table)) (\<lambda>_.
     sbind (sget (table_schema_and_root table)) (\<lambda>(schema, table_root).
     sbind (sget (index_meta_and_root table name)) (\<lambda>(index, root).
     sbind (sget (\<lambda>_. if length key \<noteq> length (im_columns index)
         then Err (index_arity_error index '' expected '' (length key)) else Ok ())) (\<lambda>_.
     sbind (on_tm (acquire_exact_key_lock t table name key)) (\<lambda>_.
       rows_with_key F t schema table_root index root key))))))"

text \<open>The entries of an index whose key is selected; the row ids are collected in a \<open>BTreeSet\<close>.\<close>

fun collect_index_entries ::
    "'x formats \<Rightarrow> txn_id \<Rightarrow> 'x table_schema \<Rightarrow> page_id \<Rightarrow> index_meta \<Rightarrow> (Value list \<Rightarrow> bool) \<Rightarrow> row_id btset \<Rightarrow>
      index_key leaf_entry list \<Rightarrow> ('x, row_id list) fs_oper" where
  "collect_index_entries F t schema root index selected row_ids [] = sret row_ids"
| "collect_index_entries F t schema root index selected row_ids ((encoded_key, encoded_row_ids) # rest) =
     sbind (sget (\<lambda>_. decode_index_key F encoded_key)) (\<lambda>key.
       if selected key then
         sbind (sget (\<lambda>_. decode_row_ids F encoded_row_ids)) (\<lambda>candidates.
         sbind (filter_index_row_ids_for_key F t schema root index key candidates) (\<lambda>found.
           collect_index_entries F t schema root index selected (bs_extend found row_ids) rest))
       else collect_index_entries F t schema root index selected row_ids rest)"

definition scan_index_prefix :: "'x formats \<Rightarrow> txn_id \<Rightarrow> string \<Rightarrow> string \<Rightarrow> Value list \<Rightarrow> ('x, row_id list) fs_oper" where
  "scan_index_prefix F t table name key_prefix =
     sbind (sget (validate_transaction t)) (\<lambda>_.
     sbind (on_pager (wait_for_table_read_lock t table)) (\<lambda>_.
     sbind (sget (table_schema_and_root table)) (\<lambda>(schema, table_root).
     sbind (sget (index_meta_and_root table name)) (\<lambda>(index, root).
     sbind (sget (\<lambda>_. if length (im_columns index) < length key_prefix
         then Err (index_arity_error index '' expected at most '' (length key_prefix)) else Ok ())) (\<lambda>_.
     sbind (on_tm (acquire_prefix_lock t table name key_prefix)) (\<lambda>_.
     sbind (sget (\<lambda>s. entry_scan F t root (fs_pager s))) (\<lambda>entries.
       collect_index_entries F t schema table_root index (\<lambda>key. prefix key_prefix key) [] entries)))))))"

definition scan_index_range ::
    "'x formats \<Rightarrow> txn_id \<Rightarrow> string \<Rightarrow> string \<Rightarrow> Value list \<Rightarrow> bound option \<Rightarrow>
      bound option \<Rightarrow> ('x, row_id list) fs_oper" where
  "scan_index_range F t table name key_prefix lo hi =
     sbind (sget (validate_transaction t)) (\<lambda>_.
     sbind (on_pager (wait_for_table_read_lock t table)) (\<lambda>_.
     sbind (sget (table_schema_and_root table)) (\<lambda>(schema, table_root).
     sbind (sget (index_meta_and_root table name)) (\<lambda>(index, root).
     sbind (sget (\<lambda>_. if length (im_columns index) \<le> length key_prefix
         then Err (Storage (''index '' @ im_name index @ '' has no range column after prefix of length '' @
           show_nat (length key_prefix))) else Ok ())) (\<lambda>_.
     sbind (on_tm (acquire_range_lock t table name key_prefix lo hi)) (\<lambda>_.
     sbind (sget (\<lambda>s. entry_scan F t root (fs_pager s))) (\<lambda>entries.
       collect_index_entries F t schema table_root index
         (\<lambda>key. prefix key_prefix key \<and> length key_prefix < length key \<and>
           matches_bounds (key ! length key_prefix) lo hi) [] entries)))))))"

section \<open>Planning\<close>

text \<open>\<open>PlanningContext::new(schemas, indexes)\<close> is the pair of the two maps.\<close>

definition planning_context_snapshot ::
    "'x formats \<Rightarrow> txn_id option \<Rightarrow>
      ('x, (string, 'x table_schema) hmap \<times> (string, index_meta list) hmap) fs_oper" where
  "planning_context_snapshot F transaction_id =
     sbind (sget (validate_snapshot_transaction transaction_id)) (\<lambda>_.
     sbind (planning_catalog_snapshot F transaction_id) (\<lambda>catalog.
       sret (ct_schemas catalog, map (\<lambda>(table, by_name). (table, map snd by_name)) (ct_indexes catalog))))"

section \<open>Altering tables\<close>

definition bt_rename :: "'k::linorder \<Rightarrow> 'k \<Rightarrow> ('k, 'v) btmap \<Rightarrow> ('k, 'v) btmap" where
  "bt_rename old_key new_key m =
     (case map_of m old_key of None \<Rightarrow> m | Some v \<Rightarrow> bt_insert new_key v (bt_remove old_key m))"

definition rename_schema :: "txn_id \<Rightarrow> string \<Rightarrow> string \<Rightarrow> ('x, unit) fs_oper" where
  "rename_schema t old_name new_name =
     sbind (sget (validate_transaction t)) (\<lambda>_.
     sbind (on_pager (wait_for_table_exclusive_lock t old_name)) (\<lambda>_.
     sbind (if old_name \<noteq> new_name then on_pager (wait_for_table_exclusive_lock t new_name) else sret ()) (\<lambda>_.
     sbind (sget (\<lambda>s. if map_of (ct_schemas (fs_catalog s)) new_name \<noteq> None then Err (table_exists new_name)
         else ok_or (unknown_table old_name) (map_of (ct_schemas (fs_catalog s)) old_name))) (\<lambda>schema.
       smodify (update_catalog (\<lambda>c. \<lparr>
         ct_schemas = map_values (\<lambda>_. rename_foreign_key_ref_table old_name new_name)
           (bt_insert new_name (schema\<lparr>sc_name := new_name\<rparr>) (bt_remove old_name (ct_schemas c))),
         ct_table_roots = bt_rename old_name new_name (ct_table_roots c),
         ct_next_row_ids = bt_rename old_name new_name (ct_next_row_ids c),
         ct_indexes = bt_rename old_name new_name (ct_indexes c),
         ct_index_roots = bt_rename old_name new_name (ct_index_roots c)\<rparr>))))))"

text \<open>A stored row with the value of the new column at the end, as it is checked and written.\<close>

definition extended_row :: "'x formats \<Rightarrow> 'x table_schema \<Rightarrow> Value \<Rightarrow> byte list \<Rightarrow> row result" where
  "extended_row F schema v bytes =
     rbind (decode_row (fm_row_back F) bytes) (\<lambda>row. normalize_strict_row_values (fm_rules F) schema (row @ [v]))"

definition check_extended_row :: "'x formats \<Rightarrow> 'x table_schema \<Rightarrow> Value \<Rightarrow> u64 \<times> byte list \<Rightarrow> unit result" where
  "check_extended_row F schema v entry =
     rbind (extended_row F schema v (snd entry)) (\<lambda>candidate.
     rbind (validate_row_values schema candidate) (\<lambda>_. validate_check_constraints (fm_rules F) schema candidate))"

fun extend_rows ::
    "'x formats \<Rightarrow> txn_id \<Rightarrow> 'x table_schema \<Rightarrow> Value \<Rightarrow> page_id \<Rightarrow> u64 leaf_entry list \<Rightarrow> ('x, page_id) fs_oper" where
  "extend_rows F t schema v root [] = sret root"
| "extend_rows F t schema v root ((row_id, bytes) # rest) =
     sbind (sget (\<lambda>_. extended_row F schema v bytes)) (\<lambda>row.
     sbind (sget (\<lambda>_. encode_row (fm_row F) row)) (\<lambda>updated.
     sbind (on_pager (row_insert F t root row_id updated)) (\<lambda>root'. extend_rows F t schema v root' rest)))"

definition add_column :: "'x formats \<Rightarrow> txn_id \<Rightarrow> string \<Rightarrow> 'x column \<Rightarrow> ('x, unit) fs_oper" where
  "add_column F t table column =
     sbind (sget (validate_transaction t)) (\<lambda>_.
     sbind (on_pager (wait_for_table_exclusive_lock t table)) (\<lambda>_.
     sbind (sget (table_schema_and_root table)) (\<lambda>(schema, root).
     sbind (sget (\<lambda>_. if has_column schema (cd_name column) then Err (column_exists table (cd_name column)) else Ok ())) (\<lambda>_.
     sbind (sget (\<lambda>_. new_column_value (fm_rules F) column)) (\<lambda>default_value.
     sbind (sget (\<lambda>s. row_scan F t root (fs_pager s))) (\<lambda>rows.
       let updated_schema = schema\<lparr>sc_columns := sc_columns schema @ [column]\<rparr> in
       sbind (sget (\<lambda>_. validate_constraints_metadata updated_schema)) (\<lambda>_.
       sbind (sget (\<lambda>_. collect_results (check_extended_row F updated_schema default_value) rows)) (\<lambda>_.
       sbind (smodify (update_catalog (\<lambda>c. c\<lparr>ct_schemas := bt_insert table updated_schema (ct_schemas c)\<rparr>))) (\<lambda>_.
       sbind (extend_rows F t updated_schema default_value root rows) (\<lambda>root'.
         set_table_root table root root'))))))))))"

text \<open>The checks and the new schema of \<open>rename_column\<close>.\<close>

definition renamed_column_schema :: "string \<Rightarrow> string \<Rightarrow> string \<Rightarrow> 'x table_schema \<Rightarrow> 'x table_schema result" where
  "renamed_column_schema table old_name new_name schema =
     (if \<not> has_column schema old_name then Err (Storage (''unknown column '' @ old_name @ '' on table '' @ table))
      else if has_column schema new_name then Err (column_exists table new_name)
      else let updated = rename_foreign_key_ref_column table old_name new_name
             (rename_column_references old_name new_name schema)
        in rbind (validate_constraints_metadata updated) (\<lambda>_. Ok updated))"

definition rename_column :: "txn_id \<Rightarrow> string \<Rightarrow> string \<Rightarrow> string \<Rightarrow> ('x, unit) fs_oper" where
  "rename_column t table old_name new_name =
     sbind (sget (validate_transaction t)) (\<lambda>_.
     sbind (on_pager (wait_for_table_exclusive_lock t table)) (\<lambda>_.
     sbind (sget (table_schema_and_root table)) (\<lambda>(schema, _).
     sbind (sget (\<lambda>_. renamed_column_schema table old_name new_name schema)) (\<lambda>updated_schema.
       smodify (update_catalog (\<lambda>c. c\<lparr>
         ct_schemas := map_values (\<lambda>name schema. if name \<noteq> table
             then rename_foreign_key_ref_column table old_name new_name schema else schema)
           (bt_insert table updated_schema (ct_schemas c)),
         ct_indexes := map_values (\<lambda>name indexes. if name = table
             then map_values (\<lambda>_. rename_index_columns old_name new_name) indexes else indexes) (ct_indexes c)\<rparr>))))))"

fun delete_rows :: "'x formats \<Rightarrow> txn_id \<Rightarrow> string \<Rightarrow> (row_id \<times> row) list \<Rightarrow> ('x, unit) fs_oper" where
  "delete_rows F t table [] = sret ()"
| "delete_rows F t table ((row_id, _) # rest) = sbind (delete_row F t table row_id) (\<lambda>_. delete_rows F t table rest)"

fun reinsert_rows :: "'x formats \<Rightarrow> txn_id \<Rightarrow> string \<Rightarrow> nat \<Rightarrow> (row_id \<times> row) list \<Rightarrow> ('x, unit) fs_oper" where
  "reinsert_rows F t table removed [] = sret ()"
| "reinsert_rows F t table removed ((_, row) # rest) =
     sbind (sget (\<lambda>_. index_at row removed)) (\<lambda>_.
     sbind (insert_row F t table (remove_at removed row)) (\<lambda>_. reinsert_rows F t table removed rest))"

text \<open>Indexes on the dropped column go, and the roots of indexes that are not kept.\<close>

definition drop_column_indexes :: "string \<Rightarrow> string \<Rightarrow> 'x catalog_state \<Rightarrow> 'x catalog_state" where
  "drop_column_indexes table column c =
     (let indexes = map_values (\<lambda>name entry. if name = table
            then filter (\<lambda>(_, meta). column \<notin> set (im_columns meta)) entry else entry) (ct_indexes c);
          retained = (case map_of indexes table of Some entry \<Rightarrow> map fst entry | None \<Rightarrow> [])
      in c\<lparr>ct_indexes := indexes, ct_index_roots := map_values (\<lambda>name entry. if name = table
            then filter (\<lambda>(index, _). index \<in> set retained) entry else entry) (ct_index_roots c)\<rparr>)"

definition drop_column :: "'x formats \<Rightarrow> txn_id \<Rightarrow> string \<Rightarrow> string \<Rightarrow> ('x, unit) fs_oper" where
  "drop_column F t table old_name =
     sbind (sget (validate_transaction t)) (\<lambda>_.
     sbind (on_pager (wait_for_table_exclusive_lock t table)) (\<lambda>_.
     sbind (sget (table_schema_and_root table)) (\<lambda>(schema, _).
     sbind (sget (\<lambda>_. schema_drop_column schema old_name)) (\<lambda>(updated_schema, removed_index).
     sbind (scan_rows F t table) (\<lambda>existing_rows.
     sbind (smodify (update_catalog (\<lambda>c. drop_column_indexes table old_name
         (c\<lparr>ct_schemas := bt_insert table updated_schema (ct_schemas c)\<rparr>)))) (\<lambda>_.
     sbind (delete_rows F t table existing_rows) (\<lambda>_. reinsert_rows F t table removed_index existing_rows)))))))"

end
