(* ===== verification/V2_Storage_Rows.thy ===== *)
theory V2_Storage_Rows
  imports V2_Storage
begin

text \<open>
  Rows of the paged engine. Every step of an operation other than a tree insertion is tame: it changes
  locks, snapshots and undo records, and no page, table or index. On this rest the laws of the row
  operations: an inserted row is valid and is read back.
\<close>

section \<open>Tame steps\<close>

definition same_tables :: "'x catalog_state \<Rightarrow> 'x catalog_state \<Rightarrow> bool" where
  "same_tables c c' \<longleftrightarrow> ct_schemas c' = ct_schemas c \<and> ct_table_roots c' = ct_table_roots c \<and>
     ct_indexes c' = ct_indexes c \<and> ct_index_roots c' = ct_index_roots c"

definition calm :: "txn_id \<Rightarrow> 'x file_storage \<Rightarrow> 'x file_storage \<Rightarrow> bool" where
  "calm t s s' \<longleftrightarrow> same_but_manager (fs_pager s) (fs_pager s') \<and> same_tables (fs_catalog s) (fs_catalog s') \<and>
     session_catalog_snapshots s' = session_catalog_snapshots s \<and>
     (tm_txn_status t (fs_manager s) = Ok Active \<longrightarrow> tm_txn_status t (fs_manager s') = Ok Active)"

lemma calm_refl [simp]: "calm t s s"
  by (simp add: calm_def same_tables_def)

lemma calm_trans: "calm t a b \<Longrightarrow> calm t b c \<Longrightarrow> calm t a c"
  unfolding calm_def same_tables_def using same_but_manager_trans by auto

lemma calm_alone: "calm t s s' \<Longrightarrow> pg_others (fs_pager s') = pg_others (fs_pager s)"
  unfolding calm_def using same_but_managerD(6) by blast

text \<open>For a session that works alone, and when the operation succeeds.\<close>

definition tame :: "txn_id \<Rightarrow> ('x, 'a) fs_oper \<Rightarrow> bool" where
  "tame t m \<longleftrightarrow> (\<forall>s a s'. pg_others (fs_pager s) = [] \<longrightarrow> m s = (Ok a, s') \<longrightarrow> calm t s s')"

lemma tameI: "(\<And>s a s'. pg_others (fs_pager s) = [] \<Longrightarrow> m s = (Ok a, s') \<Longrightarrow> calm t s s') \<Longrightarrow> tame t m"
  by (simp add: tame_def)

lemma tameD: "tame t m \<Longrightarrow> m s = (Ok a, s') \<Longrightarrow> pg_others (fs_pager s) = [] \<Longrightarrow> calm t s s'"
  by (simp add: tame_def)

lemma calm_step:
  "calm t s s1 \<Longrightarrow> tame t m \<Longrightarrow> m s1 = (Ok a, s2) \<Longrightarrow> pg_others (fs_pager s) = [] \<Longrightarrow> calm t s s2"
  using calm_trans calm_alone tameD by metis

lemma tame_sbind: "tame t m \<Longrightarrow> (\<And>a. tame t (k a)) \<Longrightarrow> tame t (sbind m k)"
  by (rule tameI, erule sbind_eq_OkE) (metis calm_alone calm_trans tameD)

lemma tame_simps [simp]: "tame t (sget f)" "tame t (sret a)" "tame t (sfail e)" "tame t (Pair r)"
  by (simp_all add: tame_def)

lemma tame_if [simp]: "tame t m \<Longrightarrow> tame t m' \<Longrightarrow> tame t (if b then m else m')"
  by simp

lemma tame_on_tm:
  assumes "\<And>tm a tm'. m tm = (Ok a, tm') \<Longrightarrow> tm_txn_status t tm = Ok Active \<Longrightarrow> tm_txn_status t tm' = Ok Active"
  shows "tame t (on_tm m)"
proof (rule tameI)
  fix s :: "'x file_storage" and a s'
  assume "on_tm m s = (Ok a, s')"
  then obtain p where om: "on_manager m (fs_pager s) = (Ok a, p)" and s': "s' = s\<lparr>fs_pager := p\<rparr>"
    by (auto simp: on_tm_def on_pager_def split: prod.splits)
  have "m (manager_of (fs_pager s)) = (Ok a, manager_of p)" using on_manager_state [OF om] by simp
  from assms [OF this] show "calm t s s'"
    using same_but_manager_on_manager [OF om] by (simp add: calm_def s' same_tables_def fs_manager_def)
qed

lemma status_update_txn:
  "(\<And>x. tx_status (f x) = tx_status x) \<Longrightarrow> tm_txn_status t (update_txn u f s) = tm_txn_status t s"
  by (simp add: tm_txn_status_def tm_get_def update_txn_def hm_modify_def split: option.split)

lemma tame_record_undo [simp]: "tame t (on_tm (record_undo u r))"
  by (rule tame_on_tm) (auto simp: record_undo_def sbind_eq_Ok status_update_txn)

lemma tame_allocate_row_id [simp]: "tame t (on_tm (allocate_row_id u table n))"
  by (rule tame_on_tm) (auto simp: allocate_row_id_def sbind_eq_Ok Let_def tm_txn_status_def tm_get_def)

lemma tame_refresh_snapshot [simp]: "tame t (on_tm (refresh_snapshot u))"
  by (rule tame_on_tm) (auto simp: refresh_snapshot_def sbind_eq_Ok Let_def status_update_txn)

lemma tame_snapshot [simp]: "tame t (snapshot_for_transaction u)"
  unfolding snapshot_for_transaction_def by (intro tame_sbind) simp_all

lemma tame_wait: "tame t (on_pager (wait_for_lock t q))"
proof (rule tameI)
  fix s :: "'x file_storage" and a s'
  assume alone: "pg_others (fs_pager s) = []" and "on_pager (wait_for_lock t q) s = (Ok a, s')"
  then obtain p where "wait_for_lock t q (fs_pager s) = (Ok (), p)" and s': "s' = s\<lparr>fs_pager := p\<rparr>"
    by (auto simp: on_pager_def split: prod.splits)
  from wait_for_lock_alone [OF this(1) alone]
  show "calm t s s'"
    by (auto simp: calm_def s' same_tables_def fs_manager_def undisturbed_def tm_txn_status_def tm_get_def)
qed

lemma tame_waits [simp]:
  "tame t (on_pager (wait_for_table_read_lock t table))" "tame t (on_pager (wait_for_table_scan_lock t table))"
  "tame t (on_pager (wait_for_table_write_lock t table))" "tame t (on_pager (wait_for_table_exclusive_lock t table))"
  "tame t (on_pager (wait_for_write_conflicts t table keys))"
  by (simp_all add: tame_wait wait_for_table_read_lock_def wait_for_table_scan_lock_def
      wait_for_table_write_lock_def wait_for_table_exclusive_lock_def wait_for_write_conflicts_def)

lemma tame_visible_row_at_root [simp]: "tame t (visible_row_at_root F u root row_id)"
  unfolding visible_row_at_root_def by (intro tame_sbind) simp_all

lemma tame_filter [simp]: "tame t (filter_index_row_ids_for_key F u schema root index key ids)"
  by (induction F u schema root index key ids rule: filter_index_row_ids_for_key.induct) (auto intro!: tame_sbind)

lemma tame_rows_with_key [simp]: "tame t (rows_with_key F u schema root index iroot key)"
  unfolding rows_with_key_def by (intro tame_sbind) (auto split: option.split intro!: tame_sbind)

lemma tame_check_unique [simp]: "tame t (check_unique_indexes F u schema root row indexes)"
  by (induction F u schema root row indexes rule: check_unique_indexes.induct) (auto intro!: tame_sbind)

lemma tame_next_row_ids [simp]:
  "tame t (smodify (update_catalog (\<lambda>c. c\<lparr>ct_next_row_ids := f c\<rparr>)))"
  by (auto simp: tame_def calm_def same_tables_def update_catalog_def fs_manager_def)

text \<open>What a tame step leaves alone.\<close>

lemma calm_session:
  assumes "calm t s s'" "session_ok t (fs_pager s)"
  shows "session_ok t (fs_pager s')" "pages_in_use (fs_pager s') = pages_in_use (fs_pager s)"
    "page_room (fs_pager s') = page_room (fs_pager s)"
  using session_same [OF assms(2), of "fs_pager s'"] assms by (simp_all add: calm_def session_ok_def fs_manager_def)

lemma calm_tree:
  "calm t s s' \<Longrightarrow> pager_tree from_slice d (fs_pager s) root pgs es \<Longrightarrow> pager_tree from_slice d (fs_pager s') root pgs es"
  unfolding calm_def using pager_tree_same by blast

lemma same_pages:
  assumes "calm t s s'"
  shows "read_page q (fs_pager s') = read_page q (fs_pager s)"
proof -
  have "same_but_manager (fs_pager s) (fs_pager s')" using assms by (simp add: calm_def)
  then show ?thesis unfolding read_page_def by (simp only: same_but_managerD)
qed

lemma calm_lookups:
  assumes "calm t s s'"
  shows "table_schema_and_root table s' = table_schema_and_root table s"
    "indexes_for_table table s' = indexes_for_table table s"
    "index_meta_and_root table name s' = index_meta_and_root table name s"
proof -
  have same: "ct_schemas (fs_catalog s') = ct_schemas (fs_catalog s)"
    "ct_table_roots (fs_catalog s') = ct_table_roots (fs_catalog s)"
    "ct_indexes (fs_catalog s') = ct_indexes (fs_catalog s)"
    "ct_index_roots (fs_catalog s') = ct_index_roots (fs_catalog s)"
    using assms by (simp_all add: calm_def same_tables_def)
  show "table_schema_and_root table s' = table_schema_and_root table s"
    "indexes_for_table table s' = indexes_for_table table s"
    "index_meta_and_root table name s' = index_meta_and_root table name s"
    unfolding table_schema_and_root_def indexes_for_table_def index_meta_and_root_def same by (rule refl)+
qed

lemma session_alone: "session_ok t p \<Longrightarrow> pg_others p = []"
  by (simp add: session_ok_def in_bounds_def)

section \<open>The steps of an insertion\<close>

text \<open>An insertion that succeeds has passed the checks quietly, then written the row, then its index entries.\<close>

lemma insert_row_steps:
  assumes "insert_row F t table row s = (Ok row_id, s')" "pg_others (fs_pager s) = []"
  obtains schema root snapshot existing indexes bytes root' s0 s1 s2 s3 s4 s5 where
    "calm t s s0" "snapshot_for_transaction t s0 = (Ok snapshot, s1)" "calm t s s1" "table_schema_and_root table s = Ok (schema, root)"
    "length row = length (sc_columns schema)" "validate_row_values schema row = Ok ()"
    "validate_check_constraints (fm_rules F) schema row = Ok ()"
    "rbind (row_scan F t root (fs_pager s1)) (visible_rows F t snapshot) = Ok existing"
    "validate_primary_key_uniqueness (fm_rules F) schema row (map snd existing) = Ok ()"
    "indexes_for_table table s = Ok indexes" "check_unique_indexes F t schema root row indexes s1 = (Ok (), s2)"
    "calm t s s3" "encode_uncommitted_row_version (fm_row F) row t = Ok bytes"
    "row_insert F t root row_id bytes (fs_pager s3) = (Ok root', fs_pager s4)" "fs_catalog s4 = fs_catalog s3"
    "session_catalog_snapshots s4 = session_catalog_snapshots s3" "set_table_root table root root' s4 = (Ok (), s5)"
    "indexes_for_table table s5 = Ok indexes"
    "insert_index_entries F t table schema row row_id indexes s5 = (Ok (), s')"
proof -
  from assms(1) obtain sa sr sb sc keys se u existing sf nx sg sh bytes root' si sj ixs ixs2 where
    run: "on_pager (wait_for_table_write_lock t table) s = (Ok (), sa)" "table_schema_and_root table sa = Ok sr"
    "check_row_length ''insert into '' table (fst sr) row = Ok ()" "validate_row_values (fst sr) row = Ok ()"
    "validate_check_constraints (fm_rules F) (fst sr) row = Ok ()"
    "on_pager (wait_for_write_conflicts t table keys) sa = (Ok (), sb)" 
    "snapshot_for_transaction t sb = (Ok u, sc)"
    "rbind (row_scan F t (snd sr) (fs_pager sc)) (visible_rows F t u) = Ok existing"
    "validate_primary_key_uniqueness (fm_rules F) (fst sr) row (map snd existing) = Ok ()"
    "indexes_for_table table sc = Ok ixs" "check_unique_indexes F t (fst sr) (snd sr) row ixs sc = (Ok (), se)"
    "on_tm (allocate_row_id t table nx) se = (Ok row_id, sf)"
    "on_tm (record_undo t (InsertRow table row_id)) (update_catalog (\<lambda>c. c\<lparr>ct_next_row_ids :=
         bt_insert table (sat_add row_id 1) (ct_next_row_ids c)\<rparr>) sf) = (Ok (), sh)"
    "encode_uncommitted_row_version (fm_row F) row t = Ok bytes"
    "on_pager (row_insert F t (snd sr) row_id bytes) sh = (Ok root', si)"
    "set_table_root table (snd sr) root' si = (Ok (), sj)" "indexes_for_table table sj = Ok ixs2"
    "insert_index_entries F t table (fst sr) row row_id ixs2 sj = (Ok (), s')"
    unfolding insert_row_def case_prod_beta sbind_eq_Ok sget_apply smodify_apply prod.inject by force
  let ?next = "update_catalog (\<lambda>c. c\<lparr>ct_next_row_ids := bt_insert table (sat_add row_id 1) (ct_next_row_ids c)\<rparr>)"
  have a: "calm t s sa" by (rule tameD [OF tame_waits(3) run(1) assms(2)])
  have b: "calm t s sb" by (rule calm_step [OF a tame_waits(5) run(6) assms(2)])
  have c: "calm t s sc" by (rule calm_step [OF b tame_snapshot run(7) assms(2)])
  have e: "calm t s se" by (rule calm_step [OF c tame_check_unique run(11) assms(2)])
  have f: "calm t s sf" by (rule calm_step [OF e tame_allocate_row_id run(12) assms(2)])
  have g: "calm t s (?next sf)" by (rule calm_step [OF f tame_next_row_ids smodify_apply assms(2)])
  have h: "calm t s sh" by (rule calm_step [OF g tame_record_undo run(13) assms(2)])
  have sr: "table_schema_and_root table s = Ok (fst sr, snd sr)" using run(2) calm_lookups(1) [OF a] by simp
  have len: "length row = length (sc_columns (fst sr))" using run(3) by (simp add: check_row_length_def split: if_splits)
  have ix: "indexes_for_table table s = Ok ixs" using run(10) calm_lookups(2) [OF c] by simp
  have si: "row_insert F t (snd sr) row_id bytes (fs_pager sh) = (Ok root', fs_pager si)" "fs_catalog si = fs_catalog sh"
    "session_catalog_snapshots si = session_catalog_snapshots sh"
    using run(15) by (auto simp: on_pager_def split: prod.splits)
  have "indexes_for_table table sj = indexes_for_table table sh"
    using run(16) si(2) unfolding set_table_root_def indexes_for_table_def
    by (auto simp: update_catalog_def split: if_splits option.split)
  then have "ixs2 = ixs" using ix run(17) calm_lookups(2) [OF h] by simp
  with run si show ?thesis using that [OF b run(7) c sr len run(4,5,8,9) ix run(11) h run(14) si run(16)] by simp
qed

section \<open>The trees of a table\<close>

text \<open>The index trees of a table have at most \<open>d\<close> levels, on pages apart from \<open>A\<close> and from each other.\<close>

fun index_trees :: "'x formats \<Rightarrow> nat \<Rightarrow> pager \<Rightarrow> page_id set \<Rightarrow> index_entry list \<Rightarrow> bool" where
  "index_trees F d p A [] = True"
| "index_trees F d p A ((_, _, root) # rest) =
     (\<exists>pgs es. pager_tree (fm_index_node_back F) d p root pgs es \<and> pgs \<inter> A = {} \<and> index_trees F d p (A \<union> pgs) rest)"

lemma index_trees_frame:
  "index_trees F d p A indexes \<Longrightarrow> \<forall>q \<in> pages_in_use p - A. read_page q p' = read_page q p \<Longrightarrow>
     pages_in_use p \<subseteq> pages_in_use p' \<Longrightarrow> index_trees F d p' A indexes"
proof (induction F d p A indexes rule: index_trees.induct)
  case (2 F d p A name meta root rest)
  then obtain pgs es where tree: "pager_tree (fm_index_node_back F) d p root pgs es" "pgs \<inter> A = {}"
    and rest: "index_trees F d p (A \<union> pgs) rest" by auto
  have "pager_tree (fm_index_node_back F) d p' root pgs es"
    using pager_tree_frame [OF tree(1)] pager_tree_used [OF tree(1)] tree(2) 2(3,4) by blast
  moreover have "index_trees F d p' (A \<union> pgs) rest" using 2(1) [OF rest] 2(3,4) by blast
  ultimately show ?case using tree(2) by auto
qed simp

lemma index_trees_weaken:
  "index_trees F d p A indexes \<Longrightarrow> B \<subseteq> A \<Longrightarrow> index_trees F d p B indexes"
proof (induction F d p A indexes arbitrary: B rule: index_trees.induct)
  case (2 F d p A name meta root rest)
  then obtain pgs es where tree: "pager_tree (fm_index_node_back F) d p root pgs es" "pgs \<inter> A = {}"
    and rest: "index_trees F d p (A \<union> pgs) rest" by auto
  have "index_trees F d p (B \<union> pgs) rest" using 2(1) [OF rest] 2(3) by blast
  with tree 2(3) show ?case by auto
qed simp

text \<open>An operation may write the pages of \<open>pgs\<close> and new ones.\<close>

definition confined :: "txn_id \<Rightarrow> nat \<Rightarrow> page_id set \<Rightarrow> pager \<Rightarrow> pager \<Rightarrow> bool" where
  "confined t n pgs p p' \<longleftrightarrow> session_ok t p' \<and> page_room p \<le> n + page_room p' \<and> pages_in_use p \<subseteq> pages_in_use p' \<and>
     (\<forall>q \<in> pages_in_use p - pgs. read_page q p' = read_page q p)"

lemma confined_tree:
  "confined t n pgs p p' \<Longrightarrow> pager_tree from_slice d p root opgs es \<Longrightarrow> opgs \<inter> pgs = {} \<Longrightarrow>
     pager_tree from_slice d p' root opgs es"
  unfolding confined_def using pager_tree_frame pager_tree_used by blast

lemma row_insert_law:
  assumes "nodes_faithful (fm_node F) (fm_node_back F)" "session_ok t p"
    "pager_tree (fm_node_back F) d p root pgs es" "d < page_room p" "d \<le> fm_frames F"
    "row_insert F t root row_id bytes p = (Ok root', p')"
  obtains pgs' where "confined t (Suc d) pgs p p'" "pgs' \<inter> pages_in_use p \<subseteq> pgs"
    "pager_tree (fm_node_back F) (Suc d) p' root' pgs' (bt_insert row_id bytes es)"
proof -
  have "tree_insert (fm_frames F) (pager_store (fm_node F) (fm_node_back F) t) root row_id bytes p = (Ok root', p')"
    using assms(6) by (simp add: row_insert_def btree_insert_def)
  then show ?thesis by (rule pager_tree_insert [OF assms(1-5)]) (rule that, simp_all add: confined_def)
qed

lemma upsert_law:
  assumes "nodes_faithful (fm_index_node F) (fm_index_node_back F)" "session_ok t p"
    "pager_tree (fm_index_node_back F) d p root pgs es" "d < page_room p" "d \<le> fm_frames F"
    "upsert_index_entry F root t k row_id p = (Ok root', p')"
  shows "confined t (Suc d) pgs p p'"
proof -
  obtain bytes where "entry_insert F t root k bytes p = (Ok root', p')"
    using assms(6) unfolding upsert_index_entry_def sbind_eq_Ok sget_apply prod.inject by blast
  then have "tree_insert (fm_frames F) (pager_store (fm_index_node F) (fm_index_node_back F) t) root k bytes p = (Ok root', p')"
    by (simp add: entry_insert_def index_ops_generic)
  then show ?thesis by (rule pager_tree_insert [OF assms(1-5)]) (simp add: confined_def)
qed

lemma insert_index_entries_law:
  assumes "nodes_faithful (fm_index_node F) (fm_index_node_back F)" "d \<le> fm_frames F"
    "session_ok t (fs_pager s)" "index_trees F d (fs_pager s) A indexes" "Suc d * length indexes \<le> page_room (fs_pager s)"
    "pager_tree (fm_node_back F) e (fs_pager s) root pgs es" "pgs \<subseteq> A"
    "insert_index_entries F t table schema row row_id indexes s = (Ok (), s')"
  shows "session_ok t (fs_pager s') \<and> pager_tree (fm_node_back F) e (fs_pager s') root pgs es \<and>
    table_schema_and_root name s' = table_schema_and_root name s"
  using assms(3-)
proof (induction indexes arbitrary: s A)
  case (Cons index rest)
  obtain iname meta iroot where index: "index = (iname, meta, iroot)" by (cases index)
  obtain ipgs ies where tree: "pager_tree (fm_index_node_back F) d (fs_pager s) iroot ipgs ies" "ipgs \<inter> A = {}"
    and rest: "index_trees F d (fs_pager s) (A \<union> ipgs) rest"
    using Cons.prems(2) index by auto
  obtain key sa k root' sb sc where undo: "on_tm (record_undo t (IndexInsert table iname row_id key)) s = (Ok (), sa)"
    and up: "on_pager (upsert_index_entry F iroot t k row_id) sa = (Ok root', sb)"
    and set: "set_index_root table iname iroot root' sb = (Ok (), sc)"
    and more: "insert_index_entries F t table schema row row_id rest sc = (Ok (), s')"
    using Cons.prems(6) unfolding index insert_index_entries.simps sbind_eq_Ok sget_apply prod.inject by force
  have a: "calm t s sa" by (rule tameD [OF tame_record_undo undo session_alone [OF Cons.prems(1)]])
  note sa = calm_session [OF a Cons.prems(1)] calm_tree [OF a]
  have sb: "upsert_index_entry F iroot t k row_id (fs_pager sa) = (Ok root', fs_pager sb)" "fs_catalog sb = fs_catalog sa"
    using up by (auto simp: on_pager_def split: prod.splits)
  have sc: "fs_pager sc = fs_pager sb" "table_schema_and_root name sc = table_schema_and_root name sb"
    using set by (auto simp: set_index_root_def update_catalog_def table_schema_and_root_def split: if_splits)
  have room: "d < page_room (fs_pager sa)" using Cons.prems(3) sa(3) by simp
  have conf: "confined t (Suc d) ipgs (fs_pager sa) (fs_pager sb)"
    by (rule upsert_law [OF assms(1) sa(1) sa(4) [OF tree(1)] room assms(2) sb(1)])
  have "pgs \<inter> ipgs = {}" using tree(2) Cons.prems(5) by blast
  from confined_tree [OF conf sa(4) [OF Cons.prems(4)] this]
  have table: "pager_tree (fm_node_back F) e (fs_pager sc) root pgs es" by (simp add: sc)
  have "index_trees F d (fs_pager sb) (A \<union> ipgs) rest"
    using conf same_pages [OF a] sa(2) by (intro index_trees_frame [OF rest]) (auto simp: confined_def)
  then have "index_trees F d (fs_pager sc) A rest" unfolding sc by (rule index_trees_weaken) simp
  moreover have "Suc d * length rest \<le> page_room (fs_pager sc)" "session_ok t (fs_pager sc)"
    using conf Cons.prems(3) sa(3) by (simp_all add: confined_def sc)
  ultimately have "session_ok t (fs_pager s') \<and> pager_tree (fm_node_back F) e (fs_pager s') root pgs es \<and>
      table_schema_and_root name s' = table_schema_and_root name sc"
    using Cons.IH [OF _ _ _ table Cons.prems(5) more] by blast
  moreover have "table_schema_and_root name sc = table_schema_and_root name s"
    using sc(2) sb(2) calm_lookups(1) [OF a] by (simp add: table_schema_and_root_def)
  ultimately show ?case by simp
qed simp

lemma index_trees_extend:
  "index_trees F d p A indexes \<Longrightarrow> B \<inter> pages_in_use p \<subseteq> A \<Longrightarrow> index_trees F d p (A \<union> B) indexes"
proof (induction F d p A indexes rule: index_trees.induct)
  case (2 F d p A name meta root rest)
  then obtain pgs es where tree: "pager_tree (fm_index_node_back F) d p root pgs es" "pgs \<inter> A = {}"
    and rest: "index_trees F d p (A \<union> pgs) rest" by auto
  have "index_trees F d p (A \<union> pgs \<union> B) rest" using 2(1) [OF rest] 2(3) by blast
  then have "index_trees F d p (A \<union> B \<union> pgs) rest" by (simp add: Un_assoc Un_commute Un_left_commute)
  moreover have "pgs \<inter> (A \<union> B) = {}" using tree pager_tree_used [OF tree(1)] 2(3) by blast
  ultimately show ?case using tree(1) by auto
qed simp

text \<open>
  A table that can be worked on: the session works alone on an active transaction, \<open>serde_json\<close> reads back
  what it wrote, the table is the map \<open>es\<close>, its trees have at most \<open>d\<close> levels and stand apart, and there
  are frames, scan steps and page numbers enough for an insertion into each of them.
\<close>

definition table_ready :: "'x formats \<Rightarrow> txn_id \<Rightarrow> nat \<Rightarrow> string \<Rightarrow> u64 leaf_entry list \<Rightarrow> 'x file_storage \<Rightarrow> bool" where
  "table_ready F t d table es s \<longleftrightarrow>
     nodes_faithful (fm_node F) (fm_node_back F) \<and> nodes_faithful (fm_index_node F) (fm_index_node_back F) \<and>
     (\<forall>b. serde_faithful (fm_row F) (fm_row_back F) b) \<and> session_ok t (fs_pager s) \<and> d < fm_frames F \<and>
     (\<exists>schema root pgs indexes. table_schema_and_root table s = Ok (schema, root) \<and>
        indexes_for_table table s = Ok indexes \<and> pager_tree (fm_node_back F) d (fs_pager s) root pgs es \<and>
        index_trees F d (fs_pager s) pgs indexes \<and> card pgs \<le> fm_steps F \<and>
        Suc d * Suc (length indexes) \<le> page_room (fs_pager s))"

lemma row_get_law:
  assumes "nodes_faithful (fm_node F) (fm_node_back F)" "pager_tree (fm_node_back F) d p root pgs es" "d \<le> fm_frames F"
  shows "row_get F t root k p = Ok (map_of es k)"
  using btree_laws(1) [OF assms(1) pager_tree_mono [OF assms(2,3)]] by (simp add: row_get_def btree_get_def)

lemma row_scan_law:
  assumes "nodes_faithful (fm_node F) (fm_node_back F)" "pager_tree (fm_node_back F) d p root pgs es" "d \<le> fm_frames F"
    "card pgs \<le> fm_steps F"
  shows "row_scan F t root p = Ok es"
  using btree_laws(2) [OF assms(1) pager_tree_mono [OF assms(2,3)] assms(4)] by (simp add: row_scan_def btree_scan_all_def)

text \<open>What an insertion leaves behind.\<close>

lemma insert_row_tree:
  assumes ready: "table_ready F t d table es s" and run: "insert_row F t table row s = (Ok row_id, s')"
  obtains schema root' bytes pgs' where "session_ok t (fs_pager s')" "table_schema_and_root table s' = Ok (schema, root')"
    "encode_uncommitted_row_version (fm_row F) row t = Ok bytes"
    "pager_tree (fm_node_back F) (Suc d) (fs_pager s') root' pgs' (bt_insert row_id bytes es)"
proof -
  obtain schema root pgs indexes where nodes: "nodes_faithful (fm_node F) (fm_node_back F)"
      "nodes_faithful (fm_index_node F) (fm_index_node_back F)"
    and session: "session_ok t (fs_pager s)" and frames: "d < fm_frames F"
    and table: "table_schema_and_root table s = Ok (schema, root)" "indexes_for_table table s = Ok indexes"
    and tree: "pager_tree (fm_node_back F) d (fs_pager s) root pgs es"
    and ixs: "index_trees F d (fs_pager s) pgs indexes" and room: "Suc d * Suc (length indexes) \<le> page_room (fs_pager s)"
    using ready unfolding table_ready_def by blast
  obtain bytes root' s3 s4 s5 where calm: "calm t s s3"
    and bytes: "encode_uncommitted_row_version (fm_row F) row t = Ok bytes"
    and ins: "row_insert F t root row_id bytes (fs_pager s3) = (Ok root', fs_pager s4)"
    and s4: "fs_catalog s4 = fs_catalog s3" and set: "set_table_root table root root' s4 = (Ok (), s5)"
    and entries: "insert_index_entries F t table schema row row_id indexes s5 = (Ok (), s')"
    by (rule insert_row_steps [OF run session_alone [OF session]], unfold table result.inject prod.inject) blast
  note s3 = calm_session [OF calm session] calm_tree [OF calm]
  have s5: "fs_pager s5 = fs_pager s4" using set by (auto simp: set_table_root_def update_catalog_def split: if_splits)
  have "d < page_room (fs_pager s3)" "d \<le> fm_frames F" using room frames s3(3) by simp_all
  with row_insert_law [OF nodes(1) s3(1) s3(4) [OF tree] _ _ ins]
  obtain pgs' where conf: "confined t (Suc d) pgs (fs_pager s3) (fs_pager s4)"
    and new: "pgs' \<inter> pages_in_use (fs_pager s) \<subseteq> pgs"
      "pager_tree (fm_node_back F) (Suc d) (fs_pager s4) root' pgs' (bt_insert row_id bytes es)"
    unfolding s3(2) by blast
  have "index_trees F d (fs_pager s4) (pgs \<union> pgs') indexes"
    using conf same_pages [OF calm] s3(2)
    by (intro index_trees_frame [OF index_trees_extend [OF ixs new(1)]]) (auto simp: confined_def)
  moreover have "session_ok t (fs_pager s4)" "Suc d * length indexes \<le> page_room (fs_pager s4)"
    using conf room s3(3) by (simp_all add: confined_def)
  ultimately have law: "session_ok t (fs_pager s')"
      "pager_tree (fm_node_back F) (Suc d) (fs_pager s') root' pgs' (bt_insert row_id bytes es)"
      "table_schema_and_root table s' = table_schema_and_root table s5"
    using insert_index_entries_law [OF nodes(2) less_imp_le [OF frames] _ _ _ _ _ entries, of "pgs \<union> pgs'" "Suc d" root' pgs'
        "bt_insert row_id bytes es" table] new(2) s5 by simp_all
  have "table_schema_and_root table s3 = Ok (schema, root)" using calm_lookups(1) [OF calm] table(1) by simp
  then have "table_schema_and_root table s5 = Ok (schema, root')"
    using set s4 by (auto simp: set_table_root_def update_catalog_def table_schema_and_root_def split: if_splits)
      (auto simp: rbind_eq_Ok)
  with law show ?thesis using that bytes by simp
qed

section \<open>Reading\<close>

lemma snapshot_available:
  assumes "tm_txn_status t (fs_manager s) = Ok Active"
  obtains snapshot s' where "snapshot_for_transaction t s = (Ok snapshot, s')"
proof -
  obtain x where "tm_get t (fs_manager s) = Ok x" using assms by (auto simp: tm_txn_status_def rbind_eq_Ok)
  then have "\<exists>snapshot s'. snapshot_for_transaction t s = (Ok snapshot, s')"
    by (simp add: snapshot_for_transaction_def tm_isolation_level_def tm_snapshot_def on_tm_def on_pager_def
        on_manager_def refresh_snapshot_def Let_def fs_manager_def manager_of_def)
  then show ?thesis using that by blast
qed

text \<open>A lookup that has got its lock returns what a snapshot shows of the bytes under the row id.\<close>

lemma get_row_law:
  assumes "nodes_faithful (fm_node F) (fm_node_back F)" "session_ok t (fs_pager s)"
    "table_schema_and_root table s = Ok (schema, root)"
    "pager_tree (fm_node_back F) d (fs_pager s) root pgs es" "d \<le> fm_frames F"
    "wait_for_table_read_lock t table (fs_pager s) = (Ok (), p)"
  obtains snapshot s' where "get_row F t table k s = ((case map_of es k of None \<Rightarrow> Ok None
      | Some bytes \<Rightarrow> visible_row (fm_row_back F) bytes t snapshot), s')"
proof -
  let ?s = "s\<lparr>fs_pager := p\<rparr>"
  have wait: "on_pager (wait_for_table_read_lock t table) s = (Ok (), ?s)" by (simp add: on_pager_def assms(6))
  have a: "calm t s ?s" by (rule tameD [OF tame_waits(1) wait session_alone [OF assms(2)]])
  have "validate_transaction t s = Ok ()"
    using assms(2) by (auto simp: validate_transaction_def session_ok_def tm_txn_status_def fs_manager_def rbind_eq_Ok)
  then have run: "get_row F t table k s = visible_row_at_root F t root k ?s"
    using calm_lookups(1) [OF a, of table] assms(3) by (simp add: get_row_def wait)
  have active: "tm_txn_status t (fs_manager ?s) = Ok Active"
    using calm_session(1) [OF a assms(2)] by (simp add: session_ok_def fs_manager_def)
  obtain snapshot s' where snap: "snapshot_for_transaction t ?s = (Ok snapshot, s')"
    by (rule snapshot_available [OF active])
  have "calm t s s'" by (rule calm_step [OF a tame_snapshot snap session_alone [OF assms(2)]])
  then have "row_get F t root k (fs_pager s') = Ok (map_of es k)"
    by (intro row_get_law [OF assms(1) _ assms(5)]) (rule calm_tree [OF _ assms(4)])
  then show ?thesis using that run snap by (simp add: visible_row_at_root_def)
qed

section \<open>Properties\<close>

text \<open>
  Property C8: an inserted row is read back. When \<open>insert_row\<close> returns a row id, a \<open>get_row\<close> of the same
  transaction that gets its table lock returns the inserted row, whatever pages and roots the insertion
  has split and whatever index entries it has written; the bytes under every other row id are those of
  before.
\<close>

theorem inserted_row_is_read_back:
  assumes "table_ready F t d table es s" "insert_row F t table row s = (Ok row_id, s1)"
    "wait_for_table_read_lock t table (fs_pager s1) = (Ok (), p)"
  shows "(\<exists>s2. get_row F t table row_id s1 = (Ok (Some row), s2)) \<and>
    (\<exists>schema root bytes. table_schema_and_root table s1 = Ok (schema, root) \<and>
      row_get F t root k (fs_pager s1) = Ok (if k = row_id then Some bytes else map_of es k))"
proof -
  obtain schema root bytes pgs where s1: "session_ok t (fs_pager s1)" "table_schema_and_root table s1 = Ok (schema, root)"
    "encode_uncommitted_row_version (fm_row F) row t = Ok bytes"
    "pager_tree (fm_node_back F) (Suc d) (fs_pager s1) root pgs (bt_insert row_id bytes es)"
    by (rule insert_row_tree [OF assms(1,2)])
  have F: "nodes_faithful (fm_node F) (fm_node_back F)" "serde_faithful (fm_row F) (fm_row_back F) bytes" "Suc d \<le> fm_frames F"
    using assms(1) by (auto simp: table_ready_def)
  obtain snapshot s2 where get: "get_row F t table row_id s1 = ((case map_of (bt_insert row_id bytes es) row_id of
      None \<Rightarrow> Ok None | Some bytes \<Rightarrow> visible_row (fm_row_back F) bytes t snapshot), s2)"
    by (rule get_row_law [OF F(1) s1(1,2,4) F(3) assms(3)])
  have "decode_versioned_row (fm_row_back F) bytes = Ok \<lparr>versions = [uncommitted_version row t]\<rparr>"
    using s1(3) F(2) by (intro decode_written) (simp_all add: encode_uncommitted_row_version_def)
  then have "visible_row (fm_row_back F) bytes t snapshot = Ok (Some row)"
    by (simp add: visible_row_decoded visible_loop_view)
  with get have "\<exists>s2. get_row F t table row_id s1 = (Ok (Some row), s2)" by simp
  moreover have "row_get F t root k (fs_pager s1) = Ok (if k = row_id then Some bytes else map_of es k)"
    using row_get_law [OF F(1) s1(4) F(3)] by simp
  ultimately show ?thesis using s1(2) by blast
qed

text \<open>
  Property C22: only valid rows are inserted. When \<open>insert_row\<close> succeeds, the row has a value of the
  declared type, or an admissible \<open>NULL\<close>, in every column of the table, and no row that the transaction's
  snapshot shows has the same primary key; the snapshot is the one the transaction gets once it holds
  its locks.
\<close>

theorem insert_accepts_only_valid_rows:
  assumes "table_ready F t d table es s" "insert_row F t table row s = (Ok row_id, s1)"
  shows "\<exists>schema root snapshot existing. table_schema_and_root table s = Ok (schema, root) \<and>
    list_all2 (column_accepts schema) (sc_columns schema) row \<and>
    (\<exists>locked s'. calm t s locked \<and> snapshot_for_transaction t locked = (Ok snapshot, s')) \<and>
    visible_rows F t snapshot es = Ok existing \<and>
    (primary_key_columns schema = [] \<or>
      list_all (\<lambda>(_, r). \<not> same_key (primary_key_columns schema) row r) existing)"
proof -
  obtain schema root pgs where F: "nodes_faithful (fm_node F) (fm_node_back F)" "session_ok t (fs_pager s)" "d \<le> fm_frames F"
      "card pgs \<le> fm_steps F"
    and table: "table_schema_and_root table s = Ok (schema, root)"
    and tree: "pager_tree (fm_node_back F) d (fs_pager s) root pgs es"
    using assms(1) unfolding table_ready_def by (meson less_imp_le)
  obtain snapshot existing s0 s2 where run: "calm t s s0" "snapshot_for_transaction t s0 = (Ok snapshot, s2)" "calm t s s2"
    "validate_row_values schema row = Ok ()"
    "rbind (row_scan F t root (fs_pager s2)) (visible_rows F t snapshot) = Ok existing"
    "validate_primary_key_uniqueness (fm_rules F) schema row (map snd existing) = Ok ()"
    by (rule insert_row_steps [OF assms(2) session_alone [OF F(2)]], unfold table result.inject prod.inject) blast
  have "row_scan F t root (fs_pager s2) = Ok es"
    using row_scan_law [OF F(1) calm_tree [OF run(3) tree] F(3,4)] .
  then have "visible_rows F t snapshot es = Ok existing" using run(5) by simp
  moreover have "primary_key_columns schema = [] \<or>
      list_all (\<lambda>(_, r). \<not> same_key (primary_key_columns schema) row r) existing"
    using primary_key_free [OF run(6)] by (fastforce simp: list_all_iff)
  ultimately show ?thesis using table run(1,2,4) validate_row_values_Ok by blast
qed

section \<open>Witnesses\<close>

text \<open>A table with one integer column as primary key, on page 2, in the session of \<open>demo_trees_pager\<close>.\<close>

definition demo_column :: "unit column" where
  "demo_column = \<lparr>cd_name = ''a'', cd_column_type = C_Integer, cd_nullable = False, cd_primary_key = True,
     cd_primary_key_sort_order = None, cd_default_value = None, cd_generated_expr = None,
     cd_checks = [], cd_foreign_key = None, cd_rest = ()\<rparr>"

definition demo_schema :: "unit table_schema" where
  "demo_schema = \<lparr>sc_name = ''t'', sc_columns = [demo_column], sc_checks = [], sc_foreign_keys = [],
     sc_primary_key_constraint = None, sc_unique_constraints = [], sc_strict = False, sc_without_rowid = False, sc_rest = ()\<rparr>"

definition demo_version_bytes :: "stored_row \<times> byte list" where
  "demo_version_bytes = (Versioned \<lparr>versions = [uncommitted_version [Integer 7] 1]\<rparr>, [1])"

definition demo_formats :: "unit formats" where
  "demo_formats = \<lparr>fm_row = (\<lambda>x. if x = fst demo_version_bytes then Ok [1] else Err (Serde ''unknown'')),
     fm_row_back = (\<lambda>b. if b = [1] then Ok (fst demo_version_bytes) else Err (Serde ''unknown'')),
     fm_node = demo_node_to_vec 1, fm_node_back = demo_node_from_slice 1,
     fm_index_node = demo_node_to_vec [5], fm_index_node_back = demo_node_from_slice [5],
     fm_catalog = (\<lambda>_. Err (Serde ''unknown'')), fm_catalog_back = (\<lambda>_. Err (Serde ''unknown'')),
     encode_index_key = (\<lambda>_. Ok [5]), decode_index_key = (\<lambda>_. Err (Serde ''unknown'')),
     encode_row_ids = (\<lambda>_. Ok [1]), decode_row_ids = (\<lambda>_. Ok [1]),
     fm_rules = \<lparr>sr_evaluate_atom = (\<lambda>_ _ _. Ok None), sr_strict_value = (\<lambda>_ v. Some v),
       sr_display = (\<lambda>_. []), sr_debug = (\<lambda>_. []), sr_now = Ok 0\<rparr>,
     fm_frames = 2, fm_steps = 1\<rparr>"

definition demo_catalog :: "unit catalog_state" where
  "demo_catalog = \<lparr>ct_schemas = [(''t'', demo_schema)], ct_table_roots = [(''t'', 2)], ct_next_row_ids = [(''t'', 1)],
     ct_indexes = [], ct_index_roots = []\<rparr>"

definition demo_storage :: "unit file_storage" where
  "demo_storage = \<lparr>fs_pager = demo_trees_pager, fs_catalog = demo_catalog, session_catalog_snapshots = [(1, demo_catalog)]\<rparr>"

lemma demo_ready: "table_ready demo_formats 1 1 ''t'' [] demo_storage"
proof -
  have "pager_tree (demo_node_from_slice 1) 1 demo_trees_pager 2 {2} []" by (rule demo_trees_stored) simp
  then show ?thesis
    unfolding table_ready_def
    by (auto simp: demo_formats_def demo_nodes_faithful demo_storage_def demo_catalog_def demo_trees_session
        table_schema_and_root_def indexes_for_table_def serde_faithful_def split: if_splits
        intro!: exI [of _ "{2}"])
qed

text \<open>The managers an insertion of transaction 1 goes through.\<close>

definition with_manager :: "txn_manager \<Rightarrow> 'x file_storage \<Rightarrow> 'x file_storage" where
  "with_manager tm s = s\<lparr>fs_pager := update_shared (\<lambda>sh. sh\<lparr>sh_manager := tm\<rparr>) (fs_pager s)\<rparr>"

lemma with_manager_simps [simp]:
  "with_manager tm' (with_manager tm s) = with_manager tm' s" "fs_manager (with_manager tm s) = tm"
  "fs_catalog (with_manager tm s) = fs_catalog s"
  "read_page q (fs_pager (with_manager tm s)) = read_page q (fs_pager s)"
  "update_catalog f (with_manager tm s) = with_manager tm (update_catalog f s)"
  by (simp_all add: with_manager_def fs_manager_def manager_of_def update_shared_def read_page_def cache_of_def
      update_catalog_def split: option.split)

lemma on_tm_with: "m (fs_manager s) = (r, tm) \<Longrightarrow> on_tm m s = (r, with_manager tm s)"
  by (simp add: on_tm_def on_pager_def on_manager_def with_manager_def fs_manager_def manager_of_def)

lemma wait_with:
  "request_lock t q (fs_manager s) = (Ok (), tm) \<Longrightarrow> on_pager (wait_for_lock t q) s = (Ok (), with_manager tm s)"
  by (simp add: wait_for_lock.simps on_pager_def on_manager_def with_manager_def fs_manager_def manager_of_def)

definition demo_m1 :: txn_manager where "demo_m1 = snd (request_lock 1 (Write_Request ''t'') demo_owner)"
definition demo_m2 :: txn_manager where "demo_m2 = snd (request_lock 1 (Conflict_Request ''t'' []) demo_m1)"
definition demo_m3 :: txn_manager where "demo_m3 = snd (refresh_snapshot 1 demo_m2)"
definition demo_m4 :: txn_manager where "demo_m4 = snd (allocate_row_id 1 ''t'' 1 demo_m3)"
definition demo_m5 :: txn_manager where "demo_m5 = snd (record_undo 1 (InsertRow ''t'' 1) demo_m4)"
definition demo_m6 :: txn_manager where "demo_m6 = snd (request_lock 1 (Read_Request ''t'') demo_m5)"

lemma demo_managers:
  "request_lock 1 (Write_Request ''t'') demo_owner = (Ok (), demo_m1)"
  "request_lock 1 (Conflict_Request ''t'' []) demo_m1 = (Ok (), demo_m2)"
  "tm_isolation_level 1 demo_m2 = Ok ReadCommitted"
  "refresh_snapshot 1 demo_m2 = (Ok \<lparr>visible_up_to = 0, active_txns = []\<rparr>, demo_m3)"
  "allocate_row_id 1 ''t'' 1 demo_m3 = (Ok 1, demo_m4)"
  "record_undo 1 (InsertRow ''t'' 1) demo_m4 = (Ok (), demo_m5)"
  "acquire_page_write 1 2 demo_m5 = (Ok (), demo_m5)"
  "request_lock 1 (Read_Request ''t'') demo_m5 = (Ok (), demo_m6)"
  by (code_simp, code_simp, code_simp, code_simp, code_simp, code_simp, code_simp, code_simp)

definition demo_work :: pager where
  "demo_work = update_shared (\<lambda>sh. sh\<lparr>sh_manager := demo_m5\<rparr>) demo_trees_pager"

lemma demo_work_wait: "wait_for_page_write_lock 1 2 demo_work = (Ok (), demo_work)"
  using wait_granted_at_once [of 1 2 demo_work demo_m5] demo_managers(7)
  by (simp add: manager_of_def demo_work_def update_shared_def)

lemma demo_work_insert:
  "row_insert demo_formats 1 2 1 [1] demo_work = (Ok 2, record_page_write 1 2 None (demo_page 1) demo_work)"
proof -
  have valid: "pager_validate_transaction 1 demo_work = Ok ()"
    by (simp add: pager_validate_transaction_def demo_work_def demo_trees_pager_def update_shared_def)
  have lock: "acquire_page_write_lock 1 2 demo_work = (Ok (), demo_work)"
    by (simp add: acquire_page_write_lock_def valid demo_work_wait)
  have same: "read_page 2 demo_work = read_page 2 demo_trees_pager"
    by (simp add: demo_work_def read_page_def update_shared_def cache_of_def split: option.split)
  have node: "read_node (demo_node_from_slice (1 :: u64)) 2 demo_work = Ok (LeafN leaf_empty)"
    unfolding read_node_cong [OF same] by (rule demo_read)
  have "\<not> mp_page_count (pg_meta demo_work) \<le> 2" "map_of (txn_page_states demo_work) 1 =
      Some [(2, \<lparr>pgw_before_image = None, pgw_after_image = demo_page 0\<rparr>),
        (3, \<lparr>pgw_before_image = None, pgw_after_image = demo_page 0\<rparr>)]"
    by (simp_all add: demo_work_def demo_trees_pager_def update_shared_def word_le_nat_alt)
  then have wr: "write_page 1 2 (demo_page 1) demo_work = (Ok (), record_page_write 1 2 None (demo_page 1) demo_work)"
    by (simp add: write_page_def sbind_def valid demo_work_wait demo_page_encoded(2))
  have "put_entry leaf_empty 1 [1] = [(1 :: u64, [1])]"
    using put_entry_sorted [of leaf_empty "1 :: u64" "[1]"] by (simp add: leaf_empty_def)
  then show ?thesis
    by (simp add: row_insert_def btree_insert_def demo_formats_def tree_insert_def sbind_def lock node insert_into_leaf_def
        LEAF_MAX_ENTRIES_def demo_write_nodes wr leaf_empty_def numeral_2_eq_2)
qed

lemma demo_insert:
  "insert_row demo_formats 1 ''t'' [Integer 7] demo_storage =
     (Ok 1, demo_storage\<lparr>fs_pager := record_page_write 1 2 None (demo_page 1) demo_work,
        fs_catalog := demo_catalog\<lparr>ct_next_row_ids := [(''t'', 2)]\<rparr>\<rparr>)"
proof -
  let ?c = "\<lambda>c. c\<lparr>ct_next_row_ids := bt_insert ''t'' (sat_add (1 :: u64) 1) (ct_next_row_ids c)\<rparr>"
  let ?s = "\<lambda>tm. with_manager tm demo_storage"
  have start: "fs_manager demo_storage = demo_owner" "fs_catalog demo_storage = demo_catalog"
    by (simp_all add: demo_storage_def fs_manager_def manager_of_def demo_trees_pager_def)
  have table: "table_schema_and_root ''t'' (?s tm) = Ok (demo_schema, 2)" "indexes_for_table ''t'' (?s tm) = Ok []" for tm
    by (simp_all add: table_schema_and_root_def indexes_for_table_def start demo_catalog_def)
  have valid: "validate_transaction 1 demo_storage = Ok ()"
    using demo_owner_granted(3) by (auto simp: validate_transaction_def start tm_txn_status_def rbind_eq_Ok)
  have checks: "check_row_length ''insert into '' ''t'' demo_schema [Integer 7] = Ok ()"
    "validate_row_values demo_schema [Integer 7] = Ok ()"
    "validate_check_constraints (fm_rules demo_formats) demo_schema [Integer 7] = Ok ()"
    "row_index_keys demo_schema [Integer 7] [] = Ok []"
    "validate_primary_key_uniqueness (fm_rules demo_formats) demo_schema [Integer 7] [] = Ok ()"
    by (simp_all add: check_row_length_def validate_row_values_def validate_check_constraints_def
        validate_check_constraints_with_like_mode_def row_index_keys_def
        validate_primary_key_uniqueness_def demo_schema_def demo_column_def validate_column_def primary_key_columns_def
        index_at_def)
  have tree: "pager_tree (fm_node_back demo_formats) 1 demo_trees_pager 2 {2} []"
    using demo_trees_stored [of 2 1] by (simp add: demo_formats_def)
  have "row_scan demo_formats 1 2 (fs_pager (?s tm)) = Ok []" for tm
    by (rule row_scan_law [OF _ pager_tree_frame [OF tree]])
       (simp_all add: demo_formats_def demo_nodes_faithful demo_storage_def pages_in_use_def with_manager_def
         update_shared_def read_page_def cache_of_def split: option.split)
  then have scan: "rbind (row_scan demo_formats 1 2 (fs_pager (?s tm))) (visible_rows demo_formats 1 snap) = Ok []" for tm snap
    by (simp add: visible_rows_def map_filter_simps)
  have bytes: "encode_uncommitted_row_version (fm_row demo_formats) [Integer 7] 1 = Ok [1]"
    by (simp add: encode_uncommitted_row_version_def demo_formats_def demo_version_bytes_def)
  have ids: "map_of (ct_next_row_ids demo_catalog) ''t'' = Some 1" by (simp add: demo_catalog_def)
  let ?s' = "demo_storage\<lparr>fs_pager := record_page_write 1 2 None (demo_page 1) demo_work,
        fs_catalog := demo_catalog\<lparr>ct_next_row_ids := [(''t'', 2)]\<rparr>\<rparr>"
  have wr: "on_pager (row_insert demo_formats 1 2 1 [1]) (with_manager demo_m5 (update_catalog ?c demo_storage)) = (Ok 2, ?s')"
    using demo_work_insert
    by (simp add: on_pager_def with_manager_def demo_storage_def update_catalog_def demo_work_def demo_catalog_def sat_add_def)
  have last: "indexes_for_table ''t'' ?s' = Ok []" by (simp add: indexes_for_table_def demo_catalog_def)
  note waits = wait_for_table_write_lock_def wait_for_write_conflicts_def wait_with on_tm_with snapshot_for_transaction_def
  show ?thesis
    by (simp add: insert_row_def valid table checks start demo_managers waits scan bytes ids wr last
        set_table_root_def del: request_lock.simps)
qed

theorem inserted_row_is_read_back_witness:
  "\<exists>s1 s2. insert_row demo_formats 1 ''t'' [Integer 7] demo_storage = (Ok 1, s1) \<and>
    get_row demo_formats 1 ''t'' 1 s1 = (Ok (Some [Integer 7]), s2)"
proof -
  let ?p = "record_page_write 1 2 None (demo_page 1) demo_work"
  have "manager_of ?p = demo_m5"
    by (simp add: record_page_write_def update_cache_def update_shared_def manager_of_def demo_work_def)
  then have "wait_for_table_read_lock 1 ''t'' ?p = (Ok (), update_shared (\<lambda>sh. sh\<lparr>sh_manager := demo_m6\<rparr>) ?p)"
    using demo_managers(8)
    by (simp add: wait_for_table_read_lock_def wait_for_lock.simps on_manager_def manager_of_def del: request_lock.simps)
  then show ?thesis using inserted_row_is_read_back [OF demo_ready demo_insert, of _ 1] demo_insert by auto
qed

theorem insert_accepts_only_valid_rows_witness:
  "\<exists>schema root. table_schema_and_root ''t'' demo_storage = Ok (schema, root) \<and>
     list_all2 (column_accepts schema) (sc_columns schema) [Integer 7]"
  using insert_accepts_only_valid_rows [OF demo_ready demo_insert] by blast

end
