(* ===== verification/V2_Storage_Txn.thy ===== *)
theory V2_Storage_Txn
  imports V2_Storage_Rows
begin

text \<open>
  Transactions of the paged engine: a rollback gives the session back the catalog it had at the begin,
  and a commit writes the catalog of the session, which every later session loads.
\<close>

section \<open>What the operations of a session keep\<close>

lemma keeps_on_pager:
  assumes "\<And>s p. Q s \<Longrightarrow> Q (s\<lparr>fs_pager := p\<rparr>)"
  shows "keeps Q (on_pager m)"
  using assms by (simp add: keeps_def on_pager_def split: prod.split)

lemma keeps_step: "keeps Q m \<Longrightarrow> m s = (r, s') \<Longrightarrow> Q s \<Longrightarrow> Q s'"
  using keepsD by fastforce

lemma keeps_smatch: "keeps Q m \<Longrightarrow> (\<And>a. keeps Q (ok a)) \<Longrightarrow> (\<And>e. keeps Q (err e)) \<Longrightarrow> keeps Q (smatch m ok err)"
proof (rule keepsI)
  fix s assume *: "keeps Q m" "\<And>a. keeps Q (ok a)" "\<And>e. keeps Q (err e)" and "Q s"
  obtain r s' where m: "m s = (r, s')" by fastforce
  with keepsD [OF *(1) \<open>Q s\<close>] have "Q s'" by simp
  with m show "Q (snd (smatch m ok err s))" by (cases r) (simp_all add: smatch_def keepsD [OF *(2)] keepsD [OF *(3)])
qed

lemma keeps_discard: "keeps Q m \<Longrightarrow> keeps Q (discard m)"
  by (simp add: discard_def keeps_smatch)

lemma keeps_cases [simp]:
  "(\<And>x. keeps Q (f x)) \<Longrightarrow> keeps Q g \<Longrightarrow> keeps Q (case x0 of None \<Rightarrow> g | Some x \<Rightarrow> f x)"
  "(\<And>x y. keeps Q (h x y)) \<Longrightarrow> keeps Q (case z of (x, y) \<Rightarrow> h x y)"
  "keeps Q m \<Longrightarrow> keeps Q m' \<Longrightarrow> keeps Q (if b then m else m')"
  by (simp_all split: option.split prod.split)

lemma keeps_Pair [simp]: "keeps Q (Pair r)"
  by (simp add: keeps_def)

lemma keeps_found:
  "(\<And>x y. keeps Q (f x y)) \<Longrightarrow>
     keeps Q (\<lambda>s. case r s of Ok (x, y) \<Rightarrow> f x y s | Err e \<Rightarrow> (g e, s) | Panic p \<Rightarrow> (h p, s))"
  by (simp add: keeps_def split: result.split prod.split)

lemma keeps_if_state: "keeps Q m \<Longrightarrow> keeps Q (\<lambda>s. if b s then m s else (r s, s))"
  by (simp add: keeps_def)

text \<open>The catalog changes only through \<open>update_catalog\<close>, the list of open transactions not at all.\<close>

definition opened :: "(txn_id, 'x catalog_state) hmap \<Rightarrow> 'x file_storage \<Rightarrow> bool" where
  "opened m s \<longleftrightarrow> session_catalog_snapshots s = m"

definition catalog_is :: "'x catalog_state \<Rightarrow> 'x file_storage \<Rightarrow> bool" where
  "catalog_is c s \<longleftrightarrow> fs_catalog s = c"

lemma opened_simps [simp]:
  "opened m (s\<lparr>fs_pager := p\<rparr>) = opened m s" "opened m (update_catalog f s) = opened m s"
  "catalog_is c (s\<lparr>fs_pager := p\<rparr>) = catalog_is c s"
  "catalog_is c (s\<lparr>session_catalog_snapshots := x\<rparr>) = catalog_is c s"
  by (simp_all add: opened_def update_catalog_def catalog_is_def)

lemma keeps_pager_ops [simp]:
  "keeps (opened m) (on_pager p)" "keeps (opened m) (on_tm q)" "keeps (opened m) (smodify (update_catalog f))"
  "keeps (catalog_is c) (on_pager p)" "keeps (catalog_is c) (on_tm q)"
  by (auto simp: on_tm_def intro!: keeps_on_pager keeps_smodify)

lemma keeps_on_tm_state [simp]: "keeps (opened m) (\<lambda>s. on_tm (q s) s)"
  by (simp add: keeps_def keepsD [OF keeps_pager_ops(2)])

lemma keeps_roots [simp]:
  "keeps (opened m) (set_table_root table old new)" "keeps (opened m) (set_index_root table name old new)"
  by (simp_all add: set_table_root_def set_index_root_def)

lemma keeps_snapshot_for_transaction [simp]: "keeps (opened m) (snapshot_for_transaction t)"
  unfolding snapshot_for_transaction_def by (intro keeps_sbind) simp_all

lemma keeps_visible [simp]: "keeps (opened m) (visible_row_at_root F t root row_id)"
  unfolding visible_row_at_root_def by (intro keeps_sbind) simp_all

lemma keeps_filter [simp]: "keeps (opened m) (filter_index_row_ids_for_key F t schema root index key ids)"
  by (induction F t schema root index key ids rule: filter_index_row_ids_for_key.induct) (auto intro!: keeps_sbind)

lemma keeps_rows_with_key [simp]: "keeps (opened m) (rows_with_key F t schema root index iroot key)"
  unfolding rows_with_key_def by (intro keeps_sbind keeps_cases) simp_all

lemma keeps_record_undos [simp]: "keeps (opened m) (record_undos t rs)"
  by (induction t rs rule: record_undos.induct) (auto intro!: keeps_sbind)

lemma keeps_rewrite_row [simp]: "keeps (opened m) (rewrite_row F t table root row_id updated)"
  unfolding rewrite_row_def by (intro keeps_cases keeps_sbind) simp_all

lemma keeps_check_unique_indexes [simp]: "keeps (opened m) (check_unique_indexes F t schema root row indexes)"
  by (induction F t schema root row indexes rule: check_unique_indexes.induct) (auto intro!: keeps_sbind)

lemma keeps_check_unique_changes [simp]: "keeps (opened m) (check_unique_changes F t schema root row_id changes)"
  by (induction F t schema root row_id changes rule: check_unique_changes.induct) (auto intro!: keeps_sbind)

lemma keeps_insert_index_entries [simp]: "keeps (opened m) (insert_index_entries F t table schema row row_id indexes)"
  by (induction F t table schema row row_id indexes rule: insert_index_entries.induct) (auto intro!: keeps_sbind)

lemma keeps_apply_index_changes [simp]: "keeps (opened m) (apply_index_changes F t table row_id changes)"
  by (induction F t table row_id changes rule: apply_index_changes.induct) (auto intro!: keeps_sbind)

lemma keeps_index_existing_rows [simp]: "keeps (opened m) (index_existing_rows F t schema index iroot rows)"
  by (induction F t schema index iroot rows rule: index_existing_rows.induct) (auto intro!: keeps_sbind)

lemma keeps_collect [simp]: "keeps (opened m) (collect_index_entries F t schema root index selected ids entries)"
  by (induction F t schema root index selected ids entries rule: collect_index_entries.induct) (auto intro!: keeps_sbind)

section \<open>Sequences of operations\<close>

text \<open>What a session does in a transaction; an operation that fails leaves what it has done so far.\<close>

datatype 'x session_op =
    Create_Schema "'x table_schema"
  | Drop_Schema string
  | Replace_Schema "'x table_schema"
  | Rename_Schema string string
  | Add_Column string "'x column"
  | Rename_Column string string string
  | Drop_Column string string
  | Insert_Row string row
  | Get_Row string row_id
  | Scan_Rows string
  | Delete_Row string row_id
  | Update_Row string row_id row
  | Create_Index string index_meta
  | Drop_Index string string
  | Lookup_Index string string "Value list"
  | Scan_Index_Prefix string string "Value list"
  | Scan_Index_Range string string "Value list" "bound option" "bound option"
  | Plan

fun run_op :: "'x formats \<Rightarrow> txn_id \<Rightarrow> 'x session_op \<Rightarrow> 'x file_storage \<Rightarrow> 'x file_storage" where
  "run_op F t (Create_Schema schema) s = snd (create_schema F t schema s)"
| "run_op F t (Drop_Schema name) s = snd (drop_schema t name s)"
| "run_op F t (Replace_Schema schema) s = snd (replace_schema t schema s)"
| "run_op F t (Rename_Schema old_name new_name) s = snd (rename_schema t old_name new_name s)"
| "run_op F t (Add_Column table column) s = snd (add_column F t table column s)"
| "run_op F t (Rename_Column table old_name new_name) s = snd (rename_column t table old_name new_name s)"
| "run_op F t (Drop_Column table old_name) s = snd (drop_column F t table old_name s)"
| "run_op F t (Insert_Row table row) s = snd (insert_row F t table row s)"
| "run_op F t (Get_Row table row_id) s = snd (get_row F t table row_id s)"
| "run_op F t (Scan_Rows table) s = snd (scan_rows F t table s)"
| "run_op F t (Delete_Row table row_id) s = snd (delete_row F t table row_id s)"
| "run_op F t (Update_Row table row_id row) s = snd (update_row F t table row_id row s)"
| "run_op F t (Create_Index table index) s = snd (create_index F t table index s)"
| "run_op F t (Drop_Index table name) s = snd (drop_index t table name s)"
| "run_op F t (Lookup_Index table name key) s = snd (lookup_index F t table name key s)"
| "run_op F t (Scan_Index_Prefix table name key) s = snd (scan_index_prefix F t table name key s)"
| "run_op F t (Scan_Index_Range table name key lo hi) s = snd (scan_index_range F t table name key lo hi s)"
| "run_op F t Plan s = snd (planning_context_snapshot F (Some t) s)"

definition run_ops :: "'x formats \<Rightarrow> txn_id \<Rightarrow> 'x session_op list \<Rightarrow> 'x file_storage \<Rightarrow> 'x file_storage" where
  "run_ops F t = fold (run_op F t)"

lemma keeps_schema_ops [simp]:
  "keeps (opened m) (create_schema F t schema)" "keeps (opened m) (drop_schema t name)"
  "keeps (opened m) (replace_schema t schema)" "keeps (opened m) (create_index F t table index)"
  "keeps (opened m) (drop_index t table name)"
  unfolding create_schema_def drop_schema_def replace_schema_def create_index_def drop_index_def
  by (intro keeps_sbind keeps_cases; simp)+

lemma keeps_insert_row [simp]: "keeps (opened m) (insert_row F t table row)"
  unfolding insert_row_def by (intro keeps_sbind keeps_cases; simp)

lemma keeps_reads [simp]: "keeps (opened m) (get_row F t table row_id)" "keeps (opened m) (scan_rows F t table)"
  unfolding get_row_def scan_rows_def by (intro keeps_sbind keeps_found; simp)+

lemma keeps_delete_row [simp]: "keeps (opened m) (delete_row F t table row_id)"
  unfolding delete_row_def by (intro keeps_sbind keeps_found keeps_cases; simp)

lemma keeps_extend_rows [simp]: "keeps (opened m) (extend_rows F t schema v root rows)"
  by (induction F t schema v root rows rule: extend_rows.induct) (auto intro!: keeps_sbind)

lemma keeps_delete_rows [simp]: "keeps (opened m) (delete_rows F t table deleted)"
  by (induction F t table deleted rule: delete_rows.induct) (auto intro!: keeps_sbind)

lemma keeps_reinsert_rows [simp]: "keeps (opened m) (reinsert_rows F t table removed inserted)"
  by (induction F t table removed inserted rule: reinsert_rows.induct) (auto intro!: keeps_sbind)

lemma keeps_alterations [simp]:
  "keeps (opened m) (rename_schema t old_name new_name)" "keeps (opened m) (add_column F t table column)"
  "keeps (opened m) (rename_column t table old_name new_name)" "keeps (opened m) (drop_column F t table old_name)"
  unfolding rename_schema_def add_column_def rename_column_def drop_column_def Let_def
  by (intro keeps_sbind keeps_cases; simp)+

lemma keeps_update_row [simp]: "keeps (opened m) (update_row F t table row_id row)"
  unfolding update_row_def update_existing_row_def by (intro keeps_sbind keeps_cases; simp)

lemma keeps_index_reads [simp]:
  "keeps (opened m) (lookup_index F t table name key)" "keeps (opened m) (scan_index_prefix F t table name key)"
  "keeps (opened m) (scan_index_range F t table name key lo hi)"
  unfolding lookup_index_def scan_index_prefix_def scan_index_range_def by (intro keeps_sbind keeps_cases; simp)+

lemma keeps_plan [simp]: "keeps (opened m) (planning_context_snapshot F u)"
  unfolding planning_context_snapshot_def planning_catalog_snapshot_def
  by (intro keeps_sbind keeps_cases keeps_if_state; simp)

lemma opened_run_op: "opened m s \<Longrightarrow> opened m (run_op F t op s)"
  by (cases op) (simp_all add: keepsD)

lemma opened_run_ops: "opened m s \<Longrightarrow> opened m (run_ops F t ops s)"
  by (induction ops arbitrary: s) (simp_all add: run_ops_def opened_run_op)

section \<open>Purge and undo\<close>

lemma keeps_purge_deleted_row [simp]: "keeps (catalog_is c) (purge_deleted_row F t table row_id horizon)"
  unfolding purge_deleted_row_def [abs_def] Let_def by (intro keeps_found keeps_sbind keeps_cases; simp)

lemma keeps_purge_row_versions [simp]: "keeps (catalog_is c) (purge_row_versions F t horizon batch)"
proof (induction F t horizon batch rule: purge_row_versions.induct)
  case (2 F t horizon u r rest)
  have "keeps (catalog_is c) (purge_record F t horizon r)" by (cases r) simp_all
  with 2 show ?case by (simp add: keeps_sbind)
qed simp

lemma keeps_run_purge [simp]: "keeps (catalog_is c) (run_purge F horizon batch)"
proof (rule keepsI)
  fix s :: "'a file_storage" assume "catalog_is c s"
  moreover obtain t tm where "tm_begin ReadCommitted (fs_manager s) = (t, tm)" by fastforce
  moreover have "keeps (catalog_is c) (sbind (on_tm (smodify (\<lambda>_. tm))) (\<lambda>_.
          smatch (on_pager (begin_with_txn_id t))
            (\<lambda>_. smatch (purge_row_versions F t horizon batch)
              (\<lambda>_. sbind (on_tm (tm_commit t)) (\<lambda>_.
                   sbind (on_pager (pager_commit t)) (\<lambda>_.
                   sbind (on_tm (complete_purge_batch batch)) (\<lambda>_. on_tm (smodify (purge_finished_transactions_up_to horizon))))))
              (\<lambda>e. sbind (discard (on_pager (pager_rollback t))) (\<lambda>_.
                   sbind (discard (on_tm (tm_abort t))) (\<lambda>_.
                   sbind (on_tm (smodify (purge_finished_transactions_up_to horizon))) (\<lambda>_. sfail e)))))
            (\<lambda>e. sbind (discard (on_tm (tm_abort t))) (\<lambda>_.
                 sbind (on_tm (smodify (purge_finished_transactions_up_to horizon))) (\<lambda>_. sfail e)))))"
    by (intro keeps_sbind keeps_smatch keeps_discard; simp)
  ultimately show "catalog_is c (snd (run_purge F horizon batch s))"
    by (simp add: run_purge_def Let_def keepsD)
qed

lemma keeps_maybe_purge [simp]: "keeps (catalog_is c) (maybe_purge_garbage F)"
proof (rule keepsI)
  fix s :: "'a file_storage" assume start: "catalog_is c s"
  let ?h = "purge_horizon (fs_manager s)"
  have "keeps (catalog_is c) (\<lambda>s. let history = history_list_length (fs_manager s) in
        if history = 0 then (Ok (), s)
        else
          let batch_size = max 1 (min 8 (ilog2 history + 1));
              batch = planned_purge_batch ?h batch_size (fs_manager s)
          in if batch = [] then on_tm (smodify (purge_finished_transactions_up_to ?h)) s
             else run_purge F ?h batch s)"
    by (rule keepsI) (simp add: Let_def keepsD [OF keeps_run_purge] keepsD [OF keeps_pager_ops(5)])
  then have "keeps (catalog_is c) (sbind (on_tm (smodify (purge_finished_transactions_up_to ?h)))
    (\<lambda>_ s. let history = history_list_length (fs_manager s) in
        if history = 0 then (Ok (), s)
        else
          let batch_size = max 1 (min 8 (ilog2 history + 1));
              batch = planned_purge_batch ?h batch_size (fs_manager s)
          in if batch = [] then on_tm (smodify (purge_finished_transactions_up_to ?h)) s
             else run_purge F ?h batch s))"
    by (intro keeps_sbind) simp_all
  from keepsD [OF this start] show "catalog_is c (snd (maybe_purge_garbage F s))"
    unfolding maybe_purge_garbage_def Let_def .
qed

lemma keeps_undo_step [simp]: "keeps (opened m) (undo_record_step F t r)"
proof (rule keepsI)
  fix s :: "'a file_storage" assume "opened m s"
  then show "opened m (snd (undo_record_step F t r s))"
    by (cases r)
       (auto simp: keepsD keeps_sbind split: result.split intro!: keepsD [of "opened m"] keeps_sbind)
qed

lemma keeps_undo_loop [simp]: "keeps (opened m) (undo_loop F t records)"
  by (induction F t records rule: undo_loop.induct) (auto intro!: keeps_sbind)

abbreviation storage_wf :: "'x file_storage \<Rightarrow> bool" where
  "storage_wf s \<equiv> pager_wf (fs_pager s)"

lemma snd_on_pager: "snd (on_pager m s) = s\<lparr>fs_pager := snd (m (fs_pager s))\<rparr>"
  by (simp add: on_pager_def split: prod.split)

lemma keeps_wf [simp]: "keeps pager_wf m \<Longrightarrow> keeps storage_wf (on_pager m)" "keeps storage_wf (on_tm q)"
  by (simp_all add: keeps_def on_tm_def snd_on_pager pager_wf_on_manager)

lemma keeps_sync [simp]:
  "keeps (opened m) (sync_transaction_page_writes t)" "keeps (catalog_is c) (sync_transaction_page_writes t)"
  "keeps storage_wf (sync_transaction_page_writes t)"
  unfolding sync_transaction_page_writes_def by (intro keeps_sbind; simp)+

lemma begin_opens:
  assumes "begin_with_isolation level s = (Ok t, s1)"
  shows "opened (hm_insert t (fs_catalog s) (session_catalog_snapshots s)) s1"
proof -
  obtain u tm where tm: "tm_begin level (fs_manager s) = (u, tm)" by fastforce
  obtain sa where sa: "on_tm (smodify (\<lambda>_. tm)) s = (Ok (), sa)" "fs_catalog sa = fs_catalog s"
    "session_catalog_snapshots sa = session_catalog_snapshots s"
    by (simp add: on_tm_def on_pager_def on_manager_def)
  obtain r p where p: "begin_with_txn_id u (fs_pager sa) = (r, p)" by fastforce
  show ?thesis
  proof (cases r)
    case (Err e)
    have "discard (on_tm (tm_abort u)) s' \<noteq> (Err e', s'')" for e' s' and s'' :: "'a file_storage"
      by (simp add: discard_def smatch_def split: prod.split result.split)
    with assms tm sa p Err show ?thesis
      by (auto simp: begin_with_isolation_def smatch_def on_pager_def sbind_eq_Ok)
  qed (use assms tm sa p in \<open>auto simp: begin_with_isolation_def smatch_def on_pager_def opened_def\<close>)
qed

lemma rollback_ends:
  assumes "fs_rollback F t s = (Ok (), s2)" "opened m s"
  obtains sa where "opened m sa" "maybe_purge_garbage F (restore_catalog t sa) = (Ok (), s2)"
proof -
  obtain status a sa where run: "(case status of
         Active \<Rightarrow>
           sbind (sync_transaction_page_writes t) (\<lambda>_.
           sbind (replay_undo_records F t) (\<lambda>_.
           sbind (on_pager (pager_rollback t)) (\<lambda>_. on_tm (tm_abort t))))
       | Aborted \<Rightarrow>
           sbind (on_tm (take_undo_records t)) (\<lambda>_. on_tm (clear_terminal_error t))
       | Committed \<Rightarrow> sfail (not_active t)) s = (Ok a, sa)"
    and purge: "maybe_purge_garbage F (restore_catalog t sa) = (Ok (), s2)"
    using assms(1) unfolding fs_rollback_def sbind_eq_Ok smodify_apply sget_apply prod.inject by blast
  have "keeps (opened m) (case status of
         Active \<Rightarrow>
           sbind (sync_transaction_page_writes t) (\<lambda>_.
           sbind (replay_undo_records F t) (\<lambda>_.
           sbind (on_pager (pager_rollback t)) (\<lambda>_. on_tm (tm_abort t))))
       | Aborted \<Rightarrow>
           sbind (on_tm (take_undo_records t)) (\<lambda>_. on_tm (clear_terminal_error t))
       | Committed \<Rightarrow> sfail (not_active t))"
    by (cases status) (auto simp: replay_undo_records_def intro!: keeps_sbind)
  from keepsD [OF this assms(2)] run purge show ?thesis using that by simp
qed

section \<open>Properties\<close>

text \<open>
  Property C14: rollback restores the catalog. Whatever a session has done in a transaction, schema and
  index changes, insertions that moved the roots of trees, operations that failed half-way, and whatever
  it has read meanwhile from the catalogs of others: after a successful rollback its catalog is the one
  it had when the transaction began.
\<close>

theorem rollback_restores_catalog:
  assumes "begin_with_isolation level s = (Ok t, s1)" "fs_rollback F t (run_ops F t ops s1) = (Ok (), s2)"
  shows "fs_catalog s2 = fs_catalog s"
proof -
  let ?m = "hm_insert t (fs_catalog s) (session_catalog_snapshots s)"
  obtain sa where ended: "opened ?m sa" and purge: "maybe_purge_garbage F (restore_catalog t sa) = (Ok (), s2)"
    by (rule rollback_ends [OF assms(2) opened_run_ops [OF begin_opens [OF assms(1)]]])
  have "catalog_is (fs_catalog s) (restore_catalog t sa)"
    using ended by (simp add: catalog_is_def restore_catalog_def opened_def)
  from keepsD [OF keeps_maybe_purge this, of F] purge show ?thesis by (simp add: catalog_is_def)
qed

section \<open>Commit\<close>

text \<open>Tree insertions keep what the operations of the store keep.\<close>

lemma keeps_insert_into_page:
  assumes "\<And>p. keeps Q (st_lock P p)" "\<And>p n. keeps Q (st_write P p n)" "keeps Q (st_alloc_leaf P)" "keeps Q (st_alloc_internal P)"
  shows "keeps Q (insert_into_page d P p k v)"
proof (induction d arbitrary: p)
  case (Suc d)
  have "keeps Q (insert_into_leaf P p leaf k v)" for leaf
    unfolding insert_into_leaf_def Let_def by (intro keeps_cases keeps_sbind; simp add: assms)
  moreover have "keeps Q (insert_child P p internal i split)" for internal i split
    unfolding insert_child_def Let_def by (intro keeps_cases keeps_sbind; simp add: assms)
  ultimately show ?case
    using Suc assms(1) by (auto intro!: keeps_sbind split: node.split option.split)
qed simp

lemma keeps_tree_insert:
  assumes "\<And>p. keeps Q (st_lock P p)" "\<And>p n. keeps Q (st_write P p n)" "keeps Q (st_alloc_leaf P)" "keeps Q (st_alloc_internal P)"
  shows "keeps Q (tree_insert d P root k v)"
  unfolding tree_insert_def by (intro keeps_sbind keeps_cases; simp add: assms keeps_insert_into_page)

lemma keeps_row_insert [simp]: "keeps pager_wf (row_insert F t root row_id bytes)"
  unfolding row_insert_def btree_insert_def
  by (rule keeps_tree_insert)
     (simp_all add: keeps_acquire_page_write_lock keeps_allocate write_node_def keeps_sbind keeps_write_page)

lemma keeps_finalize_rows:
  "keeps storage_wf (finalize_rows F t ts root rows)" "keeps (catalog_is c) (finalize_rows F t ts root rows)"
  by (induction F t ts root rows rule: finalize_rows.induct; simp add: keeps_sbind)+

lemma keeps_finalize_tables:
  "keeps storage_wf (finalize_tables F t ts roots)" "keeps (catalog_is c) (finalize_tables F t ts roots)"
  by (induction F t ts roots rule: finalize_tables.induct; simp add: keeps_sbind keeps_finalize_rows)+

lemma keeps_finalize:
  "keeps storage_wf (finalize_transaction_row_versions F t ts)" "keeps (catalog_is c) (finalize_transaction_row_versions F t ts)"
  by (simp_all add: keeps_def finalize_transaction_row_versions_def keepsD [OF keeps_finalize_tables(1)]
      keepsD [OF keeps_finalize_tables(2)])

lemma write_page_recorded:
  assumes "write_page t p page s = (Ok (), s')"
  obtains st w where "map_of (txn_page_states s') t = Some st" "(p, w) \<in> set st" "pgw_after_image w = page"
proof -
  obtain before s1 st where s': "s' = record_page_write t p before page s1"
    and st: "map_of (txn_page_states s1) t = Some st"
    using assms unfolding write_page_def
    by (auto elim!: sbind_eq_OkE split: if_splits option.splits result.splits simp: no_page_state_def)
  let ?w = "\<lparr>pgw_before_image = before, pgw_after_image = page\<rparr>"
  have "map_of (bt_insert p ?w st) p = Some ?w" by simp
  then have "(p, ?w) \<in> set (bt_insert p ?w st)" by (rule map_of_SomeD)
  moreover have "map_of (txn_page_states s') t = Some (bt_insert p ?w st)"
    by (simp add: s' record_page_write_def st)
  ultimately show ?thesis using that by fastforce
qed

text \<open>What the code relies on in \<open>serde_json\<close> for catalogs; a catalog is an object, never the empty string.\<close>

definition catalog_faithful :: "'x formats \<Rightarrow> bool" where
  "catalog_faithful F \<longleftrightarrow> (\<forall>c b. fm_catalog F c = Ok b \<longrightarrow> b \<noteq> [] \<and> fm_catalog_back F b = Ok c)"

lemma load_stored:
  assumes "catalog_faithful F" "fm_catalog F c = Ok b" "encode_payload_page Catalog b = Ok page" "read_page 1 p = Ok page"
  shows "load_catalog (fm_catalog_back F) p = Ok c"
  using assms decode_encode_payload [OF assms(3)] by (auto simp: load_catalog_def catalog_faithful_def)


section \<open>Witnesses\<close>

text \<open>A session with one table and no transaction; it begins one, drops the table and rolls back.\<close>

definition demo_idle :: "unit file_storage" where
  "demo_idle = \<lparr>fs_pager = \<lparr>pg_shared = \<lparr>sh_manager = with_next_txn_id 1, sh_cache = [], sh_db = [], sh_wal = []\<rparr>,
      pg_meta = bootstrap_meta, committed_page_count = 2, txn_page_states = [], pg_others = []\<rparr>,
    fs_catalog = demo_catalog, session_catalog_snapshots = []\<rparr>"

definition demo_begun :: "txn_manager \<Rightarrow> unit catalog_state \<Rightarrow> unit file_storage" where
  "demo_begun tm c = \<lparr>fs_pager = \<lparr>pg_shared = \<lparr>sh_manager = tm, sh_cache = [], sh_db = [], sh_wal = []\<rparr>,
      pg_meta = bootstrap_meta\<lparr>mp_next_txn_id := 2\<rparr>, committed_page_count = 2, txn_page_states = [(1, [])], pg_others = []\<rparr>,
    fs_catalog = c, session_catalog_snapshots = [(1, demo_catalog)]\<rparr>"

definition demo_r1 :: txn_manager where "demo_r1 = snd (request_lock 1 (Exclusive_Request ''t'') demo_manager)"
definition demo_r2 :: txn_manager where "demo_r2 = snd (replace_page_write_set 1 [] demo_r1)"
definition demo_r3 :: txn_manager where "demo_r3 = snd (take_undo_records 1 demo_r2)"
definition demo_r4 :: txn_manager where "demo_r4 = snd (release_transaction_resources 1 demo_r3)"
definition demo_r5 :: txn_manager where "demo_r5 = snd (tm_abort 1 demo_r4)"

lemma demo_rollback_managers:
  "tm_begin ReadCommitted (with_next_txn_id 1) = (1, demo_manager)"
  "tm_txn_status 1 demo_manager = Ok Active"
  "request_lock 1 (Exclusive_Request ''t'') demo_manager = (Ok (), demo_r1)"
  "tm_txn_status 1 demo_r1 = Ok Active"
  "replace_page_write_set 1 [] demo_r1 = (Ok (), demo_r2)"
  "take_undo_records 1 demo_r2 = (Ok [], demo_r3)"
  "release_transaction_resources 1 demo_r3 = (Ok (), demo_r4)"
  "tm_abort 1 demo_r4 = (Ok (), demo_r5)"
  "history_list_length (purge_finished_transactions_up_to (purge_horizon demo_r5) demo_r5) = 0"
  by (code_simp, code_simp, code_simp, code_simp, code_simp, code_simp, code_simp, code_simp, code_simp)

lemma demo_begin: "begin_with_isolation ReadCommitted demo_idle = (Ok 1, demo_begun demo_manager demo_catalog)"
proof -
  have "fs_manager demo_idle = with_next_txn_id 1" by (simp add: demo_idle_def fs_manager_def manager_of_def)
  moreover have "max (1 :: u64) (sat_add 1 1) = 2" by (simp add: sat_add_def max_def)
  ultimately show ?thesis
    by (simp add: begin_with_isolation_def demo_rollback_managers(1) smatch_def on_tm_def on_pager_def on_manager_def
        begin_with_txn_id_def demo_idle_def demo_begun_def update_shared_def hm_insert_def bootstrap_meta_def)
qed

definition demo_dropped :: "unit catalog_state" where
  "demo_dropped = \<lparr>ct_schemas = [], ct_table_roots = [], ct_next_row_ids = [], ct_indexes = [], ct_index_roots = []\<rparr>"

lemma demo_begun_simps [simp]:
  "fs_manager (demo_begun tm c) = tm" "with_manager tm' (demo_begun tm c) = demo_begun tm' c"
  "fs_catalog (demo_begun tm c) = c" "update_catalog f (demo_begun tm c) = demo_begun tm (f c)"
  by (simp_all add: demo_begun_def fs_manager_def manager_of_def with_manager_def update_shared_def update_catalog_def)

lemma demo_drop: "run_ops demo_formats 1 [Drop_Schema ''t''] (demo_begun demo_manager demo_catalog) = demo_begun demo_r1 demo_dropped"
proof -
  have "validate_transaction 1 (demo_begun demo_manager demo_catalog) = Ok ()"
    using demo_rollback_managers(2) by (auto simp: validate_transaction_def tm_txn_status_def rbind_eq_Ok)
  then show ?thesis
    by (simp add: run_ops_def drop_schema_def wait_for_table_exclusive_lock_def wait_with demo_rollback_managers(3)
        demo_catalog_def demo_dropped_def bt_remove_def del: request_lock.simps)
qed

lemma demo_rolled_back: "fst (fs_rollback demo_formats 1 (demo_begun demo_r1 demo_dropped)) = Ok ()"
proof -
  have page_state: "pending_page_writes 1 (fs_pager (demo_begun tm c)) = Ok []"
    "pager_validate_transaction 1 (fs_pager (demo_begun tm c)) = Ok ()" for tm c
    by (simp_all add: pending_page_writes_def pager_validate_transaction_def demo_begun_def)
  have sync: "sync_transaction_page_writes 1 (demo_begun demo_r1 demo_dropped) = (Ok (), demo_begun demo_r2 demo_dropped)"
    by (simp add: sync_transaction_page_writes_def page_state on_tm_with demo_rollback_managers(5))
  have replay: "replay_undo_records demo_formats 1 (demo_begun demo_r2 demo_dropped) = (Ok (), demo_begun demo_r3 demo_dropped)"
    by (simp add: replay_undo_records_def on_tm_with demo_rollback_managers(6))
  have dropped: "sh_manager (pg_shared (drop_page_writes 1 (fs_pager (demo_begun tm c)))) = tm" for tm c
    by (simp add: demo_begun_def drop_page_writes_def Let_def set_page_count_def update_cache_def update_shared_def)
  obtain s where undone: "on_pager (pager_rollback 1) (demo_begun demo_r3 demo_dropped) = (Ok (), s)" "fs_manager s = demo_r4"
    by (simp add: on_pager_def pager_rollback_def page_state on_manager_def dropped demo_rollback_managers(7)
        update_shared_def fs_manager_def manager_of_def)
  have "fs_manager (restore_catalog 1 (with_manager demo_r5 s)) = demo_r5"
    by (simp add: restore_catalog_def with_manager_def fs_manager_def manager_of_def update_shared_def split: option.split)
  then have "fst (maybe_purge_garbage demo_formats (restore_catalog 1 (with_manager demo_r5 s))) = Ok ()"
    by (simp add: maybe_purge_garbage_def on_tm_with demo_rollback_managers(9))
  then show ?thesis
    by (simp add: fs_rollback_def demo_rollback_managers(4) sync replay undone on_tm_with demo_rollback_managers(8))
qed

theorem rollback_restores_catalog_witness:
  "\<exists>s1 s2. begin_with_isolation ReadCommitted demo_idle = (Ok 1, s1) \<and>
    fs_rollback demo_formats 1 (run_ops demo_formats 1 [Drop_Schema ''t''] s1) = (Ok (), s2) \<and>
    fs_catalog (run_ops demo_formats 1 [Drop_Schema ''t''] s1) = demo_dropped \<and> fs_catalog s2 = demo_catalog"
proof -
  let ?s = "run_ops demo_formats 1 [Drop_Schema ''t''] (demo_begun demo_manager demo_catalog)"
  obtain s2 where s2: "fs_rollback demo_formats 1 ?s = (Ok (), s2)"
    using demo_rolled_back unfolding demo_drop by (metis prod.collapse)
  have "fs_catalog s2 = fs_catalog demo_idle" by (rule rollback_restores_catalog [OF demo_begin s2])
  then show ?thesis using demo_begin s2 demo_drop by (simp add: demo_idle_def)
qed


text \<open>Transaction 1 of \<open>demo_session\<close> commits an empty catalog.\<close>

definition demo_catalog_formats :: "unit formats" where
  "demo_catalog_formats = demo_formats\<lparr>
     fm_catalog := (\<lambda>c. if c = catalog_default then Ok [9] else Err (Serde ''unknown'')),
     fm_catalog_back := (\<lambda>b. if b = [9] then Ok catalog_default else Err (Serde ''unknown''))\<rparr>"

definition demo_catalog_page :: "byte list" where
  "demo_catalog_page = (case encode_payload_page Catalog [9] of Ok page \<Rightarrow> page | _ \<Rightarrow> [])"

lemma demo_catalog_page:
  "encode_payload_page Catalog [9] = Ok demo_catalog_page" "length demo_catalog_page = PAGE_SIZE"
proof -
  have "\<exists>page. encode_payload_page Catalog [9] = Ok page"
    by (simp add: encode_payload_page_Ok_iff page_layout)
  then show enc: "encode_payload_page Catalog [9] = Ok demo_catalog_page" by (auto simp: demo_catalog_page_def)
  show "length demo_catalog_page = PAGE_SIZE" by (rule length_encode_payload_page [OF enc])
qed

definition demo_c1 :: txn_manager where "demo_c1 = snd (replace_page_write_set 1 [] demo_manager)"
definition demo_c2 :: txn_manager where "demo_c2 = snd (reserve_commit_ts 1 demo_c1)"
definition demo_c3 :: txn_manager where "demo_c3 = snd (acquire_page_write 1 1 demo_c2)"
definition demo_c4 :: txn_manager where "demo_c4 = snd (release_transaction_resources 1 demo_c3)"
definition demo_c5 :: txn_manager where "demo_c5 = snd (finalize_commit 1 1 demo_c4)"

lemma demo_commit_managers:
  "replace_page_write_set 1 [] demo_manager = (Ok (), demo_c1)"
  "reserve_commit_ts 1 demo_c1 = (Ok 1, demo_c2)"
  "acquire_page_write 1 1 demo_c2 = (Ok (), demo_c3)"
  "release_transaction_resources 1 demo_c3 = (Ok (), demo_c4)"
  "finalize_commit 1 1 demo_c4 = (Ok (), demo_c5)"
  "history_list_length (purge_finished_transactions_up_to (purge_horizon demo_c5) demo_c5) = 0"
  by (code_simp, code_simp, code_simp, code_simp, code_simp, code_simp)

definition demo_committing :: "unit file_storage" where
  "demo_committing = \<lparr>fs_pager = demo_session, fs_catalog = catalog_default, session_catalog_snapshots = [(1, catalog_default)]\<rparr>"

lemma demo_committed: "fst (fs_commit demo_catalog_formats 1 demo_committing) = Ok ()"
proof -
  let ?s = "\<lambda>tm. with_manager tm demo_committing"
  let ?p = "fs_pager (?s demo_c2)"
  have start: "fs_manager demo_committing = demo_manager" "fs_catalog demo_committing = catalog_default"
    by (simp_all add: demo_committing_def fs_manager_def manager_of_def demo_session_def)
  have valid: "validate_transaction 1 demo_committing = Ok ()"
    using demo_rollback_managers(2) by (auto simp: validate_transaction_def start tm_txn_status_def rbind_eq_Ok)
  have pending: "pending_page_writes 1 (fs_pager demo_committing) = Ok []"
    by (simp add: pending_page_writes_def pager_validate_transaction_def demo_committing_def demo_session_def)
  have sync: "sync_transaction_page_writes 1 demo_committing = (Ok (), ?s demo_c1)"
    using pending by (simp add: sync_transaction_page_writes_def on_tm_with start demo_commit_managers(1))
  let ?q = "record_page_write 1 1 (Some (replicate PAGE_SIZE 1)) demo_catalog_page
      (update_shared (\<lambda>sh. sh\<lparr>sh_manager := demo_c3\<rparr>) ?p)"
  have "wait_for_page_write_lock 1 1 ?p = (Ok (), update_shared (\<lambda>sh. sh\<lparr>sh_manager := demo_c3\<rparr>) ?p)"
    by (rule wait_granted_at_once) (simp add: with_manager_def manager_of_def update_shared_def demo_commit_managers(3))
  then have wr: "write_page 1 1 demo_catalog_page ?p = (Ok (), ?q)"
    by (simp add: write_page_def sbind_def pager_validate_transaction_def demo_committing_def demo_session_def
        bootstrap_meta_def with_manager_def update_shared_def current_before_image_def cache_of_def read_raw_page_def
        get_range_def demo_catalog_page(2))
  have final: "finalize_transaction_row_versions demo_catalog_formats 1 1 (?s demo_c2) = (Ok (), ?s demo_c2)"
    by (simp add: finalize_transaction_row_versions_def start catalog_default_def)
  have store: "on_pager (store_catalog (fm_catalog demo_catalog_formats) 1 catalog_default) (?s demo_c2) =
      (Ok (), (?s demo_c2)\<lparr>fs_pager := ?q\<rparr>)"
    by (simp add: on_pager_def store_catalog_def demo_catalog_formats_def demo_catalog_page(1) wr)
  have "pager_wf ?p"
    by (simp add: pager_wf_def demo_committing_def demo_session_def with_manager_def update_shared_def hm_wf_def
        page_state_wf_def bt_wf_def)
  with keepsD [OF keeps_write_page, of ?p 1 1 demo_catalog_page] have wf: "pager_wf ?q" by (simp add: wr)
  obtain st w where st: "map_of (txn_page_states ?q) 1 = Some st" "(1, w) \<in> set st" "pgw_after_image w = demo_catalog_page"
    by (rule write_page_recorded [OF wr])
  have "sh_manager (pg_shared (after_commit 1 st ?q)) = demo_c3"
    by (simp add: after_commit_def Let_def set_page_count_def record_page_write_def update_cache_def update_shared_def)
  then obtain p where commit: "pager_commit 1 ?q = (Ok (), p)" "manager_of p = demo_c4"
    unfolding pager_commit_effect [OF st(1) pager_wf_state [OF wf st(1)]]
    by (simp add: on_manager_def demo_commit_managers(4) manager_of_def update_shared_def)
  let ?m = "(with_manager demo_c5 ((?s demo_c2)\<lparr>fs_pager := p\<rparr>))"
  have "fst (maybe_purge_garbage demo_catalog_formats (?m\<lparr>session_catalog_snapshots := x\<rparr>)) = Ok ()" for x
  proof -
    have "fs_manager (?m\<lparr>session_catalog_snapshots := x\<rparr>) = demo_c5"
      by (simp add: fs_manager_def manager_of_def with_manager_def update_shared_def)
    then show ?thesis by (simp add: maybe_purge_garbage_def on_tm_with demo_commit_managers(6))
  qed
  moreover have "on_pager (pager_commit 1) ((?s demo_c2)\<lparr>fs_pager := ?q\<rparr>) = (Ok (), (?s demo_c2)\<lparr>fs_pager := p\<rparr>)"
    by (simp add: on_pager_def commit(1))
  moreover have "on_tm (finalize_commit 1 1) ((?s demo_c2)\<lparr>fs_pager := p\<rparr>) = (Ok (), ?m)"
    by (rule on_tm_with) (simp add: fs_manager_def commit(2) demo_commit_managers(5))
  ultimately show ?thesis
    by (simp add: fs_commit_def valid sync on_tm_with demo_commit_managers(2) final start store)
qed


end
