(* ===== verification/Memory_Engine.thy ===== *)
theory Memory_Engine
  imports Schemas
begin

text \<open>
  The in-memory engine, \<open>MemoryStorage\<close> of \<open>src/storage/memory.rs\<close>: tables and indexes as maps, one
  transaction at a time with a log of undo operations, and savepoints as positions in that log. An
  operation that fails keeps what it had changed before the failure, as in the source.
\<close>

section \<open>State\<close>

record index_state =
  ix_meta :: index_meta
  ix_entries :: "(Value list, row_id btset) btmap"

type_synonym mem_rows = "(row_id, row) btmap"
type_synonym mem_indexes = "(string, index_state) btmap"

datatype 'x undo_op =
    U_DropSchema string
  | U_DropIndex string string
  | U_RestoreTable "'x table_schema" mem_rows mem_indexes "u64 option"
  | U_RestoreIndex string string index_state
  | U_DeleteRow string row_id
  | U_ReinsertRow string row_id row
  | U_RestoreRow string row_id row

record savepoint =
  sp_name :: string
  sp_undo_len :: nat

record 'x active_transaction =
  at_id :: txn_id
  at_undo_log :: "'x undo_op list"
  at_savepoints :: "savepoint list"

record 'x memory =
  ms_schemas :: "(string, 'x table_schema) hmap"
  ms_rows :: "(string, mem_rows) hmap"
  ms_indexes :: "(string, mem_indexes) hmap"
  ms_next_row_ids :: "(string, u64) hmap"
  ms_next_txn_id :: u64
  ms_active_txn :: "'x active_transaction option"
  ms_user_version :: u32
  ms_application_id :: u32
  ms_schema_version :: u32
  ms_ignore_check_constraints :: bool
  ms_case_sensitive_like :: bool

type_synonym ('x, 'a) ms_oper = "('x memory, 'a) oper"

definition memory_default :: "'x memory" where
  "memory_default = \<lparr>ms_schemas = [], ms_rows = [], ms_indexes = [], ms_next_row_ids = [], ms_next_txn_id = 1,
     ms_active_txn = None, ms_user_version = 0, ms_application_id = 0, ms_schema_version = 0,
     ms_ignore_check_constraints = False, ms_case_sensitive_like = False\<rparr>"

text \<open>\<open>m.get(k).cloned().unwrap_or_default()\<close> for a map of lists.\<close>

definition get_or_empty :: "('k \<times> 'v list) list \<Rightarrow> 'k \<Rightarrow> 'v list" where
  "get_or_empty m k = (case map_of m k of None \<Rightarrow> [] | Some v \<Rightarrow> v)"

section \<open>Settings\<close>

definition mem_set_user_version :: "u32 \<Rightarrow> ('x, unit) ms_oper" where
  "mem_set_user_version version = smodify (\<lambda>s. s\<lparr>ms_user_version := version\<rparr>)"

definition mem_set_application_id :: "u32 \<Rightarrow> ('x, unit) ms_oper" where
  "mem_set_application_id application_id = smodify (\<lambda>s. s\<lparr>ms_application_id := application_id\<rparr>)"

definition mem_set_schema_version :: "u32 \<Rightarrow> ('x, unit) ms_oper" where
  "mem_set_schema_version schema_version = smodify (\<lambda>s. s\<lparr>ms_schema_version := schema_version\<rparr>)"

definition mem_set_ignore_check_constraints :: "bool \<Rightarrow> ('x, unit) ms_oper" where
  "mem_set_ignore_check_constraints enabled = smodify (\<lambda>s. s\<lparr>ms_ignore_check_constraints := enabled\<rparr>)"

definition mem_set_case_sensitive_like :: "bool \<Rightarrow> ('x, unit) ms_oper" where
  "mem_set_case_sensitive_like enabled = smodify (\<lambda>s. s\<lparr>ms_case_sensitive_like := enabled\<rparr>)"

section \<open>Helpers\<close>

definition is_primary_key_backing_index :: "'x table_schema \<Rightarrow> index_meta \<Rightarrow> string \<Rightarrow> bool" where
  "is_primary_key_backing_index schema index table =
     (case sc_primary_key_constraint schema of
        None \<Rightarrow> False
      | Some pk \<Rightarrow> prefix (''sqlite_autoindex_'' @ table @ ''_'') (im_name index) \<and> pc_columns pk = im_columns index)"

definition integer_primary_key_column_index :: "'x table_schema \<Rightarrow> nat option" where
  "integer_primary_key_column_index schema =
     (if sc_without_rowid schema then None
      else case primary_key_columns schema of
          [(index, column)] \<Rightarrow>
            if cd_column_type column = C_Integer \<and> cd_primary_key_sort_order column \<noteq> Some Descending
            then Some index else None
        | _ \<Rightarrow> None)"

definition mem_validate_transaction :: "txn_id \<Rightarrow> 'x memory \<Rightarrow> unit result" where
  "mem_validate_transaction t s =
     (case ms_active_txn s of
        Some active \<Rightarrow>
          if at_id active = t then Ok ()
          else Err (Txn (''transaction '' @ show_word t @ '' is not active; current transaction is '' @ show_word (at_id active)))
      | None \<Rightarrow> Err (Txn ''no active transaction''))"

definition mem_validate_snapshot_transaction :: "txn_id option \<Rightarrow> 'x memory \<Rightarrow> unit result" where
  "mem_validate_snapshot_transaction transaction_id s =
     (case (transaction_id, ms_active_txn s) of
        (Some t, Some active) \<Rightarrow> mem_validate_transaction t s
      | (Some t, None) \<Rightarrow> Err (Txn (''transaction '' @ show_word t @ '' is not active''))
      | (None, Some _) \<Rightarrow> Err (Txn ''metadata snapshot requires the active transaction id while a transaction is open'')
      | (None, None) \<Rightarrow> Ok ())"

definition planning_context ::
    "txn_id option \<Rightarrow> 'x memory \<Rightarrow> ((string, 'x table_schema) hmap \<times> (string, index_meta list) hmap) result" where
  "planning_context transaction_id s =
     rbind (mem_validate_snapshot_transaction transaction_id s) (\<lambda>_.
       Ok (ms_schemas s, map (\<lambda>(table, indexes). (table, map (ix_meta \<circ> snd) indexes)) (ms_indexes s)))"

definition mem_record_undo :: "'x undo_op \<Rightarrow> 'x memory \<Rightarrow> 'x memory" where
  "mem_record_undo u s =
     s\<lparr>ms_active_txn := map_option (\<lambda>active. active\<lparr>at_undo_log := at_undo_log active @ [u]\<rparr>) (ms_active_txn s)\<rparr>"

definition require_schema :: "string \<Rightarrow> 'x memory \<Rightarrow> 'x table_schema result" where
  "require_schema table s = ok_or (unknown_table table) (map_of (ms_schemas s) table)"

definition mem_next_row_id :: "string \<Rightarrow> ('x, row_id) ms_oper" where
  "mem_next_row_id table s =
     (let n = (case map_of (ms_next_row_ids s) table of None \<Rightarrow> 1 | Some n \<Rightarrow> n)
      in (Ok n, s\<lparr>ms_next_row_ids := hm_insert table (n + 1) (ms_next_row_ids s)\<rparr>))"

text \<open>\<open>entry(table).and_modify(|next| *next = max(*next, row_id + 1)).or_insert(row_id + 1)\<close>.\<close>

definition raise_next_row_id :: "string \<Rightarrow> row_id \<Rightarrow> 'x memory \<Rightarrow> 'x memory" where
  "raise_next_row_id table row_id s =
     s\<lparr>ms_next_row_ids := hm_insert table (case map_of (ms_next_row_ids s) table of
         None \<Rightarrow> row_id + 1 | Some n \<Rightarrow> max n (row_id + 1)) (ms_next_row_ids s)\<rparr>"

definition put_row :: "string \<Rightarrow> row_id \<Rightarrow> row \<Rightarrow> 'x memory \<Rightarrow> 'x memory" where
  "put_row table row_id row s =
     s\<lparr>ms_rows := hm_insert table (bt_insert row_id row (get_or_empty (ms_rows s) table)) (ms_rows s)\<rparr>"

definition take_row :: "string \<Rightarrow> row_id \<Rightarrow> 'x memory \<Rightarrow> 'x memory" where
  "take_row table row_id s = s\<lparr>ms_rows := hm_modify table (bt_remove row_id) (ms_rows s)\<rparr>"

definition row_at :: "string \<Rightarrow> row_id \<Rightarrow> 'x memory \<Rightarrow> row option" where
  "row_at table row_id s = map_of (get_or_empty (ms_rows s) table) row_id"

section \<open>Index entries\<close>

definition entry_taken :: "index_state \<Rightarrow> Value list \<Rightarrow> bool" where
  "entry_taken ix key \<longleftrightarrow> enforces_unique_key (ix_meta ix) key \<and> get_or_empty (ix_entries ix) key \<noteq> []"

definition index_violation :: "index_meta \<Rightarrow> db_error" where
  "index_violation meta = Storage (''unique index '' @ im_name meta @ '' constraint failed'')"

definition add_entry :: "Value list \<Rightarrow> row_id \<Rightarrow> index_state \<Rightarrow> index_state" where
  "add_entry key row_id ix =
     ix\<lparr>ix_entries := bt_insert key (bs_insert row_id (get_or_empty (ix_entries ix) key)) (ix_entries ix)\<rparr>"

definition remove_entry :: "Value list \<Rightarrow> row_id \<Rightarrow> index_state \<Rightarrow> index_state" where
  "remove_entry key row_id ix =
     (case map_of (ix_entries ix) key of
        None \<Rightarrow> ix
      | Some ids \<Rightarrow>
          let ids' = bs_remove row_id ids
          in ix\<lparr>ix_entries := (if ids' = [] then bt_remove key (ix_entries ix) else bt_insert key ids' (ix_entries ix))\<rparr>)"

text \<open>A loop over \<open>indexes.values_mut()\<close> that ends at the first error.\<close>

fun each_index :: "(index_state, unit) oper \<Rightarrow> (mem_indexes, unit) oper" where
  "each_index f [] = (Ok (), [])"
| "each_index f ((name, ix) # rest) = (case f ix of
       (Ok _, ix') \<Rightarrow> (case each_index f rest of (r, rest') \<Rightarrow> (r, (name, ix') # rest'))
     | (r, ix') \<Rightarrow> (r, (name, ix') # rest))"

definition on_indexes :: "string \<Rightarrow> (mem_indexes, unit) oper \<Rightarrow> ('x, unit) ms_oper" where
  "on_indexes table m s =
     (case map_of (ms_indexes s) table of
        None \<Rightarrow> (Ok (), s)
      | Some indexes \<Rightarrow> (case m indexes of (r, indexes') \<Rightarrow> (r, s\<lparr>ms_indexes := hm_insert table indexes' (ms_indexes s)\<rparr>)))"

definition add_row_to_index :: "'x table_schema \<Rightarrow> row_id \<Rightarrow> row \<Rightarrow> (index_state, unit) oper" where
  "add_row_to_index schema row_id row =
     sbind (sget (\<lambda>ix. project_index_key schema (ix_meta ix) row)) (\<lambda>key.
     sbind (sget (\<lambda>ix. if entry_taken ix key then Err (index_violation (ix_meta ix)) else Ok ())) (\<lambda>_.
       smodify (add_entry key row_id)))"

definition add_row_to_indexes :: "string \<Rightarrow> row_id \<Rightarrow> row \<Rightarrow> ('x, unit) ms_oper" where
  "add_row_to_indexes table row_id row =
     sbind (sget (require_schema table)) (\<lambda>schema. on_indexes table (each_index (add_row_to_index schema row_id row)))"

definition remove_row_from_index :: "'x table_schema \<Rightarrow> row_id \<Rightarrow> row \<Rightarrow> (index_state, unit) oper" where
  "remove_row_from_index schema row_id row =
     sbind (sget (\<lambda>ix. project_index_key schema (ix_meta ix) row)) (\<lambda>key. smodify (remove_entry key row_id))"

definition remove_row_from_indexes :: "string \<Rightarrow> row_id \<Rightarrow> row \<Rightarrow> ('x, unit) ms_oper" where
  "remove_row_from_indexes table row_id row =
     sbind (sget (require_schema table)) (\<lambda>schema. on_indexes table (each_index (remove_row_from_index schema row_id row)))"

definition validate_unique_index_constraints :: "string \<Rightarrow> row \<Rightarrow> 'x memory \<Rightarrow> unit result" where
  "validate_unique_index_constraints table row s =
     rbind (require_schema table s) (\<lambda>schema.
     rbind (collect_results (\<lambda>(_, ix).
         if is_primary_key_backing_index schema (ix_meta ix) table then Ok ()
         else rbind (project_index_key schema (ix_meta ix) row) (\<lambda>key.
           if entry_taken ix key then Err (index_violation (ix_meta ix)) else Ok ()))
       (get_or_empty (ms_indexes s) table)) (\<lambda>_. Ok ()))"

fun index_rows :: "'x table_schema \<Rightarrow> mem_rows \<Rightarrow> (index_state, unit) oper" where
  "index_rows schema [] = sret ()"
| "index_rows schema ((row_id, row) # rest) =
     sbind (sget (\<lambda>ix. project_index_key schema (ix_meta ix) row)) (\<lambda>key.
     sbind (smodify (add_entry key row_id)) (\<lambda>_. index_rows schema rest))"

definition rebuild_indexes_for_schema :: "string \<Rightarrow> 'x table_schema \<Rightarrow> mem_rows \<Rightarrow> ('x, unit) ms_oper" where
  "rebuild_indexes_for_schema table schema rows =
     on_indexes table (each_index (sbind (smodify (\<lambda>ix. ix\<lparr>ix_entries := []\<rparr>)) (\<lambda>_. index_rows schema rows)))"

section \<open>Undo\<close>

fun apply_undo :: "'x undo_op \<Rightarrow> ('x, unit) ms_oper" where
  "apply_undo (U_DropSchema table) =
     smodify (\<lambda>s. s\<lparr>ms_schemas := hm_remove table (ms_schemas s), ms_rows := hm_remove table (ms_rows s),
       ms_indexes := hm_remove table (ms_indexes s), ms_next_row_ids := hm_remove table (ms_next_row_ids s)\<rparr>)"
| "apply_undo (U_DropIndex table name) =
     smodify (\<lambda>s. s\<lparr>ms_indexes := hm_modify table (bt_remove name) (ms_indexes s)\<rparr>)"
| "apply_undo (U_RestoreTable schema rows indexes next_row_id) =
     smodify (\<lambda>s. s\<lparr>ms_schemas := hm_insert (sc_name schema) schema (ms_schemas s),
       ms_rows := hm_insert (sc_name schema) rows (ms_rows s),
       ms_indexes := hm_insert (sc_name schema) indexes (ms_indexes s),
       ms_next_row_ids := (case next_row_id of None \<Rightarrow> ms_next_row_ids s
         | Some n \<Rightarrow> hm_insert (sc_name schema) n (ms_next_row_ids s))\<rparr>)"
| "apply_undo (U_RestoreIndex table name ix) =
     smodify (\<lambda>s. s\<lparr>ms_indexes := hm_insert table (bt_insert name ix (get_or_empty (ms_indexes s) table)) (ms_indexes s)\<rparr>)"
| "apply_undo (U_DeleteRow table row_id) = (\<lambda>s.
     case row_at table row_id s of
       None \<Rightarrow> (Ok (), s)
     | Some row \<Rightarrow> remove_row_from_indexes table row_id row (take_row table row_id s))"
| "apply_undo (U_ReinsertRow table row_id row) =
     sbind (smodify (raise_next_row_id table row_id \<circ> put_row table row_id row)) (\<lambda>_.
       add_row_to_indexes table row_id row)"
| "apply_undo (U_RestoreRow table row_id row) = (\<lambda>s.
     let replaced = row_at table row_id s;
         s' = (if map_of (ms_rows s) table = None then s else put_row table row_id row s)
     in sbind (case replaced of None \<Rightarrow> sret () | Some old \<Rightarrow> remove_row_from_indexes table row_id old) (\<lambda>_.
        sbind (smodify (raise_next_row_id table row_id)) (\<lambda>_. add_row_to_indexes table row_id row)) s')"

fun apply_undos :: "'x undo_op list \<Rightarrow> ('x, unit) ms_oper" where
  "apply_undos [] = sret ()"
| "apply_undos (u # us) = sbind (apply_undo u) (\<lambda>_. apply_undos us)"

section \<open>Tables\<close>

definition restore_table :: "string \<Rightarrow> 'x table_schema \<Rightarrow> 'x memory \<Rightarrow> 'x undo_op" where
  "restore_table table schema s =
     U_RestoreTable schema (get_or_empty (ms_rows s) table) (get_or_empty (ms_indexes s) table) (map_of (ms_next_row_ids s) table)"

definition mem_create_schema :: "txn_id \<Rightarrow> 'x table_schema \<Rightarrow> ('x, unit) ms_oper" where
  "mem_create_schema t schema =
     sbind (sget (mem_validate_transaction t)) (\<lambda>_.
     sbind (sget (\<lambda>s. if map_of (ms_schemas s) (sc_name schema) \<noteq> None then Err (table_exists (sc_name schema)) else Ok ())) (\<lambda>_.
     sbind (smodify (mem_record_undo (U_DropSchema (sc_name schema)))) (\<lambda>_.
       smodify (\<lambda>s. s\<lparr>ms_schemas := hm_insert (sc_name schema) schema (ms_schemas s),
         ms_rows := hm_or_insert (sc_name schema) [] (ms_rows s),
         ms_indexes := hm_or_insert (sc_name schema) [] (ms_indexes s),
         ms_next_row_ids := hm_or_insert (sc_name schema) 1 (ms_next_row_ids s)\<rparr>))))"

definition remove_table :: "string \<Rightarrow> 'x memory \<Rightarrow> 'x memory" where
  "remove_table table s =
     s\<lparr>ms_schemas := hm_remove table (ms_schemas s), ms_rows := hm_remove table (ms_rows s),
       ms_indexes := hm_remove table (ms_indexes s), ms_next_row_ids := hm_remove table (ms_next_row_ids s)\<rparr>"

definition mem_drop_schema :: "txn_id \<Rightarrow> string \<Rightarrow> ('x, unit) ms_oper" where
  "mem_drop_schema t table =
     sbind (sget (mem_validate_transaction t)) (\<lambda>_.
     sbind (sget (require_schema table)) (\<lambda>schema.
       smodify (\<lambda>s. mem_record_undo (restore_table table schema s) (remove_table table s))))"

definition mem_replace_schema :: "txn_id \<Rightarrow> 'x table_schema \<Rightarrow> ('x, unit) ms_oper" where
  "mem_replace_schema t schema =
     sbind (sget (mem_validate_transaction t)) (\<lambda>_.
     sbind (sget (require_schema (sc_name schema))) (\<lambda>old_schema.
     sbind (smodify (\<lambda>s. mem_record_undo (restore_table (sc_name schema) old_schema s) s)) (\<lambda>_.
       smodify (\<lambda>s. s\<lparr>ms_schemas := hm_insert (sc_name schema) schema (ms_schemas s)\<rparr>))))"

text \<open>
  The loops over \<open>affected_schemas\<close>: for every other table with a foreign key that the test selects,
  an undo record and the new schema.
\<close>

fun rewrite_schemas :: "('x table_schema \<Rightarrow> 'x table_schema) \<Rightarrow> (string \<times> 'x table_schema) list \<Rightarrow> 'x memory \<Rightarrow> 'x memory" where
  "rewrite_schemas f [] s = s"
| "rewrite_schemas f ((name, schema) # rest) s =
     rewrite_schemas f rest
       (let s' = mem_record_undo (restore_table name schema s) s
        in s'\<lparr>ms_schemas := hm_modify name f (ms_schemas s')\<rparr>)"

definition affected_schemas :: "string \<Rightarrow> (foreign_key \<Rightarrow> bool) \<Rightarrow> 'x memory \<Rightarrow> (string \<times> 'x table_schema) list" where
  "affected_schemas table selected s =
     filter (\<lambda>(name, schema). name \<noteq> table \<and> list_ex selected (all_foreign_keys schema)) (ms_schemas s)"

definition mem_rename_schema :: "txn_id \<Rightarrow> string \<Rightarrow> string \<Rightarrow> ('x, unit) ms_oper" where
  "mem_rename_schema t old_name new_name =
     sbind (sget (mem_validate_transaction t)) (\<lambda>_.
     sbind (sget (\<lambda>s. if map_of (ms_schemas s) new_name \<noteq> None then Err (table_exists new_name) else Ok ())) (\<lambda>_.
     sbind (sget (require_schema old_name)) (\<lambda>schema.
     sbind (smodify (\<lambda>s.
         let rows = get_or_empty (ms_rows s) old_name; indexes = get_or_empty (ms_indexes s) old_name;
             next_row_id = map_of (ms_next_row_ids s) old_name;
             s1 = mem_record_undo (U_DropSchema new_name) (mem_record_undo (restore_table old_name schema s) (remove_table old_name s))
         in s1\<lparr>ms_schemas := hm_insert new_name (schema\<lparr>sc_name := new_name\<rparr>) (ms_schemas s1),
               ms_rows := hm_insert new_name rows (ms_rows s1), ms_indexes := hm_insert new_name indexes (ms_indexes s1),
               ms_next_row_ids := (case next_row_id of None \<Rightarrow> ms_next_row_ids s1
                 | Some n \<Rightarrow> hm_insert new_name n (ms_next_row_ids s1))\<rparr>)) (\<lambda>_.
     sbind (smodify (\<lambda>s. rewrite_schemas (rename_foreign_key_ref_table old_name new_name)
         (affected_schemas new_name (\<lambda>fk. fk_ref_table fk = old_name) s) s)) (\<lambda>_.
       smodify (\<lambda>s. s\<lparr>ms_schemas := hm_modify new_name (rename_foreign_key_ref_table old_name new_name) (ms_schemas s)\<rparr>))))))"

text \<open>One row of \<open>add_column\<close>, extended and checked.\<close>

definition mem_extended_row ::
    "'x schema_rules \<Rightarrow> 'x table_schema \<Rightarrow> Value \<Rightarrow> bool \<Rightarrow> row_id \<times> row \<Rightarrow> (row_id \<times> row) result" where
  "mem_extended_row R schema v like entry =
     rbind (normalize_strict_row_values R schema (snd entry @ [v])) (\<lambda>candidate.
     rbind (validate_row_values schema candidate) (\<lambda>_.
     rbind (validate_check_constraints_with_like_mode R schema like candidate) (\<lambda>_. Ok (fst entry, candidate))))"

definition mem_add_column :: "'x schema_rules \<Rightarrow> txn_id \<Rightarrow> string \<Rightarrow> 'x column \<Rightarrow> ('x, unit) ms_oper" where
  "mem_add_column R t table column =
     sbind (sget (mem_validate_transaction t)) (\<lambda>_.
     sbind (sget (require_schema table)) (\<lambda>schema.
     sbind (sget (\<lambda>_. if has_column schema (cd_name column) then Err (column_exists table (cd_name column)) else Ok ())) (\<lambda>_.
     sbind (sget (\<lambda>_. new_column_value R column)) (\<lambda>default_value.
       let updated_schema = schema\<lparr>sc_columns := sc_columns schema @ [column]\<rparr> in
       sbind (sget (\<lambda>_. validate_constraints_metadata updated_schema)) (\<lambda>_.
       sbind (sget (\<lambda>s. collect_results (mem_extended_row R updated_schema default_value (ms_case_sensitive_like s))
           (get_or_empty (ms_rows s) table))) (\<lambda>normalized_rows.
         smodify (\<lambda>s. let s' = mem_record_undo (restore_table table schema s) s in
           s'\<lparr>ms_schemas := hm_insert table updated_schema (ms_schemas s'),
              ms_rows := hm_modify table (fold (\<lambda>(row_id, row). bt_insert row_id row) normalized_rows) (ms_rows s')\<rparr>)))))))"

definition mem_rename_column :: "txn_id \<Rightarrow> string \<Rightarrow> string \<Rightarrow> string \<Rightarrow> ('x, unit) ms_oper" where
  "mem_rename_column t table old_name new_name =
     sbind (sget (mem_validate_transaction t)) (\<lambda>_.
     sbind (sget (require_schema table)) (\<lambda>schema.
     sbind (sget (\<lambda>_. if \<not> has_column schema old_name then Err (Storage (''unknown column '' @ old_name @ '' on table '' @ table))
         else if has_column schema new_name then Err (column_exists table new_name) else Ok ())) (\<lambda>_.
     sbind (smodify (\<lambda>s. mem_record_undo (restore_table table schema s) s)) (\<lambda>_.
       let updated_schema = rename_foreign_key_ref_column table old_name new_name
             (rename_column_references old_name new_name schema) in
       sbind (sget (\<lambda>_. validate_constraints_metadata updated_schema)) (\<lambda>_.
       sbind (smodify (\<lambda>s. s\<lparr>ms_schemas := hm_insert table updated_schema (ms_schemas s),
           ms_indexes := hm_modify table
             (map_values (\<lambda>_ ix. ix\<lparr>ix_meta := rename_index_columns old_name new_name (ix_meta ix)\<rparr>)) (ms_indexes s)\<rparr>)) (\<lambda>_.
         smodify (\<lambda>s. rewrite_schemas (rename_foreign_key_ref_column table old_name new_name)
           (affected_schemas table (\<lambda>fk. fk_ref_table fk = table \<and> has_referenced_column fk old_name) s) s)))))))"

definition remove_value :: "nat \<Rightarrow> row_id \<times> row \<Rightarrow> (row_id \<times> row) result" where
  "remove_value i entry = rbind (index_at (snd entry) i) (\<lambda>_. Ok (fst entry, remove_at i (snd entry)))"

definition mem_drop_column :: "txn_id \<Rightarrow> string \<Rightarrow> string \<Rightarrow> ('x, unit) ms_oper" where
  "mem_drop_column t table old_name =
     sbind (sget (mem_validate_transaction t)) (\<lambda>_.
     sbind (sget (require_schema table)) (\<lambda>schema.
     sbind (sget (\<lambda>_. schema_drop_column schema old_name)) (\<lambda>(updated_schema, removed_index).
     sbind (smodify (\<lambda>s. mem_record_undo (restore_table table schema s) s)) (\<lambda>_.
     sbind (sget (\<lambda>s. collect_results (remove_value removed_index) (get_or_empty (ms_rows s) table))) (\<lambda>updated_rows.
     sbind (smodify (\<lambda>s. s\<lparr>ms_schemas := hm_insert table updated_schema (ms_schemas s),
         ms_rows := hm_insert table updated_rows (ms_rows s)\<rparr>)) (\<lambda>_.
       rebuild_indexes_for_schema table updated_schema updated_rows))))))"

definition mem_get_schema :: "txn_id \<Rightarrow> string \<Rightarrow> 'x memory \<Rightarrow> 'x table_schema option result" where
  "mem_get_schema t table s = rbind (mem_validate_transaction t s) (\<lambda>_. Ok (map_of (ms_schemas s) table))"

definition mem_list_schemas :: "txn_id \<Rightarrow> 'x memory \<Rightarrow> 'x table_schema list result" where
  "mem_list_schemas t s = rbind (mem_validate_transaction t s) (\<lambda>_. Ok (map snd (ms_schemas s)))"

section \<open>Rows\<close>

definition mem_check_row_length :: "string \<Rightarrow> string \<Rightarrow> 'x table_schema \<Rightarrow> row \<Rightarrow> unit result" where
  "mem_check_row_length what table schema row =
     (if length row \<noteq> length (sc_columns schema)
      then Err (Storage (what @ table @ '' expected '' @ show_nat (length (sc_columns schema)) @
        '' values but got '' @ show_nat (length row)))
      else Ok ())"

text \<open>
  The row id an \<open>INTEGER PRIMARY KEY\<close> value stands for: \<open>None\<close> for \<open>NULL\<close>, where the operation chooses one.
  An \<open>i64\<close> that is not negative is the \<open>u64\<close> with the same bits.
\<close>

definition given_row_id :: "row \<Rightarrow> nat \<Rightarrow> row_id option result" where
  "given_row_id row index =
     (if index < length row
      then case row ! index of
          Integer v \<Rightarrow> if 0 \<le> sint v then Ok (Some v) else Err (Storage ''sqlite rowid must be a non-negative INTEGER'')
        | Null \<Rightarrow> Ok None
        | v \<Rightarrow> Err (Storage (''sqlite rowid column must be INTEGER, got '' @ type_name v))
      else Err (Storage ''sqlite row is missing rowid column''))"

definition with_row_id :: "row \<Rightarrow> nat \<Rightarrow> row_id \<Rightarrow> row result" where
  "with_row_id row index row_id =
     (if uint row_id < 2 ^ 63 then Ok (row[index := Integer row_id]) else Err (Storage ''sqlite rowid does not fit in i64''))"

definition assign_row_id :: "string \<Rightarrow> 'x table_schema \<Rightarrow> row \<Rightarrow> ('x, row \<times> row_id) ms_oper" where
  "assign_row_id table schema row =
     (case integer_primary_key_column_index schema of
        None \<Rightarrow> sbind (mem_next_row_id table) (\<lambda>row_id. sret (row, row_id))
      | Some index \<Rightarrow>
          sbind (sget (\<lambda>_. given_row_id row index)) (\<lambda>given.
            case given of
              Some row_id \<Rightarrow> sret (row, row_id)
            | None \<Rightarrow> sbind (mem_next_row_id table) (\<lambda>row_id.
                sbind (sget (\<lambda>_. with_row_id row index row_id)) (\<lambda>row'. sret (row', row_id)))))"

definition validate_mem_row :: "'x schema_rules \<Rightarrow> 'x table_schema \<Rightarrow> row \<Rightarrow> 'x memory \<Rightarrow> unit result" where
  "validate_mem_row R schema row s =
     rbind (validate_row_values schema row) (\<lambda>_.
       if ms_ignore_check_constraints s then Ok ()
       else validate_check_constraints_with_like_mode R schema (ms_case_sensitive_like s) row)"

definition mem_insert_row :: "'x schema_rules \<Rightarrow> txn_id \<Rightarrow> string \<Rightarrow> row \<Rightarrow> ('x, row_id) ms_oper" where
  "mem_insert_row R t table row0 =
     sbind (sget (mem_validate_transaction t)) (\<lambda>_.
     sbind (sget (require_schema table)) (\<lambda>schema.
     sbind (sget (\<lambda>_. mem_check_row_length ''insert into '' table schema row0)) (\<lambda>_.
     sbind (assign_row_id table schema row0) (\<lambda>(row, row_id).
     sbind (sget (validate_mem_row R schema row)) (\<lambda>_.
     sbind (sget (\<lambda>s. validate_primary_key_uniqueness R schema row (map snd (get_or_empty (ms_rows s) table)))) (\<lambda>_.
     sbind (sget (validate_unique_index_constraints table row)) (\<lambda>_.
     sbind (smodify (put_row table row_id row)) (\<lambda>_.
     sbind (add_row_to_indexes table row_id row) (\<lambda>_.
     sbind (smodify (mem_record_undo (U_DeleteRow table row_id))) (\<lambda>_. sret row_id))))))))))"

definition mem_get_row :: "txn_id \<Rightarrow> string \<Rightarrow> row_id \<Rightarrow> 'x memory \<Rightarrow> row option result" where
  "mem_get_row t table row_id s = rbind (mem_validate_transaction t s) (\<lambda>_. Ok (row_at table row_id s))"

definition mem_scan_rows :: "txn_id \<Rightarrow> string \<Rightarrow> 'x memory \<Rightarrow> (row_id \<times> row) list result" where
  "mem_scan_rows t table s = rbind (mem_validate_transaction t s) (\<lambda>_. Ok (get_or_empty (ms_rows s) table))"

definition mem_delete_row :: "txn_id \<Rightarrow> string \<Rightarrow> row_id \<Rightarrow> ('x, unit) ms_oper" where
  "mem_delete_row t table row_id =
     sbind (sget (mem_validate_transaction t)) (\<lambda>_.
     sbind (sget (\<lambda>s. Ok (row_at table row_id s))) (\<lambda>removed.
       case removed of
         None \<Rightarrow> sret ()
       | Some row \<Rightarrow>
           sbind (smodify (take_row table row_id)) (\<lambda>_.
           sbind (remove_row_from_indexes table row_id row) (\<lambda>_.
             smodify (mem_record_undo (U_ReinsertRow table row_id row))))))"

definition target_row_id :: "'x table_schema \<Rightarrow> row_id \<Rightarrow> row \<Rightarrow> (row \<times> row_id) result" where
  "target_row_id schema row_id row =
     (case integer_primary_key_column_index schema of
        None \<Rightarrow> Ok (row, row_id)
      | Some index \<Rightarrow>
          rbind (given_row_id row index) (\<lambda>given.
            case given of
              Some target \<Rightarrow> Ok (row, target)
            | None \<Rightarrow> rbind (with_row_id row index row_id) (\<lambda>row'. Ok (row', row_id))))"

definition check_unique_update :: "'x table_schema \<Rightarrow> row_id \<Rightarrow> row \<Rightarrow> string \<times> index_state \<Rightarrow> unit result" where
  "check_unique_update schema row_id row entry =
     (case entry of (_, ix) \<Rightarrow>
        rbind (project_index_key schema (ix_meta ix) row) (\<lambda>key.
          if enforces_unique_key (ix_meta ix) key \<and>
             list_ex (\<lambda>candidate. candidate \<noteq> row_id) (get_or_empty (ix_entries ix) key)
          then Err (index_violation (ix_meta ix)) else Ok ()))"

text \<open>The part of \<open>update_row\<close> that writes: from the removal of the old index entries on.\<close>

definition replace_row :: "string \<Rightarrow> row_id \<Rightarrow> row \<Rightarrow> row_id \<Rightarrow> row \<Rightarrow> ('x, unit) ms_oper" where
  "replace_row table row_id existing_row target row =
     sbind (remove_row_from_indexes table row_id existing_row) (\<lambda>_.
     sbind (sget (\<lambda>s. if target \<noteq> row_id \<and> row_at table target s \<noteq> None
         then Err (Storage (''duplicate rowid '' @ show_word target @ '' on table '' @ table)) else Ok ())) (\<lambda>_.
     sbind (smodify (raise_next_row_id table target \<circ> put_row table target row \<circ> take_row table row_id)) (\<lambda>_.
     sbind (add_row_to_indexes table target row) (\<lambda>_.
       smodify (mem_record_undo (U_RestoreRow table row_id existing_row))))))"

definition mem_update_row :: "'x schema_rules \<Rightarrow> txn_id \<Rightarrow> string \<Rightarrow> row_id \<Rightarrow> row \<Rightarrow> ('x, unit) ms_oper" where
  "mem_update_row R t table row_id row0 =
     sbind (sget (mem_validate_transaction t)) (\<lambda>_.
     sbind (sget (require_schema table)) (\<lambda>schema.
     sbind (sget (\<lambda>_. mem_check_row_length ''update '' table schema row0)) (\<lambda>_.
     sbind (sget (\<lambda>s. Ok (row_at table row_id s))) (\<lambda>existing.
       case existing of
         None \<Rightarrow> sret ()
       | Some existing_row \<Rightarrow>
           sbind (sget (\<lambda>_. target_row_id schema row_id row0)) (\<lambda>(row, target).
             if existing_row = row \<and> target = row_id then sret ()
             else
               sbind (sget (validate_mem_row R schema row)) (\<lambda>_.
               sbind (sget (\<lambda>s. validate_primary_key_uniqueness R schema row
                   (map snd (filter (\<lambda>(candidate, _). candidate \<noteq> row_id) (get_or_empty (ms_rows s) table))))) (\<lambda>_.
               sbind (sget (\<lambda>s. rbind (collect_results (check_unique_update schema row_id row)
                   (get_or_empty (ms_indexes s) table)) (\<lambda>_. Ok ()))) (\<lambda>_.
                 replace_row table row_id existing_row target row))))))))"

section \<open>Indexes\<close>

fun build_entries ::
    "'x table_schema \<Rightarrow> index_meta \<Rightarrow> (Value list, row_id btset) btmap \<Rightarrow> mem_rows \<Rightarrow> (Value list, row_id btset) btmap result" where
  "build_entries schema index entries [] = Ok entries"
| "build_entries schema index entries ((row_id, row) # rest) =
     rbind (project_index_key schema index row) (\<lambda>key.
       if enforces_unique_key index key \<and> get_or_empty entries key \<noteq> [] then Err (index_violation index)
       else build_entries schema index (bt_insert key (bs_insert row_id (get_or_empty entries key)) entries) rest)"

definition mem_create_index :: "txn_id \<Rightarrow> string \<Rightarrow> index_meta \<Rightarrow> ('x, unit) ms_oper" where
  "mem_create_index t table index =
     sbind (sget (mem_validate_transaction t)) (\<lambda>_.
     sbind (sget (require_schema table)) (\<lambda>schema.
     sbind (sget (\<lambda>s. if map_of (get_or_empty (ms_indexes s) table) (im_name index) \<noteq> None
         then Err (Storage (''index already exists: '' @ im_name index))
         else if im_columns index = [] then Err (Storage (''index '' @ im_name index @ '' has no columns''))
         else Ok ())) (\<lambda>_.
     sbind (sget (\<lambda>s. build_entries schema index [] (get_or_empty (ms_rows s) table))) (\<lambda>entries.
     sbind (smodify (mem_record_undo (U_DropIndex table (im_name index)))) (\<lambda>_.
       smodify (\<lambda>s. s\<lparr>ms_indexes := hm_insert table (bt_insert (im_name index) \<lparr>ix_meta = index, ix_entries = entries\<rparr>
         (get_or_empty (ms_indexes s) table)) (ms_indexes s)\<rparr>))))))"

definition require_index :: "string \<Rightarrow> string \<Rightarrow> 'x memory \<Rightarrow> index_state result" where
  "require_index table name s =
     ok_or (Storage (''unknown index '' @ name @ '' on table '' @ table)) (map_of (get_or_empty (ms_indexes s) table) name)"

definition mem_drop_index :: "txn_id \<Rightarrow> string \<Rightarrow> string \<Rightarrow> ('x, unit) ms_oper" where
  "mem_drop_index t table name =
     sbind (sget (mem_validate_transaction t)) (\<lambda>_.
     sbind (sget (require_index table name)) (\<lambda>ix.
       smodify (\<lambda>s. mem_record_undo (U_RestoreIndex table name ix)
         (s\<lparr>ms_indexes := hm_modify table (bt_remove name) (ms_indexes s)\<rparr>))))"

definition mem_get_index :: "txn_id \<Rightarrow> string \<Rightarrow> string \<Rightarrow> 'x memory \<Rightarrow> index_meta option result" where
  "mem_get_index t table name s =
     rbind (mem_validate_transaction t s) (\<lambda>_. Ok (map_option ix_meta (map_of (get_or_empty (ms_indexes s) table) name)))"

definition mem_list_indexes :: "txn_id \<Rightarrow> string \<Rightarrow> 'x memory \<Rightarrow> index_meta list result" where
  "mem_list_indexes t table s =
     rbind (mem_validate_transaction t s) (\<lambda>_. Ok (map (ix_meta \<circ> snd) (get_or_empty (ms_indexes s) table)))"

definition mem_lookup_index :: "txn_id \<Rightarrow> string \<Rightarrow> string \<Rightarrow> Value list \<Rightarrow> 'x memory \<Rightarrow> row_id list result" where
  "mem_lookup_index t table name key s =
     rbind (mem_validate_transaction t s) (\<lambda>_.
     rbind (require_index table name s) (\<lambda>ix. Ok (get_or_empty (ix_entries ix) key)))"

text \<open>\<open>row_ids.extend(matches)\<close> for every entry whose key the test selects.\<close>

definition collect_entries :: "(Value list \<Rightarrow> bool) \<Rightarrow> index_state \<Rightarrow> row_id list" where
  "collect_entries selected ix =
     fold (\<lambda>(key, ids) acc. if selected key then bs_extend ids acc else acc) (ix_entries ix) []"

definition mem_scan_index_prefix :: "txn_id \<Rightarrow> string \<Rightarrow> string \<Rightarrow> Value list \<Rightarrow> 'x memory \<Rightarrow> row_id list result" where
  "mem_scan_index_prefix t table name key_prefix s =
     rbind (mem_validate_transaction t s) (\<lambda>_.
     rbind (require_index table name s) (\<lambda>ix.
       if length (im_columns (ix_meta ix)) < length key_prefix
       then Err (Storage (''index '' @ im_name (ix_meta ix) @ '' expected at most '' @
         show_nat (length (im_columns (ix_meta ix))) @ '' key values but got '' @ show_nat (length key_prefix)))
       else Ok (collect_entries (prefix key_prefix) ix)))"

definition in_range_after :: "Value list \<Rightarrow> bound option \<Rightarrow> bound option \<Rightarrow> Value list \<Rightarrow> bool" where
  "in_range_after key_prefix lower upper key \<longleftrightarrow>
     prefix key_prefix key \<and> length key_prefix < length key \<and> matches_bounds (key ! length key_prefix) lower upper"

definition mem_scan_index_range ::
    "txn_id \<Rightarrow> string \<Rightarrow> string \<Rightarrow> Value list \<Rightarrow> bound option \<Rightarrow> bound option \<Rightarrow> 'x memory \<Rightarrow> row_id list result" where
  "mem_scan_index_range t table name key_prefix lower upper s =
     rbind (mem_validate_transaction t s) (\<lambda>_.
     rbind (require_index table name s) (\<lambda>ix.
       if length (im_columns (ix_meta ix)) \<le> length key_prefix
       then Err (Storage (''index '' @ im_name (ix_meta ix) @ '' has no range column after prefix of length '' @
         show_nat (length key_prefix)))
       else Ok (collect_entries (in_range_after key_prefix lower upper) ix)))"

section \<open>Transactions\<close>

definition mem_begin :: "('x, txn_id) ms_oper" where
  "mem_begin s =
     (case ms_active_txn s of
        Some active \<Rightarrow> (Err (Txn (''transaction '' @ show_word (at_id active) @ '' is already active'')), s)
      | None \<Rightarrow> (Ok (ms_next_txn_id s), s\<lparr>ms_next_txn_id := ms_next_txn_id s + 1,
          ms_active_txn := Some \<lparr>at_id = ms_next_txn_id s, at_undo_log = [], at_savepoints = []\<rparr>\<rparr>))"

definition mem_commit :: "txn_id \<Rightarrow> ('x, unit) ms_oper" where
  "mem_commit t = sbind (sget (mem_validate_transaction t)) (\<lambda>_. smodify (\<lambda>s. s\<lparr>ms_active_txn := None\<rparr>))"

definition mem_rollback :: "txn_id \<Rightarrow> ('x, unit) ms_oper" where
  "mem_rollback t s =
     (case ms_active_txn s of
        None \<Rightarrow> (Err (Txn ''no active transaction''), s)
      | Some active \<Rightarrow>
          if at_id active \<noteq> t then (Err (Txn (''transaction '' @ show_word t @ '' is not active'')), s)
          else apply_undos (rev (at_undo_log active)) (s\<lparr>ms_active_txn := None\<rparr>))"

definition mem_savepoint :: "txn_id \<Rightarrow> string \<Rightarrow> ('x, unit) ms_oper" where
  "mem_savepoint t name =
     sbind (sget (mem_validate_transaction t)) (\<lambda>_.
       smodify (\<lambda>s. s\<lparr>ms_active_txn := map_option (\<lambda>active. active\<lparr>at_savepoints := at_savepoints active @
         [\<lparr>sp_name = name, sp_undo_len = length (at_undo_log active)\<rparr>]\<rparr>) (ms_active_txn s)\<rparr>))"

text \<open>\<open>savepoints.iter().rposition(...)\<close> with names compared without case.\<close>

definition savepoint_index :: "string \<Rightarrow> 'x memory \<Rightarrow> nat result" where
  "savepoint_index name s =
     (case ms_active_txn s of
        None \<Rightarrow> Err (Txn ''no active transaction'')
      | Some active \<Rightarrow>
          ok_or (Txn (''no such savepoint: '' @ name))
            (map_option (\<lambda>i. length (at_savepoints active) - Suc i)
              (position (\<lambda>sp. ascii_lower (sp_name sp) = ascii_lower name) (rev (at_savepoints active)))))"

definition mem_rollback_to_savepoint :: "txn_id \<Rightarrow> string \<Rightarrow> ('x, unit) ms_oper" where
  "mem_rollback_to_savepoint t name =
     sbind (sget (mem_validate_transaction t)) (\<lambda>_.
     sbind (sget (savepoint_index name)) (\<lambda>i. \<lambda>s.
       case ms_active_txn s of
         None \<Rightarrow> (Panic ''validated active transaction'', s)
       | Some active \<Rightarrow>
           let undo_len = sp_undo_len (at_savepoints active ! i) in
           if length (at_undo_log active) < undo_len then (Panic ''split_off index out of range'', s)
           else apply_undos (rev (drop undo_len (at_undo_log active)))
             (s\<lparr>ms_active_txn := Some (active\<lparr>at_undo_log := take undo_len (at_undo_log active),
                at_savepoints := take (i + 1) (at_savepoints active)\<rparr>)\<rparr>)))"

definition mem_release_savepoint :: "txn_id \<Rightarrow> string \<Rightarrow> ('x, unit) ms_oper" where
  "mem_release_savepoint t name =
     sbind (sget (mem_validate_transaction t)) (\<lambda>_.
     sbind (sget (savepoint_index name)) (\<lambda>i.
       smodify (\<lambda>s. s\<lparr>ms_active_txn := map_option (\<lambda>active. active\<lparr>at_savepoints := take i (at_savepoints active)\<rparr>)
         (ms_active_txn s)\<rparr>)))"

end
