(* ===== verification/Memory_Properties.thy ===== *)
theory Memory_Properties
  imports Memory_Engine
begin

text \<open>
  The laws of the in-memory engine: its indexes hold exactly the rows of their tables, so that an index
  scan is a filtered table scan, and the undo log takes the tables back to where a transaction or a
  savepoint began.
\<close>

section \<open>Exact indexes\<close>

definition indexed_by :: "'x table_schema \<Rightarrow> index_meta \<Rightarrow> mem_rows \<Rightarrow> Value list \<Rightarrow> row_id set" where
  "indexed_by schema meta rows key =
     {r. \<exists>row. map_of rows r = Some row \<and> project_index_key schema meta row = Ok key}"

definition index_ok :: "'x table_schema \<Rightarrow> mem_rows \<Rightarrow> index_state \<Rightarrow> bool" where
  "index_ok schema rows ix \<longleftrightarrow>
     bt_wf (ix_entries ix) \<and>
     (\<forall>r row. map_of rows r = Some row \<longrightarrow> (\<exists>key. project_index_key schema (ix_meta ix) row = Ok key)) \<and>
     (\<forall>key. set (get_or_empty (ix_entries ix) key) = indexed_by schema (ix_meta ix) rows key) \<and>
     (\<forall>key ids. map_of (ix_entries ix) key = Some ids \<longrightarrow> ids \<noteq> [] \<and> sorted_wrt (<) ids) \<and>
     (\<forall>key r r'. enforces_unique_key (ix_meta ix) key \<longrightarrow> r \<in> indexed_by schema (ix_meta ix) rows key \<longrightarrow>
        r' \<in> indexed_by schema (ix_meta ix) rows key \<longrightarrow> r = r')"

lemma index_okD:
  assumes "index_ok schema rows ix"
  shows "bt_wf (ix_entries ix)"
    "map_of rows r = Some row \<Longrightarrow> \<exists>key. project_index_key schema (ix_meta ix) row = Ok key"
    "set (get_or_empty (ix_entries ix) key) = indexed_by schema (ix_meta ix) rows key"
    "map_of (ix_entries ix) key = Some ids \<Longrightarrow> ids \<noteq> []"
    "map_of (ix_entries ix) key = Some ids \<Longrightarrow> sorted_wrt (<) ids"
    "enforces_unique_key (ix_meta ix) key \<Longrightarrow> r1 \<in> indexed_by schema (ix_meta ix) rows key \<Longrightarrow>
       r2 \<in> indexed_by schema (ix_meta ix) rows key \<Longrightarrow> r1 = r2"
  using assms unfolding index_ok_def by blast+

lemma bt_ext:
  assumes "bt_wf m" "bt_wf m'" "map_of m = map_of m'"
  shows "m = m'"
proof (rule map_sorted_distinct_set_unique [where f = fst])
  show "inj_on fst (set m \<union> set m')"
  proof (rule inj_onI, clarify)
    fix k v k' v' assume "(k, v) \<in> set m \<union> set m'" "(k', v') \<in> set m \<union> set m'" "fst (k, v) = fst (k', v')"
    then show "k = k' \<and> v = v'"
      using assms bt_wf_distinct map_of_eq_Some_iff by (metis Un_iff fst_conv option.inject)
  qed
  show "sorted (map fst m)" "distinct (map fst m)" "sorted (map fst m')" "distinct (map fst m')"
    using assms bt_wf_distinct by (auto simp: bt_wf_def strict_sorted_iff)
  show "set m = set m'"
    using assms bt_wf_distinct map_of_eq_Some_iff by (metis subrelI subset_antisym)
qed

lemma bt_remove_insert: "bt_wf m \<Longrightarrow> map_of m k = None \<Longrightarrow> bt_remove k (bt_insert k v m) = m"
  by (rule bt_ext) (auto simp: fun_eq_iff)

lemma bt_insert_remove: "bt_wf m \<Longrightarrow> map_of m k = Some v \<Longrightarrow> bt_insert k v (bt_remove k m) = m"
  by (rule bt_ext) (auto simp: fun_eq_iff)

lemma bt_insert_insert: "bt_wf m \<Longrightarrow> bt_insert k v (bt_insert k u m) = bt_insert k v m"
  by (rule bt_ext) (auto simp: fun_eq_iff)

lemma strict_sorted_eq: "sorted_wrt (<) xs \<Longrightarrow> sorted_wrt (<) ys \<Longrightarrow> set xs = set ys \<Longrightarrow> xs = (ys :: 'a::linorder list)"
  using strict_sorted_equal by blast

lemma get_or_empty_simps [simp]:
  "map_of m k = Some v \<Longrightarrow> get_or_empty m k = v" "map_of m k = None \<Longrightarrow> get_or_empty m k = []"
  by (simp_all add: get_or_empty_def)

text \<open>An exact index is determined by its rows.\<close>

lemma index_ext:
  assumes "index_ok schema rows ix" "index_ok schema rows ix'" "ix_meta ix = ix_meta ix'"
  shows "ix = ix'"
proof -
  have "map_of (ix_entries ix) key = map_of (ix_entries ix') key" for key
  proof -
    have eq: "set (get_or_empty (ix_entries ix) key) = set (get_or_empty (ix_entries ix') key)"
      using assms by (simp add: index_ok_def)
    show ?thesis
    proof (cases "map_of (ix_entries ix) key"; cases "map_of (ix_entries ix') key")
      fix ids ids' assume ids: "map_of (ix_entries ix) key = Some ids" "map_of (ix_entries ix') key = Some ids'"
      with assms have "sorted_wrt (<) ids" "sorted_wrt (<) ids'" by (auto simp: index_ok_def)
      with eq ids show ?thesis by (auto intro: strict_sorted_eq)
    qed (use eq assms in \<open>auto simp: index_ok_def\<close>)
  qed
  then have "ix_entries ix = ix_entries ix'"
    using assms by (intro bt_ext) (auto simp: index_ok_def)
  with assms(3) show ?thesis by simp
qed

lemma indexed_by_insert:
  assumes "map_of rows r = None" "project_index_key schema meta row = Ok k"
  shows "indexed_by schema meta (bt_insert r row rows) key =
    (if key = k then insert r (indexed_by schema meta rows key) else indexed_by schema meta rows key)"
  using assms by (auto simp: indexed_by_def)

lemma indexed_by_remove: "indexed_by schema meta (bt_remove r rows) key = indexed_by schema meta rows key - {r}"
  by (auto simp: indexed_by_def)

lemma bs_insert_not_Nil: "bs_insert k xs \<noteq> []"
  by (metis empty_iff insertI1 list.set(1) set_bs_insert)

lemma get_or_empty_bt_insert:
  "get_or_empty (bt_insert k v m) key = (if key = k then v else get_or_empty m key)"
  by (simp add: get_or_empty_def)

lemma get_or_empty_bt_remove:
  "get_or_empty (bt_remove k m) key = (if key = k then [] else get_or_empty m key)"
  by (simp add: get_or_empty_def)

text \<open>What a new row must satisfy for an index to take it.\<close>

definition admits :: "'x table_schema \<Rightarrow> mem_rows \<Rightarrow> row \<Rightarrow> index_meta \<Rightarrow> bool" where
  "admits schema rows row meta \<longleftrightarrow>
     (\<exists>key. project_index_key schema meta row = Ok key \<and>
        (enforces_unique_key meta key \<longrightarrow> indexed_by schema meta rows key = {}))"

lemma add_row_to_index_ok:
  assumes ok: "index_ok schema rows ix" and new: "map_of rows r = None" and adm: "admits schema rows row (ix_meta ix)"
  shows "\<exists>ix'. add_row_to_index schema r row ix = (Ok (), ix') \<and> ix_meta ix' = ix_meta ix \<and>
    index_ok schema (bt_insert r row rows) ix'"
proof -
  from adm obtain key where key: "project_index_key schema (ix_meta ix) row = Ok key"
      "enforces_unique_key (ix_meta ix) key \<longrightarrow> indexed_by schema (ix_meta ix) rows key = {}"
    by (auto simp: admits_def)
  with index_okD(3) [OF ok, of key] have free: "\<not> entry_taken ix key" by (auto simp: entry_taken_def)
  let ?ix = "add_entry key r ix"
  have run: "add_row_to_index schema r row ix = (Ok (), ?ix)"
    using key free by (simp add: add_row_to_index_def sbind_def)
  have sets: "set (get_or_empty (ix_entries ?ix) k) = indexed_by schema (ix_meta ix) (bt_insert r row rows) k" for k
    using ok key(1) new by (simp add: add_entry_def get_or_empty_bt_insert indexed_by_insert index_ok_def)
  have sorted: "sorted_wrt (<) (get_or_empty (ix_entries ix) key)"
    using ok by (cases "map_of (ix_entries ix) key") (auto simp: index_ok_def)
  have ids: "ids \<noteq> [] \<and> sorted_wrt (<) ids" if "map_of (ix_entries ?ix) k = Some ids" for k ids
    using that sorted index_okD(4,5) [OF ok] by (auto simp: add_entry_def bs_insert_not_Nil split: if_splits)
  have "index_ok schema (bt_insert r row rows) ?ix"
    unfolding index_ok_def
  proof (intro conjI allI impI)
    show "bt_wf (ix_entries ?ix)" using ok by (simp add: add_entry_def index_ok_def)
    show "\<exists>key. project_index_key schema (ix_meta ?ix) row' = Ok key" if "map_of (bt_insert r row rows) r' = Some row'" for r' row'
      using that ok key(1) by (auto simp: add_entry_def index_ok_def split: if_splits)
    show "r1 = r2" if "enforces_unique_key (ix_meta ?ix) k" "r1 \<in> indexed_by schema (ix_meta ?ix) (bt_insert r row rows) k"
        "r2 \<in> indexed_by schema (ix_meta ?ix) (bt_insert r row rows) k" for k r1 r2
      using that ok key new by (auto simp: add_entry_def indexed_by_insert index_ok_def split: if_splits)
  qed (use sets ids in \<open>auto simp: add_entry_def\<close>)
  with run show ?thesis by (auto simp: add_entry_def)
qed

lemma remove_row_from_index_ok:
  assumes ok: "index_ok schema rows ix" and old: "map_of rows r = Some row"
  shows "\<exists>ix'. remove_row_from_index schema r row ix = (Ok (), ix') \<and> ix_meta ix' = ix_meta ix \<and>
    index_ok schema (bt_remove r rows) ix'"
proof -
  obtain key where key: "project_index_key schema (ix_meta ix) row = Ok key"
    using index_okD(2) [OF ok old] by blast
  have "r \<in> indexed_by schema (ix_meta ix) rows key" using old key by (auto simp: indexed_by_def)
  with index_okD(3) [OF ok, of key] obtain ids where found: "map_of (ix_entries ix) key = Some ids"
    by (cases "map_of (ix_entries ix) key") auto
  then have ids_set: "set ids = indexed_by schema (ix_meta ix) rows key"
    using index_okD(3) [OF ok, of key] by simp
  let ?ix = "remove_entry key r ix"
  have entries: "ix_entries ?ix = (if bs_remove r ids = [] then bt_remove key (ix_entries ix)
      else bt_insert key (bs_remove r ids) (ix_entries ix))" and meta: "ix_meta ?ix = ix_meta ix"
    using found by (simp_all add: remove_entry_def Let_def)
  have other: "r \<notin> indexed_by schema (ix_meta ix) rows k" if "k \<noteq> key" for k
    using that old key by (auto simp: indexed_by_def)
  have sets: "set (get_or_empty (ix_entries ?ix) k) = indexed_by schema (ix_meta ix) (bt_remove r rows) k" for k
  proof (cases "k = key")
    case True
    have "set (bs_remove r ids) = indexed_by schema (ix_meta ix) rows key - {r}"
      by (simp add: ids_set)
    then show ?thesis
      by (cases "bs_remove r ids = []") (auto simp: True entries get_or_empty_bt_insert get_or_empty_bt_remove indexed_by_remove)
  next
    case False
    then show ?thesis
      using index_okD(3) [OF ok, of k] other [of k]
      by (simp add: entries get_or_empty_bt_insert get_or_empty_bt_remove indexed_by_remove)
  qed
  have ids: "ids' \<noteq> [] \<and> sorted_wrt (<) ids'" if "map_of (ix_entries ?ix) k = Some ids'" for k ids'
    using that index_okD(4,5) [OF ok] found by (auto simp: entries split: if_splits)
  have "index_ok schema (bt_remove r rows) ?ix"
    unfolding index_ok_def meta
  proof (intro conjI allI impI)
    show "bt_wf (ix_entries ?ix)" using index_okD(1) [OF ok] by (simp add: entries)
    show "\<exists>key. project_index_key schema (ix_meta ix) row' = Ok key" if "map_of (bt_remove r rows) r' = Some row'" for r' row'
      using that by (intro index_okD(2) [OF ok, of r']) (simp split: if_splits)
    show "set (get_or_empty (ix_entries ?ix) k) = indexed_by schema (ix_meta ix) (bt_remove r rows) k" for k by (rule sets)
    show "ids' \<noteq> []" "sorted_wrt (<) ids'" if "map_of (ix_entries ?ix) k = Some ids'" for k ids' using ids [OF that] by auto
    show "r1 = r2" if "enforces_unique_key (ix_meta ix) k" "r1 \<in> indexed_by schema (ix_meta ix) (bt_remove r rows) k"
        "r2 \<in> indexed_by schema (ix_meta ix) (bt_remove r rows) k" for k r1 r2
      using that by (intro index_okD(6) [OF ok, of k]) (simp_all add: indexed_by_remove)
  qed
  moreover have "remove_row_from_index schema r row ix = (Ok (), ?ix)"
    using key by (simp add: remove_row_from_index_def)
  ultimately show ?thesis using meta by blast
qed

lemma index_ok_cong: "map_of rows = map_of rows' \<Longrightarrow> index_ok schema rows ix = index_ok schema rows' ix"
  by (simp add: index_ok_def indexed_by_def)

lemma index_ok_empty: "index_ok schema [] \<lparr>ix_meta = meta, ix_entries = []\<rparr>"
  by (simp add: index_ok_def indexed_by_def)

text \<open>Building an index row by row is adding the rows one after the other.\<close>

lemma build_entries_ok:
  assumes "build_entries schema meta entries rest = Ok entries'"
    and "index_ok schema done \<lparr>ix_meta = meta, ix_entries = entries\<rparr>"
    and "distinct (map fst rest)" "\<forall>r \<in> fst ` set rest. map_of done r = None"
  shows "index_ok schema (rest @ done) \<lparr>ix_meta = meta, ix_entries = entries'\<rparr>"
  using assms
proof (induction schema meta entries rest arbitrary: "done" rule: build_entries.induct)
  case (2 schema meta entries r row rest)
  let ?ix = "\<lparr>ix_meta = meta, ix_entries = entries\<rparr>"
  from 2(2) obtain key where key: "project_index_key schema meta row = Ok key"
      "\<not> (enforces_unique_key meta key \<and> get_or_empty entries key \<noteq> [])"
      "build_entries schema meta (bt_insert key (bs_insert r (get_or_empty entries key)) entries) rest = Ok entries'"
    by (auto simp: rbind_eq_Ok split: if_splits)
  have adm: "admits schema done row (ix_meta ?ix)"
    using key(1,2) index_okD(3) [OF 2(3), of key] by (auto simp: admits_def)
  have new: "map_of done r = None" using 2(5) by simp
  have step: "add_row_to_index schema r row ?ix =
      (Ok (), \<lparr>ix_meta = meta, ix_entries = bt_insert key (bs_insert r (get_or_empty entries key)) entries\<rparr>)"
    using key(1,2) by (simp add: add_row_to_index_def sbind_def entry_taken_def add_entry_def)
  have next_ok: "index_ok schema (bt_insert r row done)
      \<lparr>ix_meta = meta, ix_entries = bt_insert key (bs_insert r (get_or_empty entries key)) entries\<rparr>"
    using add_row_to_index_ok [OF 2(3) new adm] step by auto
  have "index_ok schema (rest @ bt_insert r row done) \<lparr>ix_meta = meta, ix_entries = entries'\<rparr>"
    using 2(4,5) by (intro 2(1) [OF key(1,2,3) next_ok]) force+
  moreover have "map_of (rest @ bt_insert r row done) = map_of (((r, row) # rest) @ done)"
    using 2(4) by (auto simp: fun_eq_iff map_add_def split: option.splits dest: map_of_SomeD intro: rev_image_eqI)
  ultimately show ?case using index_ok_cong by blast
qed simp

section \<open>Tables\<close>

text \<open>
  The index that backs a primary key is not looked at when a row is checked; what makes this sound is
  that its columns exist and cover the primary key.
\<close>

definition backing_ok :: "'x table_schema \<Rightarrow> string \<Rightarrow> index_meta \<Rightarrow> bool" where
  "backing_ok schema table meta \<longleftrightarrow>
     (is_primary_key_backing_index schema meta table \<longrightarrow>
        list_all (has_column schema) (im_columns meta) \<and>
        (im_unique meta \<longrightarrow> primary_key_columns schema \<noteq> [] \<and>
           list_all (\<lambda>(i, c). cd_name c \<in> set (im_columns meta) \<and>
             position (\<lambda>e. cd_name e = cd_name c) (sc_columns schema) = Some i) (primary_key_columns schema)))"

definition row_id_is_key :: "'x table_schema \<Rightarrow> row_id \<Rightarrow> row \<Rightarrow> bool" where
  "row_id_is_key schema r row \<longleftrightarrow>
     (case integer_primary_key_column_index schema of None \<Rightarrow> True
      | Some i \<Rightarrow> i < length row \<and> row ! i = Integer r)"

definition table_ok :: "'x table_schema \<Rightarrow> string \<Rightarrow> mem_rows \<Rightarrow> mem_indexes \<Rightarrow> bool" where
  "table_ok schema table rows ixs \<longleftrightarrow>
     bt_wf rows \<and> bt_wf ixs \<and>
     (\<forall>(name, ix) \<in> set ixs. index_ok schema rows ix \<and> backing_ok schema table (ix_meta ix)) \<and>
     (\<forall>r row. map_of rows r = Some row \<longrightarrow> row_id_is_key schema r row)"

definition metas :: "mem_indexes \<Rightarrow> (string \<times> index_meta) list" where
  "metas = map (\<lambda>(name, ix). (name, ix_meta ix))"

lemma table_okD:
  assumes "table_ok schema table rows ixs"
  shows "bt_wf rows" "bt_wf ixs"
    "(name, ix) \<in> set ixs \<Longrightarrow> index_ok schema rows ix" "(name, ix) \<in> set ixs \<Longrightarrow> backing_ok schema table (ix_meta ix)"
    "map_of rows r = Some row \<Longrightarrow> row_id_is_key schema r row"
  using assms unfolding table_ok_def by blast+

lemma each_index_ok:
  assumes "\<forall>(name, ix) \<in> set ixs. \<exists>ix'. f ix = (Ok (), ix') \<and> ix_meta ix' = ix_meta ix \<and> P ix'"
  shows "\<exists>ixs'. each_index f ixs = (Ok (), ixs') \<and> metas ixs' = metas ixs \<and> (\<forall>(name, ix) \<in> set ixs'. P ix)"
  using assms
proof (induction ixs)
  case (Cons e ixs)
  obtain name ix where e: "e = (name, ix)" by (cases e)
  from Cons obtain ixs' where "each_index f ixs = (Ok (), ixs')" "metas ixs' = metas ixs" "\<forall>(name, ix) \<in> set ixs'. P ix"
    by auto
  moreover from Cons(2) e obtain ix' where "f ix = (Ok (), ix')" "ix_meta ix' = ix_meta ix" "P ix'" by auto
  ultimately show ?case by (auto simp: e metas_def)
qed (simp add: metas_def)

lemma metas_keys: "metas ixs' = metas ixs \<Longrightarrow> map fst ixs' = map fst ixs"
  by (auto simp: metas_def comp_def case_prod_beta dest: arg_cong [where f = "map fst"])

lemma metas_backing:
  assumes "metas ixs' = metas ixs" "\<forall>(name, ix) \<in> set ixs. backing_ok schema table (ix_meta ix)"
  shows "\<forall>(name, ix) \<in> set ixs'. backing_ok schema table (ix_meta ix)"
proof clarify
  fix name ix assume "(name, ix) \<in> set ixs'"
  then have "(name, ix_meta ix) \<in> set (metas ixs')" by (force simp: metas_def)
  then have "(name, ix_meta ix) \<in> set (metas ixs)" by (simp add: assms(1))
  with assms(2) show "backing_ok schema table (ix_meta ix)" by (auto simp: metas_def)
qed

lemma table_ok_change:
  assumes "table_ok schema table rows ixs" "metas ixs' = metas ixs" "bt_wf rows'"
    "\<forall>(name, ix) \<in> set ixs'. index_ok schema rows' ix" "\<And>r row. map_of rows' r = Some row \<Longrightarrow> row_id_is_key schema r row"
  shows "table_ok schema table rows' ixs'"
proof -
  have "\<forall>(name, ix) \<in> set ixs'. backing_ok schema table (ix_meta ix)"
    using table_okD(4) [OF assms(1)] by (intro metas_backing [OF assms(2)]) blast
  moreover have "bt_wf ixs'" using table_okD(2) [OF assms(1)] metas_keys [OF assms(2)] by (simp add: bt_wf_def)
  ultimately show ?thesis using assms(3-5) unfolding table_ok_def by blast
qed

text \<open>Adding a row to all indexes of a table and removing one.\<close>

lemma add_to_table:
  assumes ok: "table_ok schema table rows ixs" and new: "map_of rows r = None" and id: "row_id_is_key schema r row"
    and adm: "\<And>name ix. (name, ix) \<in> set ixs \<Longrightarrow> admits schema rows row (ix_meta ix)"
  shows "\<exists>ixs'. each_index (add_row_to_index schema r row) ixs = (Ok (), ixs') \<and> metas ixs' = metas ixs \<and>
    table_ok schema table (bt_insert r row rows) ixs'"
proof -
  have "\<forall>(name, ix) \<in> set ixs. \<exists>ix'. add_row_to_index schema r row ix = (Ok (), ix') \<and> ix_meta ix' = ix_meta ix \<and>
      index_ok schema (bt_insert r row rows) ix'"
    using add_row_to_index_ok [OF table_okD(3) [OF ok] new adm] by blast
  from each_index_ok [OF this] obtain ixs' where ixs': "each_index (add_row_to_index schema r row) ixs = (Ok (), ixs')"
      "metas ixs' = metas ixs" "\<forall>(name, ix) \<in> set ixs'. index_ok schema (bt_insert r row rows) ix"
    by blast
  have "table_ok schema table (bt_insert r row rows) ixs'"
    using table_okD(1,5) [OF ok] id by (intro table_ok_change [OF ok ixs'(2) _ ixs'(3)]) (auto split: if_splits)
  with ixs' show ?thesis by blast
qed

lemma remove_from_table:
  assumes ok: "table_ok schema table rows ixs" and old: "map_of rows r = Some row"
  shows "\<exists>ixs'. each_index (remove_row_from_index schema r row) ixs = (Ok (), ixs') \<and> metas ixs' = metas ixs \<and>
    table_ok schema table (bt_remove r rows) ixs'"
proof -
  have "\<forall>(name, ix) \<in> set ixs. \<exists>ix'. remove_row_from_index schema r row ix = (Ok (), ix') \<and> ix_meta ix' = ix_meta ix \<and>
      index_ok schema (bt_remove r rows) ix'"
    using remove_row_from_index_ok [OF table_okD(3) [OF ok] old] by blast
  from each_index_ok [OF this] obtain ixs' where ixs': "each_index (remove_row_from_index schema r row) ixs = (Ok (), ixs')"
      "metas ixs' = metas ixs" "\<forall>(name, ix) \<in> set ixs'. index_ok schema (bt_remove r rows) ix"
    by blast
  have "table_ok schema table (bt_remove r rows) ixs'"
    using table_okD(1,5) [OF ok] by (intro table_ok_change [OF ok ixs'(2) _ ixs'(3)]) (auto split: if_splits)
  with ixs' show ?thesis by blast
qed

text \<open>The indexes of a table are determined by its rows.\<close>

lemma table_ext:
  assumes "table_ok schema table rows ixs" "table_ok schema table rows ixs'" "metas ixs = metas ixs'"
  shows "ixs = ixs'"
proof (rule list_all2_eq [THEN iffD2], rule list_all2_all_nthI)
  from assms(3) show "length ixs = length ixs'" by (auto simp: metas_def dest: map_eq_imp_length_eq)
  fix i assume i: "i < length ixs"
  then have i': "i < length ixs'" using \<open>length ixs = length ixs'\<close> by simp
  obtain name ix name' ix' where e: "ixs ! i = (name, ix)" "ixs' ! i = (name', ix')" by fastforce
  have "metas ixs ! i = metas ixs' ! i" by (simp add: assms(3))
  with e i i' have "name = name'" "ix_meta ix = ix_meta ix'" by (simp_all add: metas_def)
  moreover have "index_ok schema rows ix" "index_ok schema rows ix'"
    using assms(1,2) e nth_mem [OF i] nth_mem [OF i'] table_okD(3) by metis+
  ultimately show "ixs ! i = ixs' ! i" using index_ext e by auto
qed

section \<open>States\<close>

text \<open>What the undo log restores: schema, rows and indexes of every table.\<close>

definition table_of :: "'x memory \<Rightarrow> string \<Rightarrow> 'x table_schema option \<times> mem_rows option \<times> mem_indexes option" where
  "table_of s table = (map_of (ms_schemas s) table, map_of (ms_rows s) table, map_of (ms_indexes s) table)"

fun entry_ok :: "string \<Rightarrow> 'x table_schema option \<times> mem_rows option \<times> mem_indexes option \<Rightarrow> bool" where
  "entry_ok table (None, rows, ixs) \<longleftrightarrow> rows = None \<and> ixs = None"
| "entry_ok table (Some schema, Some rows, Some ixs) \<longleftrightarrow> sc_name schema = table \<and> table_ok schema table rows ixs"
| "entry_ok table (Some schema, _, _) \<longleftrightarrow> False"

definition tables_ok :: "'x memory \<Rightarrow> bool" where
  "tables_ok s \<longleftrightarrow> (\<forall>table. entry_ok table (table_of s table))"

text \<open>Row ids of a table without \<open>INTEGER PRIMARY KEY\<close> are below the next one.\<close>

definition counters_ok :: "'x memory \<Rightarrow> bool" where
  "counters_ok s \<longleftrightarrow> (\<forall>table schema rows. map_of (ms_schemas s) table = Some schema \<longrightarrow>
     integer_primary_key_column_index schema = None \<longrightarrow> map_of (ms_rows s) table = Some rows \<longrightarrow>
     (\<exists>n. map_of (ms_next_row_ids s) table = Some n \<and> (\<forall>r \<in> dom (map_of rows). r < n)))"

definition set_indexes :: "string \<Rightarrow> mem_indexes \<Rightarrow> 'x memory \<Rightarrow> 'x memory" where
  "set_indexes table ixs s = s\<lparr>ms_indexes := hm_insert table ixs (ms_indexes s)\<rparr>"

lemma entry_okE:
  assumes "entry_ok table (Some schema, rest)"
  obtains rows ixs where "rest = (Some rows, Some ixs)" "sc_name schema = table" "table_ok schema table rows ixs"
  using assms by (cases "(table, (Some schema, rest))" rule: entry_ok.cases) auto

lemma table_of_updates:
  "table_of s k = (sc, rs, is) \<Longrightarrow> table_of (set_indexes k ixs s) = (table_of s)(k := (sc, rs, Some ixs))"
  "table_of s k = (sc, Some rows, is) \<Longrightarrow> table_of (put_row k r row s) = (table_of s)(k := (sc, Some (bt_insert r row rows), is))"
  "table_of s k = (sc, Some rows, is) \<Longrightarrow> table_of (take_row k r s) = (table_of s)(k := (sc, Some (bt_remove r rows), is))"
  "table_of (raise_next_row_id k r s) = table_of s" "table_of (mem_record_undo u s) = table_of s"
  by (auto simp: table_of_def fun_eq_iff set_indexes_def put_row_def take_row_def raise_next_row_id_def mem_record_undo_def)

lemma each_index_state:
  assumes "table_of s k = (Some schema, rows, Some ixs)"
  shows "each_index (add_row_to_index schema r row) ixs = (Ok (), ixs') \<Longrightarrow> add_row_to_indexes k r row s = (Ok (), set_indexes k ixs' s)"
    "each_index (remove_row_from_index schema r row) ixs = (Ok (), ixs') \<Longrightarrow>
       remove_row_from_indexes k r row s = (Ok (), set_indexes k ixs' s)"
  using assms by (simp_all add: add_row_to_indexes_def remove_row_from_indexes_def require_schema_def on_indexes_def
      table_of_def set_indexes_def)

lemma row_at_table: "table_of s k = (sc, Some rows, is) \<Longrightarrow> row_at k r s = map_of rows r"
  by (simp add: row_at_def table_of_def)

text \<open>A row that was taken out of a table can be put back.\<close>

lemma readmits:
  assumes ok: "table_ok schema table rows ixs" and row: "map_of rows r = Some row"
    and same: "metas ixs0 = metas ixs" "(name, ix0) \<in> set ixs0"
  shows "admits schema (bt_remove r rows) row (ix_meta ix0)"
proof -
  have "(name, ix_meta ix0) \<in> set (metas ixs0)" using same(2) by (force simp: metas_def)
  then have "(name, ix_meta ix0) \<in> set (metas ixs)" by (simp only: same(1))
  then obtain ix where ix: "(name, ix) \<in> set ixs" "ix_meta ix = ix_meta ix0" by (auto simp: metas_def)
  note okD = index_okD [OF table_okD(3) [OF ok ix(1)], unfolded ix(2)]
  from okD(2) [OF row] obtain key where key: "project_index_key schema (ix_meta ix0) row = Ok key" by blast
  then have "r \<in> indexed_by schema (ix_meta ix0) rows key" using row by (auto simp: indexed_by_def)
  then have "indexed_by schema (ix_meta ix0) (bt_remove r rows) key = {}" if "enforces_unique_key (ix_meta ix0) key"
    using okD(6) [OF that] by (auto simp: indexed_by_remove)
  with key show ?thesis by (auto simp: admits_def)
qed

lemma put_back:
  assumes ok: "table_ok schema table rows ixs" and row: "map_of rows r = Some row"
    and ok0: "table_ok schema table (bt_remove r rows) ixs0" and same: "metas ixs0 = metas ixs"
  shows "each_index (add_row_to_index schema r row) ixs0 = (Ok (), ixs)"
proof -
  obtain ixs' where ixs': "each_index (add_row_to_index schema r row) ixs0 = (Ok (), ixs')" "metas ixs' = metas ixs0"
      "table_ok schema table (bt_insert r row (bt_remove r rows)) ixs'"
    using add_to_table [OF ok0 _ table_okD(5) [OF ok row]] readmits [OF ok row same] by auto
  then have "ixs' = ixs"
    using ok same bt_insert_remove [OF table_okD(1) [OF ok] row] by (intro table_ext [where rows = rows and ixs' = ixs]) auto
  with ixs' show ?thesis by simp
qed

lemma counters_okI:
  assumes "counters_ok s" "table_of s' = (table_of s)(k := e)" "\<And>table. table \<noteq> k \<Longrightarrow> map_of (ms_next_row_ids s') table = map_of (ms_next_row_ids s) table"
    and "\<And>schema rows. fst e = Some schema \<Longrightarrow> integer_primary_key_column_index schema = None \<Longrightarrow> fst (snd e) = Some rows \<Longrightarrow>
      \<exists>n. map_of (ms_next_row_ids s') k = Some n \<and> (\<forall>r \<in> dom (map_of rows). r < n)"
  shows "counters_ok s'"
  unfolding counters_ok_def
proof (intro allI impI)
  fix table schema rows
  assume *: "map_of (ms_schemas s') table = Some schema" "integer_primary_key_column_index schema = None" "map_of (ms_rows s') table = Some rows"
  show "\<exists>n. map_of (ms_next_row_ids s') table = Some n \<and> (\<forall>r \<in> dom (map_of rows). r < n)"
  proof (cases "table = k")
    case True
    have "fst e = Some schema" "fst (snd e) = Some rows"
      using * fun_cong [OF assms(2), of k] True by (auto simp: table_of_def)
    with assms(4) *(2) True show ?thesis by blast
  next
    case False
    have "map_of (ms_schemas s) table = Some schema" "map_of (ms_rows s) table = Some rows"
      using * fun_cong [OF assms(2), of table] False by (auto simp: table_of_def)
    with assms(1,3) *(2) False show ?thesis unfolding counters_ok_def by metis
  qed
qed

lemma counters_okD:
  assumes "counters_ok s" "table_of s k = (Some schema, Some rows, is)" "integer_primary_key_column_index schema = None"
  shows "\<exists>n. map_of (ms_next_row_ids s) k = Some n \<and> (\<forall>r \<in> dom (map_of rows). r < n)"
  using assms unfolding counters_ok_def table_of_def by blast

lemma kept_fields [simp]:
  "ms_active_txn (set_indexes k ixs s) = ms_active_txn s" "ms_active_txn (put_row k r row s) = ms_active_txn s"
  "ms_active_txn (take_row k r s) = ms_active_txn s" "ms_active_txn (raise_next_row_id k r s) = ms_active_txn s"
  "ms_next_row_ids (set_indexes k ixs s) = ms_next_row_ids s" "ms_next_row_ids (put_row k r row s) = ms_next_row_ids s"
  "ms_next_row_ids (take_row k r s) = ms_next_row_ids s" "ms_next_row_ids (mem_record_undo x s) = ms_next_row_ids s"
  by (simp_all add: set_indexes_def put_row_def take_row_def raise_next_row_id_def mem_record_undo_def)

lemma not_last_id:
  assumes "counters_ok s" "table_of s k = (Some schema, Some rows, is)" "map_of rows r = Some row"
    "integer_primary_key_column_index schema = None"
  shows "r \<noteq> - 1"
proof -
  obtain n where "r < n" using counters_okD [OF assms(1,2,4)] assms(3) by blast
  then show ?thesis by (auto simp: not_less word_order.extremum)
qed

lemma counters_raised_to:
  assumes "counters_ok u" "table_of u' = (table_of u)(k := (Some schema, Some rows', is))"
    "ms_next_row_ids u' = ms_next_row_ids (raise_next_row_id k r u)"
    and old: "table_of u k = (Some schema, Some rows, is')" "dom (map_of rows') \<subseteq> insert r (dom (map_of rows))"
    and top: "integer_primary_key_column_index schema = None \<Longrightarrow> r \<noteq> - 1"
  shows "counters_ok u'"
proof (rule counters_okI [OF assms(1,2)])
  fix schema' rows'' assume *: "fst (Some schema, Some rows', is) = Some schema'" "integer_primary_key_column_index schema' = None"
    "fst (snd (Some schema, Some rows', is)) = Some rows''"
  with counters_okD [OF assms(1) old(1)] obtain n where n: "map_of (ms_next_row_ids u) k = Some n" "\<forall>r \<in> dom (map_of rows). r < n"
    by auto
  have "r < r + 1" using top * word_less_add_one by auto
  with n have "x < max n (r + 1)" if "x \<in> dom (map_of rows')" for x
    using subsetD [OF old(2) that] by (metis insertE less_max_iff_disj)
  with n * show "\<exists>n. map_of (ms_next_row_ids u') k = Some n \<and> (\<forall>r \<in> dom (map_of rows''). r < n)"
    by (auto simp: assms(3) raise_next_row_id_def)
qed (simp add: assms(3) raise_next_row_id_def)

section \<open>Undo\<close>

text \<open>
  A list of undo records reverts a state to an earlier one when its application, last record first, to
  any state with the same tables succeeds and gives the earlier tables; the row id counters may differ,
  as long as they stay above the rows.
\<close>

definition reverts :: "'x undo_op list \<Rightarrow> 'x memory \<Rightarrow> 'x memory \<Rightarrow> bool" where
  "reverts us s' s \<longleftrightarrow> (\<forall>u. table_of u = table_of s' \<longrightarrow> counters_ok u \<longrightarrow>
     (\<exists>u'. apply_undos (rev us) u = (Ok (), u') \<and> table_of u' = table_of s \<and> counters_ok u'))"

lemma apply_undos_append:
  "apply_undos (us @ vs) s = sbind (apply_undos us) (\<lambda>_. apply_undos vs) s"
  by (induction us arbitrary: s) (auto simp: sbind_def split: prod.split result.split)

lemma reverts_append: "reverts us s1 s0 \<Longrightarrow> reverts vs s2 s1 \<Longrightarrow> reverts (us @ vs) s2 s0"
  unfolding reverts_def by (fastforce simp: apply_undos_append)

lemma reverts_Nil: "table_of s' = table_of s \<Longrightarrow> reverts [] s' s"
  by (simp add: reverts_def)

lemma revertsI1:
  assumes "\<And>u. table_of u = table_of s' \<Longrightarrow> counters_ok u \<Longrightarrow>
    \<exists>u'. apply_undo x u = (Ok (), u') \<and> table_of u' = table_of s \<and> counters_ok u'"
  shows "reverts [x] s' s"
  unfolding reverts_def
proof (intro allI impI)
  fix u assume "table_of u = table_of s'" "counters_ok u"
  with assms obtain u' where "apply_undo x u = (Ok (), u')" "table_of u' = table_of s" "counters_ok u'" by blast
  then show "\<exists>u'. apply_undos (rev [x]) u = (Ok (), u') \<and> table_of u' = table_of s \<and> counters_ok u'" by simp
qed

text \<open>The three records of row changes.\<close>

lemma undo_insert:
  assumes u: "table_of u k = (Some schema, Some (bt_insert r row rows), Some ixs')"
    and ok': "table_ok schema k (bt_insert r row rows) ixs'"
    and ok: "table_ok schema k rows ixs" "map_of rows r = None" "metas ixs' = metas ixs"
    and cu: "counters_ok u"
  shows "\<exists>u'. apply_undo (U_DeleteRow k r) u = (Ok (), u') \<and> table_of u' = (table_of u)(k := (Some schema, Some rows, Some ixs)) \<and> counters_ok u'"
proof -
  have restored: "bt_remove r (bt_insert r row rows) = rows" using table_okD(1) [OF ok(1)] ok(2) by (rule bt_remove_insert)
  obtain ixs2 where ixs2: "each_index (remove_row_from_index schema r row) ixs' = (Ok (), ixs2)" "metas ixs2 = metas ixs'"
      "table_ok schema k rows ixs2"
    using remove_from_table [OF ok', of r row] by (auto simp: restored)
  then have "ixs2 = ixs" using ok by (intro table_ext [where rows = rows]) auto
  have t: "table_of (take_row k r u) = (table_of u)(k := (Some schema, Some rows, Some ixs'))"
    using table_of_updates(3) [OF u] by (simp add: restored)
  then have "remove_row_from_indexes k r row (take_row k r u) = (Ok (), set_indexes k ixs (take_row k r u))"
    using each_index_state(2) [of "take_row k r u" k schema] ixs2(1) \<open>ixs2 = ixs\<close> by simp
  moreover have "table_of (set_indexes k ixs (take_row k r u)) = (table_of u)(k := (Some schema, Some rows, Some ixs))"
    using table_of_updates(1) [of "take_row k r u" k] t by (simp add: fun_upd_idem_iff)
  moreover from this have "counters_ok (set_indexes k ixs (take_row k r u))"
    using counters_okD [OF cu u] by (intro counters_okI [OF cu]) (auto split: if_splits)
  moreover have "row_at k r u = Some row" using row_at_table [OF u] by simp
  ultimately show ?thesis by simp
qed

lemma undo_delete:
  assumes u: "table_of u k = (Some schema, Some (bt_remove r rows), Some ixs')"
    and ok': "table_ok schema k (bt_remove r rows) ixs'"
    and ok: "table_ok schema k rows ixs" "map_of rows r = Some row" "metas ixs' = metas ixs"
    and cu: "counters_ok u" "integer_primary_key_column_index schema = None \<Longrightarrow> r \<noteq> - 1"
  shows "\<exists>u'. apply_undo (U_ReinsertRow k r row) u = (Ok (), u') \<and> table_of u' = (table_of u)(k := (Some schema, Some rows, Some ixs)) \<and> counters_ok u'"
proof -
  have restored: "bt_insert r row (bt_remove r rows) = rows" using table_okD(1) [OF ok(1)] ok(2) by (rule bt_insert_remove)
  let ?u = "raise_next_row_id k r (put_row k r row u)"
  have t: "table_of ?u = (table_of u)(k := (Some schema, Some rows, Some ixs'))"
    using table_of_updates(2) [OF u] by (simp add: table_of_updates restored)
  then have "add_row_to_indexes k r row ?u = (Ok (), set_indexes k ixs ?u)"
    using each_index_state(1) [of ?u k schema] put_back [OF ok(1,2) ok' ok(3)] by simp
  moreover have final: "table_of (set_indexes k ixs ?u) = (table_of u)(k := (Some schema, Some rows, Some ixs))"
    using table_of_updates(1) [of ?u k] t by simp
  moreover have "counters_ok (set_indexes k ixs ?u)"
    by (rule counters_raised_to [OF cu(1) final _ u _ cu(2)]) (auto simp: raise_next_row_id_def put_row_def)
  ultimately show ?thesis by simp
qed

lemma undo_update:
  assumes u: "table_of u k = (Some schema, Some (bt_insert r new (bt_remove r rows)), Some ixs')"
    and ok': "table_ok schema k (bt_insert r new (bt_remove r rows)) ixs'"
    and ok: "table_ok schema k rows ixs" "map_of rows r = Some row" "metas ixs' = metas ixs"
    and cu: "counters_ok u" "integer_primary_key_column_index schema = None \<Longrightarrow> r \<noteq> - 1"
  shows "\<exists>u'. apply_undo (U_RestoreRow k r row) u = (Ok (), u') \<and> table_of u' = (table_of u)(k := (Some schema, Some rows, Some ixs)) \<and> counters_ok u'"
proof -
  let ?rows' = "bt_insert r new (bt_remove r rows)"
  have wf: "bt_wf (bt_remove r rows)" using table_okD(1) [OF ok(1)] by simp
  have restored: "bt_insert r row ?rows' = rows" "bt_remove r ?rows' = bt_remove r rows"
    using wf table_okD(1) [OF ok(1)] ok(2) by (simp_all add: bt_insert_insert bt_insert_remove bt_remove_insert)
  obtain ixs0 where ixs0: "each_index (remove_row_from_index schema r new) ixs' = (Ok (), ixs0)" "metas ixs0 = metas ixs'"
      "table_ok schema k (bt_remove r rows) ixs0"
    using remove_from_table [OF ok', of r new] by (auto simp: restored)
  let ?u = "put_row k r row u"
  let ?v = "raise_next_row_id k r (set_indexes k ixs0 ?u)"
  have t: "table_of ?u = (table_of u)(k := (Some schema, Some rows, Some ixs'))"
    using table_of_updates(2) [OF u] by (simp add: restored)
  then have rm: "remove_row_from_indexes k r new ?u = (Ok (), set_indexes k ixs0 ?u)"
    using each_index_state(2) [of ?u k schema] ixs0(1) by simp
  have v: "table_of ?v = (table_of u)(k := (Some schema, Some rows, Some ixs0))"
    using table_of_updates(1) [of ?u k] t by (simp add: table_of_updates)
  then have ad: "add_row_to_indexes k r row ?v = (Ok (), set_indexes k ixs ?v)"
    using each_index_state(1) [of ?v k schema] put_back [OF ok(1,2) ixs0(3)] ixs0(2) ok(3) by simp
  have final: "table_of (set_indexes k ixs ?v) = (table_of u)(k := (Some schema, Some rows, Some ixs))"
    using table_of_updates(1) [of ?v k] v by simp
  moreover have "counters_ok (set_indexes k ixs ?v)"
    by (rule counters_raised_to [OF cu(1) final _ u _ cu(2)]) (auto simp: raise_next_row_id_def put_row_def set_indexes_def)
  moreover have "row_at k r u = Some new" "map_of (ms_rows u) k \<noteq> None"
    using row_at_table [OF u] u by (simp_all add: table_of_def)
  ultimately show ?thesis using rm ad by auto
qed

section \<open>Steps\<close>

definition undo_log :: "'x memory \<Rightarrow> 'x undo_op list" where
  "undo_log s = (case ms_active_txn s of None \<Rightarrow> [] | Some active \<Rightarrow> at_undo_log active)"

text \<open>
  A step of a transaction: the tables stay well formed, and what was added to the log takes them back.
\<close>

definition progress :: "'x memory \<Rightarrow> 'x memory \<Rightarrow> bool" where
  "progress s s' \<longleftrightarrow> tables_ok s' \<and> counters_ok s' \<and>
     map_option (\<lambda>a. (at_id a, at_savepoints a)) (ms_active_txn s') =
       map_option (\<lambda>a. (at_id a, at_savepoints a)) (ms_active_txn s) \<and>
     (\<exists>us. undo_log s' = undo_log s @ us \<and> reverts us s' s)"

lemma progress_trans: "progress a b \<Longrightarrow> progress b c \<Longrightarrow> progress a c"
  unfolding progress_def using reverts_append by fastforce

lemma tables_ok_cong: "table_of s' = table_of s \<Longrightarrow> tables_ok s' = tables_ok s"
  by (simp add: tables_ok_def)

lemma tables_ok_upd: "tables_ok s \<Longrightarrow> table_of s' = (table_of s)(k := e) \<Longrightarrow> entry_ok k e \<Longrightarrow> tables_ok s'"
  by (simp add: tables_ok_def)

lemma progress_same:
  assumes "tables_ok s" "table_of s' = table_of s" "counters_ok s'" "ms_active_txn s' = ms_active_txn s"
  shows "progress s s'"
  using assms tables_ok_cong reverts_Nil [OF assms(2)] by (auto simp: progress_def undo_log_def)

lemma progress_refl: "tables_ok s \<Longrightarrow> counters_ok s \<Longrightarrow> progress s s"
  by (simp add: progress_same)

text \<open>A step that rewrites one table and logs one record.\<close>

lemma progress_record:
  assumes ok: "tables_ok s" and active: "ms_active_txn s = Some active"
    and s': "ms_active_txn s' = Some (active\<lparr>at_undo_log := at_undo_log active @ [x]\<rparr>)" "counters_ok s'"
    and tab: "table_of s' = (table_of s)(k := e)" "entry_ok k e"
    and undo: "\<And>u. table_of u = (table_of s)(k := e) \<Longrightarrow> counters_ok u \<Longrightarrow>
      \<exists>u'. apply_undo x u = (Ok (), u') \<and> table_of u' = (table_of u)(k := table_of s k) \<and> counters_ok u'"
  shows "progress s s'"
proof -
  have "reverts [x] s' s" using undo by (intro revertsI1) (auto simp: tab(1))
  with ok active s' tab show ?thesis by (auto simp: progress_def undo_log_def intro: tables_ok_upd)
qed

lemma validated: "mem_validate_transaction t s = Ok () \<Longrightarrow> \<exists>active. ms_active_txn s = Some active \<and> at_id active = t"
  by (auto simp: mem_validate_transaction_def split: option.splits if_splits)

lemma tables_okE:
  assumes "tables_ok s" "map_of (ms_schemas s) k = Some schema"
  obtains rows ixs where "table_of s k = (Some schema, Some rows, Some ixs)" "sc_name schema = k" "table_ok schema k rows ixs"
proof -
  have "entry_ok k (table_of s k)" using assms(1) by (simp add: tables_ok_def)
  moreover have "table_of s k = (Some schema, snd (table_of s k))" using assms(2) by (simp add: table_of_def)
  ultimately show thesis using that by (metis entry_okE)
qed

subsection \<open>Inserting\<close>

lemma counters_raised:
  assumes "counters_ok s" "map_of (ms_next_row_ids s) k = Some n" "n \<noteq> - 1"
  shows "counters_ok (s\<lparr>ms_next_row_ids := hm_insert k (n + 1) (ms_next_row_ids s)\<rparr>)"
proof (rule counters_okI [OF assms(1), where k = k and e = "table_of s k"])
  fix schema rows
  assume "fst (table_of s k) = Some schema" "integer_primary_key_column_index schema = None" "fst (snd (table_of s k)) = Some rows"
  with assms(1,2) have "\<forall>r \<in> dom (map_of rows). r < n"
    unfolding counters_ok_def table_of_def by (metis fst_conv option.inject snd_conv)
  with word_less_add_one [OF assms(3)] show "\<exists>m. map_of (ms_next_row_ids (s\<lparr>ms_next_row_ids := hm_insert k (n + 1) (ms_next_row_ids s)\<rparr>)) k = Some m \<and>
      (\<forall>r \<in> dom (map_of rows). r < m)"
    by (auto intro: less_trans)
qed (auto simp: table_of_def fun_eq_iff)

text \<open>The counter of a table exists and can be raised.\<close>

definition counter_fits :: "string \<Rightarrow> 'x memory \<Rightarrow> bool" where
  "counter_fits k s \<longleftrightarrow> (case map_of (ms_next_row_ids s) k of None \<Rightarrow> False | Some n \<Rightarrow> n \<noteq> - 1)"

lemma next_row_id_step:
  assumes "counters_ok s" "counter_fits k s"
  obtains n s1 where "mem_next_row_id k s = (Ok n, s1)" "map_of (ms_next_row_ids s) k = Some n" "counters_ok s1"
    "table_of s1 = table_of s" "ms_active_txn s1 = ms_active_txn s" "map_of (ms_next_row_ids s1) k = Some (n + 1)" "n < n + 1"
proof -
  from assms(2) obtain n where n: "map_of (ms_next_row_ids s) k = Some n" "n \<noteq> - 1"
    by (auto simp: counter_fits_def split: option.splits)
  show thesis
    using n counters_raised [OF assms(1) n] word_less_add_one [OF n(2)]
    by (intro that [of n "s\<lparr>ms_next_row_ids := hm_insert k (n + 1) (ms_next_row_ids s)\<rparr>"])
      (simp_all add: mem_next_row_id_def table_of_def fun_eq_iff)
qed

text \<open>What the choice of a row id guarantees.\<close>

definition assigned :: "string \<Rightarrow> 'x table_schema \<Rightarrow> mem_rows \<Rightarrow> 'x memory \<Rightarrow> row \<Rightarrow> row \<Rightarrow> row_id \<Rightarrow> bool" where
  "assigned k schema rows s row0 row r \<longleftrightarrow> length row = length row0 \<and> row_id_is_key schema r row \<and>
     (integer_primary_key_column_index schema = None \<longrightarrow>
        map_of rows r = None \<and> (\<exists>n. map_of (ms_next_row_ids s) k = Some n \<and> r < n))"

lemma given_row_id_Some: "given_row_id row i = Ok (Some r) \<Longrightarrow> i < length row \<and> row ! i = Integer r"
  by (auto simp: given_row_id_def split: if_splits Value.splits)

lemma given_row_id_None: "given_row_id row i = Ok None \<Longrightarrow> i < length row"
  by (auto simp: given_row_id_def split: if_splits)

lemma assign_row_id_step:
  assumes ok: "counters_ok s" "counter_fits k s" and tab: "table_of s k = (Some schema, Some rows, ixs)"
  obtains res s1 where "assign_row_id k schema row0 s = (res, s1)" "counters_ok s1" "table_of s1 = table_of s"
    "ms_active_txn s1 = ms_active_txn s" "\<And>row r. res = Ok (row, r) \<Longrightarrow> assigned k schema rows s1 row0 row r"
proof -
  obtain n s1 where n: "mem_next_row_id k s = (Ok n, s1)" "map_of (ms_next_row_ids s) k = Some n" "counters_ok s1"
      "table_of s1 = table_of s" "ms_active_txn s1 = ms_active_txn s" "map_of (ms_next_row_ids s1) k = Some (n + 1)" "n < n + 1"
    using next_row_id_step [OF ok] .
  show thesis
  proof (cases "integer_primary_key_column_index schema")
    case None
    have "map_of rows n = None"
      using counters_okD [OF ok(1) tab None] n(2) by (metis domIff less_irrefl option.inject)
    with None n show thesis
      by (intro that [of "Ok (row0, n)" s1]) (auto simp: assign_row_id_def assigned_def row_id_is_key_def)
  next
    case (Some i)
    show thesis
    proof (cases "given_row_id row0 i")
      case (Ok given)
      show thesis
      proof (cases given)
        case None
        with Some Ok n given_row_id_None show thesis
          by (intro that [of "rbind (with_row_id row0 i n) (\<lambda>row'. Ok (row', n))" s1])
            (auto simp: assign_row_id_def assigned_def row_id_is_key_def with_row_id_def sbind_def split: if_splits)
      next
        case (Some r)
        with \<open>integer_primary_key_column_index schema = Some i\<close> Ok ok given_row_id_Some show thesis
          by (intro that [of "Ok (row0, r)" s]) (auto simp: assign_row_id_def assigned_def row_id_is_key_def)
      qed
    qed (use Some ok in \<open>auto simp: assign_row_id_def sbind_def intro!: that\<close>)
  qed
qed

text \<open>Equal keys of a backing index are equal primary keys.\<close>

lemma project_column_at:
  "position (\<lambda>e. cd_name e = c) (sc_columns schema) = Some i \<Longrightarrow> project_column schema row c = Ok v \<Longrightarrow> i < length row \<and> row ! i = v"
  by (auto simp: project_column_def split: if_splits)

lemma backing_key_same:
  assumes "backing_ok schema k meta" "is_primary_key_backing_index schema meta k" "im_unique meta"
    and "project_index_key schema meta row = Ok key" "project_index_key schema meta row' = Ok key"
  shows "same_key (primary_key_columns schema) row row'"
  unfolding same_key_def list_all_iff
proof clarify
  fix i c assume pk: "(i, c) \<in> set (primary_key_columns schema)"
  with assms(1-3) have c: "cd_name c \<in> set (im_columns meta)" "position (\<lambda>e. cd_name e = cd_name c) (sc_columns schema) = Some i"
    by (auto simp: backing_ok_def list_all_iff)
  from collect_results_same [OF assms(4,5) [unfolded project_index_key_def] c(1)] obtain v where "project_column schema row (cd_name c) = Ok v"
      "project_column schema row' (cd_name c) = Ok v" by blast
  with c(2) show "i < length row' \<and> row' ! i = row ! i" using project_column_at by metis
qed

lemma project_exists:
  assumes "list_all (has_column schema) (im_columns meta)" "length row = length (sc_columns schema)"
  shows "\<exists>key. project_index_key schema meta row = Ok key"
proof -
  have "\<exists>v. project_column schema row c = Ok v" if "c \<in> set (im_columns meta)" for c
  proof -
    from assms(1) that have "\<exists>e \<in> set (sc_columns schema). cd_name e = c" by (auto simp: list_all_iff has_column_def list_ex_iff)
    then obtain i where "position (\<lambda>e. cd_name e = c) (sc_columns schema) = Some i"
      by (cases "position (\<lambda>e. cd_name e = c) (sc_columns schema)") (auto simp: position_eq_None)
    moreover from this assms(2) have "i < length row" by (simp add: position_eq_Some)
    ultimately show ?thesis by (simp add: project_column_def)
  qed
  then show ?thesis unfolding project_index_key_def by (rule collect_results_total)
qed

text \<open>A row that passes the checks of \<open>insert_row\<close> is taken by every index.\<close>

lemma checked_admits:
  assumes ok: "table_ok schema k rows ixs" and ix: "(name, ix) \<in> set ixs"
    and len: "length row = length (sc_columns schema)"
    and pk: "validate_primary_key_uniqueness R schema row (map snd rows) = Ok ()"
    and other: "\<not> is_primary_key_backing_index schema (ix_meta ix) k \<Longrightarrow>
      \<exists>key. project_index_key schema (ix_meta ix) row = Ok key \<and> \<not> entry_taken ix key"
  shows "admits schema rows row (ix_meta ix)"
proof (cases "is_primary_key_backing_index schema (ix_meta ix) k")
  case True
  note backing = table_okD(4) [OF ok ix]
  with True len obtain key where key: "project_index_key schema (ix_meta ix) row = Ok key"
    using project_exists by (metis backing_ok_def)
  have "indexed_by schema (ix_meta ix) rows key = {}" if "enforces_unique_key (ix_meta ix) key"
  proof (rule ccontr)
    assume "indexed_by schema (ix_meta ix) rows key \<noteq> {}"
    then obtain r' row' where r': "map_of rows r' = Some row'" "project_index_key schema (ix_meta ix) row' = Ok key"
      by (auto simp: indexed_by_def)
    have u: "im_unique (ix_meta ix)" using that by (simp add: enforces_unique_key_def)
    have "row' \<in> set (map snd rows)" using map_of_SomeD [OF r'(1)] by force
    moreover have "primary_key_columns schema \<noteq> []" using backing True u by (simp add: backing_ok_def)
    ultimately show False using primary_key_free [OF pk] backing_key_same [OF backing True u key r'(2)] by blast
  qed
  with key show ?thesis by (auto simp: admits_def)
next
  case False
  with other obtain key where "project_index_key schema (ix_meta ix) row = Ok key" "\<not> entry_taken ix key" by blast
  with index_okD(3) [OF table_okD(3) [OF ok ix], of key] show ?thesis by (auto simp: admits_def entry_taken_def)
qed

lemma unique_checked:
  assumes "validate_unique_index_constraints k row s = Ok ()" "table_of s k = (Some schema, rows, Some ixs)"
    "(name, ix) \<in> set ixs" "\<not> is_primary_key_backing_index schema (ix_meta ix) k"
  shows "\<exists>key. project_index_key schema (ix_meta ix) row = Ok key \<and> \<not> entry_taken ix key"
  using assms
  by (auto simp: validate_unique_index_constraints_def require_schema_def table_of_def rbind_eq_Ok
      dest!: collect_results_all [where x = "(name, ix)"] split: if_splits)

text \<open>An \<open>INTEGER PRIMARY KEY\<close> that passes the uniqueness check is a new row id.\<close>

lemma checked_new:
  assumes ok: "table_ok schema k rows ixs" and pk: "validate_primary_key_uniqueness R schema row (map snd rows) = Ok ()"
    and as: "assigned k schema rows s row0 row r"
  shows "map_of rows r = None"
proof (cases "integer_primary_key_column_index schema")
  case None
  with as show ?thesis by (simp add: assigned_def)
next
  case (Some i)
  then obtain c where c: "primary_key_columns schema = [(i, c)]"
    by (auto simp: integer_primary_key_column_index_def split: if_splits list.splits)
  show ?thesis
  proof (rule ccontr)
    assume "map_of rows r \<noteq> None"
    then obtain row' where r: "map_of rows r = Some row'" by blast
    with table_okD(5) [OF ok r] as Some have "row' ! i = row ! i" "i < length row'"
      by (auto simp: row_id_is_key_def assigned_def)
    moreover have "row' \<in> set (map snd rows)" using map_of_SomeD [OF r] by force
    ultimately show False using primary_key_free [OF pk] by (auto simp: c same_key_def)
  qed
qed

lemma sget_step: "(\<And>a. f s = Ok a \<Longrightarrow> P (snd (k a s))) \<Longrightarrow> P s \<Longrightarrow> P (snd (sbind (sget f) k s))"
  by (cases "f s") (simp_all add: sbind_def)

lemma require_schema_Ok: "require_schema k s = Ok schema \<longleftrightarrow> map_of (ms_schemas s) k = Some schema"
  by (simp add: require_schema_def)

lemma length_checked: "mem_check_row_length what k schema row = Ok () \<Longrightarrow> length row = length (sc_columns schema)"
  by (auto simp: mem_check_row_length_def split: if_splits)

lemma recorded_txn:
  "ms_active_txn s = Some active \<Longrightarrow> ms_active_txn (mem_record_undo x s) = Some (active\<lparr>at_undo_log := at_undo_log active @ [x]\<rparr>)"
  by (simp add: mem_record_undo_def)

text \<open>The writing part of \<open>insert_row\<close>.\<close>

lemma insert_written:
  assumes ok: "tables_ok s" "counters_ok s" and active: "ms_active_txn s = Some active"
    and tab: "table_of s k = (Some schema, Some rows, Some ixs)" "table_ok schema k rows ixs" "sc_name schema = k"
    and as: "assigned k schema rows s row0 row r" and new: "map_of rows r = None"
    and adm: "\<And>name ix. (name, ix) \<in> set ixs \<Longrightarrow> admits schema rows row (ix_meta ix)"
  shows "progress s (snd (sbind (smodify (put_row k r row)) (\<lambda>_. sbind (add_row_to_indexes k r row) (\<lambda>_.
    sbind (smodify (mem_record_undo (U_DeleteRow k r))) (\<lambda>_. sret r))) s))"
proof -
  obtain ixs' where ixs': "each_index (add_row_to_index schema r row) ixs = (Ok (), ixs')" "metas ixs' = metas ixs"
      "table_ok schema k (bt_insert r row rows) ixs'"
    using add_to_table [OF tab(2) new, of row] adm as unfolding assigned_def by blast
  let ?e = "(Some schema, Some (bt_insert r row rows), Some ixs')"
  let ?s = "set_indexes k ixs' (put_row k r row s)"
  have put: "table_of (put_row k r row s) k = (Some schema, Some (bt_insert r row rows), Some ixs)"
    by (simp add: table_of_updates(2) [OF tab(1)])
  have t: "table_of ?s = (table_of s)(k := ?e)"
    using table_of_updates(1) [OF put] by (simp add: table_of_updates(2) [OF tab(1)])
  have "counters_ok ?s"
  proof (rule counters_okI [OF ok(2) t])
    fix schema' rows' assume *: "fst ?e = Some schema'" "integer_primary_key_column_index schema' = None" "fst (snd ?e) = Some rows'"
    with as obtain n where "map_of (ms_next_row_ids s) k = Some n" "r < n" by (auto simp: assigned_def)
    with counters_okD [OF ok(2) tab(1)] * show "\<exists>n. map_of (ms_next_row_ids ?s) k = Some n \<and> (\<forall>r \<in> dom (map_of rows'). r < n)"
      by (auto split: if_splits)
  qed simp
  then have "counters_ok (mem_record_undo (U_DeleteRow k r) ?s)"
    using counters_okI [OF _ fun_upd_triv [symmetric]] by (simp add: counters_ok_def mem_record_undo_def)
  moreover have "\<exists>u'. apply_undo (U_DeleteRow k r) u = (Ok (), u') \<and> table_of u' = (table_of u)(k := table_of s k) \<and> counters_ok u'"
    if "table_of u = (table_of s)(k := ?e)" "counters_ok u" for u
    unfolding tab(1) using that by (intro undo_insert [OF _ ixs'(3) tab(2) new ixs'(2)]) simp_all
  ultimately have "progress s (mem_record_undo (U_DeleteRow k r) ?s)"
    using active t ixs'(3) tab(3)
    by (intro progress_record [OF ok(1) active, where k = k and e = ?e and x = "U_DeleteRow k r"])
      (simp_all add: recorded_txn table_of_updates)
  then show ?thesis using each_index_state(1) [OF put ixs'(1)] by (simp add: sbind_def)
qed

lemma insert_progress:
  assumes ok: "tables_ok s" "counters_ok s" and fits: "map_of (ms_schemas s) k \<noteq> None \<Longrightarrow> counter_fits k s"
  shows "progress s (snd (mem_insert_row R t k row0 s))"
proof -
  have refl: "progress s s" using ok by (rule progress_refl)
  show ?thesis unfolding mem_insert_row_def
  proof (rule sget_step [where P = "progress s"], rule sget_step [where P = "progress s"], rule sget_step [where P = "progress s"])
    fix u1 schema u2
    assume "mem_validate_transaction t s = Ok u1" and schema: "require_schema k s = Ok schema"
      and len: "mem_check_row_length ''insert into '' k schema row0 = Ok u2"
    then obtain active where active: "ms_active_txn s = Some active" using validated by (metis (full_types) old.unit.exhaust)
    from schema have schema': "map_of (ms_schemas s) k = Some schema" by (simp add: require_schema_Ok)
    from tables_okE [OF ok(1) this] obtain rows ixs where
      tab: "table_of s k = (Some schema, Some rows, Some ixs)" "sc_name schema = k" "table_ok schema k rows ixs" .
    obtain res s1 where s1: "assign_row_id k schema row0 s = (res, s1)" "counters_ok s1" "table_of s1 = table_of s"
        "ms_active_txn s1 = ms_active_txn s" "\<And>row r. res = Ok (row, r) \<Longrightarrow> assigned k schema rows s1 row0 row r"
      using assign_row_id_step [OF ok(2) fits tab(1)] schema' by auto
    have p1: "progress s s1" using ok(1) s1 by (intro progress_same)
    show "progress s (snd (sbind (assign_row_id k schema row0) (\<lambda>(row, row_id).
        sbind (sget (validate_mem_row R schema row)) (\<lambda>_.
        sbind (sget (\<lambda>s. validate_primary_key_uniqueness R schema row (map snd (get_or_empty (ms_rows s) k)))) (\<lambda>_.
        sbind (sget (validate_unique_index_constraints k row)) (\<lambda>_.
        sbind (smodify (put_row k row_id row)) (\<lambda>_.
        sbind (add_row_to_indexes k row_id row) (\<lambda>_.
        sbind (smodify (mem_record_undo (U_DeleteRow k row_id))) (\<lambda>_. sret row_id))))))) s))"
    proof (cases res)
      case (Ok a)
      obtain row r where a: "a = (row, r)" by fastforce
      with Ok s1(5) have as: "assigned k schema rows s1 row0 row r" by simp
      have tab1: "table_of s1 k = (Some schema, Some rows, Some ixs)" "get_or_empty (ms_rows s1) k = rows"
        using tab(1) s1(3) by (auto simp: table_of_def fun_eq_iff)
      have "progress s1 (snd (sbind (sget (validate_mem_row R schema row)) (\<lambda>_.
        sbind (sget (\<lambda>s. validate_primary_key_uniqueness R schema row (map snd (get_or_empty (ms_rows s) k)))) (\<lambda>_.
        sbind (sget (validate_unique_index_constraints k row)) (\<lambda>_.
        sbind (smodify (put_row k r row)) (\<lambda>_.
        sbind (add_row_to_indexes k r row) (\<lambda>_.
        sbind (smodify (mem_record_undo (U_DeleteRow k r))) (\<lambda>_. sret r)))))) s1))"
      proof (rule sget_step [where P = "progress s1"], rule sget_step [where P = "progress s1"], rule sget_step [where P = "progress s1"])
        fix u3 u4 u5
        assume "validate_primary_key_uniqueness R schema row (map snd (get_or_empty (ms_rows s1) k)) = Ok u4"
          and "validate_unique_index_constraints k row s1 = Ok u5"
        then have pk: "validate_primary_key_uniqueness R schema row (map snd rows) = Ok ()"
          and uq: "validate_unique_index_constraints k row s1 = Ok ()" by (simp_all add: tab1)
        have "length row = length (sc_columns schema)" using as len length_checked by (auto simp: assigned_def)
        from checked_admits [OF tab(3) _ this pk unique_checked [OF uq tab1(1)]]
        have adm: "(name, ix) \<in> set ixs \<Longrightarrow> admits schema rows row (ix_meta ix)" for name ix by blast
        show "progress s1 (snd (sbind (smodify (put_row k r row)) (\<lambda>_. sbind (add_row_to_indexes k r row) (\<lambda>_.
            sbind (smodify (mem_record_undo (U_DeleteRow k r))) (\<lambda>_. sret r))) s1))"
          using tables_ok_cong [OF s1(3)] ok(1) s1(4) active
          by (intro insert_written [OF _ s1(2) _ tab1(1) tab(3,2) as checked_new [OF tab(3) pk as] adm]) auto
      qed (use ok(1) s1 tables_ok_cong [OF s1(3)] in \<open>auto intro: progress_refl\<close>)
      from progress_trans [OF p1 this] show ?thesis using s1(1) Ok a by simp
    qed (use s1(1) p1 in simp_all)
  qed (rule refl)+
qed

subsection \<open>Deleting and updating\<close>

lemma counters_record: "counters_ok (mem_record_undo x s) = counters_ok s"
  by (simp add: counters_ok_def mem_record_undo_def)

lemma row_at_schema:
  assumes "tables_ok s" "row_at k r s = Some row"
  obtains schema rows ixs where "table_of s k = (Some schema, Some rows, Some ixs)" "sc_name schema = k"
    "table_ok schema k rows ixs" "map_of rows r = Some row"
proof -
  from assms(2) have "map_of (ms_rows s) k \<noteq> None" by (cases "map_of (ms_rows s) k") (simp_all add: row_at_def)
  moreover have "entry_ok k (table_of s k)" using assms(1) by (simp add: tables_ok_def)
  ultimately obtain schema where "map_of (ms_schemas s) k = Some schema"
    by (cases "map_of (ms_schemas s) k") (auto simp: table_of_def)
  from tables_okE [OF assms(1) this] obtain rows ixs where
    "table_of s k = (Some schema, Some rows, Some ixs)" "sc_name schema = k" "table_ok schema k rows ixs" .
  with that assms(2) row_at_table show thesis by metis
qed

lemma delete_progress:
  assumes ok: "tables_ok s" "counters_ok s"
  shows "progress s (snd (mem_delete_row t k r s))"
  unfolding mem_delete_row_def
proof (rule sget_step [where P = "progress s"], rule sget_step [where P = "progress s"])
  fix u1 removed assume "mem_validate_transaction t s = Ok u1" and removed: "Ok (row_at k r s) = Ok removed"
  then obtain active where active: "ms_active_txn s = Some active" using validated by (metis (full_types) old.unit.exhaust)
  show "progress s (snd ((case removed of None \<Rightarrow> sret () | Some row \<Rightarrow> sbind (smodify (take_row k r)) (\<lambda>_.
      sbind (remove_row_from_indexes k r row) (\<lambda>_. smodify (mem_record_undo (U_ReinsertRow k r row))))) s))"
  proof (cases removed)
    case (Some row)
    with removed obtain schema rows ixs where tab: "table_of s k = (Some schema, Some rows, Some ixs)" "sc_name schema = k"
        "table_ok schema k rows ixs" "map_of rows r = Some row"
      using row_at_schema [OF ok(1), of k r row] by blast
    obtain ixs' where ixs': "each_index (remove_row_from_index schema r row) ixs = (Ok (), ixs')" "metas ixs' = metas ixs"
        "table_ok schema k (bt_remove r rows) ixs'"
      using remove_from_table [OF tab(3,4)] by blast
    let ?e = "(Some schema, Some (bt_remove r rows), Some ixs')"
    let ?s = "set_indexes k ixs' (take_row k r s)"
    have taken: "table_of (take_row k r s) k = (Some schema, Some (bt_remove r rows), Some ixs)"
      by (simp add: table_of_updates(3) [OF tab(1)])
    have t: "table_of ?s = (table_of s)(k := ?e)"
      using table_of_updates(1) [OF taken] by (simp add: table_of_updates(3) [OF tab(1)])
    have "counters_ok ?s"
      using counters_okD [OF ok(2) tab(1)] by (intro counters_okI [OF ok(2) t]) (auto split: if_splits)
    moreover have "\<exists>u'. apply_undo (U_ReinsertRow k r row) u = (Ok (), u') \<and> table_of u' = (table_of u)(k := table_of s k) \<and> counters_ok u'"
      if "table_of u = (table_of s)(k := ?e)" "counters_ok u" for u
      unfolding tab(1) using that not_last_id [OF ok(2) tab(1,4)] by (intro undo_delete [OF _ ixs'(3) tab(3,4) ixs'(2)]) simp_all
    ultimately have "progress s (mem_record_undo (U_ReinsertRow k r row) ?s)"
      using active t ixs'(3) tab(2)
      by (intro progress_record [OF ok(1) active, where k = k and e = ?e and x = "U_ReinsertRow k r row"])
        (simp_all add: recorded_txn table_of_updates counters_record)
    then show ?thesis using each_index_state(2) [OF taken ixs'(1)] Some by (simp add: sbind_def)
  qed (simp add: progress_refl ok)
qed (rule progress_refl [OF ok])+

text \<open>A row that passes the checks of \<open>update_row\<close> is taken by every index once the old row is out.\<close>

lemma update_admits:
  assumes ok: "table_ok schema k rows ixs" and ix: "(name, ix) \<in> set ixs"
    and chk: "collect_results (check_unique_update schema r row) ixs = Ok us"
  shows "admits schema (bt_remove r rows) row (ix_meta ix)"
proof -
  from collect_results_all [OF chk ix] obtain key where key: "project_index_key schema (ix_meta ix) row = Ok key"
      "enforces_unique_key (ix_meta ix) key \<longrightarrow> (\<forall>c \<in> set (get_or_empty (ix_entries ix) key). c = r)"
    by (auto simp: check_unique_update_def rbind_eq_Ok list_ex_iff split: if_splits)
  with index_okD(3) [OF table_okD(3) [OF ok ix], of key] show ?thesis
    by (auto simp: admits_def indexed_by_remove)
qed

lemma replace_row_progress:
  assumes ok: "tables_ok s" "counters_ok s" and active: "ms_active_txn s = Some active"
    and tab: "table_of s k = (Some schema, Some rows, Some ixs)" "sc_name schema = k" "table_ok schema k rows ixs"
    and old: "map_of rows r = Some old" and id: "row_id_is_key schema r row"
    and chk: "collect_results (check_unique_update schema r row) ixs = Ok us"
  shows "progress s (snd (replace_row k r old r row s))"
proof -
  obtain ixs0 where ixs0: "each_index (remove_row_from_index schema r old) ixs = (Ok (), ixs0)" "metas ixs0 = metas ixs"
      "table_ok schema k (bt_remove r rows) ixs0"
    using remove_from_table [OF tab(3) old] by blast
  have adm: "admits schema (bt_remove r rows) row (ix_meta ix)" if "(name, ix) \<in> set ixs0" for name ix
  proof -
    have "(name, ix_meta ix) \<in> set (metas ixs0)" using that by (force simp: metas_def)
    then have "(name, ix_meta ix) \<in> set (metas ixs)" by (simp only: ixs0(2))
    then obtain ix' where "(name, ix') \<in> set ixs" "ix_meta ix' = ix_meta ix" by (auto simp: metas_def)
    with update_admits [OF tab(3) _ chk] show ?thesis by metis
  qed
  let ?rows = "bt_insert r row (bt_remove r rows)"
  obtain ixs' where ixs': "each_index (add_row_to_index schema r row) ixs0 = (Ok (), ixs')" "metas ixs' = metas ixs0"
      "table_ok schema k ?rows ixs'"
    using add_to_table [OF ixs0(3), of r row] adm id by auto
  let ?s0 = "set_indexes k ixs0 s"
  let ?s1 = "raise_next_row_id k r (put_row k r row (take_row k r ?s0))"
  let ?e = "(Some schema, Some ?rows, Some ixs')"
  have t0: "table_of ?s0 = (table_of s)(k := (Some schema, Some rows, Some ixs0))" by (rule table_of_updates(1) [OF tab(1)])
  have t1: "table_of ?s1 = (table_of s)(k := (Some schema, Some ?rows, Some ixs0))"
    by (subst table_of_updates(4), subst table_of_updates(2) [of _ _ "Some schema" "bt_remove r rows" "Some ixs0"];
        subst table_of_updates(3) [of _ _ "Some schema" rows "Some ixs0"]; simp add: t0)
  have t: "table_of (set_indexes k ixs' ?s1) = (table_of s)(k := ?e)"
    using table_of_updates(1) [of ?s1 k] t1 by simp
  have "counters_ok (set_indexes k ixs' ?s1)"
  proof (rule counters_okI [OF ok(2) t])
    fix schema' rows' assume *: "fst ?e = Some schema'" "integer_primary_key_column_index schema' = None" "fst (snd ?e) = Some rows'"
    with counters_okD [OF ok(2) tab(1)] obtain n where n: "map_of (ms_next_row_ids s) k = Some n" "\<forall>r \<in> dom (map_of rows). r < n"
      by auto
    with old have "r < n" by blast
    with n * show "\<exists>n. map_of (ms_next_row_ids (set_indexes k ixs' ?s1)) k = Some n \<and> (\<forall>r \<in> dom (map_of rows'). r < n)"
      by (auto simp: raise_next_row_id_def less_max_iff_disj split: if_splits)
  qed (simp add: raise_next_row_id_def)
  moreover have "\<exists>u'. apply_undo (U_RestoreRow k r old) u = (Ok (), u') \<and> table_of u' = (table_of u)(k := table_of s k) \<and> counters_ok u'"
    if "table_of u = (table_of s)(k := ?e)" "counters_ok u" for u
    unfolding tab(1) using that ixs'(2) ixs0(2) not_last_id [OF ok(2) tab(1) old]
    by (intro undo_update [OF _ ixs'(3) tab(3) old]) simp_all
  ultimately have "progress s (mem_record_undo (U_RestoreRow k r old) (set_indexes k ixs' ?s1))"
    using active t ixs'(3) tab(2)
    by (intro progress_record [OF ok(1) active, where k = k and e = ?e and x = "U_RestoreRow k r old"])
      (simp_all add: recorded_txn table_of_updates counters_record)
  moreover have "add_row_to_indexes k r row ?s1 = (Ok (), set_indexes k ixs' ?s1)"
    using each_index_state(1) [of ?s1 k schema] t1 ixs'(1) by simp
  ultimately show ?thesis
    using each_index_state(2) [OF tab(1) ixs0(1)] by (simp add: replace_row_def sbind_def)
qed

lemma target_is_key:
  assumes "target_row_id schema r row0 = Ok (row, r)"
  shows "row_id_is_key schema r row"
proof (cases "integer_primary_key_column_index schema")
  case (Some i)
  with assms obtain given where "given_row_id row0 i = Ok given" by (auto simp: target_row_id_def rbind_eq_Ok)
  with Some assms show ?thesis
    using given_row_id_Some [of row0 i] given_row_id_None [of row0 i]
    by (cases given) (auto simp: target_row_id_def row_id_is_key_def with_row_id_def split: if_splits)
qed (simp add: row_id_is_key_def)

lemma update_progress:
  assumes ok: "tables_ok s" "counters_ok s"
    and fits: "\<And>schema row target. map_of (ms_schemas s) k = Some schema \<Longrightarrow> target_row_id schema r row0 = Ok (row, target) \<Longrightarrow> target = r"
  shows "progress s (snd (mem_update_row R t k r row0 s))"
  unfolding mem_update_row_def
proof (rule sget_step [where P = "progress s"], rule sget_step [where P = "progress s"], rule sget_step [where P = "progress s"],
    rule sget_step [where P = "progress s"])
  fix u1 schema u2 existing
  assume "mem_validate_transaction t s = Ok u1" and schema: "require_schema k s = Ok schema" and ex: "Ok (row_at k r s) = Ok existing"
  then obtain active where active: "ms_active_txn s = Some active" using validated by (metis (full_types) old.unit.exhaust)
  from schema have schema': "map_of (ms_schemas s) k = Some schema" by (simp add: require_schema_Ok)
  from tables_okE [OF ok(1) this] obtain rows ixs where
    tab: "table_of s k = (Some schema, Some rows, Some ixs)" "sc_name schema = k" "table_ok schema k rows ixs" .
  show "progress s (snd ((case existing of None \<Rightarrow> sret () | Some existing_row \<Rightarrow>
      sbind (sget (\<lambda>_. target_row_id schema r row0)) (\<lambda>(row, target).
        if existing_row = row \<and> target = r then sret ()
        else sbind (sget (validate_mem_row R schema row)) (\<lambda>_.
          sbind (sget (\<lambda>s. validate_primary_key_uniqueness R schema row
            (map snd (filter (\<lambda>(candidate, _). candidate \<noteq> r) (get_or_empty (ms_rows s) k))))) (\<lambda>_.
          sbind (sget (\<lambda>s. rbind (collect_results (check_unique_update schema r row) (get_or_empty (ms_indexes s) k)) (\<lambda>_. Ok ()))) (\<lambda>_.
            replace_row k r existing_row target row))))) s))"
  proof (cases existing)
    case (Some old)
    then have old: "map_of rows r = Some old" using ex row_at_table [OF tab(1)] by simp
    show ?thesis unfolding Some option.case
    proof (rule sget_step [where P = "progress s"])
      fix a assume a: "target_row_id schema r row0 = Ok a"
      then obtain row where row: "a = (row, r)" using fits [OF schema'] by (cases a) blast
      show "progress s (snd ((case a of (row, target) \<Rightarrow> if old = row \<and> target = r then sret ()
        else sbind (sget (validate_mem_row R schema row)) (\<lambda>_.
          sbind (sget (\<lambda>s. validate_primary_key_uniqueness R schema row
            (map snd (filter (\<lambda>(candidate, _). candidate \<noteq> r) (get_or_empty (ms_rows s) k))))) (\<lambda>_.
          sbind (sget (\<lambda>s. rbind (collect_results (check_unique_update schema r row) (get_or_empty (ms_indexes s) k)) (\<lambda>_. Ok ()))) (\<lambda>_.
            replace_row k r old target row)))) s))"
      proof (cases "old = row")
        case False
        have "progress s (snd (sbind (sget (validate_mem_row R schema row)) (\<lambda>_.
          sbind (sget (\<lambda>s. validate_primary_key_uniqueness R schema row
            (map snd (filter (\<lambda>(candidate, _). candidate \<noteq> r) (get_or_empty (ms_rows s) k))))) (\<lambda>_.
          sbind (sget (\<lambda>s. rbind (collect_results (check_unique_update schema r row) (get_or_empty (ms_indexes s) k)) (\<lambda>_. Ok ()))) (\<lambda>_.
            replace_row k r old r row))) s))"
        proof (rule sget_step [where P = "progress s"], rule sget_step [where P = "progress s"], rule sget_step [where P = "progress s"])
          fix u5 assume "rbind (collect_results (check_unique_update schema r row) (get_or_empty (ms_indexes s) k)) (\<lambda>_. Ok ()) = Ok u5"
          moreover have "get_or_empty (ms_indexes s) k = ixs" using tab(1) by (simp add: table_of_def)
          ultimately obtain us where "collect_results (check_unique_update schema r row) ixs = Ok us" by (auto simp: rbind_eq_Ok)
          then show "progress s (snd (replace_row k r old r row s))"
            using a row by (intro replace_row_progress [OF ok active tab old target_is_key]) auto
        qed (rule progress_refl [OF ok])+
        with False row show ?thesis by simp
      qed (simp add: row progress_refl ok)
    qed (rule progress_refl [OF ok])
  qed (simp add: progress_refl ok)
qed (rule progress_refl [OF ok])+

subsection \<open>Tables and indexes\<close>

lemma validatedE:
  assumes "mem_validate_transaction t s = Ok u"
  obtains active where "ms_active_txn s = Some active"
  using assms validated by (metis (full_types) old.unit.exhaust)

lemma table_ok_Nil: "table_ok schema k [] []"
  by (simp add: table_ok_def)

lemma create_schema_progress:
  assumes ok: "tables_ok s" "counters_ok s"
  shows "progress s (snd (mem_create_schema t schema s))"
  unfolding mem_create_schema_def
proof (rule sget_step [where P = "progress s"], rule sget_step [where P = "progress s"])
  let ?k = "sc_name schema"
  let ?e = "(Some schema, Some [], Some [])"
  fix u1 u2
  assume "mem_validate_transaction t s = Ok u1" and "(if map_of (ms_schemas s) ?k \<noteq> None then Err (table_exists ?k) else Ok ()) = Ok u2"
  then obtain active where active: "ms_active_txn s = Some active" and none: "map_of (ms_schemas s) ?k = None"
    by (auto split: if_splits elim: validatedE)
  have "entry_ok ?k (table_of s ?k)" using ok(1) by (simp add: tables_ok_def)
  with none have tab: "table_of s ?k = (None, None, None)" by (simp add: table_of_def)
  let ?s = "mem_record_undo (U_DropSchema ?k) s"
  let ?s' = "?s\<lparr>ms_schemas := hm_insert ?k schema (ms_schemas ?s), ms_rows := hm_or_insert ?k [] (ms_rows ?s),
     ms_indexes := hm_or_insert ?k [] (ms_indexes ?s), ms_next_row_ids := hm_or_insert ?k 1 (ms_next_row_ids ?s)\<rparr>"
  have t: "table_of ?s' = (table_of s)(?k := ?e)"
    using tab by (auto simp: table_of_def fun_eq_iff mem_record_undo_def)
  have "counters_ok ?s'"
    by (rule counters_okI [OF ok(2) t]) (auto simp: mem_record_undo_def)
  moreover have "\<exists>u'. apply_undo (U_DropSchema ?k) u = (Ok (), u') \<and> table_of u' = (table_of u)(?k := table_of s ?k) \<and> counters_ok u'"
    if "table_of u = (table_of s)(?k := ?e)" "counters_ok u" for u
  proof -
    let ?u = "remove_table ?k u"
    have "table_of ?u = (table_of u)(?k := table_of s ?k)"
      unfolding tab by (auto simp: table_of_def fun_eq_iff remove_table_def)
    moreover from this have "counters_ok ?u"
      by (rule counters_okI [OF that(2)]) (simp_all add: remove_table_def tab)
    ultimately show ?thesis by (auto simp: remove_table_def)
  qed
  ultimately have "progress s ?s'"
    using active t table_ok_Nil by (intro progress_record [OF ok(1) active, where x = "U_DropSchema ?k" and k = ?k and e = ?e])
      (simp_all add: mem_record_undo_def)
  then show "progress s (snd (sbind (smodify (mem_record_undo (U_DropSchema ?k))) (\<lambda>_.
      smodify (\<lambda>s. s\<lparr>ms_schemas := hm_insert ?k schema (ms_schemas s), ms_rows := hm_or_insert ?k [] (ms_rows s),
        ms_indexes := hm_or_insert ?k [] (ms_indexes s), ms_next_row_ids := hm_or_insert ?k 1 (ms_next_row_ids s)\<rparr>)) s))"
    by simp
qed (rule progress_refl [OF ok])+

text \<open>Putting a whole table back.\<close>

lemma restore_table_undo:
  assumes tab: "table_of s k = (Some schema, Some rows, Some ixs)" "sc_name schema = k" and ok: "counters_ok s" "counters_ok u"
  shows "\<exists>u'. apply_undo (restore_table k schema s) u = (Ok (), u') \<and> table_of u' = (table_of u)(k := table_of s k) \<and> counters_ok u'"
proof -
  let ?u = "snd (apply_undo (restore_table k schema s) u)"
  have "table_of ?u = (table_of u)(k := table_of s k)"
    using tab by (auto simp: restore_table_def table_of_def fun_eq_iff)
  moreover from this have "counters_ok ?u"
    using counters_okD [OF ok(1) tab(1)] tab
    by (intro counters_okI [OF ok(2)]) (auto simp: restore_table_def dest: bspec [OF _ domI] split: option.split)
  moreover have "apply_undo (restore_table k schema s) u = (Ok (), ?u)" by (simp add: restore_table_def)
  ultimately show ?thesis by blast
qed

lemma drop_schema_progress:
  assumes ok: "tables_ok s" "counters_ok s"
  shows "progress s (snd (mem_drop_schema t k s))"
  unfolding mem_drop_schema_def
proof (rule sget_step [where P = "progress s"], rule sget_step [where P = "progress s"])
  fix u1 schema assume "mem_validate_transaction t s = Ok u1" and "require_schema k s = Ok schema"
  then obtain active where active: "ms_active_txn s = Some active" and "map_of (ms_schemas s) k = Some schema"
    by (auto simp: require_schema_Ok elim: validatedE)
  then obtain rows ixs where tab: "table_of s k = (Some schema, Some rows, Some ixs)" "sc_name schema = k"
    using tables_okE [OF ok(1)] by metis
  let ?s' = "mem_record_undo (restore_table k schema s) (remove_table k s)"
  have t: "table_of ?s' = (table_of s)(k := (None, None, None))"
    by (auto simp: table_of_def fun_eq_iff mem_record_undo_def remove_table_def)
  have "counters_ok ?s'"
    by (rule counters_okI [OF ok(2) t]) (auto simp: mem_record_undo_def remove_table_def)
  moreover have "\<exists>u'. apply_undo (restore_table k schema s) u = (Ok (), u') \<and> table_of u' = (table_of u)(k := table_of s k) \<and> counters_ok u'"
    if "table_of u = (table_of s)(k := (None, None, None))" "counters_ok u" for u by (rule restore_table_undo [OF tab ok(2) that(2)])
  ultimately have "progress s ?s'"
    using active t
    by (intro progress_record [OF ok(1) active, where x = "restore_table k schema s" and k = k and e = "(None, None, None)"])
      (simp_all add: mem_record_undo_def remove_table_def)
  then show "progress s (snd (smodify (\<lambda>s. mem_record_undo (restore_table k schema s) (remove_table k s)) s))" by simp
qed (rule progress_refl [OF ok])+

text \<open>A replacement that leaves the columns and the key of a table as they are.\<close>

definition same_layout :: "'x table_schema \<Rightarrow> 'x table_schema \<Rightarrow> bool" where
  "same_layout schema old \<longleftrightarrow> sc_columns schema = sc_columns old \<and> sc_without_rowid schema = sc_without_rowid old \<and>
     sc_primary_key_constraint schema = sc_primary_key_constraint old"

lemma same_layout_ok:
  assumes "same_layout schema old" "sc_name schema = sc_name old"
  shows "table_ok schema k rows ixs = table_ok old k rows ixs"
    "integer_primary_key_column_index schema = integer_primary_key_column_index old"
proof -
  have cols: "sc_columns schema = sc_columns old" using assms(1) by (simp add: same_layout_def)
  have project: "project_index_key schema = project_index_key old"
    unfolding project_index_key_def [abs_def] project_column_def [abs_def] cols assms(2) ..
  have keys: "primary_key_columns schema = primary_key_columns old" using assms by (simp add: primary_key_columns_def same_layout_def)
  then show ipk: "integer_primary_key_column_index schema = integer_primary_key_column_index old"
    using assms by (simp add: integer_primary_key_column_index_def same_layout_def)
  show "table_ok schema k rows ixs = table_ok old k rows ixs"
    using assms keys project ipk
    by (simp add: table_ok_def index_ok_def indexed_by_def backing_ok_def is_primary_key_backing_index_def row_id_is_key_def
        has_column_def same_layout_def cong: list.pred_cong)
qed

lemma replace_schema_progress:
  assumes ok: "tables_ok s" "counters_ok s"
    and fits: "\<And>old. map_of (ms_schemas s) (sc_name schema) = Some old \<Longrightarrow> same_layout schema old"
  shows "progress s (snd (mem_replace_schema t schema s))"
  unfolding mem_replace_schema_def
proof (rule sget_step [where P = "progress s"], rule sget_step [where P = "progress s"])
  let ?k = "sc_name schema"
  fix u1 old assume "mem_validate_transaction t s = Ok u1" and "require_schema ?k s = Ok old"
  then obtain active where active: "ms_active_txn s = Some active" and old: "map_of (ms_schemas s) ?k = Some old"
    by (auto simp: require_schema_Ok elim: validatedE)
  from tables_okE [OF ok(1) old] obtain rows ixs where
    tab: "table_of s ?k = (Some old, Some rows, Some ixs)" "sc_name old = ?k" "table_ok old ?k rows ixs" .
  note same = same_layout_ok [OF fits [OF old] tab(2) [symmetric]]
  let ?s = "mem_record_undo (restore_table ?k old s) s"
  let ?s' = "?s\<lparr>ms_schemas := hm_insert ?k schema (ms_schemas ?s)\<rparr>"
  have t: "table_of ?s' = (table_of s)(?k := (Some schema, Some rows, Some ixs))"
    using tab(1) by (auto simp: table_of_def fun_eq_iff mem_record_undo_def)
  have "counters_ok ?s'"
    using counters_okD [OF ok(2) tab(1)] same(2) by (intro counters_okI [OF ok(2) t]) (auto simp: mem_record_undo_def)
  moreover have "\<exists>u'. apply_undo (restore_table ?k old s) u = (Ok (), u') \<and> table_of u' = (table_of u)(?k := table_of s ?k) \<and> counters_ok u'"
    if "table_of u = (table_of s)(?k := (Some schema, Some rows, Some ixs))" "counters_ok u" for u by (rule restore_table_undo [OF tab(1,2) ok(2) that(2)])
  ultimately have "progress s ?s'"
    using active t same(1) tab(3)
    by (intro progress_record [OF ok(1) active, where x = "restore_table ?k old s" and k = ?k and e = "(Some schema, Some rows, Some ixs)"])
      (simp_all add: mem_record_undo_def)
  then show "progress s (snd (sbind (smodify (\<lambda>s. mem_record_undo (restore_table ?k old s) s)) (\<lambda>_.
      smodify (\<lambda>s. s\<lparr>ms_schemas := hm_insert ?k schema (ms_schemas s)\<rparr>)) s))" by simp
qed (rule progress_refl [OF ok])+

lemma create_index_progress:
  assumes ok: "tables_ok s" "counters_ok s"
    and fits: "\<And>schema. map_of (ms_schemas s) k = Some schema \<Longrightarrow> backing_ok schema k index"
  shows "progress s (snd (mem_create_index t k index s))"
  unfolding mem_create_index_def
proof (rule sget_step [where P = "progress s"], rule sget_step [where P = "progress s"], rule sget_step [where P = "progress s"],
    rule sget_step [where P = "progress s"])
  let ?name = "im_name index"
  fix u1 schema u2 entries
  assume "mem_validate_transaction t s = Ok u1" and "require_schema k s = Ok schema"
    and free: "(if map_of (get_or_empty (ms_indexes s) k) ?name \<noteq> None then Err (Storage (''index already exists: '' @ ?name))
      else if im_columns index = [] then Err (Storage (''index '' @ ?name @ '' has no columns'')) else Ok ()) = Ok u2"
    and build: "build_entries schema index [] (get_or_empty (ms_rows s) k) = Ok entries"
  then obtain active where active: "ms_active_txn s = Some active" and schema: "map_of (ms_schemas s) k = Some schema"
    by (auto simp: require_schema_Ok elim: validatedE)
  from tables_okE [OF ok(1) schema] obtain rows ixs where
    tab: "table_of s k = (Some schema, Some rows, Some ixs)" "sc_name schema = k" "table_ok schema k rows ixs" .
  have get: "get_or_empty (ms_rows s) k = rows" "get_or_empty (ms_indexes s) k = ixs" using tab(1) by (simp_all add: table_of_def)
  have new: "map_of ixs ?name = None" using free by (simp add: get split: if_splits)
  let ?ix = "\<lparr>ix_meta = index, ix_entries = entries\<rparr>"
  let ?ixs = "bt_insert ?name ?ix ixs"
  have "index_ok schema (rows @ []) ?ix"
    using build bt_wf_distinct [OF table_okD(1) [OF tab(3)]] by (intro build_entries_ok [OF _ index_ok_empty]) (simp_all add: get)
  moreover have "(n, i) = (?name, ?ix) \<or> (n, i) \<in> set ixs" if "(n, i) \<in> set ?ixs" for n i
    using that bt_wf_distinct [OF bt_wf_insert [OF table_okD(2) [OF tab(3)]], of ?name ?ix]
    by (auto simp flip: map_of_eq_Some_iff dest: map_of_SomeD split: if_splits)
  ultimately have ok': "table_ok schema k rows ?ixs"
    using tab(3) fits [OF schema] unfolding table_ok_def by fastforce
  let ?s = "mem_record_undo (U_DropIndex k ?name) s"
  let ?s' = "?s\<lparr>ms_indexes := hm_insert k (bt_insert ?name ?ix (get_or_empty (ms_indexes ?s) k)) (ms_indexes ?s)\<rparr>"
  let ?e = "(Some schema, Some rows, Some ?ixs)"
  have t: "table_of ?s' = (table_of s)(k := ?e)"
    using tab(1) by (auto simp: table_of_def fun_eq_iff mem_record_undo_def)
  have "counters_ok ?s'"
    using counters_okD [OF ok(2) tab(1)] by (intro counters_okI [OF ok(2) t]) (auto simp: mem_record_undo_def)
  moreover have "\<exists>u'. apply_undo (U_DropIndex k ?name) u = (Ok (), u') \<and> table_of u' = (table_of u)(k := table_of s k) \<and> counters_ok u'"
    if "table_of u = (table_of s)(k := ?e)" "counters_ok u" for u
  proof -
    let ?u = "snd (apply_undo (U_DropIndex k ?name) u)"
    have "table_of ?u = (table_of u)(k := table_of s k)"
      unfolding tab(1) using fun_cong [OF that(1), of k] bt_remove_insert [OF table_okD(2) [OF tab(3)] new]
      by (auto simp: table_of_def fun_eq_iff)
    moreover from this have "counters_ok ?u"
      using counters_okD [OF that(2)] that(1) tab(1) by (intro counters_okI [OF that(2)]) auto
    ultimately show ?thesis by simp
  qed
  ultimately have "progress s ?s'"
    using active t ok' tab(2) by (intro progress_record [OF ok(1) active, where x = "U_DropIndex k ?name" and k = k and e = ?e])
      (simp_all add: mem_record_undo_def)
  then show "progress s (snd (sbind (smodify (mem_record_undo (U_DropIndex k ?name))) (\<lambda>_.
      smodify (\<lambda>s. s\<lparr>ms_indexes := hm_insert k (bt_insert ?name ?ix (get_or_empty (ms_indexes s) k)) (ms_indexes s)\<rparr>)) s))"
    by simp
qed (rule progress_refl [OF ok])+

lemma drop_index_progress:
  assumes ok: "tables_ok s" "counters_ok s"
  shows "progress s (snd (mem_drop_index t k name s))"
  unfolding mem_drop_index_def
proof (rule sget_step [where P = "progress s"], rule sget_step [where P = "progress s"])
  fix u1 ix assume "mem_validate_transaction t s = Ok u1" and "require_index k name s = Ok ix"
  then obtain active where active: "ms_active_txn s = Some active" and ix: "map_of (get_or_empty (ms_indexes s) k) name = Some ix"
    by (auto simp: require_index_def elim: validatedE)
  then have "map_of (ms_indexes s) k \<noteq> None" by (cases "map_of (ms_indexes s) k") simp_all
  moreover have "entry_ok k (table_of s k)" using ok(1) by (simp add: tables_ok_def)
  ultimately obtain schema where "map_of (ms_schemas s) k = Some schema"
    by (cases "map_of (ms_schemas s) k") (auto simp: table_of_def)
  from tables_okE [OF ok(1) this] obtain rows ixs where
    tab: "table_of s k = (Some schema, Some rows, Some ixs)" "sc_name schema = k" "table_ok schema k rows ixs" .
  have old: "map_of ixs name = Some ix" using ix tab(1) by (simp add: table_of_def)
  let ?e = "(Some schema, Some rows, Some (bt_remove name ixs))"
  have ok': "table_ok schema k rows (bt_remove name ixs)"
    using tab(3) unfolding table_ok_def by (auto simp: bt_remove_def bt_wf_def sorted_wrt_filter sorted_wrt_map)
  let ?s' = "mem_record_undo (U_RestoreIndex k name ix) (s\<lparr>ms_indexes := hm_modify k (bt_remove name) (ms_indexes s)\<rparr>)"
  have t: "table_of ?s' = (table_of s)(k := ?e)"
    using tab(1) by (auto simp: table_of_def fun_eq_iff mem_record_undo_def)
  have "counters_ok ?s'"
    using counters_okD [OF ok(2) tab(1)] by (intro counters_okI [OF ok(2) t]) (auto simp: mem_record_undo_def)
  moreover have "\<exists>u'. apply_undo (U_RestoreIndex k name ix) u = (Ok (), u') \<and> table_of u' = (table_of u)(k := table_of s k) \<and> counters_ok u'"
    if "table_of u = (table_of s)(k := ?e)" "counters_ok u" for u
  proof -
    let ?u = "snd (apply_undo (U_RestoreIndex k name ix) u)"
    have "table_of ?u = (table_of u)(k := table_of s k)"
      unfolding tab(1) using fun_cong [OF that(1), of k] bt_insert_remove [OF table_okD(2) [OF tab(3)] old]
      by (auto simp: table_of_def fun_eq_iff)
    moreover from this have "counters_ok ?u"
      using counters_okD [OF that(2)] that(1) tab(1) by (intro counters_okI [OF that(2)]) auto
    ultimately show ?thesis by simp
  qed
  ultimately have "progress s ?s'"
    using active t ok' tab(2) by (intro progress_record [OF ok(1) active, where x = "U_RestoreIndex k name ix" and k = k and e = ?e])
      (simp_all add: mem_record_undo_def)
  then show "progress s (snd (smodify (\<lambda>s. mem_record_undo (U_RestoreIndex k name ix)
      (s\<lparr>ms_indexes := hm_modify k (bt_remove name) (ms_indexes s)\<rparr>)) s))" by simp
qed (rule progress_refl [OF ok])+

end
