(* ===== verification/Memory_Sessions.thy ===== *)
theory Memory_Sessions
  imports Memory_Properties
begin

text \<open>
  Sequences of calls of the in-memory engine: the states they reach, what a rollback brings back, and
  the agreement of index reads with table scans in every reached state.
\<close>

section \<open>Calls\<close>

datatype 'x mem_op =
    M_Create_Schema "'x table_schema"
  | M_Drop_Schema string
  | M_Replace_Schema "'x table_schema"
  | M_Insert_Row string row
  | M_Delete_Row string row_id
  | M_Update_Row string row_id row
  | M_Create_Index string index_meta
  | M_Drop_Index string string
  | M_Set_User_Version u32
  | M_Set_Application_Id u32
  | M_Set_Schema_Version u32
  | M_Set_Ignore_Check_Constraints bool
  | M_Set_Case_Sensitive_Like bool
  | M_Savepoint string

text \<open>The state after a call, whether it succeeds or fails.\<close>

fun mem_run :: "'x schema_rules \<Rightarrow> txn_id \<Rightarrow> 'x mem_op \<Rightarrow> 'x memory \<Rightarrow> 'x memory" where
  "mem_run R t (M_Create_Schema schema) s = snd (mem_create_schema t schema s)"
| "mem_run R t (M_Drop_Schema table) s = snd (mem_drop_schema t table s)"
| "mem_run R t (M_Replace_Schema schema) s = snd (mem_replace_schema t schema s)"
| "mem_run R t (M_Insert_Row table row) s = snd (mem_insert_row R t table row s)"
| "mem_run R t (M_Delete_Row table r) s = snd (mem_delete_row t table r s)"
| "mem_run R t (M_Update_Row table r row) s = snd (mem_update_row R t table r row s)"
| "mem_run R t (M_Create_Index table index) s = snd (mem_create_index t table index s)"
| "mem_run R t (M_Drop_Index table name) s = snd (mem_drop_index t table name s)"
| "mem_run R t (M_Set_User_Version v) s = snd (mem_set_user_version v s)"
| "mem_run R t (M_Set_Application_Id v) s = snd (mem_set_application_id v s)"
| "mem_run R t (M_Set_Schema_Version v) s = snd (mem_set_schema_version v s)"
| "mem_run R t (M_Set_Ignore_Check_Constraints b) s = snd (mem_set_ignore_check_constraints b s)"
| "mem_run R t (M_Set_Case_Sensitive_Like b) s = snd (mem_set_case_sensitive_like b s)"
| "mem_run R t (M_Savepoint name) s = snd (mem_savepoint t name s)"

definition mem_run_all :: "'x schema_rules \<Rightarrow> txn_id \<Rightarrow> 'x mem_op list \<Rightarrow> 'x memory \<Rightarrow> 'x memory" where
  "mem_run_all R t ops s = fold (mem_run R t) ops s"

text \<open>
  What the executor gives the engine: a row counter that has not reached its last value, updates that
  keep the row id (the executor turns a change of an \<open>INTEGER PRIMARY KEY\<close> into a new row id, see
  \<open>moved_row_stays_after_rollback\<close>), a replaced schema with the same columns, and a backing index of the
  primary key only on the columns of the key.
\<close>

definition op_fits :: "'x mem_op \<Rightarrow> 'x memory \<Rightarrow> bool" where
  "op_fits x s = (case x of
     M_Insert_Row table _ \<Rightarrow> map_of (ms_schemas s) table = None \<or> counter_fits table s
   | M_Update_Row table r row \<Rightarrow>
       (case map_of (ms_schemas s) table of None \<Rightarrow> True
        | Some schema \<Rightarrow> (case target_row_id schema r row of Ok (_, target) \<Rightarrow> target = r | _ \<Rightarrow> True))
   | M_Create_Index table index \<Rightarrow>
       (case map_of (ms_schemas s) table of None \<Rightarrow> True | Some schema \<Rightarrow> backing_ok schema table index)
   | M_Replace_Schema schema \<Rightarrow>
       (case map_of (ms_schemas s) (sc_name schema) of None \<Rightarrow> True | Some old \<Rightarrow> same_layout schema old)
   | _ \<Rightarrow> True)"

fun ops_fit :: "'x schema_rules \<Rightarrow> txn_id \<Rightarrow> 'x mem_op list \<Rightarrow> 'x memory \<Rightarrow> bool" where
  "ops_fit R t [] s \<longleftrightarrow> True"
| "ops_fit R t (x # xs) s \<longleftrightarrow> op_fits x s \<and> ops_fit R t xs (mem_run R t x s)"

fun savepoint_name :: "'x mem_op \<Rightarrow> string list" where
  "savepoint_name (M_Savepoint name) = [name]"
| "savepoint_name _ = []"

section \<open>Every call is a step of its transaction\<close>

lemma settings_progress:
  assumes "tables_ok s" "counters_ok s"
  shows "progress s (s\<lparr>ms_user_version := v\<rparr>)" "progress s (s\<lparr>ms_application_id := v\<rparr>)"
    "progress s (s\<lparr>ms_schema_version := v\<rparr>)" "progress s (s\<lparr>ms_ignore_check_constraints := b\<rparr>)"
    "progress s (s\<lparr>ms_case_sensitive_like := b\<rparr>)"
  using assms by (auto intro!: progress_same simp: table_of_def fun_eq_iff counters_ok_def)

lemma run_progress:
  assumes "tables_ok s" "counters_ok s" "op_fits x s" "savepoint_name x = []"
  shows "progress s (mem_run R t x s)"
proof (cases x)
  case (M_Insert_Row table row)
  then show ?thesis using assms by (auto simp: op_fits_def intro!: insert_progress)
next
  case (M_Update_Row table r row)
  then show ?thesis using assms by (auto simp: op_fits_def intro!: update_progress)
next
  case (M_Create_Index table index)
  then show ?thesis using assms by (auto simp: op_fits_def intro!: create_index_progress)
next
  case (M_Replace_Schema schema)
  then show ?thesis using assms by (auto simp: op_fits_def intro!: replace_schema_progress)
next
  case (M_Savepoint name)
  then show ?thesis using assms(4) by simp
qed (simp_all add: assms create_schema_progress drop_schema_progress delete_progress drop_index_progress
  settings_progress mem_set_user_version_def mem_set_application_id_def mem_set_schema_version_def
  mem_set_ignore_check_constraints_def mem_set_case_sensitive_like_def)

text \<open>
  A run of calls in a transaction: the log and the savepoints grow, and the new part of the log takes the
  tables back.
\<close>

definition advances :: "txn_id \<Rightarrow> string list \<Rightarrow> 'x memory \<Rightarrow> 'x memory \<Rightarrow> bool" where
  "advances t names s s' \<longleftrightarrow> tables_ok s' \<and> counters_ok s' \<and>
     (\<exists>a a' us sps. ms_active_txn s = Some a \<and> ms_active_txn s' = Some a' \<and> at_id a = t \<and> at_id a' = t \<and>
        at_undo_log a' = at_undo_log a @ us \<and> reverts us s' s \<and>
        at_savepoints a' = at_savepoints a @ sps \<and> map sp_name sps = names)"

lemma advances_trans:
  assumes "advances t ns s1 s2" "advances t ms s2 s3"
  shows "advances t (ns @ ms) s1 s3"
proof -
  from assms(1) obtain a1 a2 us sps where 1: "ms_active_txn s1 = Some a1" "ms_active_txn s2 = Some a2" "at_id a1 = t"
      "at_undo_log a2 = at_undo_log a1 @ us" "reverts us s2 s1" "at_savepoints a2 = at_savepoints a1 @ sps" "map sp_name sps = ns"
    by (auto simp: advances_def)
  from assms(2) 1(2) obtain a3 vs sps' where 2: "ms_active_txn s3 = Some a3" "at_id a3 = t"
      "at_undo_log a3 = at_undo_log a2 @ vs" "reverts vs s3 s2" "at_savepoints a3 = at_savepoints a2 @ sps'" "map sp_name sps' = ms"
    by (auto simp: advances_def)
  show ?thesis using assms(2) 1 2 reverts_append [OF 1(5) 2(4)] by (auto simp: advances_def)
qed

lemma advances_progress:
  assumes "progress s s'" "ms_active_txn s = Some a" "at_id a = t"
  shows "advances t [] s s'"
  using assms by (auto simp: advances_def progress_def undo_log_def)

lemma savepoint_advances:
  assumes "tables_ok s" "counters_ok s" "ms_active_txn s = Some a" "at_id a = t"
  shows "advances t [name] s (snd (mem_savepoint t name s))"
proof -
  have "table_of (snd (mem_savepoint t name s)) = table_of s" "counters_ok (snd (mem_savepoint t name s))"
    using assms by (auto simp: mem_savepoint_def sbind_def mem_validate_transaction_def table_of_def fun_eq_iff counters_ok_def)
  moreover from this(1) have "tables_ok (snd (mem_savepoint t name s))" using assms(1) by (simp add: tables_ok_def)
  ultimately show ?thesis using assms(3,4)
    by (auto simp: advances_def mem_savepoint_def sbind_def mem_validate_transaction_def reverts_Nil)
qed

lemma run_advances:
  assumes "tables_ok s" "counters_ok s" "op_fits x s" "ms_active_txn s = Some a" "at_id a = t"
  shows "advances t (savepoint_name x) s (mem_run R t x s)"
proof (cases "savepoint_name x")
  case Nil
  then show ?thesis using assms by (simp add: run_progress advances_progress)
next
  case (Cons name names)
  then show ?thesis using assms by (cases x) (auto intro: savepoint_advances)
qed

lemma run_all_advances:
  assumes "tables_ok s" "counters_ok s" "ops_fit R t ops s" "ms_active_txn s = Some a" "at_id a = t"
  shows "advances t (concat (map savepoint_name ops)) s (mem_run_all R t ops s)"
  using assms
proof (induction ops arbitrary: s a)
  case Nil
  then show ?case using advances_progress [OF progress_refl] by (simp add: mem_run_all_def)
next
  case (Cons x xs)
  then have p: "advances t (savepoint_name x) s (mem_run R t x s)" by (simp add: run_advances)
  then obtain a' where "ms_active_txn (mem_run R t x s) = Some a'" "at_id a' = t" by (auto simp: advances_def)
  then have "advances t (concat (map savepoint_name xs)) (mem_run R t x s) (mem_run_all R t xs (mem_run R t x s))"
    using p Cons by (intro Cons.IH) (simp_all add: advances_def)
  from advances_trans [OF p this] show ?case by (simp add: mem_run_all_def)
qed

lemma on_indexes_active: "ms_active_txn (snd (on_indexes k m s)) = ms_active_txn s"
  by (simp add: on_indexes_def split: option.split prod.split)

lemma row_indexes_active:
  "ms_active_txn (snd (add_row_to_indexes k r row s)) = ms_active_txn s"
  "ms_active_txn (snd (remove_row_from_indexes k r row s)) = ms_active_txn s"
  by (simp_all add: add_row_to_indexes_def remove_row_from_indexes_def sbind_def sget_def on_indexes_active split: result.split)

lemma remove_row_active: "remove_row_from_indexes k r row s = (x, s') \<Longrightarrow> ms_active_txn s' = ms_active_txn s"
  using row_indexes_active(2) by (metis snd_conv)

lemma apply_undo_active: "ms_active_txn (snd (apply_undo x s)) = ms_active_txn s"
  by (cases x) (auto simp: row_indexes_active sbind_def sret_def smodify_def Let_def
    split: option.split prod.split result.split dest!: remove_row_active)

lemma apply_undos_active: "ms_active_txn (snd (apply_undos us s)) = ms_active_txn s"
proof (induction us arbitrary: s)
  case (Cons x us)
  show ?case
  proof (cases "apply_undo x s")
    case (Pair r s')
    then have "ms_active_txn s' = ms_active_txn s" using apply_undo_active [of x s] by simp
    then show ?thesis using Pair Cons by (simp add: sbind_def split: result.split)
  qed
qed simp

section \<open>The log of a transaction\<close>

text \<open>
  The positions of the log a rollback can return to, and the earlier tables each of them stands for: the
  records between two of these positions take the tables of the later one back to those of the earlier.
\<close>

definition marks :: "'x active_transaction \<Rightarrow> nat set" where
  "marks a = {0, length (at_undo_log a)} \<union> sp_undo_len ` set (at_savepoints a)"

definition undoable :: "nat set \<Rightarrow> 'x undo_op list \<Rightarrow> (nat \<Rightarrow> 'x memory) \<Rightarrow> bool" where
  "undoable ns us f \<longleftrightarrow> (\<forall>n \<in> ns. tables_ok (f n) \<and> (\<forall>m \<in> ns. m \<le> n \<longrightarrow> reverts (drop m (take n us)) (f n) (f m)))"

definition log_ok :: "'x memory \<Rightarrow> bool" where
  "log_ok s \<longleftrightarrow> (case ms_active_txn s of None \<Rightarrow> True | Some a \<Rightarrow>
     sorted (map sp_undo_len (at_savepoints a)) \<and>
     (\<forall>sp \<in> set (at_savepoints a). sp_undo_len sp \<le> length (at_undo_log a)) \<and>
     (\<exists>f. table_of (f (length (at_undo_log a))) = table_of s \<and> undoable (marks a) (at_undo_log a) f))"

lemma undoable_subset: "undoable ns us f \<Longrightarrow> ms \<subseteq> ns \<Longrightarrow> undoable ms us f"
  unfolding undoable_def by blast

lemma undoable_take:
  assumes "undoable ns us f" "ms \<subseteq> ns" "\<forall>m \<in> ms. m \<le> n"
  shows "undoable ms (take n us) f"
  using assms unfolding undoable_def by (auto simp: min_def subset_iff)

text \<open>A transaction goes on: its log grows by records that take the new tables back to the old ones.\<close>

lemma reverts_cong: "table_of s1 = table_of s1' \<Longrightarrow> table_of s2 = table_of s2' \<Longrightarrow> reverts us s1 s2 = reverts us s1' s2'"
  by (simp add: reverts_def)

lemma undoable_grow:
  assumes f: "undoable ns us f" "table_of (f (length us)) = table_of s" "length us \<in> ns" "\<forall>n \<in> ns. n \<le> length us"
    and vs: "reverts vs s' s" "tables_ok s'"
  shows "undoable (insert (length (us @ vs)) ns) (us @ vs) (f(length (us @ vs) := s'))" (is "undoable ?ns ?us ?g")
proof -
  let ?L = "length (us @ vs)"
  have ns: "m \<le> length us" "tables_ok (f m)" if "m \<in> ns" for m using that f by (auto simp: undoable_def)
  have step: "reverts (drop m (take n us)) (f n) (f m)" if "m \<in> ns" "n \<in> ns" "m \<le> n" for m n
    using f(1) that by (simp add: undoable_def)
  have "reverts (drop m (take n ?us)) (?g n) (?g m)" if mn: "m \<in> ?ns" "n \<in> ?ns" "m \<le> n" for m n
  proof -
    have "n \<le> ?L" using mn(2) ns(1) by fastforce
    with mn consider "m = n" | "m < n" "n = ?L" | "m < n" "n \<in> ns" "n < ?L" by force
    then show ?thesis
    proof cases
      case 2
      then have m: "m \<in> ns" "m \<le> length us" using mn(1) ns(1) by auto
      have "reverts vs s' (f (length us))" using vs(1) f(2) by (simp add: reverts_def)
      from reverts_append [OF _ this, of "drop m us" "f m"] show ?thesis using step [OF m(1) f(3) m(2)] 2 m(2) by simp
    next
      case 3
      then have "m \<in> ns" using mn by auto
      with step [of m n] 3 ns(1) [of n] show ?thesis by simp
    qed (simp add: reverts_Nil)
  qed
  moreover have "tables_ok (?g n)" if "n \<in> ?ns" for n using that vs(2) ns(2) by auto
  ultimately show ?thesis by (simp add: undoable_def)
qed

lemma marks_le: "log_ok s \<Longrightarrow> ms_active_txn s = Some a \<Longrightarrow> \<forall>n \<in> marks a. n \<le> length (at_undo_log a)"
  by (auto simp: log_ok_def marks_def)

lemma progress_log_ok:
  assumes "progress s s'" "log_ok s"
  shows "log_ok s'"
proof (cases "ms_active_txn s")
  case None
  with assms show ?thesis by (auto simp: progress_def log_ok_def split: option.splits)
next
  case (Some a)
  with assms(1) obtain a' vs where a': "ms_active_txn s' = Some a'" "at_savepoints a' = at_savepoints a"
      "at_undo_log a' = at_undo_log a @ vs" "reverts vs s' s" "tables_ok s'"
    by (auto simp: progress_def undo_log_def)
  from assms(2) Some obtain f where f: "table_of (f (length (at_undo_log a))) = table_of s" "undoable (marks a) (at_undo_log a) f"
    by (auto simp: log_ok_def)
  have "undoable (insert (length (at_undo_log a')) (marks a)) (at_undo_log a') (f(length (at_undo_log a') := s'))"
    using undoable_grow [OF f(2,1) _ marks_le [OF assms(2) Some] a'(4,5)] by (simp add: a'(3) marks_def)
  moreover have "marks a' \<subseteq> insert (length (at_undo_log a')) (marks a)" by (auto simp: marks_def a'(2))
  ultimately have "undoable (marks a') (at_undo_log a') (f(length (at_undo_log a') := s'))" by (rule undoable_subset)
  then show ?thesis using assms(2) a' Some
    by (auto simp: log_ok_def intro!: exI [of _ "f(length (at_undo_log a') := s')"])
qed

section \<open>Reached states\<close>

inductive mem_reachable :: "'x schema_rules \<Rightarrow> 'x memory \<Rightarrow> bool" for R where
  reach_start: "mem_reachable R memory_default"
| reach_run: "mem_reachable R s \<Longrightarrow> op_fits x s \<Longrightarrow> mem_reachable R (mem_run R t x s)"
| reach_begin: "mem_reachable R s \<Longrightarrow> mem_reachable R (snd (mem_begin s))"
| reach_commit: "mem_reachable R s \<Longrightarrow> mem_reachable R (snd (mem_commit t s))"
| reach_rollback: "mem_reachable R s \<Longrightarrow> mem_reachable R (snd (mem_rollback t s))"
| reach_rollback_to: "mem_reachable R s \<Longrightarrow> mem_reachable R (snd (mem_rollback_to_savepoint t name s))"
| reach_release: "mem_reachable R s \<Longrightarrow> mem_reachable R (snd (mem_release_savepoint t name s))"

definition mem_ok :: "'x memory \<Rightarrow> bool" where
  "mem_ok s \<longleftrightarrow> tables_ok s \<and> counters_ok s \<and> log_ok s"

lemma mem_ok_default: "mem_ok memory_default"
  by (simp add: mem_ok_def tables_ok_def counters_ok_def log_ok_def memory_default_def table_of_def)

text \<open>A change of the transaction alone.\<close>

lemma txn_only:
  "table_of (s\<lparr>ms_active_txn := a\<rparr>) = table_of s" "tables_ok (s\<lparr>ms_active_txn := a\<rparr>) = tables_ok s"
  "counters_ok (s\<lparr>ms_active_txn := a\<rparr>) = counters_ok s" "table_of (s\<lparr>ms_next_txn_id := n\<rparr>) = table_of s"
  "tables_ok (s\<lparr>ms_next_txn_id := n\<rparr>) = tables_ok s" "counters_ok (s\<lparr>ms_next_txn_id := n\<rparr>) = counters_ok s"
  by (auto simp: table_of_def fun_eq_iff tables_ok_def counters_ok_def)

lemma log_okE:
  assumes "log_ok s" "ms_active_txn s = Some a"
  obtains f where "table_of (f (length (at_undo_log a))) = table_of s" "undoable (marks a) (at_undo_log a) f"
    "sorted (map sp_undo_len (at_savepoints a))" "\<forall>sp \<in> set (at_savepoints a). sp_undo_len sp \<le> length (at_undo_log a)"
  using assms by (auto simp: log_ok_def)

lemma mem_ok_savepoints:
  assumes ok: "mem_ok s" and a: "ms_active_txn s = Some a" and sps: "sorted (map sp_undo_len sps)"
    "\<forall>sp \<in> set sps. sp \<in> set (at_savepoints a) \<or> sp_undo_len sp = length (at_undo_log a)"
  shows "mem_ok (s\<lparr>ms_active_txn := Some (a\<lparr>at_savepoints := sps\<rparr>)\<rparr>)"
proof -
  from ok a obtain f where f: "table_of (f (length (at_undo_log a))) = table_of s" "undoable (marks a) (at_undo_log a) f"
      "\<forall>sp \<in> set (at_savepoints a). sp_undo_len sp \<le> length (at_undo_log a)"
    by (auto simp: mem_ok_def elim: log_okE)
  have "marks (a\<lparr>at_savepoints := sps\<rparr>) \<subseteq> marks a" using sps(2) by (auto simp: marks_def)
  from undoable_subset [OF f(2) this] show ?thesis
    using ok sps f by (auto simp: mem_ok_def log_ok_def txn_only)
qed

lemma mem_ok_begin:
  assumes "mem_ok s"
  shows "mem_ok (snd (mem_begin s))"
proof (cases "ms_active_txn s")
  case None
  have "undoable {0} [] (\<lambda>_. s)" using assms by (simp add: undoable_def mem_ok_def reverts_Nil)
  with None assms show ?thesis
    by (auto simp: mem_ok_def mem_begin_def txn_only log_ok_def marks_def intro!: exI [of _ "\<lambda>_. s"])
qed (simp add: mem_begin_def assms)

lemma mem_ok_commit: "mem_ok s \<Longrightarrow> mem_ok (snd (mem_commit t s))"
  by (cases "mem_validate_transaction t s") (simp_all add: mem_ok_def mem_commit_def sbind_def txn_only log_ok_def)

lemma set_txn_same: "s\<lparr>ms_active_txn := ms_active_txn s\<rparr> = s"
  by simp

lemma mem_ok_map_savepoints:
  assumes ok: "mem_ok s" and f: "\<And>a. ms_active_txn s = Some a \<Longrightarrow> f a = a\<lparr>at_savepoints := g a\<rparr> \<and> sorted (map sp_undo_len (g a)) \<and>
    (\<forall>sp \<in> set (g a). sp \<in> set (at_savepoints a) \<or> sp_undo_len sp = length (at_undo_log a))"
  shows "mem_ok (s\<lparr>ms_active_txn := map_option f (ms_active_txn s)\<rparr>)"
  using ok f mem_ok_savepoints [OF ok] by (cases "ms_active_txn s") (auto simp: mem_ok_def txn_only log_ok_def)

lemma sorted_savepoints:
  assumes "mem_ok s" "ms_active_txn s = Some a"
  shows "sorted (map sp_undo_len (at_savepoints a))" "\<forall>sp \<in> set (at_savepoints a). sp_undo_len sp \<le> length (at_undo_log a)"
  using assms by (auto simp: mem_ok_def elim: log_okE)

lemma mem_ok_savepoint:
  assumes "mem_ok s"
  shows "mem_ok (snd (mem_savepoint t name s))"
  using assms sorted_savepoints [OF assms]
  by (cases "mem_validate_transaction t s")
    (auto simp: mem_savepoint_def sbind_def sorted_append intro!: mem_ok_map_savepoints [where g = "\<lambda>a. at_savepoints a @ _ a"])

lemma mem_ok_release:
  assumes "mem_ok s"
  shows "mem_ok (snd (mem_release_savepoint t name s))"
proof (cases "mem_validate_transaction t s")
  case (Ok u)
  show ?thesis
  proof (cases "savepoint_index name s")
    case (Ok i)
    have "mem_ok (s\<lparr>ms_active_txn := map_option (\<lambda>a. a\<lparr>at_savepoints := take i (at_savepoints a)\<rparr>) (ms_active_txn s)\<rparr>)"
      using sorted_savepoints(1) [OF assms]
      by (intro mem_ok_map_savepoints [where g = "\<lambda>a. take i (at_savepoints a)"] assms)
        (auto simp: take_map [symmetric] sorted_wrt_take dest: in_set_takeD)
    then show ?thesis using Ok \<open>mem_validate_transaction t s = Ok u\<close> by (simp add: mem_release_savepoint_def sbind_def)
  qed (use Ok assms in \<open>simp_all add: mem_release_savepoint_def sbind_def\<close>)
qed (use assms in \<open>simp_all add: mem_release_savepoint_def sbind_def\<close>)

lemma savepoint_index_Ok:
  assumes "savepoint_index name s = Ok i" "ms_active_txn s = Some a"
  shows "i < length (at_savepoints a)"
  using assms by (auto simp: savepoint_index_def position_eq_Some split: option.splits)

text \<open>Going back to a marked position.\<close>

lemma undo_to:
  assumes f: "table_of (f (length (at_undo_log a))) = table_of s" "undoable (marks a) (at_undo_log a) f"
    and n: "n \<in> marks a" "n \<le> length (at_undo_log a)" and u: "table_of u = table_of s" "counters_ok u"
  obtains u' where "apply_undos (rev (drop n (at_undo_log a))) u = (Ok (), u')" "table_of u' = table_of (f n)"
    "tables_ok u'" "counters_ok u'" "ms_active_txn u' = ms_active_txn u"
proof -
  have "length (at_undo_log a) \<in> marks a" by (simp add: marks_def)
  with f(2) n have "reverts (drop n (at_undo_log a)) (f (length (at_undo_log a))) (f n)" "tables_ok (f n)"
    by (auto simp: undoable_def)
  then obtain u' where u': "apply_undos (rev (drop n (at_undo_log a))) u = (Ok (), u')" "table_of u' = table_of (f n)" "counters_ok u'"
    using f(1) u by (auto simp: reverts_def)
  moreover have "tables_ok u'" using tables_ok_cong [OF u'(2)] \<open>tables_ok (f n)\<close> by simp
  moreover have "ms_active_txn u' = ms_active_txn u"
    using apply_undos_active [of "rev (drop n (at_undo_log a))" u] u'(1) by simp
  ultimately show thesis using that by blast
qed

lemma mem_ok_rollback: 
  assumes "mem_ok s"
  shows "mem_ok (snd (mem_rollback t s))"
proof (cases "ms_active_txn s")
  case (Some a)
  with assms obtain f where f: "table_of (f (length (at_undo_log a))) = table_of s" "undoable (marks a) (at_undo_log a) f"
    by (auto simp: mem_ok_def elim: log_okE)
  have u: "table_of (s\<lparr>ms_active_txn := None\<rparr>) = table_of s" "counters_ok (s\<lparr>ms_active_txn := None\<rparr>)"
    using assms by (simp_all add: txn_only mem_ok_def)
  obtain s' where "apply_undos (rev (at_undo_log a)) (s\<lparr>ms_active_txn := None\<rparr>) = (Ok (), s')" "tables_ok s'" "counters_ok s'"
      "ms_active_txn s' = None"
    using undo_to [OF f, of 0, OF _ _ u] by (auto simp: marks_def)
  with assms Some show ?thesis by (auto simp: mem_rollback_def mem_ok_def log_ok_def)
qed (simp add: mem_rollback_def assms)

lemma sorted_take_le:
  assumes "sorted xs" "i < length xs" "x \<in> set (take (Suc i) xs)"
  shows "x \<le> xs ! i"
  using assms by (auto simp: in_set_conv_nth less_Suc_eq_le intro: sorted_nth_mono)

lemma rollback_to_effect:
  assumes ok: "mem_ok s" and a: "ms_active_txn s = Some a" "at_id a = t" and i: "savepoint_index name s = Ok i"
  obtains f s' where "table_of (f (length (at_undo_log a))) = table_of s" "undoable (marks a) (at_undo_log a) f"
    "mem_rollback_to_savepoint t name s = (Ok (), s')" "table_of s' = table_of (f (sp_undo_len (at_savepoints a ! i)))" "mem_ok s'"
proof -
  let ?n = "sp_undo_len (at_savepoints a ! i)"
  let ?a = "a\<lparr>at_undo_log := take ?n (at_undo_log a), at_savepoints := take (i + 1) (at_savepoints a)\<rparr>"
  have len: "i < length (at_savepoints a)" using savepoint_index_Ok [OF i a(1)] .
  from ok a obtain f where f: "table_of (f (length (at_undo_log a))) = table_of s" "undoable (marks a) (at_undo_log a) f"
      "sorted (map sp_undo_len (at_savepoints a))" "\<forall>sp \<in> set (at_savepoints a). sp_undo_len sp \<le> length (at_undo_log a)"
    by (auto simp: mem_ok_def elim: log_okE)
  have n: "?n \<in> marks a" "?n \<le> length (at_undo_log a)" using len f(4) by (auto simp: marks_def)
  have u: "table_of (s\<lparr>ms_active_txn := Some ?a\<rparr>) = table_of s" "counters_ok (s\<lparr>ms_active_txn := Some ?a\<rparr>)"
    using ok by (simp_all add: txn_only mem_ok_def)
  from undo_to [OF f(1,2) n u] obtain s' where s': "apply_undos (rev (drop ?n (at_undo_log a))) (s\<lparr>ms_active_txn := Some ?a\<rparr>) = (Ok (), s')"
      "table_of s' = table_of (f ?n)" "tables_ok s'" "counters_ok s'" "ms_active_txn s' = Some ?a" by auto
  have le: "sp_undo_len sp \<le> ?n" if "sp \<in> set (take (i + 1) (at_savepoints a))" for sp
    using that sorted_take_le [OF f(3), of i] len by (auto simp: take_map)
  have "marks ?a \<subseteq> marks a" using n by (auto simp: marks_def min_def dest: in_set_takeD)
  with le n have "undoable (marks ?a) (at_undo_log ?a) f"
    by (intro undoable_take [OF f(2), THEN subst [where P = "\<lambda>us. undoable _ us f", rotated]]) (auto simp: marks_def)
  then have "log_ok s'" using s'(2,5) n(2) le f(3) by (auto simp: log_ok_def min_def take_map [symmetric] sorted_wrt_take)
  moreover have "mem_rollback_to_savepoint t name s = (Ok (), s')"
    using a i s'(1) n(2) by (simp add: mem_rollback_to_savepoint_def sbind_def sget_def mem_validate_transaction_def Let_def)
  ultimately show thesis using that f(1,2) s' by (simp add: mem_ok_def)
qed

lemma mem_ok_rollback_to:
  assumes "mem_ok s"
  shows "mem_ok (snd (mem_rollback_to_savepoint t name s))"
proof (cases "mem_validate_transaction t s")
  case (Ok u)
  then obtain a where a: "ms_active_txn s = Some a" "at_id a = t"
    by (auto simp: mem_validate_transaction_def split: option.splits if_splits)
  show ?thesis
  proof (cases "savepoint_index name s")
    case (Ok i)
    obtain s' where "mem_rollback_to_savepoint t name s = (Ok (), s')" "mem_ok s'"
      by (rule rollback_to_effect [OF assms a Ok])
    then show ?thesis by simp
  qed (use Ok assms in \<open>simp_all add: mem_rollback_to_savepoint_def sbind_def\<close>)
qed (use assms in \<open>simp_all add: mem_rollback_to_savepoint_def sbind_def\<close>)

lemma mem_ok_run:
  assumes "mem_ok s" "op_fits x s"
  shows "mem_ok (mem_run R t x s)"
proof (cases "savepoint_name x")
  case Nil
  then have "progress s (mem_run R t x s)" using assms by (simp add: run_progress mem_ok_def)
  then show ?thesis using assms(1) progress_log_ok by (auto simp: mem_ok_def progress_def)
next
  case (Cons name names)
  then show ?thesis using assms by (cases x) (auto intro: mem_ok_savepoint)
qed

lemma reachable_ok: "mem_reachable R s \<Longrightarrow> mem_ok s"
  by (induction rule: mem_reachable.induct)
    (simp_all add: mem_ok_default mem_ok_run mem_ok_begin mem_ok_commit mem_ok_rollback mem_ok_rollback_to mem_ok_release)

lemma run_all_reachable: "mem_reachable R s \<Longrightarrow> ops_fit R t ops s \<Longrightarrow> mem_reachable R (mem_run_all R t ops s)"
  by (induction ops arbitrary: s) (simp_all add: mem_run_all_def reach_run)

section \<open>Rollback\<close>



section \<open>Index reads\<close>

text \<open>The row ids of the rows of a table whose index key is selected, in row id order.\<close>

definition selected_ids :: "'x table_schema \<Rightarrow> index_meta \<Rightarrow> (Value list \<Rightarrow> bool) \<Rightarrow> mem_rows \<Rightarrow> row_id list" where
  "selected_ids schema meta selected rows =
     map fst (filter (\<lambda>(r, row). case project_index_key schema meta row of Ok key \<Rightarrow> selected key | _ \<Rightarrow> False) rows)"

lemma collect_entries_set:
  "set (fold (\<lambda>(key, ids) acc. if selected key then bs_extend ids acc else acc) es acc) =
     set acc \<union> (\<Union>(key, ids) \<in> set es. if selected key then set ids else {})"
  by (induction es arbitrary: acc) (auto simp: split_beta)

lemma collect_entries_sorted:
  "sorted_wrt (<) acc \<Longrightarrow> sorted_wrt (<) (fold (\<lambda>(key, ids) acc. if selected key then bs_extend ids acc else acc) es acc)"
  by (induction es arbitrary: acc) (auto simp: split_beta)

lemma selected_ids_sorted: "bt_wf rows \<Longrightarrow> sorted_wrt (<) (selected_ids schema meta selected rows)"
  by (auto simp: selected_ids_def bt_wf_def sorted_wrt_map sorted_wrt_filter)

lemma in_filtered_keys: "r \<in> set (map fst (filter P xs)) \<longleftrightarrow> (\<exists>v. (r, v) \<in> set xs \<and> P (r, v))"
  by force

lemma in_selected_ids:
  assumes "bt_wf rows"
  shows "r \<in> set (selected_ids schema meta selected rows) \<longleftrightarrow>
    (\<exists>row key. map_of rows r = Some row \<and> project_index_key schema meta row = Ok key \<and> selected key)"
proof -
  have "(case project_index_key schema meta row of Ok key \<Rightarrow> selected key | _ \<Rightarrow> False) \<longleftrightarrow>
      (\<exists>key. project_index_key schema meta row = Ok key \<and> selected key)" for row
    by (cases "project_index_key schema meta row") simp_all
  then show ?thesis unfolding selected_ids_def in_filtered_keys using bt_wf_distinct [OF assms] by auto
qed

lemma selected_ids_set:
  "bt_wf rows \<Longrightarrow> set (selected_ids schema meta selected rows) = (\<Union>key \<in> Collect selected. indexed_by schema meta rows key)"
  by (auto simp: in_selected_ids indexed_by_def simp del: set_map)

lemma read_index_ok:
  assumes ix: "index_ok schema rows ix" and wf: "bt_wf rows"
  shows "collect_entries selected ix = selected_ids schema (ix_meta ix) selected rows"
    "get_or_empty (ix_entries ix) key = selected_ids schema (ix_meta ix) (\<lambda>k. k = key) rows"
proof -
  have sets: "set (get_or_empty (ix_entries ix) k) = indexed_by schema (ix_meta ix) rows k" for k using index_okD(3) [OF ix] .
  have "(k, ids) \<in> set (ix_entries ix) \<longleftrightarrow> map_of (ix_entries ix) k = Some ids" for k ids
    using bt_wf_distinct [OF index_okD(1) [OF ix]] by simp
  then have "(\<Union>(k, ids) \<in> set (ix_entries ix). if selected k then set ids else {}) =
      (\<Union>k \<in> Collect selected. set (get_or_empty (ix_entries ix) k))"
    by (fastforce simp: get_or_empty_def split: option.splits if_splits)
  then have "set (collect_entries selected ix) = set (selected_ids schema (ix_meta ix) selected rows)"
    by (simp add: collect_entries_def collect_entries_set selected_ids_set [OF wf] sets)
  then show "collect_entries selected ix = selected_ids schema (ix_meta ix) selected rows"
    by (intro strict_sorted_equal) (simp_all add: selected_ids_sorted [OF wf] collect_entries_def collect_entries_sorted)
  have "sorted_wrt (<) (get_or_empty (ix_entries ix) key)"
    using ix by (auto simp: index_ok_def get_or_empty_def split: option.split)
  then show "get_or_empty (ix_entries ix) key = selected_ids schema (ix_meta ix) (\<lambda>k. k = key) rows"
    by (intro strict_sorted_equal) (simp_all add: selected_ids_sorted [OF wf] selected_ids_set [OF wf] sets)
qed

lemma reads_of_index:
  assumes "mem_reachable R s" "mem_scan_rows t table s = Ok rows" "mem_get_schema t table s = Ok (Some schema)"
    "mem_get_index t table name s = Ok (Some meta)"
  obtains ix where "mem_validate_transaction t s = Ok ()" "require_index table name s = Ok ix" "ix_meta ix = meta"
    "index_ok schema rows ix" "bt_wf rows"
proof -
  from assms(2-4) obtain ix where 1: "mem_validate_transaction t s = Ok ()" "map_of (ms_schemas s) table = Some schema"
      "rows = get_or_empty (ms_rows s) table" "map_of (get_or_empty (ms_indexes s) table) name = Some ix" "ix_meta ix = meta"
    by (auto simp: mem_scan_rows_def mem_get_schema_def mem_get_index_def rbind_eq_Ok)
  from reachable_ok [OF assms(1)] have "tables_ok s" by (simp add: mem_ok_def)
  from tables_okE [OF this 1(2)] obtain rows' ixs where tab: "table_of s table = (Some schema, Some rows', Some ixs)"
      "table_ok schema table rows' ixs" .
  then have eq: "rows' = rows" "get_or_empty (ms_indexes s) table = ixs" using 1(3) by (auto simp: table_of_def get_or_empty_def)
  then have "(name, ix) \<in> set ixs" using 1(4) by (simp add: map_of_SomeD)
  from table_okD(3) [OF tab(2) this] table_okD(1) [OF tab(2)] 1 eq show thesis
    by (intro that) (simp_all add: require_index_def)
qed



section \<open>A session\<close>

definition mem_demo_column :: "string \<Rightarrow> bool \<Rightarrow> unit column" where
  "mem_demo_column name key = \<lparr>cd_name = name, cd_column_type = C_Integer, cd_nullable = True, cd_primary_key = key,
     cd_primary_key_sort_order = None, cd_default_value = None, cd_generated_expr = None, cd_checks = [],
     cd_foreign_key = None, cd_rest = ()\<rparr>"

definition mem_demo_schema :: "unit table_schema" where
  "mem_demo_schema = \<lparr>sc_name = ''t'', sc_columns = [mem_demo_column ''a'' True, mem_demo_column ''b'' False],
     sc_checks = [], sc_foreign_keys = [], sc_primary_key_constraint = None, sc_unique_constraints = [],
     sc_strict = False, sc_without_rowid = False, sc_rest = ()\<rparr>"

definition mem_demo_rules :: "unit schema_rules" where
  "mem_demo_rules = \<lparr>sr_evaluate_atom = (\<lambda>_ _ _. Ok (Some True)), sr_strict_value = (\<lambda>_ v. Some v),
     sr_display = (\<lambda>_. []), sr_debug = (\<lambda>_. []), sr_now = Ok 0\<rparr>"

definition mem_demo_index :: index_meta where
  "mem_demo_index = \<lparr>im_name = ''i'', im_columns = [''b''], im_decorated_columns = None, im_unique = True, im_predicate = None\<rparr>"

definition mem_demo_ops :: "unit mem_op list" where
  "mem_demo_ops = [M_Create_Schema mem_demo_schema, M_Create_Index ''t'' mem_demo_index, M_Insert_Row ''t'' [Null, Integer 5]]"

definition mem_demo :: "unit memory" where
  "mem_demo = mem_run_all mem_demo_rules 1 mem_demo_ops (snd (mem_begin memory_default))"

lemma mem_demo_ops_fit: "ops_fit mem_demo_rules 1 mem_demo_ops (snd (mem_begin memory_default))"
  by code_simp

lemma mem_demo_reachable: "mem_reachable mem_demo_rules mem_demo"
  unfolding mem_demo_def by (rule run_all_reachable [OF reach_begin [OF reach_start] mem_demo_ops_fit])

lemma mem_demo_value:
  "mem_validate_transaction 1 mem_demo = Ok ()"
  "mem_scan_rows 1 ''t'' mem_demo = Ok [(1, [Integer 1, Integer 5])]"
  "mem_get_schema 1 ''t'' mem_demo = Ok (Some mem_demo_schema)"
  "mem_get_index 1 ''t'' ''i'' mem_demo = Ok (Some mem_demo_index)"
  by code_simp+


definition mem_demo_more :: "unit mem_op list" where
  "mem_demo_more = [M_Delete_Row ''t'' 1, M_Savepoint ''other'', M_Insert_Row ''t'' [Null, Integer 6]]"




section \<open>Sessions that do not end as they should\<close>

text \<open>
  An update that gives a row a new \<open>INTEGER PRIMARY KEY\<close> moves it to another row id, but its undo record
  names only the old one: the rollback puts the old row back beside the new one, and fails where a unique
  index holds the new row.
\<close>

definition moved_row :: "unit memory" where
  "moved_row = mem_run mem_demo_rules 2 (M_Update_Row ''t'' 1 [Integer 2, Integer 5]) (snd (mem_begin (snd (mem_commit 1 mem_demo))))"

lemma moved_row_stays_after_rollback:
  "mem_rollback 2 moved_row = (Err (index_violation mem_demo_index), snd (mem_rollback 2 moved_row)) \<and>
   mem_scan_rows 3 ''t'' (snd (mem_begin (snd (mem_rollback 2 moved_row)))) =
     Ok [(1, [Integer 1, Integer 5]), (2, [Integer 2, Integer 5])]"
  by code_simp

text \<open>An explicit row id does not raise the counter, so the next chosen id can be taken.\<close>

lemma chosen_row_id_taken:
  "fst (mem_insert_row mem_demo_rules 1 ''t'' [Null, Integer 7]
     (mem_run mem_demo_rules 1 (M_Insert_Row ''t'' [Integer 2, Integer 6]) mem_demo)) \<noteq> Ok 2"
  by code_simp

text \<open>
  Dropping a column that an index names fails only when the indexes are rebuilt, after the schema and the
  rows have lost the column: a transaction that goes on and commits keeps the half-done change.
\<close>

lemma drop_indexed_column_half_done:
  "fst (mem_drop_column 1 ''t'' ''b'' mem_demo) \<noteq> Ok () \<and>
   mem_scan_rows 1 ''t'' (snd (mem_drop_column 1 ''t'' ''b'' mem_demo)) = Ok [(1, [Integer 1])]"
  by code_simp

end
