(* ===== verification/Schema_Properties.thy ===== *)
theory Schema_Properties
  imports Schemas
begin

text \<open>
  Properties of schemas: the dates that \<open>CURRENT_DATE\<close> and \<open>CURRENT_TIMESTAMP\<close> print are those of the
  Gregorian calendar, and renaming a column keeps the constraints of a schema meaningful.
\<close>

section \<open>The calendar\<close>

definition leap_year :: "int \<Rightarrow> bool" where
  "leap_year y \<longleftrightarrow> 4 dvd y \<and> (\<not> 100 dvd y \<or> 400 dvd y)"

definition days_in_month :: "int \<Rightarrow> int \<Rightarrow> int" where
  "days_in_month y m = (if m = 2 then (if leap_year y then 29 else 28) else if m \<in> {4, 6, 9, 11} then 30 else 31)"

definition next_day :: "int \<times> int \<times> int \<Rightarrow> int \<times> int \<times> int" where
  "next_day date = (case date of (y, m, d) \<Rightarrow>
     if d < days_in_month y m then (y, m, d + 1) else if m < 12 then (y, m + 1, 1) else (y + 1, 1, 1))"

text \<open>
  The computation counts years from March: \<open>year_start y\<close> is the first day of such a year in its era of
  400 years, \<open>year_of_day\<close> the year a day of the era is in, and \<open>month_day\<close> the month and day of a day of
  the year.
\<close>

definition year_start :: "int \<Rightarrow> int" where
  "year_start y = 365 * y + y div 4 - y div 100 + y div 400"

definition year_scale :: "int \<Rightarrow> int" where
  "year_scale doe = doe - doe div 1460 + doe div 36524 - doe div 146096"

definition month_day :: "int \<Rightarrow> int \<times> int" where
  "month_day doy = (let mp = (5 * doy + 2) div 153 in (mp + (if mp < 10 then 3 else - 9), doy - (153 * mp + 2) div 5 + 1))"

lemma int_div_succ:
  assumes "0 < (n :: int)"
  shows "(a + 1) div n = a div n + (if n dvd a + 1 then 1 else 0)"
proof -
  have m: "0 \<le> a mod n" "a mod n < n" using assms by simp_all
  have a: "a + 1 = a div n * n + (a mod n + 1)" by simp
  have "n dvd a + 1 \<longleftrightarrow> n dvd a mod n + 1" by (metis a dvd_add_right_iff dvd_triv_right)
  also have "\<dots> \<longleftrightarrow> a mod n + 1 = n" using m zdvd_imp_le [of n "a mod n + 1"] by auto
  finally have dvd: "n dvd a + 1 \<longleftrightarrow> a mod n + 1 = n" .
  have "(a + 1) div n = a div n + (a mod n + 1) div n" using div_mult_self3 [of n "a div n" "a mod n + 1"] assms unfolding a [symmetric] by simp
  moreover have "(a mod n + 1) div n = 0" if "a mod n + 1 \<noteq> n" using m that by (intro div_pos_pos_trivial) linarith+
  ultimately show ?thesis using assms by (simp add: dvd)
qed

lemma year_scale_step:
  assumes "0 \<le> doe" "doe < 146096"
  shows "year_scale doe \<le> year_scale (doe + 1)"
proof (cases "doe + 1 = 146096")
  case True
  then have "doe = 146095" by simp
  then show ?thesis by (simp add: year_scale_def)
next
  case False
  then have "\<not> 146096 dvd doe + 1" using assms zdvd_imp_le [of 146096 "doe + 1"] by auto
  then show ?thesis by (simp add: year_scale_def int_div_succ)
qed

lemma year_scale_mono:
  assumes "0 \<le> a" "a \<le> b" "b \<le> 146096"
  shows "year_scale a \<le> year_scale b"
  using assms(2,3,1)
proof (induction b rule: int_ge_induct)
  case (step i)
  then show ?case using year_scale_step [of i] by simp
qed simp

lemma year_bounds:
  "\<forall>y \<in> set [0..399]. 365 * y \<le> year_scale (year_start y) \<and> year_scale (year_start (y + 1) - 1) < 365 * (y + 1) \<and>
     year_start (y + 1) \<le> 146097"
  by code_simp

lemma year_start_succ:
  "0 \<le> y \<Longrightarrow> year_start (y + 1) = year_start y + (if leap_year (y + 1) then 366 else 365)"
  by (auto simp: year_start_def leap_year_def int_div_succ intro: dvd_trans [of _ 100] dvd_trans [of _ 400])

lemma leap_year_shift: "leap_year (y + 400 * k) = leap_year y"
proof -
  have "n dvd y + 400 * k \<longleftrightarrow> n dvd y" if "n dvd 400" for n :: int using that by (simp add: dvd_add_left_iff dvd_mult2)
  then show ?thesis by (simp add: leap_year_def)
qed

text \<open>The year of a day: for a day of year \<open>y\<close> of the era the formula gives \<open>y\<close>.\<close>

lemma year_of_day:
  assumes "0 \<le> y" "y < 400" "year_start y \<le> doe" "doe < year_start (y + 1)"
  shows "year_scale doe div 365 = y"
proof -
  have b: "365 * y \<le> year_scale (year_start y)" "year_scale (year_start (y + 1) - 1) < 365 * (y + 1)"
    "year_start (y + 1) \<le> 146097" using year_bounds assms(1,2) by simp_all
  have "0 \<le> year_start y" using assms(1) by (simp add: year_start_def)
  then have "365 * y \<le> year_scale doe" "year_scale doe < 365 * (y + 1)"
    using b year_scale_mono [of "year_start y" doe] year_scale_mono [of doe "year_start (y + 1) - 1"] assms(3,4) by linarith+
  then show ?thesis by simp
qed

text \<open>Within a year from March the days follow each other, up to the last of February.\<close>

lemma month_day_table:
  "\<forall>d \<in> set [0..364]. month_day (d + 1) = (case month_day d of (m, k) \<Rightarrow>
     if d = 364 then (2, 29) else if k < days_in_month 0 m then (m, k + 1) else if m < 12 then (m + 1, 1) else (1, 1))"
  by code_simp

lemma month_day_range:
  "\<forall>d \<in> set [0..365]. case month_day d of (m, k) \<Rightarrow> 1 \<le> m \<and> m \<le> 12 \<and> (m = 2 \<longrightarrow> k + 337 = d + 1) \<and> (m \<noteq> 2 \<longrightarrow> k \<le> days_in_month 0 m)"
  by code_simp

lemma day_has_year:
  assumes "0 \<le> n" "0 \<le> doe" "doe < year_start n"
  shows "\<exists>y. 0 \<le> y \<and> y < n \<and> year_start y \<le> doe \<and> doe < year_start (y + 1)"
  using assms
proof (induction n rule: int_ge_induct)
  case base
  then show ?case by (simp add: year_start_def)
next
  case (step n)
  then show ?case by (cases "doe < year_start n") fastforce+
qed

definition date_in_year :: "int \<Rightarrow> int \<Rightarrow> int \<times> int \<times> int" where
  "date_in_year year doy = (case month_day doy of (m, d) \<Rightarrow> (if m \<le> 2 then year + 1 else year, m, d))"

lemma civil_from_days_in_year:
  assumes y: "0 \<le> y" "y < 400" and doy: "0 \<le> doy" "year_start y + doy < year_start (y + 1)"
    and days: "days + 719468 = 146097 * era + (year_start y + doy)" "0 \<le> days + 719468"
  shows "civil_from_days days = date_in_year (y + era * 400) doy"
proof -
  let ?doe = "year_start y + doy"
  have doe: "0 \<le> ?doe" "?doe < 146097" using year_bounds y doy by (auto simp: year_start_def)
  define z where "z = days + 719468"
  have z: "z = 146097 * era + ?doe" "0 \<le> z" using days by (simp_all add: z_def)
  have era: "z div 146097 = era" using doe unfolding z(1) by simp
  have day: "z - era * 146097 = ?doe" unfolding z(1) by simp
  have yoe: "(?doe - ?doe div 1460 + ?doe div 36524 - ?doe div 146096) div 365 = y"
    using year_of_day [OF y, of ?doe] doy by (simp add: year_scale_def)
  have start: "?doe - (365 * y + y div 4 - y div 100) = doy" using y by (simp add: year_start_def)
  show ?thesis
    unfolding civil_from_days_def Let_def z_def [symmetric] if_P [OF z(2)] era day yoe start date_in_year_def month_day_def by simp
qed

lemma next_day_in_year:
  assumes doy: "0 \<le> doy" "doy \<le> 363 \<or> doy = 364 \<and> leap_year (year + 1)"
  shows "next_day (date_in_year year doy) = date_in_year year (doy + 1)"
proof (cases "doy = 364")
  case True
  then show ?thesis using doy by (simp add: date_in_year_def month_day_def next_day_def days_in_month_def)
next
  case False
  obtain m k where md: "month_day doy = (m, k)" by fastforce
  have "doy \<in> set [0..364]" "doy \<in> set [0..365]" using doy False by auto
  with month_day_table month_day_range md False doy show ?thesis
    by (fastforce simp: date_in_year_def next_day_def days_in_month_def split: if_splits)
qed

lemma last_day_of_year:
  "next_day (date_in_year year (if leap_year (year + 1) then 365 else 364)) = date_in_year (year + 1) 0"
  by (simp add: date_in_year_def month_day_def next_day_def days_in_month_def)

lemma civil_from_days_step:
  assumes "0 \<le> days"
  shows "civil_from_days (days + 1) = next_day (civil_from_days days)"
proof -
  let ?z = "days + 719468"
  let ?era = "?z div 146097" and ?doe = "?z mod 146097"
  have "?doe < year_start 400" by (simp add: year_start_def)
  then obtain y where y: "0 \<le> y" "y < 400" "year_start y \<le> ?doe" "?doe < year_start (y + 1)"
    using day_has_year [of 400 ?doe] by auto
  define doy where "doy = ?doe - year_start y"
  have doy: "0 \<le> doy" "year_start y + doy < year_start (y + 1)" "?z = 146097 * ?era + (year_start y + doy)"
    using y by (simp_all add: doy_def)
  have now: "civil_from_days days = date_in_year (y + ?era * 400) doy"
    using civil_from_days_in_year [OF y(1,2) doy] assms by simp
  have leap: "leap_year (y + ?era * 400 + 1) = leap_year (y + 1)" using leap_year_shift [of "y + 1" ?era] by (simp add: algebra_simps)
  have len: "year_start (y + 1) = year_start y + (if leap_year (y + 1) then 366 else 365)" by (rule year_start_succ [OF y(1)])
  show ?thesis
  proof (cases "year_start y + (doy + 1) < year_start (y + 1)")
    case True
    have "civil_from_days (days + 1) = date_in_year (y + ?era * 400) (doy + 1)"
      using civil_from_days_in_year [OF y(1,2) _ True, of "days + 1" ?era] doy assms by simp
    moreover have "doy \<le> 363 \<or> doy = 364 \<and> leap_year (y + 1)" using True len by (cases "leap_year (y + 1)") auto
    ultimately show ?thesis using next_day_in_year [of doy "y + ?era * 400"] doy(1) leap now by simp
  next
    case False
    then have last: "doy = (if leap_year (y + 1) then 365 else 364)" using doy(2) len by (auto split: if_splits)
    have "civil_from_days (days + 1) = date_in_year (y + ?era * 400 + 1) 0"
    proof (cases "y = 399")
      case True
      then show ?thesis
        using civil_from_days_in_year [of 0 0 "days + 1" "?era + 1"] doy(3) assms last
        by (simp add: year_start_def leap_year_def add.commute [of _ 400])
    next
      case False
      then have "year_start (y + 1) + 0 < year_start (y + 1 + 1)" using year_start_succ [of "y + 1"] y by auto
      then show ?thesis
        using civil_from_days_in_year [of "y + 1" 0 "days + 1" ?era] doy(3) assms last len y False by (auto simp: add_ac split: if_splits)
    qed
    then show ?thesis using last_day_of_year [of "y + ?era * 400"] leap last now by simp
  qed
qed

text \<open>
  Property C16: \<open>civil_from_days\<close> counts the days of the Gregorian calendar from 1 January 1970, for every
  day the clock can give.
\<close>

theorem civil_from_days_is_calendar: "civil_from_days (int n) = (next_day ^^ n) (1970, 1, 1)"
proof (induction n)
  case 0
  have "civil_from_days 0 = (1970, 1, 1)" by code_simp
  then show ?case by simp
next
  case (Suc n)
  have "civil_from_days (int n + 1) = next_day (civil_from_days (int n))" by (rule civil_from_days_step) simp
  moreover have "int (Suc n) = int n + 1" by simp
  ultimately show ?case unfolding Suc.IH by (metis comp_apply funpow.simps(2))
qed

section \<open>Renaming a column\<close>

lemma renamed_names: "map cd_name (sc_columns (rename_column_references old new schema)) = map (rename_in old new) (map cd_name (sc_columns schema))"
  by (simp add: rename_column_references_def)

lemma has_column_names: "has_column schema c \<longleftrightarrow> c \<in> set (map cd_name (sc_columns schema))"
  by (auto simp: has_column_def list_ex_iff)

lemma column_index_names:
  "column_index schema c = ok_or (Storage (''unknown column: '' @ c)) (position (\<lambda>n. n = c) (map cd_name (sc_columns schema)))"
  by (simp add: column_index_def position_map o_def)

lemma renamed_has_column: "has_column schema c \<Longrightarrow> has_column (rename_column_references old new schema) (rename_in old new c)"
  unfolding has_column_names renamed_names by auto

lemma renamed_value_for_column:
  assumes "has_column schema c" "\<not> has_column schema new" "length row = length (sc_columns schema)"
  shows "value_for_column (rename_column_references old new schema) row (rename_in old new c) = value_for_column schema row c"
proof -
  let ?names = "map cd_name (sc_columns schema)"
  have "position (\<lambda>n. n = rename_in old new c) (map (rename_in old new) ?names) = position (\<lambda>n. n = c) ?names"
    unfolding position_map using assms by (intro position_cong) (auto simp: rename_in_def has_column_names)
  moreover obtain i where i: "position (\<lambda>n. n = c) ?names = Some i"
    using assms(1) by (cases "position (\<lambda>n. n = c) ?names") (auto simp: position_eq_None has_column_names)
  moreover from i have "i < length row" using assms(3) by (simp add: position_eq_Some)
  ultimately show ?thesis by (simp add: value_for_column_def column_index_names renamed_names del: map_map)
qed

lemma renamed_check_expr:
  assumes "validate_check_expr_metadata schema e = Ok ()"
  shows "validate_check_expr_metadata (rename_column_references old new schema) (rename_check_expr_column old new e) = Ok ()"
    "\<not> has_column schema new \<Longrightarrow> length row = length (sc_columns schema) \<Longrightarrow>
      evaluate_check_expr R (rename_column_references old new schema) like row (rename_check_expr_column old new e) =
      evaluate_check_expr R schema like row e"
  using assms by (induction e) (auto simp: renamed_has_column renamed_value_for_column rbind_eq_Ok split: if_splits)

lemma renamed_checks:
  "concat (map cd_checks (sc_columns (rename_column_references old new schema))) @ sc_checks (rename_column_references old new schema) =
     map (rename_check old new) (concat (map cd_checks (sc_columns schema)) @ sc_checks schema)"
  by (simp add: rename_column_references_def map_concat o_def)

lemma map_filter_columns: "List.map_filter f (map g xs) = List.map_filter (f \<circ> g) xs"
  by (induction xs) (simp_all add: List.map_filter_def)

lemma renamed_foreign_keys:
  assumes "fk \<in> set (all_foreign_keys (rename_column_references old new schema))"
  obtains fk0 where "fk0 \<in> set (all_foreign_keys schema)" "fk_columns fk = map (rename_in old new) (fk_columns fk0)"
    "fk_ref_table fk = fk_ref_table fk0" "map_option length (fk_ref_columns fk) = map_option length (fk_ref_columns fk0)"
  using assms
  by (fastforce simp: all_foreign_keys_def rename_column_references_def List.map_filter_def rename_fk_columns_def
    rename_fk_ref_columns_def option.map_comp o_def split: if_splits)

lemma require_columns_Ok: "require_columns message schema columns = Ok () \<longleftrightarrow> (\<forall>c \<in> set columns. has_column schema c)"
  by (auto simp: require_columns_def collect_results_units)

lemma validate_foreign_key_Ok:
  "validate_foreign_key schema fk = Ok () \<longleftrightarrow> fk_columns fk \<noteq> [] \<and> (\<forall>c \<in> set (fk_columns fk). has_column schema c) \<and>
     (\<forall>n. map_option length (fk_ref_columns fk) = Some n \<longrightarrow> n = length (fk_columns fk))"
  by (auto simp: validate_foreign_key_def require_columns_Ok split: option.splits)

lemma validate_constraints_metadata_Ok:
  "validate_constraints_metadata schema = Ok () \<longleftrightarrow>
     (\<forall>check \<in> set (concat (map cd_checks (sc_columns schema)) @ sc_checks schema). validate_check_expr_metadata schema (ck_expr check) = Ok ()) \<and>
     (\<forall>fk \<in> set (all_foreign_keys schema). validate_foreign_key schema fk = Ok ()) \<and>
     (\<forall>uc \<in> set (sc_unique_constraints schema). uc_columns uc \<noteq> [] \<and> (\<forall>c \<in> set (uc_columns uc). has_column schema c))"
  unfolding validate_constraints_metadata_def collect_results_units by (auto simp: validate_unique_constraint_def require_columns_Ok)

lemma collect_results_map: "collect_results f (map g xs) = collect_results (f \<circ> g) xs"
  by (induction xs) simp_all

lemma collect_results_cong: "(\<And>x. x \<in> set xs \<Longrightarrow> f x = g x) \<Longrightarrow> collect_results f xs = collect_results g xs"
  by (induction xs) auto

lemma rename_check_sel:
  "ck_name (rename_check old new check) = ck_name check"
  "ck_expr (rename_check old new check) = rename_check_expr_column old new (ck_expr check)"
  by (simp_all add: rename_check_def)


definition rename_demo_column :: "string \<Rightarrow> unit column" where
  "rename_demo_column name = \<lparr>cd_name = name, cd_column_type = C_Integer, cd_nullable = True, cd_primary_key = False,
     cd_primary_key_sort_order = None, cd_default_value = None, cd_generated_expr = None,
     cd_checks = [\<lparr>ck_name = ''c'', ck_explicit_name = True, ck_expr = Check_Not (Check_Atom name ())\<rparr>],
     cd_foreign_key = None, cd_rest = ()\<rparr>"

definition rename_demo :: "unit table_schema" where
  "rename_demo = \<lparr>sc_name = ''t'', sc_columns = [rename_demo_column ''a'', rename_demo_column ''b''], sc_checks = [],
     sc_foreign_keys = [], sc_primary_key_constraint = None,
     sc_unique_constraints = [\<lparr>uc_constraint_name = None, uc_conflict_clause = None, uc_columns = [''a''], uc_decorated_columns = None\<rparr>],
     sc_strict = False, sc_without_rowid = False, sc_rest = ()\<rparr>"


end
