(* ===== verification/Sql_Lexer.thy ===== *)
theory Sql_Lexer
  imports Values
begin

text \<open>
  The SQL lexer, \<open>src/sql/lexer.rs\<close>. The input is the UTF-8 bytes of a Rust string; a character is
  the string of its bytes, and the state of the lexer is the input that is left, so that the offset is
  the difference of the two lengths. Real literals become the bits of the nearest \<open>f64\<close>, as
  \<open>str::parse\<close> rounds. Shown: lexing ends on every input, positions ascend within the input and end
  with \<open>Eof\<close> behind it, and printed tokens are lexed back.
\<close>

section \<open>Tokens\<close>

text \<open>
  The 115 variants of \<open>TokenKind\<close> for reserved words are \<open>T_Keyword\<close> with the word in capitals:
  \<open>Create\<close> is \<open>T_Keyword ''CREATE''\<close>, \<open>IntegerType\<close> is \<open>T_Keyword ''INTEGER''\<close>.
\<close>

datatype token_kind =
    T_Keyword string
  | T_Identifier string
  | T_Integer i64
  | T_Real u64
  | T_String string
  | T_BlobLiteral "byte list"
  | T_Star | T_Comma | T_Semicolon | T_LParen | T_RParen
  | T_Eq | T_Ne | T_Gt | T_Gte | T_Lt | T_Lte
  | T_Plus | T_Minus | T_Slash | T_Percent | T_Ampersand | T_Pipe | T_ShiftLeft | T_ShiftRight
  | T_Tilde | T_PipePipe | T_Arrow | T_ArrowText | T_Dot | T_Eof

record token =
  tk_kind :: token_kind
  tk_position :: nat

text \<open>The words \<open>lex_word\<close> recognises.\<close>

definition keyword_table :: "string list" where
  "keyword_table = [
    ''CREATE'', ''ALTER'', ''ADD'', ''RENAME'', ''REPLACE'', ''DROP'', ''TABLE'', ''COLUMN'', ''TO'',
    ''UNIQUE'', ''INDEX'', ''ON'', ''OFF'', ''CONFLICT'', ''DO'', ''NOTHING'', ''INSERT'', ''INTO'',
    ''VALUES'', ''SELECT'', ''DELETE'', ''UPDATE'', ''SET'', ''FROM'', ''WHERE'', ''GROUP'',
    ''HAVING'', ''ORDER'', ''BY'', ''LIMIT'', ''OFFSET'', ''WITH'', ''RECURSIVE'', ''UNION'',
    ''INTERSECT'', ''EXCEPT'', ''ALL'', ''AS'', ''INNER'', ''CROSS'', ''LEFT'', ''RIGHT'', ''FULL'',
    ''OUTER'', ''NATURAL'', ''JOIN'', ''USING'', ''ASC'', ''DESC'', ''AND'', ''OR'', ''LIKE'',
    ''GLOB'', ''REGEXP'', ''MATCH'', ''ESCAPE'', ''BETWEEN'', ''BEGIN'', ''START'', ''TRANSACTION'',
    ''ISOLATION'', ''LEVEL'', ''READ'', ''COMMITTED'', ''REPEATABLE'', ''SERIALIZABLE'', ''COMMIT'',
    ''ROLLBACK'', ''SAVEPOINT'', ''RELEASE'', ''CASE'', ''WHEN'', ''THEN'', ''ELSE'', ''END'', ''IF'',
    ''NOT'', ''IN'', ''IS'', ''EXISTS'', ''EXPLAIN'', ''QUERY'', ''PLAN'', ''PRAGMA'', ''ANALYZE'',
    ''REINDEX'', ''VACUUM'', ''DISTINCT'', ''DEFAULT'', ''RETURNING'', ''CHECK'', ''COLLATE'',
    ''CONSTRAINT'', ''FOREIGN'', ''REFERENCES'', ''GENERATED'', ''ALWAYS'', ''STORED'', ''VIRTUAL'',
    ''ISNULL'', ''NOTNULL'', ''NULLS'', ''FIRST'', ''LAST'', ''PRIMARY'', ''KEY'', ''STRICT'',
    ''AUTOINCREMENT'', ''INTEGER'', ''TEXT'', ''BLOB'', ''BOOLEAN'', ''TRUE'', ''FALSE'', ''NULL'']"

section \<open>Characters\<close>

text \<open>The number of bytes of a character, from its first byte.\<close>

definition char_len :: "char \<Rightarrow> nat" where
  "char_len c = (let n = (of_char c :: nat) in
     if n < 0x80 then 1 else if n < 0xE0 then 2 else if n < 0xF0 then 3 else 4)"

definition peek :: "string \<Rightarrow> string option" where
  "peek s = (case s of [] \<Rightarrow> None | c # _ \<Rightarrow> Some (take (char_len c) s))"

definition advance :: "string \<Rightarrow> string" where
  "advance s = (case s of [] \<Rightarrow> [] | c # _ \<Rightarrow> drop (char_len c) s)"

definition peek_next :: "string \<Rightarrow> string option" where
  "peek_next s = peek (advance s)"

lemma char_len_pos: "0 < char_len c"
  by (simp add: char_len_def Let_def)

lemma length_advance: "s \<noteq> [] \<Longrightarrow> length (advance s) < length s"
  using char_len_pos by (cases s) (simp_all add: advance_def)

lemma length_advance_le: "length (advance s) \<le> length s"
  by (cases s) (simp_all add: advance_def)

lemma peek_None [simp]: "peek s = None \<longleftrightarrow> s = []"
  by (cases s) (simp_all add: peek_def)

text \<open>\<open>char::is_whitespace\<close>: the property \<open>White_Space\<close> of Unicode.\<close>

definition utf8 :: "nat list \<Rightarrow> string" where
  "utf8 = map char_of"

definition is_whitespace :: "string \<Rightarrow> bool" where
  "is_whitespace c \<longleftrightarrow>
     c \<in> set (map (\<lambda>n. utf8 [n]) [9, 10, 11, 12, 13, 32]) \<or>
     c \<in> {utf8 [0xC2, 0x85], utf8 [0xC2, 0xA0], utf8 [0xE1, 0x9A, 0x80]} \<or>
     c \<in> set (map (\<lambda>n. utf8 [0xE2, 0x80, n]) ([0x80..<0x8B] @ [0xA8, 0xA9, 0xAF])) \<or>
     c \<in> {utf8 [0xE2, 0x81, 0x9F], utf8 [0xE3, 0x80, 0x80]}"

definition in_range :: "char \<Rightarrow> char \<Rightarrow> char \<Rightarrow> bool" where
  "in_range lo hi c \<longleftrightarrow> (of_char lo :: nat) \<le> of_char c \<and> (of_char c :: nat) \<le> of_char hi"

definition is_digit :: "char \<Rightarrow> bool" where
  "is_digit c \<longleftrightarrow> in_range (CHR ''0'') (CHR ''9'') c"

definition is_hex_digit :: "char \<Rightarrow> bool" where
  "is_hex_digit c \<longleftrightarrow> is_digit c \<or> in_range (CHR ''a'') (CHR ''f'') c \<or> in_range (CHR ''A'') (CHR ''F'') c"

definition is_ascii_alphabetic :: "char \<Rightarrow> bool" where
  "is_ascii_alphabetic c \<longleftrightarrow> in_range (CHR ''a'') (CHR ''z'') c \<or> in_range (CHR ''A'') (CHR ''Z'') c"

definition is_identifier_start :: "char \<Rightarrow> bool" where
  "is_identifier_start c \<longleftrightarrow> is_ascii_alphabetic c \<or> c = CHR ''_''"

definition is_identifier_continue :: "char \<Rightarrow> bool" where
  "is_identifier_continue c \<longleftrightarrow> is_ascii_alphabetic c \<or> is_digit c \<or> c = CHR ''_''"

definition to_ascii_uppercase :: "string \<Rightarrow> string" where
  "to_ascii_uppercase = map (\<lambda>c. if in_range (CHR ''a'') (CHR ''z'') c then char_of ((of_char c :: nat) - 32) else c)"

section \<open>Numbers\<close>

fun bit_len :: "nat \<Rightarrow> nat" where
  "bit_len n = (if n = 0 then 0 else Suc (bit_len (n div 2)))"

declare bit_len.simps [simp del]

text \<open>
  The \<open>f64\<close> nearest to \<open>num / den\<close>, ties to even: \<open>q\<close> is the exponent of the last place, at least
  that of the subnormal numbers; a mantissa that rounds up to the next power of two carries into the
  exponent, and values beyond the largest finite number become infinity.
\<close>

definition f64_of_ratio :: "nat \<Rightarrow> nat \<Rightarrow> u64" where
  "f64_of_ratio num den =
     (if num = 0 then 0
      else
        let g = int (bit_len num) - int (bit_len den);
            lg = (if den * 2 ^ nat g \<le> num * 2 ^ nat (- g) then g else g - 1);
            q = max (- 1074) (lg - 52);
            n = num * 2 ^ nat (- q);
            d = den * 2 ^ nat q;
            m = (if 2 * (n mod d) < d \<or> 2 * (n mod d) = d \<and> even (n div d) then n div d else n div d + 1)
        in word_of_nat (min (nat (q + 1074) * 2 ^ 52 + m) 0x7FF0000000000000))"

definition digit_value :: "char \<Rightarrow> nat" where
  "digit_value c =
     (if is_digit c then of_char c - 48
      else if in_range (CHR ''a'') (CHR ''f'') c then of_char c - 87 else of_char c - 55)"

definition number_of :: "nat \<Rightarrow> string \<Rightarrow> nat" where
  "number_of b ds = foldl (\<lambda>n c. b * n + digit_value c) 0 ds"

text \<open>\<open>parse::<f64>\<close> on digits with an optional fraction and exponent.\<close>

definition parse_f64 :: "string \<Rightarrow> u64" where
  "parse_f64 text =
     (let ints = takeWhile is_digit text;
          r1 = dropWhile is_digit text;
          frac = (if r1 \<noteq> [] \<and> hd r1 = CHR ''.'' then takeWhile is_digit (tl r1) else []);
          r2 = (if r1 \<noteq> [] \<and> hd r1 = CHR ''.'' then dropWhile is_digit (tl r1) else r1);
          expo = (if r2 = [] then 0
                  else if tl r2 \<noteq> [] \<and> hd (tl r2) = CHR ''-'' then - int (number_of 10 (tl (tl r2)))
                  else if tl r2 \<noteq> [] \<and> hd (tl r2) = CHR ''+'' then int (number_of 10 (tl (tl r2)))
                  else int (number_of 10 (tl r2)));
          e = expo - int (length frac)
      in f64_of_ratio (number_of 10 (ints @ frac) * 10 ^ nat e) (10 ^ nat (- e)))"

definition quoted :: "string \<Rightarrow> string" where
  "quoted s = CHR 0x27 # s @ [CHR 0x27]"

definition strip_underscores :: "string \<Rightarrow> string" where
  "strip_underscores = filter (\<lambda>c. c \<noteq> CHR ''_'')"

definition lex_hex :: "string \<Rightarrow> (token_kind \<times> string) result" where
  "lex_hex body =
     (let hex = (\<lambda>c. is_hex_digit c \<or> c = CHR ''_'');
          digits = takeWhile hex body;
          normalized = strip_underscores digits;
          fail = (\<lambda>why. Err (Sql (''invalid hexadecimal integer literal '' @ quoted (''0x'' @ digits) @ '': '' @ why)))
      in if digits = [] then Err (Sql (''invalid hexadecimal integer literal '' @ quoted ''0x''))
         else if normalized = [] then fail ''cannot parse integer from empty string''
         else if 2 ^ 64 \<le> number_of 16 normalized then fail ''number too large to fit in target type''
         else Ok (T_Integer (word_of_nat (number_of 16 normalized)), dropWhile hex body))"

text \<open>The fraction and the exponent of a decimal literal with what follows them, if they are there.\<close>

definition is_number_char :: "char \<Rightarrow> bool" where
  "is_number_char c \<longleftrightarrow> is_digit c \<or> c = CHR ''_''"

definition starts_digit :: "string \<Rightarrow> bool" where
  "starts_digit s \<longleftrightarrow> s \<noteq> [] \<and> is_digit (hd s)"

definition lex_fraction :: "bool \<Rightarrow> string \<Rightarrow> (string \<times> string) option" where
  "lex_fraction saw_integer_digits s =
     (if peek s = Some ''.'' \<and> (saw_integer_digits \<or> starts_digit (advance s))
      then Some (take 1 s @ takeWhile is_number_char (advance s), dropWhile is_number_char (advance s))
      else None)"

definition lex_exponent :: "string \<Rightarrow> (string \<times> string) option" where
  "lex_exponent s =
     (if peek s = Some ''e'' \<or> peek s = Some ''E'' then
        let r = advance s;
            signed = (peek r = Some ''+'' \<or> peek r = Some ''-'');
            sign = (if signed then take 1 r else []);
            r' = (if signed then advance r else r)
        in if starts_digit r'
           then Some (take 1 s @ sign @ takeWhile is_number_char r', dropWhile is_number_char r') else None
      else None)"

definition lex_number :: "string \<Rightarrow> (token_kind \<times> string) result" where
  "lex_number s =
     (if peek s = Some ''0'' \<and> (peek_next s = Some ''x'' \<or> peek_next s = Some ''X'')
      then lex_hex (advance (advance s))
      else
        let ints = takeWhile is_number_char s;
            r1 = dropWhile is_number_char s;
            fraction = lex_fraction (ints \<noteq> []) r1;
            (frac, r2) = (case fraction of Some fr \<Rightarrow> fr | None \<Rightarrow> ([], r1));
            exponent = lex_exponent r2;
            (expo, r3) = (case exponent of Some ex \<Rightarrow> ex | None \<Rightarrow> ([], r2));
            normalized = strip_underscores (ints @ frac @ expo)
        in if fraction \<noteq> None \<or> exponent \<noteq> None then Ok (T_Real (parse_f64 normalized), r3)
           else if number_of 10 normalized < 2 ^ 63
             then Ok (T_Integer (word_of_nat (number_of 10 normalized)), r3)
             else Ok (T_Real (parse_f64 normalized), r3))"

section \<open>Strings, identifiers and comments\<close>

lemma peek_advance: "peek s = Some c \<Longrightarrow> length (advance s) < length s"
  by (rule length_advance) (auto simp: peek_def)

lemma peek_advance2: "peek s = Some c \<Longrightarrow> length (advance (advance s)) < length s"
  by (rule le_less_trans [OF length_advance_le peek_advance])

function lex_string_loop :: "string \<Rightarrow> string \<Rightarrow> (token_kind \<times> string) result" where
  "lex_string_loop value s =
     (case peek s of
        None \<Rightarrow> Err (Sql ''unterminated string literal'')
      | Some ch \<Rightarrow>
          let r = advance s in
          if ch = [CHR 0x27] then
            if peek r = Some [CHR 0x27] then lex_string_loop (value @ [CHR 0x27]) (advance r)
            else Ok (T_String value, r)
          else lex_string_loop (value @ ch) r)"
  by pat_completeness auto
termination
  by (relation "measure (\<lambda>(_, s). length s)")
     (auto intro: peek_advance peek_advance2)

declare lex_string_loop.simps [simp del]

definition lex_string :: "string \<Rightarrow> (token_kind \<times> string) result" where
  "lex_string s = lex_string_loop [] (advance s)"

function lex_quoted_loop :: "string \<Rightarrow> string \<Rightarrow> string \<Rightarrow> string \<Rightarrow> (token_kind \<times> string) result" where
  "lex_quoted_loop opener closer value s =
     (case peek s of
        None \<Rightarrow> Err (Sql ''unterminated quoted identifier'')
      | Some ch \<Rightarrow>
          let r = advance s in
          if ch = closer then
            if opener = [CHR 0x22] \<and> peek r = Some [CHR 0x22]
            then lex_quoted_loop opener closer (value @ [CHR 0x22]) (advance r)
            else Ok (T_Identifier value, r)
          else lex_quoted_loop opener closer (value @ ch) r)"
  by pat_completeness auto
termination
  by (relation "measure (\<lambda>(_, _, _, s). length s)")
     (auto intro: peek_advance peek_advance2)

declare lex_quoted_loop.simps [simp del]

definition lex_quoted_identifier :: "string \<Rightarrow> string \<Rightarrow> string \<Rightarrow> (token_kind \<times> string) result" where
  "lex_quoted_identifier opener closer s = lex_quoted_loop opener closer [] (advance s)"

function skip_to_newline :: "string \<Rightarrow> string" where
  "skip_to_newline s =
     (case peek s of
        None \<Rightarrow> s
      | Some ch \<Rightarrow> if ch = [CHR 0x0A] then advance s else skip_to_newline (advance s))"
  by pat_completeness auto
termination
  by (relation "measure length") (auto intro: peek_advance)

declare skip_to_newline.simps [simp del]

definition skip_line_comment :: "string \<Rightarrow> string" where
  "skip_line_comment s = skip_to_newline (advance (advance s))"

function skip_to_comment_end :: "string \<Rightarrow> string result" where
  "skip_to_comment_end s =
     (case peek s of
        None \<Rightarrow> Err (Sql ''unterminated block comment'')
      | Some ch \<Rightarrow>
          let r = advance s in
          if ch = ''*'' \<and> peek r = Some ''/'' then Ok (advance r) else skip_to_comment_end r)"
  by pat_completeness auto
termination
  by (relation "measure length") (auto intro: peek_advance)

declare skip_to_comment_end.simps [simp del]

definition skip_block_comment :: "string \<Rightarrow> string result" where
  "skip_block_comment s = skip_to_comment_end (advance (advance s))"

section \<open>Blob literals and words\<close>

text \<open>
  Slicing a string at a byte that is not the first of a character panics; \<open>is_char_boundary\<close> reads it
  off the bytes from that place on. \<open>u8::from_str_radix\<close> accepts a leading plus sign.
\<close>

definition is_char_boundary :: "string \<Rightarrow> bool" where
  "is_char_boundary s \<longleftrightarrow> (case s of [] \<Rightarrow> True | c # _ \<Rightarrow> \<not> (0x80 \<le> (of_char c :: nat) \<and> (of_char c :: nat) < 0xC0))"

definition u8_from_hex :: "char \<Rightarrow> char \<Rightarrow> byte option" where
  "u8_from_hex a b =
     (if a = CHR ''+'' \<and> is_hex_digit b then Some (word_of_nat (digit_value b))
      else if is_hex_digit a \<and> is_hex_digit b then Some (word_of_nat (16 * digit_value a + digit_value b))
      else None)"

fun hex_bytes :: "string \<Rightarrow> byte list result" where
  "hex_bytes [] = Ok []"
| "hex_bytes [a] = Panic ''byte index is out of bounds''"
| "hex_bytes (a # b # rest) =
     (if \<not> is_char_boundary rest then Panic ''byte index is not a char boundary''
      else case u8_from_hex a b of
        None \<Rightarrow> Err (Sql (''invalid blob literal hex byte '' @ quoted [a, b]))
      | Some byte \<Rightarrow> rbind (hex_bytes rest) (\<lambda>bytes. Ok (byte # bytes)))"

definition lex_blob_literal :: "string \<Rightarrow> (token_kind \<times> string) result" where
  "lex_blob_literal s =
     rbind (lex_string (advance s)) (\<lambda>(kind, rest).
       case kind of
         T_String hex \<Rightarrow>
           if length hex mod 2 \<noteq> 0 then Err (Sql ''blob literal must contain an even number of hex digits'')
           else rbind (hex_bytes hex) (\<lambda>bytes. Ok (T_BlobLiteral bytes, rest))
       | _ \<Rightarrow> Panic ''blob literal parser must reuse string literal parsing'')"

definition word_kind :: "string \<Rightarrow> token_kind" where
  "word_kind w =
     (if to_ascii_uppercase w \<in> set keyword_table then T_Keyword (to_ascii_uppercase w) else T_Identifier w)"

definition lex_word :: "string \<Rightarrow> token_kind \<times> string" where
  "lex_word s = (word_kind (takeWhile is_identifier_continue s), dropWhile is_identifier_continue s)"

section \<open>The lexer\<close>

definition unexpected_character :: "string \<Rightarrow> nat \<Rightarrow> 'a result" where
  "unexpected_character ch pos =
     Err (Sql (''unexpected character '' @ quoted ch @ '' at position '' @ show_nat pos))"

definition lex_token :: "nat \<Rightarrow> string \<Rightarrow> (token_kind \<times> string) result" where
  "lex_token pos s =
     (let ch = (case peek s of None \<Rightarrow> [] | Some c \<Rightarrow> c);
          r = advance s;
          r' = advance r
      in
      if ch = ''('' then Ok (T_LParen, r)
      else if ch = '')'' then Ok (T_RParen, r)
      else if ch = '','' then Ok (T_Comma, r)
      else if ch = ''.'' \<and> starts_digit r then lex_number s
      else if ch = ''.'' then Ok (T_Dot, r)
      else if ch = ''*'' then Ok (T_Star, r)
      else if ch = ''+'' then Ok (T_Plus, r)
      else if ch = ''%'' then Ok (T_Percent, r)
      else if ch = ''&'' then Ok (T_Ampersand, r)
      else if ch = ''~'' then Ok (T_Tilde, r)
      else if ch = '';'' then Ok (T_Semicolon, r)
      else if ch = ''='' then Ok (T_Eq, if peek r = Some ''='' then r' else r)
      else if ch = ''!'' \<and> peek_next s = Some ''='' then Ok (T_Ne, r')
      else if ch = ''!'' then unexpected_character ch pos
      else if ch = ''>'' then
        if peek r = Some ''='' then Ok (T_Gte, r')
        else if peek r = Some ''>'' then Ok (T_ShiftRight, r')
        else Ok (T_Gt, r)
      else if ch = ''<'' then
        if peek r = Some ''='' then Ok (T_Lte, r')
        else if peek r = Some ''>'' then Ok (T_Ne, r')
        else if peek r = Some ''<'' then Ok (T_ShiftLeft, r')
        else Ok (T_Lt, r)
      else if ch = ''-'' then
        if peek r = Some ''>'' then
          if peek r' = Some ''>'' then Ok (T_ArrowText, advance r') else Ok (T_Arrow, r')
        else Ok (T_Minus, r)
      else if ch = ''/'' then Ok (T_Slash, r)
      else if ch = ''|'' \<and> peek_next s = Some ''|'' then Ok (T_PipePipe, r')
      else if ch = ''|'' then Ok (T_Pipe, r)
      else if ch = [CHR 0x27] then lex_string s
      else if ch = [CHR 0x22] then lex_quoted_identifier [CHR 0x22] [CHR 0x22] s
      else if ch = [CHR 0x60] then lex_quoted_identifier [CHR 0x60] [CHR 0x60] s
      else if ch = ''['' then lex_quoted_identifier ''['' '']'' s
      else if starts_digit s then lex_number s
      else if (ch = ''x'' \<or> ch = ''X'') \<and> peek_next s = Some [CHR 0x27] then lex_blob_literal s
      else if s \<noteq> [] \<and> is_identifier_start (hd s) then Ok (lex_word s)
      else unexpected_character ch pos)"


text \<open>Every token and every comment consumes input.\<close>

lemma lex_string_loop_shorter: "lex_string_loop v s = Ok (k, r) \<Longrightarrow> length r < length s"
proof (induction v s rule: lex_string_loop.induct)
  case (1 v s)
  note simps = lex_string_loop.simps [of v s]
  show ?case
  proof (cases "peek s")
    case None
    then show ?thesis using "1.prems" by (simp add: simps del: peek_None)
  next
    case (Some ch)
    have "length (advance s) < length s" "length (advance (advance s)) < length s"
      using Some by (auto intro: peek_advance peek_advance2)
    then show ?thesis
      using Some "1.prems" "1.IH"(1) [OF Some refl] "1.IH"(2) [OF Some refl]
      by (auto simp: simps Let_def split: if_splits)
  qed
qed

lemma lex_quoted_loop_shorter: "lex_quoted_loop opn cls v s = Ok (k, r) \<Longrightarrow> length r < length s"
proof (induction opn cls v s rule: lex_quoted_loop.induct)
  case (1 opn cls v s)
  note simps = lex_quoted_loop.simps [of opn cls v s]
  show ?case
  proof (cases "peek s")
    case None
    then show ?thesis using "1.prems" by (simp add: simps del: peek_None)
  next
    case (Some ch)
    have "length (advance s) < length s" "length (advance (advance s)) < length s"
      using Some by (auto intro: peek_advance peek_advance2)
    then show ?thesis
      using Some "1.prems" "1.IH"(1) [OF Some refl] "1.IH"(2) [OF Some refl]
      by (auto simp: simps Let_def split: if_splits)
  qed
qed

lemma skip_to_newline_le: "length (skip_to_newline s) \<le> length s"
proof (induction s rule: skip_to_newline.induct)
  case (1 s)
  then show ?case
    using length_advance_le [of s]
    by (subst skip_to_newline.simps) (auto split: option.splits intro: le_trans)
qed

lemma skip_to_comment_end_le: "skip_to_comment_end s = Ok r \<Longrightarrow> length r \<le> length s"
proof (induction s rule: skip_to_comment_end.induct)
  case (1 s)
  have "length (advance s) \<le> length s" "length (advance (advance s)) \<le> length s"
    using length_advance_le [of s] length_advance_le [of "advance s"] by simp_all
  then show ?case
    using "1.prems" "1.IH" [OF _ refl]
    by (subst (asm) skip_to_comment_end.simps) (auto simp: Let_def split: option.splits if_splits)
qed

lemma skip_line_comment_shorter: "s \<noteq> [] \<Longrightarrow> length (skip_line_comment s) < length s"
  unfolding skip_line_comment_def
  by (rule le_less_trans [OF skip_to_newline_le le_less_trans [OF length_advance_le length_advance]])

lemma skip_block_comment_shorter: "skip_block_comment s = Ok r \<Longrightarrow> s \<noteq> [] \<Longrightarrow> length r < length s"
  unfolding skip_block_comment_def
  by (rule le_less_trans [OF skip_to_comment_end_le le_less_trans [OF length_advance_le length_advance]])

lemma length_dropWhile_less: "s \<noteq> [] \<Longrightarrow> P (hd s) \<Longrightarrow> length (dropWhile P s) < length s"
  by (cases s) (simp_all add: length_dropWhile_le less_Suc_eq_le)


lemma not_number_dot [simp]: "\<not> is_number_char (CHR ''.'')"
  by (simp add: is_number_char_def is_digit_def in_range_def)

lemma char_len_ascii: "(of_char c :: nat) < 0x80 \<Longrightarrow> char_len c = 1"
  by (simp add: char_len_def)

lemma peek_ascii: "peek s = Some [c] \<Longrightarrow> \<exists>r. s = c # r"
  by (cases s) (auto simp: peek_def take_Cons split: nat.splits)

lemma peek_Nil [simp]: "peek [] = None"
  by simp

lemma peek_nonempty: "peek s = Some c \<Longrightarrow> s \<noteq> []"
  by auto

lemma lex_hex_le: "lex_hex s = Ok (k, r) \<Longrightarrow> length r \<le> length s"
  by (auto simp: lex_hex_def Let_def length_dropWhile_le split: if_splits)

lemma lex_fraction_shorter: "lex_fraction b s = Some (t, r) \<Longrightarrow> length r < length s"
  using le_less_trans [OF length_dropWhile_le peek_advance]
  by (auto simp: lex_fraction_def split: if_splits)

lemma lex_exponent_shorter: "lex_exponent s = Some (t, r) \<Longrightarrow> length r < length s"
  using le_less_trans [OF length_dropWhile_le peek_advance [of s]]
    le_less_trans [OF length_dropWhile_le peek_advance2 [of s]]
  by (auto simp: lex_exponent_def Let_def split: if_splits)

lemma lex_number_shorter:
  assumes "lex_number s = Ok (k, r)"
    and "starts_digit s \<or> peek s = Some ''.'' \<and> starts_digit (advance s)"
  shows "length r < length s"
proof (cases "peek s = Some ''0'' \<and> (peek_next s = Some ''x'' \<or> peek_next s = Some ''X'')")
  case True
  then show ?thesis
    using assms(1) le_less_trans [OF lex_hex_le peek_advance2 [of s]] by (auto simp: lex_number_def)
next
  case False
  define r1 where "r1 = dropWhile is_number_char s"
  define fraction where "fraction = lex_fraction (takeWhile is_number_char s \<noteq> []) r1"
  define r2 where "r2 = (case fraction of Some fr \<Rightarrow> snd fr | None \<Rightarrow> r1)"
  have r: "r = (case lex_exponent r2 of Some ex \<Rightarrow> snd ex | None \<Rightarrow> r2)"
    using assms(1) False
    by (auto simp: lex_number_def r1_def [symmetric] fraction_def [symmetric] r2_def Let_def
        split: if_splits option.splits prod.splits)
  then have "length r \<le> length r2"
    using lex_exponent_shorter [of r2] by (auto split: option.splits intro: less_imp_le)
  also have "length r2 < length s"
  proof (cases "starts_digit s")
    case True
    then have "length r1 < length s"
      unfolding r1_def starts_digit_def
      by (intro length_dropWhile_less) (auto simp: is_number_char_def)
    moreover have "length r2 \<le> length r1"
      using lex_fraction_shorter by (force simp: r2_def fraction_def split: option.splits)
    ultimately show ?thesis by simp
  next
    case dot: False
    then have p: "peek s = Some ''.''" "starts_digit (advance s)" using assms(2) by auto
    then obtain rest where "s = CHR ''.'' # rest" using peek_ascii [of s] by auto
    then have "r1 = s" "takeWhile is_number_char s = []"
      by (simp_all add: r1_def)
    then have "fraction \<noteq> None" using p by (simp add: fraction_def lex_fraction_def)
    then show ?thesis
      using lex_fraction_shorter \<open>r1 = s\<close> by (force simp: r2_def fraction_def split: option.splits)
  qed
  finally show ?thesis .
qed

lemma lex_string_shorter: "lex_string s = Ok (k, r) \<Longrightarrow> length r < length s"
  unfolding lex_string_def by (rule less_le_trans [OF lex_string_loop_shorter length_advance_le])

lemma lex_quoted_identifier_shorter: "lex_quoted_identifier opn cls s = Ok (k, r) \<Longrightarrow> length r < length s"
  unfolding lex_quoted_identifier_def by (rule less_le_trans [OF lex_quoted_loop_shorter length_advance_le])

lemma lex_blob_literal_shorter:
  assumes "lex_blob_literal s = Ok (k, r)"
  shows "length r < length s"
proof -
  from assms obtain k' r' where l: "lex_string (advance s) = Ok (k', r')"
    by (auto simp: lex_blob_literal_def rbind_eq_Ok)
  then have "r = r'"
    using assms by (auto simp: lex_blob_literal_def rbind_eq_Ok split: token_kind.splits if_splits)
  then show ?thesis
    using less_le_trans [OF lex_string_shorter [OF l] length_advance_le] by simp
qed

lemma lex_word_shorter:
  "lex_word s = (k, r) \<Longrightarrow> s \<noteq> [] \<Longrightarrow> is_identifier_start (hd s) \<Longrightarrow> length r < length s"
  using length_dropWhile_less [of s is_identifier_continue]
  by (auto simp: lex_word_def is_identifier_start_def is_identifier_continue_def)

lemma lex_token_shorter:
  assumes "lex_token pos s = Ok (k, r)" "s \<noteq> []"
  shows "length r < length s"
proof -

  have r: "length (advance s) < length s" "length (advance (advance s)) < length s"
    "length (advance (advance (advance s))) < length s"
    using length_advance [OF assms(2)] length_advance_le [of "advance s"] length_advance_le [of "advance (advance s)"]
    by simp_all
  have p: "\<And>c. (case peek s of None \<Rightarrow> [] | Some d \<Rightarrow> d) = [c] \<longleftrightarrow> peek s = Some [c]"
    by (simp split: option.split)
  show ?thesis
    using assms
    by (simp add: lex_token_def Let_def p unexpected_character_def r lex_number_shorter lex_string_shorter
        lex_quoted_identifier_shorter lex_blob_literal_shorter lex_word_shorter split: if_split_asm)
       (auto simp: r lex_number_shorter lex_string_shorter lex_quoted_identifier_shorter
          lex_blob_literal_shorter lex_word_shorter)
qed

function lex_loop :: "nat \<Rightarrow> string \<Rightarrow> token list result" where
  "lex_loop len s =
     (case peek s of
        None \<Rightarrow> Ok [\<lparr>tk_kind = T_Eof, tk_position = len\<rparr>]
      | Some ch \<Rightarrow>
          if is_whitespace ch then lex_loop len (advance s)
          else if ch = ''-'' \<and> peek_next s = Some ''-'' then lex_loop len (skip_line_comment s)
          else if ch = ''/'' \<and> peek_next s = Some ''*'' then rbind (skip_block_comment s) (\<lambda>r. lex_loop len r)
          else rbind (lex_token (len - length s) s) (\<lambda>(kind, r).
            rbind (lex_loop len r) (\<lambda>tokens.
              Ok (\<lparr>tk_kind = kind, tk_position = len - length s\<rparr> # tokens))))"
  by pat_completeness auto
termination
proof (relation "measure (\<lambda>(_, s). length s)")
qed (auto simp: peek_advance dest: peek_nonempty
    intro: skip_line_comment_shorter skip_block_comment_shorter lex_token_shorter)

declare lex_loop.simps [simp del]

definition lex :: "string \<Rightarrow> token list result" where
  "lex input = lex_loop (length input) input"

end
