(* ===== verification/Sql_Lexer_Properties.thy ===== *)
theory Sql_Lexer_Properties
  imports Sql_Lexer
begin

text \<open>
  What the lexer promises its parser: the positions of the tokens ascend within the input and \<open>Eof\<close>
  stands behind it, every spelling of a token is lexed back whatever follows it, and which inputs make
  it panic.
\<close>

section \<open>One round of the loop\<close>

text \<open>What is left is part of the input.\<close>

lemma peek_set: "peek s = Some c \<Longrightarrow> set c \<subseteq> set s"
  by (cases s) (auto simp: peek_def dest: in_set_takeD)

lemma advance_set: "set (advance s) \<subseteq> set s"
  by (cases s) (auto simp: advance_def dest: in_set_dropD)

lemma lex_string_loop_set:
  "lex_string_loop v s = Ok (k, r) \<Longrightarrow> set r \<subseteq> set s \<and> (\<exists>w. k = T_String w \<and> set w \<subseteq> insert (CHR 0x27) (set v \<union> set s))"
proof (induction v s rule: lex_string_loop.induct)
  case (1 v s)
  note simps = lex_string_loop.simps [of v s]
  show ?case
  proof (cases "peek s")
    case None
    then show ?thesis using "1.prems" by (simp add: simps del: peek_None)
  next
    case (Some ch)
    have sub: "set ch \<subseteq> set s" "set (advance s) \<subseteq> set s" "set (advance (advance s)) \<subseteq> set s"
      using peek_set [OF Some] advance_set [of s] advance_set [of "advance s"] by auto
    show ?thesis
    proof (cases "ch = [CHR 0x27]")
      case True
      then show ?thesis
        using Some "1.prems" "1.IH"(1) [OF Some refl True] sub by (auto simp: simps Let_def split: if_splits) blast+
    next
      case False
      then show ?thesis
        using Some "1.prems" "1.IH"(2) [OF Some refl False] sub by (auto simp: simps Let_def) blast+
    qed
  qed
qed


lemma lex_quoted_loop_set: "lex_quoted_loop opn cls v s = Ok (k, r) \<Longrightarrow> set r \<subseteq> set s"
proof (induction opn cls v s rule: lex_quoted_loop.induct)
  case (1 opn cls v s)
  note simps = lex_quoted_loop.simps [of opn cls v s]
  show ?case
  proof (cases "peek s")
    case None
    then show ?thesis using "1.prems" by (simp add: simps del: peek_None)
  next
    case (Some ch)
    have "set (advance s) \<subseteq> set s" "set (advance (advance s)) \<subseteq> set s"
      using advance_set [of s] advance_set [of "advance s"] by auto
    then show ?thesis
      using Some "1.prems" "1.IH"(1) [OF Some refl] "1.IH"(2) [OF Some refl]
      by (simp add: simps Let_def split: if_split_asm)
  qed
qed

lemma skip_to_newline_set: "set (skip_to_newline s) \<subseteq> set s"
proof (induction s rule: skip_to_newline.induct)
  case (1 s)
  then show ?case
    using advance_set [of s] by (subst skip_to_newline.simps) (simp split: option.split, blast)
qed

lemma skip_to_comment_end_set: "skip_to_comment_end s = Ok r \<Longrightarrow> set r \<subseteq> set s"
proof (induction s rule: skip_to_comment_end.induct)
  case (1 s)
  have "set (advance s) \<subseteq> set s" "set (advance (advance s)) \<subseteq> set s"
    using advance_set [of s] advance_set [of "advance s"] by auto
  then show ?case
    using "1.prems" "1.IH" [OF _ refl]
    by (subst (asm) skip_to_comment_end.simps) (simp add: Let_def split: option.split_asm if_split_asm; blast)
qed

lemma skip_set:
  "set (skip_line_comment s) \<subseteq> set s" "skip_block_comment s = Ok r \<Longrightarrow> set r \<subseteq> set s"
  unfolding skip_line_comment_def skip_block_comment_def
  using skip_to_newline_set skip_to_comment_end_set advance_set by blast+

lemma lex_hex_set: "lex_hex s = Ok (k, r) \<Longrightarrow> set r \<subseteq> set s"
  by (auto simp: lex_hex_def Let_def dest: set_dropWhileD split: if_splits)

lemma lex_fraction_set: "lex_fraction b s = Some (t, r) \<Longrightarrow> set r \<subseteq> set s"
  using advance_set by (auto simp: lex_fraction_def dest: set_dropWhileD split: if_splits)

lemma lex_exponent_set:
  assumes "lex_exponent s = Some (t, r)"
  shows "set r \<subseteq> set s"
proof -
  have "set r \<subseteq> set (advance s) \<or> set r \<subseteq> set (advance (advance s))"
    using assms by (auto simp: lex_exponent_def Let_def dest: set_dropWhileD split: if_splits)
  then show ?thesis using advance_set [of s] advance_set [of "advance s"] by blast
qed

lemma lex_number_set:
  assumes "lex_number s = Ok (k, r)"
  shows "set r \<subseteq> set s"
proof (cases "peek s = Some ''0'' \<and> (peek_next s = Some ''x'' \<or> peek_next s = Some ''X'')")
  case True
  then have "set r \<subseteq> set (advance (advance s))" using assms lex_hex_set by (simp add: lex_number_def)
  then show ?thesis using advance_set [of s] advance_set [of "advance s"] by blast
next
  case False
  define r1 where "r1 = dropWhile is_number_char s"
  define fraction where "fraction = lex_fraction (takeWhile is_number_char s \<noteq> []) r1"
  define r2 where "r2 = (case fraction of Some fr \<Rightarrow> snd fr | None \<Rightarrow> r1)"
  have r: "r = (case lex_exponent r2 of Some ex \<Rightarrow> snd ex | None \<Rightarrow> r2)"
    using assms False
    by (auto simp: lex_number_def r1_def [symmetric] fraction_def [symmetric] r2_def Let_def
        split: if_splits option.splits prod.splits)
  have "set r \<subseteq> set r2" using lex_exponent_set [of r2] by (auto simp: r split: option.split)
  moreover have "set r2 \<subseteq> set r1"
    using lex_fraction_set [of "takeWhile is_number_char s \<noteq> []" r1]
    by (cases fraction) (auto simp: r2_def fraction_def)
  moreover have "set r1 \<subseteq> set s" by (auto simp: r1_def dest: set_dropWhileD)
  ultimately show ?thesis by blast
qed

lemma lex_string_set: "lex_string s = Ok (k, r) \<Longrightarrow> set r \<subseteq> set s"
  unfolding lex_string_def using lex_string_loop_set advance_set by blast

lemma lex_quoted_identifier_set: "lex_quoted_identifier opn cls s = Ok (k, r) \<Longrightarrow> set r \<subseteq> set s"
  unfolding lex_quoted_identifier_def using lex_quoted_loop_set advance_set by blast

lemma lex_blob_literal_set:
  assumes "lex_blob_literal s = Ok (k, r)"
  shows "set r \<subseteq> set s"
proof -
  from assms obtain k' r' where l: "lex_string (advance s) = Ok (k', r')"
    by (auto simp: lex_blob_literal_def rbind_eq_Ok)
  then have "r = r'"
    using assms by (auto simp: lex_blob_literal_def rbind_eq_Ok split: token_kind.splits if_splits)
  then show ?thesis using lex_string_set [OF l] advance_set [of s] by blast
qed

lemma lex_word_set: "lex_word s = (k, r) \<Longrightarrow> set r \<subseteq> set s"
  by (auto simp: lex_word_def dest: set_dropWhileD)

lemma lex_token_set:
  assumes "lex_token pos s = Ok (k, r)"
  shows "set r \<subseteq> set s"
proof -
  have r: "set (advance s) \<subseteq> set s" "set (advance (advance s)) \<subseteq> set s" "set (advance (advance (advance s))) \<subseteq> set s"
    using advance_set [of s] advance_set [of "advance s"] advance_set [of "advance (advance s)"] by auto
  show ?thesis
    using assms r
    by (simp add: lex_token_def Let_def unexpected_character_def lex_number_set lex_string_set
        lex_quoted_identifier_set lex_blob_literal_set lex_word_set split: if_split_asm)
qed

lemma loops_never_panic:
  "lex_string_loop v s \<noteq> Panic p" "lex_quoted_loop opn cls v s \<noteq> Panic p" "skip_to_comment_end s \<noteq> Panic p"
proof -
  show "lex_string_loop v s \<noteq> Panic p"
    by (induction v s rule: lex_string_loop.induct) (subst lex_string_loop.simps, simp add: Let_def split: option.split)
  show "lex_quoted_loop opn cls v s \<noteq> Panic p"
    by (induction opn cls v s rule: lex_quoted_loop.induct) (subst lex_quoted_loop.simps, auto simp: Let_def split: option.split)
  show "skip_to_comment_end s \<noteq> Panic p"
    by (induction s rule: skip_to_comment_end.induct) (subst skip_to_comment_end.simps, simp add: Let_def split: option.split)
qed

text \<open>What one round of the loop does: it skips to a rest, or it fails, or it adds a token.\<close>

lemma lex_loop_round:
  assumes "s \<noteq> []"
  obtains r where "lex_loop len s = lex_loop len r" "length r < length s" "set r \<subseteq> set s"
  | e where "lex_loop len s = Err e"
  | k r where "lex_token (len - length s) s = Ok (k, r)" "length r < length s" "set r \<subseteq> set s"
      "lex_loop len s = rbind (lex_loop len r) (\<lambda>ts. Ok (\<lparr>tk_kind = k, tk_position = len - length s\<rparr> # ts))"
  | q where "lex_token (len - length s) s = Panic q" "lex_loop len s = Panic q"
proof -
  obtain ch where ch: "peek s = Some ch" using assms by (cases "peek s") auto
  note l = lex_loop.simps [of len s, unfolded ch option.case]
  consider "is_whitespace ch"
    | "\<not> is_whitespace ch" "ch = ''-'' \<and> peek_next s = Some ''-''"
    | "\<not> is_whitespace ch" "\<not> (ch = ''-'' \<and> peek_next s = Some ''-'')" "ch = ''/'' \<and> peek_next s = Some ''*''"
    | "\<not> is_whitespace ch" "\<not> (ch = ''-'' \<and> peek_next s = Some ''-'')" "\<not> (ch = ''/'' \<and> peek_next s = Some ''*'')"
    by blast
  then show thesis
  proof cases
    case 1
    then show thesis using l length_advance [OF assms] advance_set by (intro that(1)) simp_all
  next
    case 2
    then show thesis using l skip_line_comment_shorter [OF assms] skip_set(1) by (intro that(1)) simp_all
  next
    case 3
    then have b: "lex_loop len s = rbind (skip_block_comment s) (\<lambda>r. lex_loop len r)" using l by simp
    show thesis
    proof (cases "skip_block_comment s")
      case (Ok r)
      then show thesis using b skip_block_comment_shorter [OF Ok assms] skip_set(2) [OF Ok] by (intro that(1)) simp_all
    next
      case (Err e)
      then show thesis using b by (intro that(2)) simp
    next
      case (Panic q)
      then show thesis using loops_never_panic(3) by (simp add: skip_block_comment_def)
    qed
  next
    case 4
    then have b: "lex_loop len s = rbind (lex_token (len - length s) s) (\<lambda>(kind, r).
            rbind (lex_loop len r) (\<lambda>tokens. Ok (\<lparr>tk_kind = kind, tk_position = len - length s\<rparr> # tokens)))"
      using l by (simp only: if_False)
    show thesis
    proof (cases "lex_token (len - length s) s")
      case (Ok kr)
      then obtain k r where t: "lex_token (len - length s) s = Ok (k, r)" by (cases kr) auto
      then show thesis using b lex_token_shorter [OF t assms] lex_token_set [OF t] by (intro that(3)) simp_all
    next
      case (Err e)
      then show thesis using b by (intro that(2)) simp
    next
      case (Panic q)
      then show thesis using b by (intro that(4)) simp_all
    qed
  qed
qed

section \<open>Positions\<close>

lemma lex_number_kind: "lex_number s = Ok (k, r) \<Longrightarrow> k \<noteq> T_Eof"
  by (auto simp: lex_number_def lex_hex_def Let_def split: if_splits option.splits prod.splits)

lemma lex_string_loop_kind: "lex_string_loop v s = Ok (k, r) \<Longrightarrow> \<exists>w. k = T_String w"
proof (induction v s rule: lex_string_loop.induct)
  case (1 v s)
  show ?case
    using "1.prems" "1.IH" [OF _ refl]
    by (subst (asm) lex_string_loop.simps) (auto simp: Let_def split: option.splits if_splits)
qed

lemma lex_quoted_loop_kind: "lex_quoted_loop opn cls v s = Ok (k, r) \<Longrightarrow> \<exists>w. k = T_Identifier w"
proof (induction opn cls v s rule: lex_quoted_loop.induct)
  case (1 opn cls v s)
  show ?case
    using "1.prems" "1.IH" [OF _ refl]
    by (subst (asm) lex_quoted_loop.simps) (auto simp: Let_def split: option.splits if_splits)
qed

lemma lex_string_kind: "lex_string s = Ok (k, r) \<Longrightarrow> k \<noteq> T_Eof"
  unfolding lex_string_def by (drule lex_string_loop_kind) auto

lemma lex_quoted_identifier_kind: "lex_quoted_identifier opn cls s = Ok (k, r) \<Longrightarrow> k \<noteq> T_Eof"
  unfolding lex_quoted_identifier_def by (drule lex_quoted_loop_kind) auto

lemma lex_blob_literal_kind:
  assumes "lex_blob_literal s = Ok (k, r)"
  shows "k \<noteq> T_Eof"
proof -
  from assms obtain k' r' where l: "lex_string (advance s) = Ok (k', r')"
    by (auto simp: lex_blob_literal_def rbind_eq_Ok)
  then obtain w where "k' = T_String w"
    unfolding lex_string_def using lex_string_loop_kind by blast
  with assms l show ?thesis
    by (auto simp: lex_blob_literal_def rbind_eq_Ok split: if_splits)
qed

lemma lex_word_kind: "lex_word s = (k, r) \<Longrightarrow> k \<noteq> T_Eof"
  by (auto simp: lex_word_def word_kind_def split: if_splits)

lemmas lexed_kinds = lex_number_kind lex_string_kind lex_quoted_identifier_kind lex_blob_literal_kind lex_word_kind

lemma lex_token_kind: "lex_token pos s = Ok (k, r) \<Longrightarrow> k \<noteq> T_Eof"
  by (simp add: lex_token_def Let_def unexpected_character_def split: if_split_asm)
     (auto simp: lexed_kinds)

definition located :: "nat \<Rightarrow> nat \<Rightarrow> token list \<Rightarrow> bool" where
  "located lo len ts \<longleftrightarrow>
     (\<exists>toks. ts = toks @ [\<lparr>tk_kind = T_Eof, tk_position = len\<rparr>] \<and>
        (\<forall>t \<in> set toks. tk_kind t \<noteq> T_Eof \<and> lo \<le> tk_position t \<and> tk_position t < len) \<and>
        sorted_wrt (<) (map tk_position toks))"

lemma located_Cons:
  assumes "located (Suc pos) len ts" "k \<noteq> T_Eof" "pos < len"
  shows "located pos len (\<lparr>tk_kind = k, tk_position = pos\<rparr> # ts)"
proof -
  from assms(1) obtain toks where t: "ts = toks @ [\<lparr>tk_kind = T_Eof, tk_position = len\<rparr>]"
    "\<forall>t \<in> set toks. tk_kind t \<noteq> T_Eof \<and> Suc pos \<le> tk_position t \<and> tk_position t < len"
    "sorted_wrt (<) (map tk_position toks)"
    by (auto simp: located_def)
  show ?thesis
    unfolding located_def
    using t assms(2,3) by (intro exI [of _ "\<lparr>tk_kind = k, tk_position = pos\<rparr> # toks"]) auto
qed

lemma located_mono: "located lo len ts \<Longrightarrow> lo' \<le> lo \<Longrightarrow> located lo' len ts"
  by (force simp: located_def)

lemma lex_loop_located:
  "lex_loop len s = Ok ts \<Longrightarrow> length s \<le> len \<Longrightarrow> located (len - length s) len ts"
proof (induction "length s" arbitrary: s ts rule: less_induct)
  case less
  show ?case
  proof (cases "s = []")
    case True
    then show ?thesis using less.prems by (subst (asm) lex_loop.simps) (auto simp: located_def)
  next
    case False
    then show ?thesis
    proof (cases rule: lex_loop_round [where len = len])
      case (1 r)
      then have "located (len - length r) len ts" using less.hyps less.prems by simp
      then show ?thesis using 1(2) by (auto elim: located_mono)
    next
      case (3 k r)
      obtain ts' where t: "lex_loop len r = Ok ts'" "ts = \<lparr>tk_kind = k, tk_position = len - length s\<rparr> # ts'"
        using less.prems(1) [unfolded 3(4)] by (auto simp: rbind_eq_Ok)
      then have "located (len - length r) len ts'" using 3(2) less.hyps less.prems by simp
      then show ?thesis
        unfolding t(2) using lex_token_kind [OF 3(1)] 3(2) less.prems(2)
        by (intro located_Cons) (auto elim!: located_mono)
    qed (use less.prems in simp_all)
  qed
qed

text \<open>
  Property C37: the tokens of an input end with \<open>Eof\<close> at the length of the input, no other token is
  \<open>Eof\<close>, and the positions strictly ascend and lie within the input.
\<close>

theorem lex_positions_ascend:
  assumes "lex input = Ok ts"
  shows "\<exists>toks. ts = toks @ [\<lparr>tk_kind = T_Eof, tk_position = length input\<rparr>] \<and>
    (\<forall>t \<in> set toks. tk_kind t \<noteq> T_Eof \<and> tk_position t < length input) \<and>
    sorted_wrt (<) (map tk_position toks)"
  using lex_loop_located [OF assms [unfolded lex_def]] by (auto simp: located_def)

section \<open>Spellings\<close>

text \<open>A character of a Rust string: its first byte gives its length and the others are not ASCII.\<close>

definition is_char :: "string \<Rightarrow> bool" where
  "is_char c \<longleftrightarrow> c \<noteq> [] \<and> length c = char_len (hd c) \<and> (\<forall>b \<in> set (tl c). 0x80 \<le> (of_char b :: nat))"

lemma is_char_not_Nil [simp]: "\<not> is_char []"
  by (simp add: is_char_def)

lemma is_char_ascii: "is_char c \<Longrightarrow> q \<in> set c \<Longrightarrow> (of_char q :: nat) < 0x80 \<Longrightarrow> c = [q]"
  by (cases c) (auto simp: is_char_def char_len_def)

lemma peek_is_char: "is_char c \<Longrightarrow> peek (c @ r) = Some c"
  by (cases c) (auto simp: is_char_def peek_def dest!: sym [where t = "char_len _"])

lemma advance_is_char: "is_char c \<Longrightarrow> advance (c @ r) = r"
  by (cases c) (auto simp: is_char_def advance_def dest!: sym [where t = "char_len _"])

lemma of_char_byte: "(of_char c :: nat) = unat (byte_of_char c)"
  by (simp add: byte_of_char_def unat_of_nat)


lemma char_len_byte:
  "char_len c = (let b = byte_of_char c in if b < 0x80 then 1 else if b < 0xE0 then 2 else if b < 0xF0 then 3 else 4)"
  by (simp add: char_len_def of_char_byte word_less_nat_alt Let_def)

lemma utf8_cont_of_char: "utf8_cont (byte_of_char c) \<Longrightarrow> 0x80 \<le> (of_char c :: nat)"
  by (simp add: utf8_cont_def of_char_byte word_le_nat_alt)

lemma rust_string_Nil [simp]: "rust_string []"
  by (simp add: rust_string_def as_bytes_def)

lemma utf8_valid_two:
  assumes "utf8_valid (b0 # r0)" "0x80 \<le> b0" "b0 < 0xE0"
  shows "\<exists>b1 r1. r0 = b1 # r1 \<and> utf8_cont b1 \<and> utf8_valid r1"
proof -
  have "\<not> b0 < 0x80" "b0 \<noteq> 0xE0" "b0 \<noteq> 0xED" "\<not> 0xE1 \<le> b0" "b0 \<noteq> 0xF0" "b0 \<noteq> 0xF4" "\<not> 0xF1 \<le> b0"
    using assms(2,3) by (auto simp: word_less_nat_alt word_le_nat_alt)
  then show ?thesis using assms(1) [unfolded utf8_valid.simps(2) [of b0 r0]]
    by (simp del: utf8_valid.simps split: list.split_asm if_split_asm)
qed

lemma utf8_valid_three:
  assumes "utf8_valid (b0 # r0)" "0xE0 \<le> b0" "b0 < 0xF0"
  shows "\<exists>b1 b2 r2. r0 = b1 # b2 # r2 \<and> utf8_cont b1 \<and> utf8_cont b2 \<and> utf8_valid r2"
proof -
  have "\<not> b0 < 0x80" "\<not> b0 \<le> 0xDF" "b0 \<noteq> 0xF0" "b0 \<noteq> 0xF4" "\<not> 0xF1 \<le> b0"
    using assms(2,3) by (auto simp: word_less_nat_alt word_le_nat_alt)
  moreover have "utf8_cont b" if "0xA0 \<le> b \<and> b \<le> 0xBF \<or> 0x80 \<le> b \<and> b \<le> 0x9F" for b
    using that by (auto simp: utf8_cont_def word_le_nat_alt)
  ultimately show ?thesis using assms(1) [unfolded utf8_valid.simps(2) [of b0 r0]]
    by (simp del: utf8_valid.simps split: list.split_asm if_split_asm)
qed

lemma utf8_valid_four:
  assumes "utf8_valid (b0 # r0)" "0xF0 \<le> b0"
  shows "\<exists>b1 b2 b3 r3. r0 = b1 # b2 # b3 # r3 \<and> utf8_cont b1 \<and> utf8_cont b2 \<and> utf8_cont b3 \<and> utf8_valid r3"
proof -
  have "\<not> b0 < 0x80" "\<not> b0 \<le> 0xDF" "b0 \<noteq> 0xE0" "b0 \<noteq> 0xED" "\<not> b0 \<le> 0xEF"
    using assms(2) by (auto simp: word_less_nat_alt word_le_nat_alt)
  moreover have "utf8_cont b" if "0x90 \<le> b \<and> b \<le> 0xBF \<or> 0x80 \<le> b \<and> b \<le> 0x8F" for b
    using that by (auto simp: utf8_cont_def word_le_nat_alt)
  ultimately show ?thesis using assms(1) [unfolded utf8_valid.simps(2) [of b0 r0]]
    by (simp del: utf8_valid.simps split: list.split_asm if_split_asm)
qed

lemma rust_string_cases:
  assumes "rust_string s" "s \<noteq> []"
  obtains c r where "s = c @ r" "is_char c" "rust_string r"
proof -
  obtain a s1 where s: "s = a # s1" using assms(2) by (cases s) auto
  let ?b = byte_of_char
  have v: "utf8_valid (?b a # map ?b s1)" using assms(1) by (simp add: rust_string_def s as_bytes_def)
  consider (one) "?b a < 0x80" | (two) "0x80 \<le> ?b a" "?b a < 0xE0" | (three) "0xE0 \<le> ?b a" "?b a < 0xF0" | (four) "0xF0 \<le> ?b a"
    by (meson linorder_not_le)
  then show thesis
  proof cases
    case one
    then show thesis
      using v s by (intro that [of "[a]" s1]) (auto simp: is_char_def char_len_byte Let_def word_less_nat_alt word_le_nat_alt rust_string_def as_bytes_def)
  next
    case two
    then obtain b r where "s1 = b # r" "utf8_cont (?b b)" "utf8_valid (map ?b r)"
      using utf8_valid_two [OF v] by (auto simp: map_eq_Cons_conv)
    then show thesis
      using two s by (intro that [of "[a, b]" r])
        (auto simp: is_char_def char_len_byte Let_def word_less_nat_alt word_le_nat_alt rust_string_def as_bytes_def utf8_cont_of_char)
  next
    case three
    then obtain b c r where "s1 = b # c # r" "utf8_cont (?b b)" "utf8_cont (?b c)" "utf8_valid (map ?b r)"
      using utf8_valid_three [OF v] by (auto simp: map_eq_Cons_conv)
    then show thesis
      using three s by (intro that [of "[a, b, c]" r])
        (auto simp: is_char_def char_len_byte Let_def word_less_nat_alt word_le_nat_alt rust_string_def as_bytes_def utf8_cont_of_char)
  next
    case four
    then obtain b c d r where "s1 = b # c # d # r" "utf8_cont (?b b)" "utf8_cont (?b c)" "utf8_cont (?b d)"
        "utf8_valid (map ?b r)"
      using utf8_valid_four [OF v] by (auto simp: map_eq_Cons_conv)
    then show thesis
      using four s by (intro that [of "[a, b, c, d]" r])
        (auto simp: is_char_def char_len_byte Let_def word_less_nat_alt word_le_nat_alt rust_string_def as_bytes_def utf8_cont_of_char)
  qed
qed

lemma rust_string_induct [consumes 1, case_names Nil char]:
  assumes "rust_string s" "P []" "\<And>c r. is_char c \<Longrightarrow> rust_string r \<Longrightarrow> P r \<Longrightarrow> P (c @ r)"
  shows "P s"
  using assms(1)
proof (induction "length s" arbitrary: s rule: less_induct)
  case less
  show ?case
  proof (cases "s = []")
    case True
    then show ?thesis using assms(2) by simp
  next
    case False
    obtain c r where cr: "s = c @ r" "is_char c" "rust_string r"
      by (rule rust_string_cases [OF less.prems False])
    then have "length r < length s" by (cases c) auto
    then show ?thesis unfolding cr(1) using cr less.hyps by (intro assms(3)) auto
  qed
qed

text \<open>A quotation mark inside a quoted text is written twice.\<close>

definition escape_quotes :: "char \<Rightarrow> string \<Rightarrow> string" where
  "escape_quotes q v = concat (map (\<lambda>c. if c = q then [q, q] else [c]) v)"

lemma escape_quotes_append: "escape_quotes q (a @ b) = escape_quotes q a @ escape_quotes q b"
  by (simp add: escape_quotes_def)

lemma escape_quotes_Cons: "escape_quotes q (c # v) = (if c = q then [q, q] else [c]) @ escape_quotes q v"
  by (simp add: escape_quotes_def)

lemma escape_quotes_id: "q \<notin> set v \<Longrightarrow> escape_quotes q v = v"
  by (induction v) (auto simp: escape_quotes_def)

lemma escape_quotes_char:
  assumes "is_char c" "(of_char q :: nat) < 0x80"
  shows "escape_quotes q c = (if c = [q] then [q, q] else c)"
proof (cases "q \<in> set c")
  case True
  then have "c = [q]" using is_char_ascii [OF assms(1) _ assms(2)] by simp
  then show ?thesis by (simp add: escape_quotes_def)
next
  case False
  then show ?thesis using escape_quotes_id by auto
qed

lemma is_char_single: "(of_char q :: nat) < 0x80 \<Longrightarrow> is_char [q]"
  by (simp add: is_char_def char_len_def)

lemma peek_single [simp]: "(of_char q :: nat) < 0x80 \<Longrightarrow> peek (q # r) = Some [q]"
  using peek_is_char [OF is_char_single, of q r] by simp

lemma advance_single [simp]: "(of_char q :: nat) < 0x80 \<Longrightarrow> advance (q # r) = r"
  using advance_is_char [OF is_char_single, of q r] by simp

lemma lex_string_loop_escaped:
  assumes "rust_string v" "peek r \<noteq> Some [CHR 0x27]"
  shows "lex_string_loop w (escape_quotes (CHR 0x27) v @ CHR 0x27 # r) = Ok (T_String (w @ v), r)"
  using assms(1)
proof (induction v arbitrary: w rule: rust_string_induct)
  case Nil
  then show ?case using assms(2) by (subst lex_string_loop.simps) (simp add: escape_quotes_def)
next
  case (char c v)
  then show ?case
    by (subst lex_string_loop.simps)
       (simp add: escape_quotes_append escape_quotes_Cons escape_quotes_char peek_is_char advance_is_char Let_def)
qed

lemma lex_quoted_loop_escaped:
  assumes "rust_string v" "peek r \<noteq> Some [CHR 0x22]"
  shows "lex_quoted_loop [CHR 0x22] [CHR 0x22] w (escape_quotes (CHR 0x22) v @ CHR 0x22 # r) = Ok (T_Identifier (w @ v), r)"
  using assms(1)
proof (induction v arbitrary: w rule: rust_string_induct)
  case Nil
  then show ?case using assms(2) by (subst lex_quoted_loop.simps) (simp add: escape_quotes_def)
next
  case (char c v)
  then show ?case
    by (subst lex_quoted_loop.simps)
       (simp add: escape_quotes_append escape_quotes_Cons escape_quotes_char peek_is_char advance_is_char Let_def)
qed

section \<open>Words, numbers and blobs\<close>

definition symbols :: "(token_kind \<times> string) list" where
  "symbols =
     [(T_Star, ''*''), (T_Comma, '',''), (T_Semicolon, '';''), (T_LParen, ''(''), (T_RParen, '')''),
      (T_Eq, ''=''), (T_Eq, ''==''), (T_Ne, ''!=''), (T_Ne, ''<>''), (T_Gt, ''>''), (T_Gte, ''>=''),
      (T_Lt, ''<''), (T_Lte, ''<=''), (T_Plus, ''+''), (T_Minus, ''-''), (T_Slash, ''/''), (T_Percent, ''%''),
      (T_Ampersand, ''&''), (T_Pipe, ''|''), (T_ShiftLeft, ''<<''), (T_ShiftRight, ''>>''), (T_Tilde, ''~''),
      (T_PipePipe, ''||''), (T_Arrow, ''->''), (T_ArrowText, ''->>''), (T_Dot, ''.'')]"

definition hex_digit :: "nat \<Rightarrow> char" where
  "hex_digit n = (if n < 10 then char_of (48 + n) else char_of (87 + n))"

definition hex_pair :: "byte \<Rightarrow> string" where
  "hex_pair b = [hex_digit (unat b div 16), hex_digit (unat b mod 16)]"

definition bare_word :: "string \<Rightarrow> bool" where
  "bare_word w \<longleftrightarrow> w \<noteq> [] \<and> is_identifier_start (hd w) \<and> list_all is_identifier_continue w"

text \<open>
  \<open>spells k t\<close>: the text \<open>t\<close> is a spelling of the token \<open>k\<close>. Reserved words are spelled in any case,
  identifiers bare or between double quotes, numbers in decimal, blobs in hexadecimal.
\<close>

fun spells :: "token_kind \<Rightarrow> string \<Rightarrow> bool" where
  "spells (T_Keyword k) t \<longleftrightarrow> bare_word t \<and> to_ascii_uppercase t = k \<and> k \<in> set keyword_table"
| "spells (T_Identifier v) t \<longleftrightarrow>
     rust_string v \<and> t = CHR 0x22 # escape_quotes (CHR 0x22) v @ [CHR 0x22] \<or>
     t = v \<and> bare_word v \<and> to_ascii_uppercase v \<notin> set keyword_table"
| "spells (T_Integer n) t \<longleftrightarrow> unat n < 2 ^ 63 \<and> t = show_nat (unat n)"
| "spells (T_Real _) t \<longleftrightarrow> False"
| "spells (T_String v) t \<longleftrightarrow> rust_string v \<and> t = CHR 0x27 # escape_quotes (CHR 0x27) v @ [CHR 0x27]"
| "spells (T_BlobLiteral bs) t \<longleftrightarrow> t = ''x'' @ CHR 0x27 # concat (map hex_pair bs) @ [CHR 0x27]"
| "spells k t \<longleftrightarrow> (k, t) \<in> set symbols"

lemma lex_symbol:
  "(k, t) \<in> set symbols \<Longrightarrow> lex_token pos (t @ CHR '' '' # r) = Ok (k, CHR '' '' # r)"
  unfolding symbols_def
  by (simp only: set_simps insert_iff empty_iff prod.inject)
     (elim disjE conjE FalseE; simp add: lex_token_def peek_next_def starts_digit_def is_digit_def in_range_def)

lemma not_whitespace:
  "33 \<le> (of_char c :: nat) \<Longrightarrow> \<not> is_whitespace [c]"
  by (auto simp: is_whitespace_def utf8_def)

lemma of_char_CHR_neq: "(of_char c :: nat) \<noteq> of_char d \<Longrightarrow> c \<noteq> d"
  by auto

lemma identifier_start_range:
  "is_identifier_start c \<Longrightarrow>
     65 \<le> (of_char c :: nat) \<and> (of_char c :: nat) \<le> 90 \<or> (of_char c :: nat) = 95 \<or> 97 \<le> (of_char c :: nat) \<and> (of_char c :: nat) \<le> 122"
  by (auto simp: is_identifier_start_def is_ascii_alphabetic_def in_range_def)

lemma lex_token_identifier_start:
  assumes "is_identifier_start c"
  shows "lex_token pos (c # s) =
    (if (c = CHR ''x'' \<or> c = CHR ''X'') \<and> peek s = Some [CHR 0x27] then lex_blob_literal (c # s)
     else Ok (lex_word (c # s)))"
proof -
  note r = identifier_start_range [OF assms]
  have "(of_char c :: nat) < 0x80" using r by auto
  moreover have "c \<notin> set ''().*+%&~;=!><-/|,['' \<union> {CHR 0x27, CHR 0x22, CHR 0x60}"
    using r by auto
  moreover have "\<not> is_digit c" using r by (auto simp: is_digit_def in_range_def)
  ultimately show ?thesis
    using assms by (simp add: lex_token_def peek_next_def starts_digit_def)
qed

lemma lex_word_bare:
  assumes "bare_word w"
  shows "lex_word (w @ CHR '' '' # r) = (word_kind w, CHR '' '' # r)"
proof -
  have "\<not> is_identifier_continue (CHR '' '')"
    by (simp add: is_identifier_continue_def is_ascii_alphabetic_def is_digit_def in_range_def)
  moreover have "\<forall>c \<in> set w. is_identifier_continue c" using assms by (simp add: bare_word_def list_all_iff)
  ultimately show ?thesis
    by (simp add: lex_word_def takeWhile_append2 dropWhile_append2)
qed

lemma lex_bare_word:
  assumes "bare_word w"
  shows "lex_token pos (w @ CHR '' '' # r) = Ok (word_kind w, CHR '' '' # r)"
proof -
  obtain c w' where w: "w = c # w'" "is_identifier_start c" using assms by (cases w) (auto simp: bare_word_def)
  have "peek (w' @ CHR '' '' # r) \<noteq> Some [CHR 0x27]"
  proof
    assume "peek (w' @ CHR '' '' # r) = Some [CHR 0x27]"
    from peek_ascii [OF this] have "CHR 0x27 \<in> set w'" by (cases w') auto
    then show False
      using assms w(1)
      by (auto simp: bare_word_def list_all_iff is_identifier_continue_def is_ascii_alphabetic_def is_digit_def in_range_def)
  qed
  then show ?thesis
    using lex_token_identifier_start [OF w(2)] lex_word_bare [OF assms] w(1) by simp
qed

lemma of_char_digit: "n < 10 \<Longrightarrow> (of_char (char_of (48 + n) :: char) :: nat) = 48 + n"
  by simp

lemma is_digit_char: "n < 10 \<Longrightarrow> is_digit (char_of (48 + n)) \<and> digit_value (char_of (48 + n)) = n"
  by (simp add: is_digit_def in_range_def digit_value_def)

lemma show_nat_digits: "c \<in> set (show_nat n) \<Longrightarrow> is_digit c"
proof (induction n rule: show_nat.induct)
  case (1 n)
  then show ?case
    using is_digit_char [of n] is_digit_char [of "n mod 10"]
    by (subst (asm) show_nat.simps) (auto split: if_splits)
qed

lemma show_nat_not_Nil [simp]: "show_nat n \<noteq> []"
  by (subst show_nat.simps) simp

lemma number_of_append: "number_of b (xs @ [c]) = b * number_of b xs + digit_value c"
  by (simp add: number_of_def)

lemma number_of_show_nat: "number_of 10 (show_nat n) = n"
proof (induction n rule: show_nat.induct)
  case (1 n)
  show ?case
  proof (cases "n < 10")
    case True
    then show ?thesis using is_digit_char [of n] by (subst show_nat.simps) (simp add: number_of_def)
  next
    case False
    then show ?thesis
      using 1 is_digit_char [of "n mod 10"] by (subst show_nat.simps) (simp add: number_of_append)
  qed
qed

lemma digit_range: "is_digit c \<Longrightarrow> 48 \<le> (of_char c :: nat) \<and> (of_char c :: nat) \<le> 57"
  by (simp add: is_digit_def in_range_def)

lemma lex_token_digit:
  assumes "is_digit c"
  shows "lex_token pos (c # s) = lex_number (c # s)"
proof -
  note r = digit_range [OF assms]
  have "(of_char c :: nat) < 0x80" using r by auto
  moreover have "c \<notin> set ''().*+%&~;=!><-/|,['' \<union> {CHR 0x27, CHR 0x22, CHR 0x60}"
    using r by auto
  ultimately show ?thesis
    using assms by (simp add: lex_token_def peek_next_def starts_digit_def)
qed

lemma lex_number_decimal:
  assumes "ds \<noteq> []" "\<forall>c \<in> set ds. is_digit c" "number_of 10 ds < 2 ^ 63"
  shows "lex_number (ds @ CHR '' '' # r) = Ok (T_Integer (word_of_nat (number_of 10 ds)), CHR '' '' # r)"
proof -
  have sp: "\<not> is_number_char (CHR '' '')" by (simp add: is_number_char_def is_digit_def in_range_def)
  have nc: "\<forall>c \<in> set ds. is_number_char c" using assms(2) by (simp add: is_number_char_def)
  have nu: "\<forall>c \<in> set ds. c \<noteq> CHR ''_''" using assms(2) digit_range by fastforce
  obtain c cs where ds: "ds = c # cs" using assms(1) by (cases ds) auto
  have c: "(of_char c :: nat) < 0x80" using digit_range [of c] assms(2) ds by auto
  have "peek_next (ds @ CHR '' '' # r) \<noteq> Some [x]" if "x = CHR ''x'' \<or> x = CHR ''X''" for x
  proof
    assume "peek_next (ds @ CHR '' '' # r) = Some [x]"
    then have "peek (cs @ CHR '' '' # r) = Some [x]" using c by (simp add: peek_next_def ds)
    from peek_ascii [OF this] have "x \<in> set cs \<or> x = CHR '' ''" by (cases cs) auto
    then show False using that assms(2) ds by (auto simp: is_digit_def in_range_def)
  qed
  moreover have "takeWhile is_number_char (ds @ CHR '' '' # r) = ds"
    "dropWhile is_number_char (ds @ CHR '' '' # r) = CHR '' '' # r"
    using nc sp by (simp_all add: takeWhile_append2 dropWhile_append2)
  moreover have "strip_underscores ds = ds" using nu by (simp add: strip_underscores_def)
  ultimately show ?thesis
    using assms(3) by (simp add: lex_number_def lex_fraction_def lex_exponent_def)
qed

lemma lex_integer:
  assumes "unat (n :: i64) < 2 ^ 63"
  shows "lex_token pos (show_nat (unat n) @ CHR '' '' # r) = Ok (T_Integer n, CHR '' '' # r)"
proof -
  obtain c cs where s: "show_nat (unat n) = c # cs" using show_nat_not_Nil by (cases "show_nat (unat n)") auto
  then have "is_digit c" using show_nat_digits [of c "unat n"] by simp
  then have "lex_token pos (show_nat (unat n) @ CHR '' '' # r) = lex_number (show_nat (unat n) @ CHR '' '' # r)"
    using lex_token_digit s by simp
  also have "\<dots> = Ok (T_Integer n, CHR '' '' # r)"
    using assms by (subst lex_number_decimal) (auto simp: number_of_show_nat intro: show_nat_digits)
  finally show ?thesis .
qed

lemma hex_digit_value: "n < 16 \<Longrightarrow> is_hex_digit (hex_digit n) \<and> digit_value (hex_digit n) = n"
  by (auto simp: hex_digit_def is_hex_digit_def is_digit_def in_range_def digit_value_def)

lemma hex_digit_ascii: "n < 16 \<Longrightarrow> 48 \<le> (of_char (hex_digit n) :: nat) \<and> (of_char (hex_digit n) :: nat) < 0x80"
  by (auto simp: hex_digit_def)

lemma rust_string_ascii: "\<forall>c \<in> set s. (of_char c :: nat) < 0x80 \<Longrightarrow> rust_string s"
  by (induction s) (simp_all add: rust_string_def as_bytes_def of_char_byte word_less_nat_alt)

lemma byte_high_nibble: "unat (b :: byte) div 16 < 16"
proof -
  have "unat b < 2 ^ LENGTH(8)" by (rule unsigned_less)
  then have "unat b < 16 * 16" by simp
  then show ?thesis by (rule less_mult_imp_div_less)
qed

lemma hex_pairs_ascii:
  "c \<in> set (concat (map hex_pair bs)) \<Longrightarrow> 48 \<le> (of_char c :: nat) \<and> (of_char c :: nat) < 0x80"
proof (induction bs)
  case (Cons b bs)
  then show ?case
    using hex_digit_ascii [OF byte_high_nibble, of b] hex_digit_ascii [of "unat b mod 16"] by (auto simp: hex_pair_def)
qed simp

lemma char_boundary_ascii:
  "\<forall>c \<in> set s. (of_char c :: nat) < 0x80 \<Longrightarrow> is_char_boundary s"
  by (cases s) (auto simp: is_char_boundary_def)

lemma u8_from_hex_pair: "u8_from_hex (hex_digit (unat b div 16)) (hex_digit (unat b mod 16)) = Some b"
proof -
  note n = byte_high_nibble [of b]
  have "hex_digit (unat b div 16) \<noteq> CHR ''+''"
    using hex_digit_ascii [OF n] by auto
  then show ?thesis
    using hex_digit_value [OF n] hex_digit_value [of "unat b mod 16"] by (simp add: u8_from_hex_def)
qed

lemma hex_bytes_pairs: "hex_bytes (concat (map hex_pair bs)) = Ok bs"
proof (induction bs)
  case (Cons b bs)
  have "is_char_boundary (concat (map hex_pair bs))"
    using hex_pairs_ascii [of _ bs] by (intro char_boundary_ascii) blast
  then show ?case using Cons by (simp add: hex_pair_def [of b] u8_from_hex_pair)
qed simp

lemma length_hex_pairs: "length (concat (map hex_pair bs)) = 2 * length bs"
  by (induction bs) (simp_all add: hex_pair_def)

lemma lex_blob:
  "lex_token pos (CHR ''x'' # CHR 0x27 # concat (map hex_pair bs) @ CHR 0x27 # CHR '' '' # r) =
     Ok (T_BlobLiteral bs, CHR '' '' # r)"
proof -
  let ?h = "concat (map hex_pair bs)"
  have "CHR 0x27 \<notin> set ?h" using hex_pairs_ascii [of "CHR 0x27" bs] by auto
  then have e: "escape_quotes (CHR 0x27) ?h = ?h" by (rule escape_quotes_id)
  have "rust_string ?h" using hex_pairs_ascii [of _ bs] by (intro rust_string_ascii) blast
  from lex_string_loop_escaped [OF this, of "CHR '' '' # r" "[]"]
  have "lex_string_loop [] (?h @ CHR 0x27 # CHR '' '' # r) = Ok (T_String ?h, CHR '' '' # r)"
    unfolding e by simp
  then have "lex_blob_literal (CHR ''x'' # CHR 0x27 # ?h @ CHR 0x27 # CHR '' '' # r) = Ok (T_BlobLiteral bs, CHR '' '' # r)"
    by (simp add: lex_blob_literal_def lex_string_def length_hex_pairs hex_bytes_pairs)
  then show ?thesis
    by (subst lex_token_identifier_start)
       (simp_all add: is_identifier_start_def is_ascii_alphabetic_def in_range_def)
qed

lemma lex_string_token:
  "rust_string v \<Longrightarrow>
     lex_token pos (CHR 0x27 # escape_quotes (CHR 0x27) v @ CHR 0x27 # CHR '' '' # r) = Ok (T_String v, CHR '' '' # r)"
  using lex_string_loop_escaped [of v "CHR '' '' # r" "[]"]
  by (simp add: lex_token_def lex_string_def peek_next_def starts_digit_def is_digit_def in_range_def)

lemma lex_quoted_token:
  "rust_string v \<Longrightarrow>
     lex_token pos (CHR 0x22 # escape_quotes (CHR 0x22) v @ CHR 0x22 # CHR '' '' # r) = Ok (T_Identifier v, CHR '' '' # r)"
  using lex_quoted_loop_escaped [of v "CHR '' '' # r" "[]"]
  by (simp add: lex_token_def lex_quoted_identifier_def peek_next_def starts_digit_def is_digit_def in_range_def)

lemma lex_spelling:
  assumes "spells k t"
  shows "lex_token pos (t @ CHR '' '' # r) = Ok (k, CHR '' '' # r)"
proof (cases k)
  case (T_Keyword w)
  then show ?thesis using assms lex_bare_word [of t] by (simp add: word_kind_def)
next
  case (T_Identifier v)
  then show ?thesis
    using assms lex_bare_word [of t] lex_quoted_token by (auto simp: word_kind_def)
qed (use assms lex_integer lex_string_token lex_blob lex_symbol in auto)

text \<open>A spelling starts with a visible character and with no comment.\<close>

lemma spelling_start:
  assumes "spells k t"
  shows "\<exists>c t'. t = c # t' \<and> 33 \<le> (of_char c :: nat) \<and> (of_char c :: nat) < 0x80 \<and>
    (c = CHR ''-'' \<or> c = CHR ''/'' \<longrightarrow> t' = [] \<or> hd t' = CHR ''>'')"
proof -
  have bare: "\<exists>c t'. t = c # t' \<and> 48 \<le> (of_char c :: nat) \<and> (of_char c :: nat) < 0x80" if "bare_word t"
    using that identifier_start_range by (cases t) (fastforce simp: bare_word_def)+
  have digits: "\<exists>c t'. t = c # t' \<and> 48 \<le> (of_char c :: nat) \<and> (of_char c :: nat) < 0x80" if "t = show_nat n" for n
  proof -
    have "t \<noteq> []" using that by simp
    moreover from this have "is_digit (hd t)" using that hd_in_set [of t] show_nat_digits [of "hd t" n] by simp
    ultimately show ?thesis using digit_range [of "hd t"] by (cases t) auto
  qed
  have sym: ?thesis if "(k, t) \<in> set symbols"
    using that unfolding symbols_def
    by (simp only: set_simps insert_iff empty_iff prod.inject) (elim disjE conjE FalseE; simp)
  have graphic: ?thesis if "\<exists>c t'. t = c # t' \<and> 48 \<le> (of_char c :: nat) \<and> (of_char c :: nat) < 0x80"
    using that by auto
  show ?thesis
  proof (cases k)
    case (T_Keyword w)
    then show ?thesis using assms by (intro graphic bare) simp
  next
    case (T_Identifier v)
    then consider "t = CHR 0x22 # escape_quotes (CHR 0x22) v @ [CHR 0x22]" | "bare_word t" using assms by auto
    then show ?thesis
    proof cases
      case 1
      then show ?thesis by simp
    next
      case 2
      then show ?thesis by (rule graphic [OF bare])
    qed
  next
    case (T_Integer n)
    then show ?thesis using assms by (intro graphic digits) simp
  qed (use assms sym in auto)
qed

section \<open>Lexing a printed sequence\<close>

text \<open>The tokens of spellings printed one after the other, each followed by a blank.\<close>

definition print_tokens :: "string list \<Rightarrow> string" where
  "print_tokens ts = concat (map (\<lambda>t. t @ '' '') ts)"

fun tokens_at :: "nat \<Rightarrow> token_kind list \<Rightarrow> string list \<Rightarrow> token list" where
  "tokens_at pos (k # ks) (t # ts) = \<lparr>tk_kind = k, tk_position = pos\<rparr> # tokens_at (pos + length t + 1) ks ts"
| "tokens_at pos _ _ = [\<lparr>tk_kind = T_Eof, tk_position = pos\<rparr>]"

lemma is_whitespace_blank: "is_whitespace '' ''"
  by code_simp

lemma lex_loop_blank: "lex_loop len (CHR '' '' # r) = lex_loop len r"
  by (subst lex_loop.simps) (simp add: is_whitespace_blank)

lemma lex_loop_spelling:
  assumes "spells k t"
  shows "lex_loop len (t @ CHR '' '' # r) =
    rbind (lex_loop len r) (\<lambda>ts. Ok (\<lparr>tk_kind = k, tk_position = len - length (t @ CHR '' '' # r)\<rparr> # ts))"
proof -
  from spelling_start [OF assms] obtain c t' where t: "t = c # t'" "33 \<le> (of_char c :: nat)" "(of_char c :: nat) < 0x80"
    "c = CHR ''-'' \<or> c = CHR ''/'' \<longrightarrow> t' = [] \<or> hd t' = CHR ''>''"
    by blast
  have p: "peek (t @ CHR '' '' # r) = Some [c]" using t by simp
  have "peek_next (t @ CHR '' '' # r) = Some [if t' = [] then CHR '' '' else CHR ''>'']"
    if "c = CHR ''-'' \<or> c = CHR ''/''"
    using t that by (cases t') (auto simp: peek_next_def)
  then have n: "\<not> ([c] = ''-'' \<and> peek_next (t @ CHR '' '' # r) = Some ''-'')"
    "\<not> ([c] = ''/'' \<and> peek_next (t @ CHR '' '' # r) = Some ''*'')"
    by (auto split: if_splits)
  show ?thesis
    by (subst lex_loop.simps)
       (simp only: p option.case n not_whitespace [OF t(2)] if_False lex_spelling [OF assms] rbind.simps
          prod.case lex_loop_blank)
qed

lemma lex_loop_printed:
  "list_all2 spells ks ts \<Longrightarrow>
     lex_loop (pos + length (print_tokens ts)) (print_tokens ts) = Ok (tokens_at pos ks ts)"
proof (induction ks ts arbitrary: pos rule: list_all2_induct)
  case Nil
  show ?case by (subst lex_loop.simps) (simp add: print_tokens_def)
next
  case (Cons k ks t ts)
  have "lex_loop (pos + length (print_tokens (t # ts))) (print_tokens ts) = Ok (tokens_at (pos + length t + 1) ks ts)"
    using Cons.IH [of "pos + length t + 1"] by (simp add: print_tokens_def ac_simps)
  then show ?case
    using lex_loop_spelling [OF Cons.hyps(1), of _ "print_tokens ts"] by (simp add: print_tokens_def)
qed


definition sample_kinds :: "token_kind list" where
  "sample_kinds = [T_Keyword ''SELECT'', T_Identifier [CHR ''a'', CHR 0x22], T_Lte, T_Integer 12, T_String [CHR 0x27],
     T_BlobLiteral [0xA0], T_Ne]"

definition sample_texts :: "string list" where
  "sample_texts = [''SelecT'', [CHR 0x22, CHR ''a'', CHR 0x22, CHR 0x22, CHR 0x22], ''<='', ''12'',
     [CHR 0x27, CHR 0x27, CHR 0x27, CHR 0x27], [CHR ''x'', CHR 0x27, CHR ''a'', CHR ''0'', CHR 0x27], ''!='']"

lemma sample_parts:
  "bare_word ''SelecT''" "to_ascii_uppercase ''SelecT'' = ''SELECT''" "show_nat 12 = ''12''" "hex_pair 0xA0 = ''a0''"
  by code_simp+

lemma sample_spelled: "list_all2 spells sample_kinds sample_texts"
proof -
  have "''SELECT'' \<in> set keyword_table" by (simp add: keyword_table_def)
  then show ?thesis
    by (simp add: sample_kinds_def sample_texts_def symbols_def sample_parts rust_string_ascii escape_quotes_def)
qed


lemma sample_lexed: "lex (print_tokens sample_texts) = Ok (tokens_at 0 sample_kinds sample_texts)"
  using lex_loop_printed [OF sample_spelled, of 0] by (simp add: lex_def)

theorem lex_positions_ascend_witness:
  "lex (print_tokens sample_texts) = Ok (tokens_at 0 sample_kinds sample_texts) \<and>
   (\<exists>toks. tokens_at 0 sample_kinds sample_texts =
        toks @ [\<lparr>tk_kind = T_Eof, tk_position = length (print_tokens sample_texts)\<rparr>] \<and>
      (\<forall>t \<in> set toks. tk_kind t \<noteq> T_Eof \<and> tk_position t < length (print_tokens sample_texts)) \<and>
      sorted_wrt (<) (map tk_position toks))"
  by (rule conjI [OF sample_lexed lex_positions_ascend [OF sample_lexed]])

section \<open>Panics\<close>

text \<open>On ASCII input no slice ends inside a character.\<close>

lemma hex_bytes_ascii:
  "even (length s) \<Longrightarrow> \<forall>c \<in> set s. (of_char c :: nat) < 0x80 \<Longrightarrow> hex_bytes s \<noteq> Panic p"
proof (induction s rule: hex_bytes.induct)
  case (3 a b rest)
  have "is_char_boundary rest" using 3 by (intro char_boundary_ascii) simp
  then show ?case using 3 by (auto simp: rbind_eq_Panic split: option.split)
qed simp_all

lemma lex_blob_literal_ascii:
  assumes "\<forall>c \<in> set s. (of_char c :: nat) < 0x80"
  shows "lex_blob_literal s \<noteq> Panic p"
proof (cases "lex_string (advance s)")
  case (Ok kr)
  obtain k r where kr: "kr = (k, r)" by (cases kr)
  from lex_string_loop_set [OF Ok [unfolded kr lex_string_def]]
  obtain w where w: "k = T_String w" "set w \<subseteq> insert (CHR 0x27) (set (advance (advance s)))" by auto
  then have "\<forall>c \<in> set w. (of_char c :: nat) < 0x80"
    using assms advance_set [of s] advance_set [of "advance s"] by fastforce
  then show ?thesis
    using Ok kr w(1) hex_bytes_ascii [of w]
    by (auto simp: lex_blob_literal_def rbind_eq_Panic even_iff_mod_2_eq_zero)
next
  case (Panic q)
  then show ?thesis using loops_never_panic(1) by (simp add: lex_string_def)
qed (simp add: lex_blob_literal_def)

lemma lex_number_never_panics: "lex_number s \<noteq> Panic p"
  by (simp add: lex_number_def lex_hex_def Let_def split: prod.split)

lemma lex_token_ascii:
  "\<forall>c \<in> set s. (of_char c :: nat) < 0x80 \<Longrightarrow> lex_token pos s \<noteq> Panic p"
  using lex_blob_literal_ascii [of s p] loops_never_panic lex_number_never_panics
  by (simp add: lex_token_def Let_def unexpected_character_def lex_string_def lex_quoted_identifier_def)

lemma lex_loop_ascii:
  "\<forall>c \<in> set s. (of_char c :: nat) < 0x80 \<Longrightarrow> lex_loop len s \<noteq> Panic p"
proof (induction "length s" arbitrary: s rule: less_induct)
  case less
  show ?case
  proof (cases "s = []")
    case True
    then show ?thesis by (subst lex_loop.simps) simp
  next
    case False
    then show ?thesis
    proof (cases rule: lex_loop_round [where len = len])
      case (1 r)
      have "\<forall>c \<in> set r. (of_char c :: nat) < 0x80" using less.prems 1(3) by blast
      then show ?thesis using less.hyps [OF 1(2)] 1(1) by simp
    next
      case (2 e)
      then show ?thesis by simp
    next
      case (3 k r)
      have "\<forall>c \<in> set r. (of_char c :: nat) < 0x80" using less.prems 3(3) by blast
      then show ?thesis using less.hyps [OF 3(2)] 3(4) by (simp add: rbind_eq_Panic)
    next
      case (4 q)
      then show ?thesis using lex_token_ascii [OF less.prems] by simp
    qed
  qed
qed

text \<open>
  Property C38: the lexer never panics on an ASCII input.
\<close>

theorem lex_ascii_never_panics:
  assumes "\<forall>c \<in> set input. (of_char c :: nat) < 0x80"
  shows "lex input \<noteq> Panic p"
  unfolding lex_def by (rule lex_loop_ascii [OF assms])

theorem lex_ascii_never_panics_witness:
  "lex ''x0 <= 7'' \<noteq> Panic []"
  by (rule lex_ascii_never_panics) simp

text \<open>
  Property C39: a blob literal with a two-byte character at an odd offset panics instead of being
  rejected: the slice of two bytes ends inside the character.
\<close>

theorem blob_literal_splits_character:
  assumes "is_hex_digit a" "rust_string [c1, c2]" "0x80 \<le> (of_char c1 :: nat)" "is_hex_digit b"
  shows "lex [CHR ''x'', CHR 0x27, a, c1, c2, b, CHR 0x27] = Panic ''byte index is not a char boundary''"
proof -
  have digit: "(of_char d :: nat) < 0x80 \<and> d \<noteq> CHR 0x27" if "is_hex_digit d" for d
    using that by (auto simp: is_hex_digit_def is_digit_def in_range_def)
  have v: "utf8_valid [byte_of_char c1, byte_of_char c2]"
    using assms(2) by (simp add: rust_string_def as_bytes_def del: utf8_valid.simps)
  have hi: "0x80 \<le> byte_of_char c1" using assms(3) by (simp add: of_char_byte word_le_nat_alt)
  have "\<not> (0xE0 \<le> byte_of_char c1 \<and> byte_of_char c1 < 0xF0)" "\<not> 0xF0 \<le> byte_of_char c1"
    using utf8_valid_three [OF v] utf8_valid_four [OF v] by auto
  then have lo: "byte_of_char c1 < 0xE0" by (meson linorder_not_less)
  then have ct: "utf8_cont (byte_of_char c2)" using utf8_valid_two [OF v hi] by auto
  then have nb: "\<not> is_char_boundary [c2, b]"
    by (simp add: is_char_boundary_def utf8_cont_def of_char_byte word_le_nat_alt)
  have c: "is_char [c1, c2]"
    using hi lo utf8_cont_of_char [OF ct] by (simp add: is_char_def char_len_byte Let_def not_less)
  note l = lex_string_loop.simps
  have "lex_string_loop [] [a, c1, c2, b, CHR 0x27] = Ok (T_String [a, c1, c2, b], [])"
    using digit [OF assms(1)] digit [OF assms(4)] peek_is_char [OF c, of "[b, CHR 0x27]"] advance_is_char [OF c, of "[b, CHR 0x27]"]
    by (simp add: l [of "[]"] l [of "[a]"] l [of "[a, c1, c2]"] l [of "[a, c1, c2, b]"])
  then have "lex_blob_literal [CHR ''x'', CHR 0x27, a, c1, c2, b, CHR 0x27] = Panic ''byte index is not a char boundary''"
    using nb by (simp add: lex_blob_literal_def lex_string_def)
  then have "lex_token pos [CHR ''x'', CHR 0x27, a, c1, c2, b, CHR 0x27] = Panic ''byte index is not a char boundary''" for pos
    by (subst lex_token_identifier_start)
       (simp_all add: is_identifier_start_def is_ascii_alphabetic_def in_range_def)
  then show ?thesis
    unfolding lex_def by (subst lex_loop.simps) (simp add: not_whitespace)
qed

lemma e_acute: "rust_string [char_of (0xC3 :: nat), char_of (0xA9 :: nat)] \<and> 0x80 \<le> (of_char (char_of (0xC3 :: nat) :: char) :: nat)"
  by code_simp

theorem blob_literal_splits_character_witness:
  "is_hex_digit (CHR ''a'') \<and> is_hex_digit (CHR ''b'') \<and>
   rust_string [char_of (0xC3 :: nat), char_of (0xA9 :: nat)] \<and>
   lex [CHR ''x'', CHR 0x27, CHR ''a'', char_of (0xC3 :: nat), char_of (0xA9 :: nat), CHR ''b'', CHR 0x27] =
     Panic ''byte index is not a char boundary''"
proof -
  have "is_hex_digit (CHR ''a'')" "is_hex_digit (CHR ''b'')"
    by (simp_all add: is_hex_digit_def is_digit_def in_range_def)
  then show ?thesis
    using blob_literal_splits_character [of "CHR ''a''" "char_of (0xC3 :: nat)" "char_of (0xA9 :: nat)" "CHR ''b''"] e_acute
    by blast
qed

end
