(* ===== verification/Spec2Isabelle.thy ===== *)
theory Spec2Isabelle
  imports Sqlite_Btree_Properties V2_Wal V2_Codec V2_Txn_Properties V2_Pager_Properties V2_Storage_Txn Memory_Sessions
    Schema_Properties Sql_Lexer_Properties
begin

text \<open>
  \<^bold>\<open>A verification of rust-sqlite.\<close> The program is an embedded SQL database. A statement is lexed
  (\<open>sql/lexer.rs\<close>), parsed, planned and executed against a storage engine. Two engines are modelled. The
  in-memory one, \<open>storage/memory.rs\<close>, keeps tables and indexes in maps and undoes a transaction from a log
  of undo operations. The transactional paged one, \<open>storage/v2\<close>, keeps rows as chains of
  versions (\<open>codec.rs\<close>) in B+-trees (\<open>btree.rs\<close>, \<open>index_tree.rs\<close>) whose nodes are pages of one file
  (\<open>page.rs\<close>) behind a pager with a write-ahead log (\<open>pager.rs\<close>, \<open>wal.rs\<close>), under a transaction and
  lock manager shared by all sessions (\<open>txn_manager.rs\<close>, \<open>tx_types.rs\<close>). \<open>FileStorage\<close> (\<open>mod.rs\<close>,
  \<open>catalog.rs\<close>) puts these together: it keeps the catalog of tables and indexes on page 1, takes the locks
  of every operation, and writes rows, index entries and undo records. Both engines check rows against, and
  rewrite, the schemas of \<open>common/types.rs\<close>. The reader of SQLite files is modelled too: its codecs
  (\<open>storage/sqlite3/varint.rs\<close>, \<open>record.rs\<close>), the file and its pages (\<open>file_header.rs\<close>, \<open>pager.rs\<close>, \<open>page.rs\<close>),
  and the tree scans and lookups (\<open>btree.rs\<close>).

  \<^bold>\<open>Conventions.\<close> A fallible function returns \<open>Ok\<close>, \<open>Err\<close> or \<open>Panic\<close> (\<open>Prelude\<close>); an operation on a state
  returns its outcome and the state it leaves, also when it fails, since the source keeps what it had
  changed before an error. Machine integers are words; \<open>usize\<close> lengths are naturals. A \<open>HashMap\<close> is a
  list of pairs with distinct keys (\<open>hmap\<close>) and a \<open>BTreeMap\<close> one with ascending keys (\<open>btmap\<close>). A Rust
  string is the list of its UTF-8 bytes. \<open>serde_json\<close> is a parameter: the operations that serialise
  take the encoder and the decoder as arguments, and a property states the round trip it needs of them.

  \<^bold>\<open>Theories.\<close>

  \<^item> \<open>Prelude\<close>, \<open>Rust_Slices\<close>: outcomes, state operations, bytes, slices, maps, and binary search.

  \<^item> \<open>Values\<close>: \<open>Value\<close> with its total order (\<open>linorder\<close> instance), comparison operators, index
  metadata (\<open>common/types.rs\<close>, \<open>error.rs\<close>, \<open>memory.rs\<close>).

  \<^item> \<open>Sqlite_Varint\<close>, \<open>Sqlite_Record\<close>: both codecs with every error; round trips, and the decoder of
  varints accepts exactly what the encoder writes.

  \<^item> \<open>Sqlite_File\<close>, \<open>Sqlite_Btree\<close>, \<open>Sqlite_Btree_Properties\<close>: header, pages and overflow chains of a SQLite file,
  cells and records, scans and lookups of table and index trees. Overflow chains end on every file, a record
  the encoder wrote is read back, a lookup agrees with a scan (for rows on the trees of \<open>table_tree\<close> whose pivots
  separate the row ids, for index entries on every file), and a page that is its own child exhausts the stack.

  \<^item> \<open>V2_Page\<close>, \<open>V2_Wal\<close>: page and log formats. A log cut at any byte is recovered to the replay of its
  complete records, so a commit batch is recovered whole or not at all.

  \<^item> \<open>V2_Codec\<close>: row versions. An update or a delete is seen by its own transaction at once and by
  another exactly when its snapshot covers the commit.

  \<^item> \<open>V2_Txn\<close>, \<open>V2_Txn_Properties\<close>: begin, commit, abort, snapshots, row ids, undo records, purge.

  \<^item> \<open>V2_Locks\<close>, \<open>V2_Deadlock\<close>, \<open>V2_Lock_Properties\<close>: table, page and predicate locks, wait queues, the
  wait-for graph and the choice of a victim. \<open>reachable\<close> is the least set of states closed under every
  public operation; in it the wait-for graph is acyclic and the table locks held are compatible.

  \<^item> \<open>V2_Pager\<close>, \<open>V2_Pager_Recovery\<close>, \<open>V2_Pager_Properties\<close>: files as byte lists, cache, page writes with
  before images, commit through the log, rollback, allocation, recovery. \<open>commit_crash\<close> gives every
  state of the two files a crash during a commit can leave.

  \<^item> \<open>V2_Tree\<close>, \<open>V2_Tree_Refinement\<close>, \<open>V2_Tree_Pager\<close>, \<open>V2_Trees\<close>: the tree over the operations of a node
  store (\<open>store\<close>), proved once in the locale \<open>node_store\<close> to implement a sorted association list, and
  interpreted on the pager for row trees and index trees.

  \<^item> \<open>V2_Tree_Frames\<close>: tree operations with stack frames to spare, and what they leave alone, in the
  locales \<open>framed_store\<close> and \<open>pager_framed_store\<close>, so that the trees of several tables and indexes live in
  one pager.

  \<^item> \<open>Schemas\<close>, \<open>Schema_Properties\<close>: tables, columns and constraints, the checks of a row, the rewriting of a
  schema by \<open>ALTER TABLE\<close>, and the values of \<open>CURRENT_DATE\<close> and its like (\<open>common/types.rs\<close>). The dates are those of
  the Gregorian calendar; a renamed column keeps every constraint and every verdict of a CHECK.

  \<^item> \<open>V2_Catalog\<close>, \<open>V2_Waits\<close>: the catalog page; the loops of the engine that sleep until a lock is free.

  \<^item> \<open>V2_Storage\<close>: \<open>FileStorage\<close>. Its state is the record \<open>file_storage\<close> (pager with the shared parts, catalog of
  the session, catalogs at the begin of its transactions); one definition per method, composed of the
  operations of the theories above.

  \<^item> \<open>V2_Storage_Rows\<close>: an inserted row is valid and is read back by its transaction, with every index
  maintained on the way and the other rows untouched (\<open>table_ready\<close> is the invariant of a table, its tree
  and the trees of its indexes on disjoint pages).

  \<^item> \<open>V2_Storage_Txn\<close>: after any list of operations (\<open>session_op\<close>), failed ones included, a rollback gives
  the session the catalog of the begin; a commit makes the catalog of the session the one all later
  sessions load.

  \<^item> \<open>Memory_Engine\<close>: \<open>MemoryStorage\<close>. Its state is the record \<open>memory\<close> with the maps of \<open>MemoryStorageInner\<close> and
  the active transaction (undo log, savepoints); one definition \<open>mem_f\<close> per method \<open>f\<close>.

  \<^item> \<open>Memory_Properties\<close>: what an index holds of a table (\<open>index_ok\<close>, \<open>table_ok\<close>), and for every operation that the
  undo records it logs take the tables back (\<open>reverts\<close>, \<open>progress\<close>), when it succeeds and when it fails.

  \<^item> \<open>Memory_Sessions\<close>: \<open>mem_reachable\<close> is the least set of states closed under the calls, transactions and
  savepoints. In it index reads agree with table scans and unique keys are unique; a rollback, whole or to
  a savepoint, brings the tables back. The calls are those of \<open>mem_op\<close>, without the four of \<open>ALTER TABLE\<close>, and
  \<open>op_fits\<close> says what is asked of each; three sessions outside it or of \<open>ALTER TABLE\<close> that end badly are
  evaluated.

  \<^item> \<open>Sql_Lexer\<close>, \<open>Sql_Lexer_Properties\<close>: the lexer, with printed tokens lexed back, ascending positions
  and the inputs on which it panics.

  \<^bold>\<open>Bounds and fuel.\<close> Recursion over the pages of a tree takes the number of stack frames left; the
  refinement assumes more frames than the tree is high, and the height is bounded by the pages in use.
  The recursions of the SQLite reader take stack frames in the same way. A scan of a row tree follows at
  most as many links as there are pages. The engine takes both numbers from \<open>fm_frames\<close>
  and \<open>fm_steps\<close>; its properties ask for frames beyond the height and for free page numbers enough for
  the pages an insertion may add (\<open>page_room\<close>). A call that sleeps until another session
  releases a lock takes what the others do meanwhile from a list of changes in the state (\<open>pg_others\<close>);
  when the list ends while the lock is still held the outcome is \<open>blocked\<close>. The deadlock loops of the
  lock manager end because every retry aborts a transaction; that is their termination proof. Loops of
  the lexer and of the codecs consume input.

  \<^bold>\<open>Not modelled.\<close> Of the schemas, the comparison forms of CHECK expressions and the conversions of strict
  tables: they print, parse and compute with floating-point numbers, regular expressions and JSON, and are
  parameters (\<open>schema_rules\<close>). The parser, planner, optimizer and executor; the first-generation engine and
  the one that works on SQLite files, with the writer of such files and the catalog in their schema table;
  the shell; operating-system failures other than reading past the end
  of a file; the scheduling of threads, except for what a waiting call may find when it wakes up.
\<close>

end
